(* ===== verification/Prelude.thy ===== *)
theory Prelude
  imports Complex_Main
begin

text \<open>
  Shared vocabulary of the development: actions that thread a state and may
  return an error, relations that every action of a component respects, tables
  of rows inside a state, and the string functions of Rust's standard library
  that the modelled code calls.

  An action of type \<open>'s \<Rightarrow> ('e + 'a) \<times> 's\<close> returns its state also when it
  returns an error: an early return of the Rust code (\<open>?\<close>) does not undo what
  was written before it. Only \<open>transact\<close> (a SQLite transaction that is dropped
  before its commit) undoes writes.

  Strings are lists of 8-bit characters; lower-casing and trimming are the ASCII
  ones. The code's \<open>f64\<close> values are reals: rounding and NaN are not modelled.
\<close>

named_theorems act_simps \<open>unfolding rules of the action combinators\<close>
named_theorems evolve_intros \<open>rules that show an action respects a relation\<close>
named_theorems kept_intros \<open>rules that show an action moves no job\<close>
named_theorems move_intros \<open>rules that show an action moves one job at most once\<close>

section \<open>Actions\<close>

type_synonym ('s, 'e, 'a) act = "'s \<Rightarrow> ('e + 'a) \<times> 's"

definition ret :: "'a \<Rightarrow> ('s, 'e, 'a) act" where
  "ret x = (\<lambda>s. (Inr x, s))"

definition throw :: "'e \<Rightarrow> ('s, 'e, 'a) act" where
  "throw e = (\<lambda>s. (Inl e, s))"

definition seq :: "('s, 'e, 'a) act \<Rightarrow> ('a \<Rightarrow> ('s, 'e, 'b) act) \<Rightarrow> ('s, 'e, 'b) act" where
  "seq m f = (\<lambda>s. case m s of (Inl e, t) \<Rightarrow> (Inl e, t) | (Inr x, t) \<Rightarrow> f x t)"

definition gets :: "('s \<Rightarrow> 'a) \<Rightarrow> ('s, 'e, 'a) act" where
  "gets f = (\<lambda>s. (Inr (f s), s))"

definition modify :: "('s \<Rightarrow> 's) \<Rightarrow> ('s, 'e, unit) act" where
  "modify f = (\<lambda>s. (Inr (), f s))"

definition lift :: "'e + 'a \<Rightarrow> ('s, 'e, 'a) act" where
  "lift r = (\<lambda>s. (r, s))"

text \<open>\<open>attempt\<close> hands the result to the code that matches on it (\<open>match f() \<dots>\<close>).\<close>

definition attempt :: "('s, 'e, 'a) act \<Rightarrow> ('s, 'e, 'e + 'a) act" where
  "attempt m = (\<lambda>s. case m s of (r, t) \<Rightarrow> (Inr r, t))"

text \<open>\<open>transact\<close>: a transaction rolls back when its body returns an error.\<close>

definition transact :: "('s, 'e, 'a) act \<Rightarrow> ('s, 'e, 'a) act" where
  "transact m = (\<lambda>s. case m s of (Inl e, t) \<Rightarrow> (Inl e, s) | (Inr x, t) \<Rightarrow> (Inr x, t))"

primrec for_each :: "('x \<Rightarrow> ('s, 'e, unit) act) \<Rightarrow> 'x list \<Rightarrow> ('s, 'e, unit) act" where
  "for_each f [] = ret ()"
| "for_each f (x # xs) = seq (f x) (\<lambda>_. for_each f xs)"

lemma ret_run [simp, act_simps]: "ret x s = (Inr x, s)"
  by (simp add: ret_def)

lemma throw_run [simp, act_simps]: "throw e s = (Inl e, s)"
  by (simp add: throw_def)

lemma gets_run [simp, act_simps]: "gets f s = (Inr (f s), s)"
  by (simp add: gets_def)

lemma modify_run [simp, act_simps]: "modify f s = (Inr (), f s)"
  by (simp add: modify_def)

lemma lift_run [simp, act_simps]: "lift r s = (r, s)"
  by (simp add: lift_def)

lemma seq_Inr [simp]: "m s = (Inr x, t) \<Longrightarrow> seq m f s = f x t"
  by (simp add: seq_def)

lemma seq_Inl [simp]: "m s = (Inl e, t) \<Longrightarrow> seq m f s = (Inl e, t)"
  by (simp add: seq_def)

lemma seq_ret [simp]: "seq (ret x) f = f x"
  by (simp add: seq_def fun_eq_iff)

lemma seq_gets [simp]: "seq (gets g) f s = f (g s) s"
  by (simp add: seq_def)

lemma seq_modify [simp]: "seq (modify g) f s = f () (g s)"
  by (simp add: seq_def)

lemma seq_throw [simp]: "seq (throw e) f = throw e"
  by (simp add: seq_def fun_eq_iff)

lemma seq_lift_Inr [simp]: "seq (lift (Inr x)) f s = f x s"
  by (simp add: seq_def)

lemma seq_lift_Inl [simp]: "seq (lift (Inl e)) f s = (Inl e, s)"
  by (simp add: seq_def)

lemma attempt_run [simp, act_simps]: "attempt m s = (Inr (fst (m s)), snd (m s))"
  by (simp add: attempt_def split: prod.split)

lemma seq_attempt [simp]: "seq (attempt m) f s = f (fst (m s)) (snd (m s))"
  by (simp add: seq_def)

lemma transact_Inr [simp]: "m s = (Inr x, t) \<Longrightarrow> transact m s = (Inr x, t)"
  by (simp add: transact_def)

lemma transact_Inl [simp]: "m s = (Inl e, t) \<Longrightarrow> transact m s = (Inl e, s)"
  by (simp add: transact_def)

lemma transact_atomic: "fst (transact m s) = Inl e \<Longrightarrow> snd (transact m s) = s"
  by (auto simp: transact_def split: prod.splits sum.splits)

lemma seq_cases:
  assumes "seq m f s = (r, u)"
  obtains (error) e where "m s = (Inl e, u)" "r = Inl e"
  | (next_act) x t where "m s = (Inr x, t)" "f x t = (r, u)"
  using assms by (auto simp: seq_def split: prod.splits sum.splits)

lemma seq_ok_cases:
  assumes "seq m f s = (Inr y, u)"
  obtains x t where "m s = (Inr x, t)" "f x t = (Inr y, u)"
  using assms by (auto elim: seq_cases)

lemma transact_ok_iff: "transact m s = (Inr y, u) \<longleftrightarrow> m s = (Inr y, u)"
  by (auto simp: transact_def split: prod.splits sum.splits)

section \<open>Relations that actions respect\<close>

text \<open>
  \<open>evolves R m\<close>: whatever the state and whether or not \<open>m\<close> returns an error,
  the state after \<open>m\<close> is related to the state before it.
\<close>

definition evolves :: "('s \<Rightarrow> 's \<Rightarrow> bool) \<Rightarrow> ('s, 'e, 'a) act \<Rightarrow> bool" where
  "evolves R m \<longleftrightarrow> (\<forall>s. R s (snd (m s)))"

lemma evolvesD: "evolves R m \<Longrightarrow> R s (snd (m s))"
  by (simp add: evolves_def)

lemma evolvesI: "(\<And>s. R s (snd (m s))) \<Longrightarrow> evolves R m"
  by (simp add: evolves_def)

locale observation =
  fixes R :: "'s \<Rightarrow> 's \<Rightarrow> bool"
  assumes evo_refl: "R s s"
begin

lemma ev_ret: "evolves R (ret x)"
  by (simp add: evolves_def evo_refl)

lemma ev_throw: "evolves R (throw e)"
  by (simp add: evolves_def evo_refl)

lemma ev_gets: "evolves R (gets f)"
  by (simp add: evolves_def evo_refl)

lemma ev_lift: "evolves R (lift r)"
  by (simp add: evolves_def evo_refl)

lemma ev_modify: "(\<And>s. R s (f s)) \<Longrightarrow> evolves R (modify f)"
  by (simp add: evolves_def)

lemma ev_attempt: "evolves R m \<Longrightarrow> evolves R (attempt m)"
  by (simp add: evolves_def)

lemma ev_transact: "evolves R m \<Longrightarrow> evolves R (transact m)"
  by (auto simp: evolves_def transact_def evo_refl split: prod.split sum.split)
    (metis snd_conv)

lemma ev_if: "evolves R a \<Longrightarrow> evolves R b \<Longrightarrow> evolves R (if c then a else b)"
  by simp

lemma ev_branch: "(c \<Longrightarrow> evolves R a) \<Longrightarrow> (\<not> c \<Longrightarrow> evolves R b) \<Longrightarrow> evolves R (if c then a else b)"
  by simp

lemma ev_option: "evolves R a \<Longrightarrow> (\<And>x. evolves R (b x)) \<Longrightarrow> evolves R (case z of None \<Rightarrow> a | Some x \<Rightarrow> b x)"
  by (cases z) auto

lemma ev_sum: "(\<And>x. evolves R (a x)) \<Longrightarrow> (\<And>x. evolves R (b x)) \<Longrightarrow>
    evolves R (case z of Inl x \<Rightarrow> a x | Inr x \<Rightarrow> b x)"
  by (cases z) auto

lemma ev_prod: "(\<And>x y. evolves R (a x y)) \<Longrightarrow> evolves R (case z of (x, y) \<Rightarrow> a x y)"
  by (cases z) auto

lemma ev_list: "evolves R a \<Longrightarrow> (\<And>x xs. evolves R (b x xs)) \<Longrightarrow>
    evolves R (case z of [] \<Rightarrow> a | x # xs \<Rightarrow> b x xs)"
  by (cases z) auto

lemma ev_let: "(\<And>x. evolves R (a x)) \<Longrightarrow> evolves R (let x = z in a x)"
  by simp

lemmas ob_rules = ev_ret ev_throw ev_gets ev_lift ev_attempt ev_transact
  ev_if ev_option ev_sum ev_prod ev_list ev_let

end

text \<open>A relation that composes is kept by sequences and loops too.\<close>

locale evolution = observation +
  assumes evo_trans: "R s t \<Longrightarrow> R t u \<Longrightarrow> R s u"
begin

lemma ev_seq: "evolves R m \<Longrightarrow> (\<And>x. evolves R (f x)) \<Longrightarrow> evolves R (seq m f)"
  unfolding evolves_def seq_def
  by (auto split: prod.split sum.split) (metis evo_trans snd_conv)+

lemma ev_seq_result:
  assumes "evolves R m" "\<And>x s t. m s = (Inr x, t) \<Longrightarrow> evolves R (f x)"
  shows "evolves R (seq m f)"
proof (rule evolvesI)
  fix s
  obtain r t where m: "m s = (r, t)" by (cases "m s")
  then have "R s t" using evolvesD [OF assms(1), of s] by simp
  with m show "R s (snd (seq m f s))"
    using assms(2) [of s _ t] by (cases r) (auto intro: evo_trans dest: evolvesD)
qed

lemma ev_for_each: "(\<And>x. evolves R (f x)) \<Longrightarrow> evolves R (for_each f xs)"
  by (induction xs) (auto intro: ev_ret ev_seq)

lemmas ev_rules = ob_rules ev_seq ev_for_each

end

section \<open>Tables\<close>

text \<open>
  A table is a list of rows in the order of their ids. \<open>update_rows\<close> is
  \<open>UPDATE \<dots> WHERE p\<close>, \<open>find_row\<close> is \<open>SELECT \<dots> WHERE id = k\<close>.
\<close>

definition update_rows :: "('r \<Rightarrow> bool) \<Rightarrow> ('r \<Rightarrow> 'r) \<Rightarrow> 'r list \<Rightarrow> 'r list" where
  "update_rows p f rs = map (\<lambda>r. if p r then f r else r) rs"

definition find_row :: "('r \<Rightarrow> int) \<Rightarrow> int \<Rightarrow> 'r list \<Rightarrow> 'r option" where
  "find_row key k rs = List.find (\<lambda>r. key r = k) rs"

lemma find_row_Nil [simp]: "find_row key k [] = None"
  by (simp add: find_row_def)

lemma find_row_Cons [simp]:
  "find_row key k (r # rs) = (if key r = k then Some r else find_row key k rs)"
  by (simp add: find_row_def)

lemma find_row_append:
  "find_row key k (xs @ ys) = (case find_row key k xs of Some r \<Rightarrow> Some r | None \<Rightarrow> find_row key k ys)"
  by (induction xs) auto

lemma find_row_Some_iff_in: "find_row key k rs = Some r \<Longrightarrow> r \<in> set rs \<and> key r = k"
  by (induction rs) (auto split: if_splits)

lemma find_row_None_iff: "find_row key k rs = None \<longleftrightarrow> k \<notin> key ` set rs"
  by (induction rs) auto

lemma find_row_key: "find_row key k rs = Some r \<Longrightarrow> key r = k"
  by (simp add: find_row_Some_iff_in)

lemma update_rows_Nil [simp]: "update_rows p f [] = []"
  by (simp add: update_rows_def)

lemma update_rows_Cons [simp]:
  "update_rows p f (r # rs) = (if p r then f r else r) # update_rows p f rs"
  by (simp add: update_rows_def)

lemma length_update_rows [simp]: "length (update_rows p f rs) = length rs"
  by (simp add: update_rows_def)

lemma map_key_update_rows:
  "(\<And>r. p r \<Longrightarrow> key (f r) = key r) \<Longrightarrow> map key (update_rows p f rs) = map key rs"
  by (simp add: update_rows_def)

lemma find_row_update_rows:
  "(\<And>r. p r \<Longrightarrow> key (f r) = key r) \<Longrightarrow>
   find_row key k (update_rows p f rs) = map_option (\<lambda>r. if p r then f r else r) (find_row key k rs)"
  by (induction rs) auto

lemma find_row_update_other:
  "(\<And>r. key (f r) = key r) \<Longrightarrow> j \<noteq> k \<Longrightarrow>
   find_row key k (update_rows (\<lambda>r. key r = j) f rs) = find_row key k rs"
  by (induction rs) auto

lemma find_row_update_same:
  "(\<And>r. key (f r) = key r) \<Longrightarrow>
   find_row key k (update_rows (\<lambda>r. key r = k) f rs) = map_option f (find_row key k rs)"
  by (induction rs) auto

lemma update_rows_none: "\<forall>r\<in>set rs. \<not> p r \<Longrightarrow> update_rows p f rs = rs"
  by (induction rs) auto

lemma update_rows_id [simp]: "update_rows p (\<lambda>r. r) rs = rs"
  by (induction rs) auto

lemma set_update_rows: "set (update_rows p f rs) = f ` {r \<in> set rs. p r} \<union> {r \<in> set rs. \<not> p r}"
  by (auto simp: update_rows_def)

lemma find_row_filter:
  "distinct (map key rs) \<Longrightarrow>
   find_row key k (filter P rs) =
     (case find_row key k rs of None \<Rightarrow> None | Some r \<Rightarrow> if P r then Some r else None)"
proof (induction rs)
  case (Cons r rs)
  then have "key r = k \<Longrightarrow> find_row key k rs = None"
    by (auto simp: find_row_None_iff)
  with Cons show ?case by auto
qed simp

lemma distinct_keys_filter: "distinct (map key rs) \<Longrightarrow> distinct (map key (filter P rs))"
  by (simp add: distinct_map_filter)

section \<open>Strings\<close>

definition ascii_lower :: "char \<Rightarrow> char" where
  "ascii_lower c = (let n = (of_char c :: nat) in if 65 \<le> n \<and> n \<le> 90 then char_of (n + 32) else c)"

definition lower :: "string \<Rightarrow> string" where
  "lower s = map ascii_lower s"

definition is_space :: "char \<Rightarrow> bool" where
  "is_space c = (let n = (of_char c :: nat) in n = 32 \<or> (9 \<le> n \<and> n \<le> 13))"

definition trim :: "string \<Rightarrow> string" where
  "trim s = rev (dropWhile is_space (rev (dropWhile is_space s)))"

definition starts_with :: "string \<Rightarrow> string \<Rightarrow> bool" where
  "starts_with p s \<longleftrightarrow> take (length p) s = p"

fun contains :: "string \<Rightarrow> string \<Rightarrow> bool" where
  "contains p [] = (p = [])"
| "contains p (c # s) = (starts_with p (c # s) \<or> contains p s)"

text \<open>\<open>str::split\<close> at a character; the accumulator holds the current part.\<close>

fun split_on :: "char \<Rightarrow> string \<Rightarrow> string \<Rightarrow> string list" where
  "split_on c acc [] = [acc]"
| "split_on c acc (x # xs) = (if x = c then acc # split_on c [] xs else split_on c (acc @ [x]) xs)"

definition ends_with :: "string \<Rightarrow> string \<Rightarrow> bool" where
  "ends_with p s \<longleftrightarrow> starts_with (rev p) (rev s)"

fun join_with :: "string \<Rightarrow> string list \<Rightarrow> string" where
  "join_with sep [] = []"
| "join_with sep [x] = x"
| "join_with sep (x # y # ys) = x @ sep @ join_with sep (y # ys)"

definition eq_ignore_case :: "string \<Rightarrow> string \<Rightarrow> bool" where
  "eq_ignore_case a b \<longleftrightarrow> lower a = lower b"

fun show_nat :: "nat \<Rightarrow> string" where
  "show_nat n = (if n < 10 then [char_of (48 + n)] else show_nat (n div 10) @ [char_of (48 + n mod 10)])"

declare show_nat.simps [simp del]

definition show_int :: "int \<Rightarrow> string" where
  "show_int i = (if i < 0 then ''-'' @ show_nat (nat (- i)) else show_nat (nat i))"

text \<open>Evaluation of the string functions on literals.\<close>

lemmas string_eval = lower_def trim_def ascii_lower_def is_space_def starts_with_def
  eq_ignore_case_def Let_def

lemma lower_Nil [simp]: "lower [] = []"
  by (simp add: lower_def)

lemma lower_append [simp]: "lower (a @ b) = lower a @ lower b"
  by (simp add: lower_def)

lemma length_lower [simp]: "length (lower s) = length s"
  by (simp add: lower_def)

lemma ascii_lower_idem [simp]: "ascii_lower (ascii_lower c) = ascii_lower c"
  by (auto simp: ascii_lower_def Let_def)

lemma lower_lower [simp]: "lower (lower s) = lower s"
  by (simp add: lower_def)

lemma eq_ignore_case_refl [simp]: "eq_ignore_case a a"
  by (simp add: eq_ignore_case_def)

lemma set_trim: "set (trim s) \<subseteq> set s"
  by (auto simp: trim_def dest!: set_dropWhileD)

lemma starts_with_append [simp]: "starts_with p (p @ s)"
  by (simp add: starts_with_def)

lemma contains_prefix: "starts_with p s \<Longrightarrow> contains p s"
  by (cases s) (auto simp: starts_with_def)

lemma contains_append: "contains p s \<Longrightarrow> contains p (r @ s)"
  by (induction r) auto

lemma starts_with_append_right: "starts_with p r \<Longrightarrow> starts_with p (r @ s)"
  unfolding starts_with_def by (metis append_eq_conv_conj append_take_drop_id append.assoc)

lemma contains_append_left: "contains p r \<Longrightarrow> contains p (r @ s)"
proof (induction r)
  case Nil
  then show ?case by (auto intro: contains_prefix simp: starts_with_def)
next
  case (Cons a r)
  then show ?case
    using starts_with_append_right [of p "a # r" s] by auto
qed

section \<open>Numbers and positions\<close>

text \<open>\<open>x as i64\<close> of an \<open>f64\<close>: truncation toward zero, saturating at the bounds of the type.\<close>

definition as_i64 :: "real \<Rightarrow> int" where
  "as_i64 x = max (- (2 ^ 63)) (min (2 ^ 63 - 1) (if x < 0 then - \<lfloor>- x\<rfloor> else \<lfloor>x\<rfloor>))"

definition f64_EPSILON :: real where
  "f64_EPSILON = 1 / 2 ^ 52"

lemma as_i64_of_int [simp]:
  "- (2 ^ 63) \<le> i \<Longrightarrow> i < 2 ^ 63 \<Longrightarrow> as_i64 (real_of_int i) = i"
  by (simp add: as_i64_def)

text \<open>Arithmetic on \<open>i64\<close> in a release build wraps.\<close>

definition wrap_int :: "int \<Rightarrow> int" where
  "wrap_int i = (i + 2 ^ 63) mod 2 ^ 64 - 2 ^ 63"

lemma wrap_int_id: "- (2 ^ 63) \<le> i \<Longrightarrow> i < 2 ^ 63 \<Longrightarrow> wrap_int i = i"
  by (simp add: wrap_int_def)

fun position :: "('a \<Rightarrow> bool) \<Rightarrow> 'a list \<Rightarrow> nat option" where
  "position P [] = None"
| "position P (x # xs) = (if P x then Some 0 else map_option Suc (position P xs))"

lemma position_SomeD: "position P xs = Some k \<Longrightarrow> k < length xs \<and> P (xs ! k) \<and> (\<forall>i<k. \<not> P (xs ! i))"
  by (induction xs arbitrary: k) (auto split: if_splits simp: nth_Cons' less_Suc_eq_0_disj)

lemma position_None_iff: "position P xs = None \<longleftrightarrow> (\<forall>x\<in>set xs. \<not> P x)"
  by (induction xs) auto

lemma position_le: "i < length xs \<Longrightarrow> P (xs ! i) \<Longrightarrow> \<exists>k\<le>i. position P xs = Some k"
proof (induction xs arbitrary: i)
  case (Cons x xs)
  show ?case
  proof (cases "P x")
    case False
    with Cons.prems obtain j where j: "i = Suc j" by (cases i) auto
    with Cons obtain k where "k \<le> j" "position P xs = Some k" by auto
    with False j show ?thesis by auto
  qed auto
qed simp

lemma find_row_distinct: "distinct (map key rs) \<Longrightarrow> r \<in> set rs \<Longrightarrow> find_row key (key r) rs = Some r"
  by (induction rs) auto

lemma find_append: "List.find p (xs @ ys) = (case List.find p xs of Some x \<Rightarrow> Some x | None \<Rightarrow> List.find p ys)"
  by (induction xs) auto

lemma filter_other_update_rows:
  "(\<And>r. key (f r) = key r) \<Longrightarrow>
   filter (\<lambda>r. key r \<noteq> k) (update_rows (\<lambda>r. key r = k) f rs) = filter (\<lambda>r. key r \<noteq> k) rs"
  by (induction rs) auto

end
