(* ===== verification/Models.thy ===== *)
theory Models
  imports Prelude
begin

text \<open>
  The enums and rows of \<open>models.rs\<close>, the error type of \<open>error.rs\<close> and the
  levels of \<open>events.rs\<close>. An enum keeps the source's constructors; where two
  enums share a constructor name the second one gets a prefix letter
  (\<open>KSearch\<close> of \<open>JobKind\<close>, \<open>EDone\<close> of \<open>EpisodeState\<close>). Times are Unix seconds
  (\<open>i64\<close>), durations are milliseconds.
\<close>

named_theorems parse_simps \<open>unfolding rules of the parsers and printers of the enums\<close>

type_synonym time = int
type_synonym duration = nat
type_synonym f64 = real

section \<open>Enums\<close>

datatype show_type = Tv | Movie | Ova | Ona | Special

definition ShowType_parse :: "string \<Rightarrow> show_type" where
  "ShowType_parse s =
     (let t = lower (trim s) in
      if t = ''movie'' then Movie
      else if t = ''ova'' then Ova
      else if t = ''ona'' then Ona
      else if t = ''special'' then Special
      else Tv)"

datatype airing_status = Airing | Finished | NotYetAired

definition AiringStatus_parse :: "string \<Rightarrow> airing_status" where
  "AiringStatus_parse s =
     (let t = lower (trim s) in
      if t = ''currently airing'' \<or> t = ''airing'' then Airing
      else if t = ''not yet aired'' \<or> t = ''upcoming'' then NotYetAired
      else Finished)"

datatype name_source = Mal | Jikan | User

fun NameSource_as_str :: "name_source \<Rightarrow> string" where
  "NameSource_as_str Mal = ''mal''"
| "NameSource_as_str Jikan = ''jikan''"
| "NameSource_as_str User = ''user''"

datatype list_status = Watching | Completed | OnHold | Dropped | PlanToWatch

definition ListStatus_parse :: "string \<Rightarrow> list_status" where
  "ListStatus_parse s =
     (let t = lower (trim s) in
      if t = ''watching'' then Watching
      else if t = ''completed'' then Completed
      else if t = ''on_hold'' \<or> t = ''on-hold'' \<or> t = ''onhold'' then OnHold
      else if t = ''dropped'' then Dropped
      else PlanToWatch)"

fun ListStatus_as_str :: "list_status \<Rightarrow> string" where
  "ListStatus_as_str Watching = ''watching''"
| "ListStatus_as_str Completed = ''completed''"
| "ListStatus_as_str OnHold = ''on_hold''"
| "ListStatus_as_str Dropped = ''dropped''"
| "ListStatus_as_str PlanToWatch = ''plan_to_watch''"

datatype episode_state = EMissing | EQueued | EDownloading | EDone | EFailed

datatype job_kind = KSearch | KAdd | KMonitor | KFinalize

fun JobKind_as_str :: "job_kind \<Rightarrow> string" where
  "JobKind_as_str KSearch = ''search''"
| "JobKind_as_str KAdd = ''add''"
| "JobKind_as_str KMonitor = ''monitor''"
| "JobKind_as_str KFinalize = ''finalize''"

definition JobKind_parse :: "string \<Rightarrow> job_kind" where
  "JobKind_parse s =
     (let t = lower (trim s) in
      if t = ''add'' then KAdd
      else if t = ''monitor'' then KMonitor
      else if t = ''finalize'' then KFinalize
      else KSearch)"

datatype job_state = Search | Choose | Add | Monitor | Finalize
  | NeedsInput | Blocked | Failed | Done

definition is_terminal :: "job_state \<Rightarrow> bool" where
  "is_terminal s \<longleftrightarrow> s = Done"

definition is_active :: "job_state \<Rightarrow> bool" where
  "is_active s \<longleftrightarrow> s \<in> {Search, Choose, Add, Monitor, Finalize}"

fun JobState_as_str :: "job_state \<Rightarrow> string" where
  "JobState_as_str Search = ''search''"
| "JobState_as_str Choose = ''choose''"
| "JobState_as_str Add = ''add''"
| "JobState_as_str Monitor = ''monitor''"
| "JobState_as_str Finalize = ''finalize''"
| "JobState_as_str Done = ''done''"
| "JobState_as_str NeedsInput = ''needs_input''"
| "JobState_as_str Blocked = ''blocked''"
| "JobState_as_str Failed = ''failed''"

definition JobState_parse :: "string \<Rightarrow> job_state" where
  "JobState_parse s =
     (let t = lower (trim s) in
      if t = ''choose'' then Choose
      else if t = ''add'' then Add
      else if t = ''monitor'' then Monitor
      else if t = ''finalize'' then Finalize
      else if t = ''done'' then Done
      else if t = ''needs_input'' \<or> t = ''needsinput'' then NeedsInput
      else if t = ''blocked'' then Blocked
      else if t = ''failed'' then Failed
      else if t = ''searching'' then Search
      else if t = ''downloading'' then Monitor
      else if t = ''finalizing'' then Finalize
      else if t = ''queued'' then Search
      else Search)"

datatype question_kind = QMatchReview | QLowSeeds | QFileExists | QBatchOnly | QDiskSpace
  | QAllFailed | QEntryChanged | QServiceNotice

fun QuestionKind_as_str :: "question_kind \<Rightarrow> string" where
  "QuestionKind_as_str QMatchReview = ''match_review''"
| "QuestionKind_as_str QLowSeeds = ''low_seeds''"
| "QuestionKind_as_str QFileExists = ''file_exists''"
| "QuestionKind_as_str QBatchOnly = ''batch_only''"
| "QuestionKind_as_str QDiskSpace = ''disk_space''"
| "QuestionKind_as_str QAllFailed = ''all_failed''"
| "QuestionKind_as_str QEntryChanged = ''entry_changed''"
| "QuestionKind_as_str QServiceNotice = ''service_notice''"

definition QuestionKind_parse :: "string \<Rightarrow> question_kind" where
  "QuestionKind_parse s =
     (if s = ''low_seeds'' then QLowSeeds
      else if s = ''file_exists'' then QFileExists
      else if s = ''batch_only'' then QBatchOnly
      else if s = ''disk_space'' then QDiskSpace
      else if s = ''all_failed'' then QAllFailed
      else if s = ''entry_changed'' then QEntryChanged
      else if s = ''service_notice'' then QServiceNotice
      else QMatchReview)"

datatype level = Info | Warn | Error

fun Level_as_str :: "level \<Rightarrow> string" where
  "Level_as_str Info = ''info''"
| "Level_as_str Warn = ''warn''"
| "Level_as_str Error = ''error''"

definition Level_parse :: "string \<Rightarrow> level option" where
  "Level_parse s =
     (let t = lower (trim s) in
      if t = ''info'' \<or> t = ''debug'' then Some Info
      else if t = ''warn'' \<or> t = ''warning'' then Some Warn
      else if t = ''error'' then Some Error
      else None)"

text \<open>The parsers read back what the printers write, so a stored row keeps its meaning.\<close>

lemma enum_strings [parse_simps]:
  "JobState_parse (JobState_as_str st) = st"
  "JobKind_parse (JobKind_as_str k) = k"
  "ListStatus_parse (ListStatus_as_str l) = l"
  "QuestionKind_parse (QuestionKind_as_str q) = q"
  "Level_parse (Level_as_str v) = Some v"
  by ((cases st, simp_all add: JobState_parse_def string_eval),
      (cases k, simp_all add: JobKind_parse_def string_eval),
      (cases l, simp_all add: ListStatus_parse_def string_eval),
      (cases q, simp_all add: QuestionKind_parse_def),
      (cases v, simp_all add: Level_parse_def string_eval))

text \<open>The spellings an older database holds (the \<open>UPDATE\<close>s of migration 003).\<close>

lemma legacy_job_states [parse_simps]:
  "JobState_parse ''searching'' = Search"
  "JobState_parse ''queued'' = Search"
  "JobState_parse ''downloading'' = Monitor"
  "JobState_parse ''finalizing'' = Finalize"
  by (simp_all add: JobState_parse_def string_eval)

text \<open>The nine states are finite: a claim over all of them evaluates.\<close>

instantiation job_state :: enum
begin

definition enum_job_state :: "job_state list" where
  "enum_job_state = [Search, Choose, Add, Monitor, Finalize, NeedsInput, Blocked, Failed, Done]"

definition enum_all_job_state :: "(job_state \<Rightarrow> bool) \<Rightarrow> bool" where
  "enum_all_job_state P = list_all P enum_class.enum"

definition enum_ex_job_state :: "(job_state \<Rightarrow> bool) \<Rightarrow> bool" where
  "enum_ex_job_state P = list_ex P enum_class.enum"

instance
proof
  show univ: "(UNIV :: job_state set) = set enum_class.enum"
    by (auto simp: enum_job_state_def intro: job_state.exhaust)
  show "distinct (enum_class.enum :: job_state list)"
    by (simp add: enum_job_state_def)
  show "enum_class.enum_all P = Ball UNIV P" for P :: "job_state \<Rightarrow> bool"
    by (simp add: enum_all_job_state_def list_all_iff flip: univ)
  show "enum_class.enum_ex P = Bex UNIV P" for P :: "job_state \<Rightarrow> bool"
    by (simp add: enum_ex_job_state_def list_ex_iff flip: univ)
qed

end

section \<open>Errors\<close>

text \<open>
  \<open>reqwest::Error\<close> is known through the three predicates the code asks
  (\<open>is_connect\<close>, \<open>is_timeout\<close>, \<open>is_request\<close>). \<open>Panic\<close> is not a constructor of the
  Rust enum: it is the value of a call that panics.
\<close>

datatype http_failure = HttpFailure (is_connect: bool) (http_timeout: bool) (is_request: bool)

datatype error =
    Db string
  | Io string
  | Json string
  | Http http_failure
  | Timeout string nat
  | Status nat string "duration option" "string option"
  | RateLimited string "duration option"
  | BreakerOpen string nat
  | BodyTooLarge string nat nat
  | InsecurePermissions string nat
  | InvalidUrl string
  | Auth string string
  | NotFound string
  | IllegalTransition job_state job_state int
  | Other string
  | Panic string

fun is_transient :: "error \<Rightarrow> bool" where
  "is_transient (Timeout url ms) = True"
| "is_transient (RateLimited s d) = True"
| "is_transient (BreakerOpen s n) = True"
| "is_transient (Status st url d b) = (500 \<le> st \<and> st \<le> 599)"
| "is_transient (Http e) = (is_connect e \<or> http_timeout e \<or> is_request e)"
| "is_transient _ = False"

fun is_timeout :: "error \<Rightarrow> bool" where
  "is_timeout (Timeout url ms) = True"
| "is_timeout (Http e) = http_timeout e"
| "is_timeout _ = False"

fun is_connection_failure :: "error \<Rightarrow> bool" where
  "is_connection_failure (Timeout url ms) = True"
| "is_connection_failure (Http e) = (is_connect e \<or> http_timeout e)"
| "is_connection_failure _ = False"

lemma timeout_is_connection_failure: "is_timeout e \<Longrightarrow> is_connection_failure e"
  by (cases e) auto

lemma connection_failure_is_transient: "is_connection_failure e \<Longrightarrow> is_transient e"
  by (cases e) auto

section \<open>Rows\<close>

record show_row =
  sh_mal_id :: int
  sh_title :: string
  sh_english_title :: "string option"
  sh_type :: string
  sh_status :: "string option"
  sh_total_episodes :: "int option"
  sh_start_year :: "int option"
  sh_auto :: bool
  sh_episode_offset :: int
  sh_season :: int
  sh_metadata_status :: string

record episode =
  ep_id :: int
  ep_mal_id :: int
  ep_number :: f64
  ep_state :: episode_state
  ep_file_path :: "string option"
  ep_size :: "int option"
  ep_torrent_id :: "int option"
  ep_last_checked :: "int option"

record torrent =
  to_id :: int
  to_info_hash :: string
  to_name :: string
  to_magnet :: string
  to_seeders :: int
  to_leechers :: int
  to_size :: int
  to_group :: "string option"
  to_resolution :: "string option"
  to_source_url :: "string option"
  to_score :: f64
  to_found_at :: time
  to_mal_id :: "int option"
  to_rejected :: bool
  to_trusted :: bool

record job =
  job_id :: int
  job_episode_id :: int
  job_kind :: job_kind
  job_state :: job_state
  job_attempts :: int
  job_next_run_at :: "time option"
  job_last_error :: "string option"
  job_torrent_id :: "int option"
  job_created_at :: time
  job_updated_at :: time
  job_progress :: f64
  job_last_progress_at :: "time option"
  job_blocked_from :: "job_state option"

record event =
  ev_id :: int
  ev_at :: time
  ev_level :: level
  ev_job_id :: "int option"
  ev_mal_id :: "int option"
  ev_message :: string

section \<open>Properties\<close>

text \<open>
  Every state, kind, list status, question kind and log level that is written
  to the database is read back as itself; so no row changes its meaning by a restart.
\<close>

theorem enum_round_trip:
  "JobState_parse (JobState_as_str st) = st \<and> JobKind_parse (JobKind_as_str k) = k \<and>
   ListStatus_parse (ListStatus_as_str l) = l \<and> QuestionKind_parse (QuestionKind_as_str q) = q \<and>
   Level_parse (Level_as_str v) = Some v"
  by (simp add: enum_strings)

end
