(* ===== verification/Settings.thy ===== *)
theory Settings
  imports Models
begin

text \<open>
  \<open>settings/mod.rs\<close> and \<open>settings/types.rs\<close>: the configuration record, its
  defaults and \<open>validate\<close>. The row codec (serde) is not modelled: a stored
  configuration is the typed record.
\<close>

named_theorems settings_simps \<open>unfolding rules of the configuration\<close>

datatype move_mode = Hardlink | Move | Copy

datatype icon_method = IconAuto | IconDirectory | IconGio | IconOff

datatype icon_style = Plain | FolderShape

record settings =
  s_first_run_complete :: bool
  s_automation_on :: bool
  s_mal_client_id :: string
  s_qbit_url :: string
  s_qbit_username :: string
  s_qbit_start_if_installed :: bool
  s_qbit_remote_acknowledged :: bool
  s_library_folder :: string
  s_download_folder :: string
  s_naming_pattern :: string
  s_movie_naming_pattern :: string
  s_move_mode :: move_mode
  s_seed_ratio_target :: f64
  s_remove_when_finished :: bool
  s_active_downloads :: nat
  s_search_concurrency :: nat
  s_daily_torrent_cap :: nat
  s_first_sync_cap :: nat
  s_disk_floor_gb :: nat
  s_mal_sync_interval_min :: nat
  s_jikan_per_second :: f64
  s_jikan_per_minute :: nat
  s_jikan_breaker_cooldown_secs :: nat
  s_nyaa_interval_secs :: f64
  s_mal_cache_secs :: nat
  s_jikan_cache_secs :: nat
  s_nyaa_cache_secs :: nat
  s_fuzzy_threshold :: f64
  s_score_threshold :: f64
  s_score_margin :: f64
  s_auto_plan_to_watch :: bool
  s_stall_timeout_min :: nat
  s_max_failed_candidates :: nat
  s_question_expiry_hours :: nat
  s_min_episode_mb :: nat
  s_max_episode_mb :: nat
  s_max_batch_gb :: nat
  s_nyaa_base_url :: string
  s_nyaa_mirrors :: "string list"
  s_jikan_base_url :: string
  s_mal_base_url :: string
  s_folder_icon_method :: icon_method
  s_icon_style :: icon_style
  s_theme :: string
  s_notify_finished :: bool
  s_notify_questions :: bool
  s_notify_failures :: bool
  s_autostart :: bool
  s_debug_logging :: bool
  s_log_max_bytes :: nat
  s_log_keep :: nat
  s_events_keep_rows :: nat
  s_http_cache_keep_rows :: nat

definition default_max_episode_mb :: nat where
  "default_max_episode_mb = 2560"

definition default_max_batch_gb :: nat where
  "default_max_batch_gb = 200"

definition Settings_default :: settings where
  "Settings_default = \<lparr>
     s_first_run_complete = False,
     s_automation_on = False,
     s_mal_client_id = '''',
     s_qbit_url = ''http://127.0.0.1:8080'',
     s_qbit_username = ''admin'',
     s_qbit_start_if_installed = True,
     s_qbit_remote_acknowledged = False,
     s_library_folder = '''',
     s_download_folder = '''',
     s_naming_pattern = ''{title} - S{season:02}E{episode:02}'',
     s_movie_naming_pattern = ''{title} ({year})'',
     s_move_mode = Hardlink,
     s_seed_ratio_target = 1,
     s_remove_when_finished = False,
     s_active_downloads = 2,
     s_search_concurrency = 2,
     s_daily_torrent_cap = 30,
     s_first_sync_cap = 25,
     s_disk_floor_gb = 20,
     s_mal_sync_interval_min = 30,
     s_jikan_per_second = 2,
     s_jikan_per_minute = 50,
     s_jikan_breaker_cooldown_secs = 60,
     s_nyaa_interval_secs = 2,
     s_mal_cache_secs = 1800,
     s_jikan_cache_secs = 7 * 24 * 3600,
     s_nyaa_cache_secs = 600,
     s_fuzzy_threshold = 92 / 100,
     s_score_threshold = 80,
     s_score_margin = 15,
     s_auto_plan_to_watch = False,
     s_stall_timeout_min = 20,
     s_max_failed_candidates = 3,
     s_question_expiry_hours = 72,
     s_min_episode_mb = 100,
     s_max_episode_mb = 2560,
     s_max_batch_gb = 200,
     s_nyaa_base_url = ''https://nyaa.si'',
     s_nyaa_mirrors = [],
     s_jikan_base_url = ''https://api.jikan.moe/v4'',
     s_mal_base_url = ''https://api.myanimelist.net/v2'',
     s_folder_icon_method = IconAuto,
     s_icon_style = Plain,
     s_theme = ''dark'',
     s_notify_finished = True,
     s_notify_questions = True,
     s_notify_failures = True,
     s_autostart = False,
     s_debug_logging = False,
     s_log_max_bytes = 5 * 1024 * 1024,
     s_log_keep = 3,
     s_events_keep_rows = 20000,
     s_http_cache_keep_rows = 5000\<rparr>"

section \<open>Validation\<close>

definition strip_prefix :: "string \<Rightarrow> string \<Rightarrow> string option" where
  "strip_prefix p s = (if starts_with p s then Some (drop (length p) s) else None)"

text \<open>\<open>rest.split(['/', ':']).next()\<close>: the text before the first slash or colon.\<close>

definition url_host :: "string \<Rightarrow> string" where
  "url_host rest = takeWhile (\<lambda>c. c \<noteq> CHR ''/'' \<and> c \<noteq> CHR '':'') rest"

definition qbit_is_remote :: "string \<Rightarrow> bool" where
  "qbit_is_remote url =
     (case (case strip_prefix ''https://'' url of
              Some rest \<Rightarrow> Some rest
            | None \<Rightarrow> strip_prefix ''http://'' url) of
        Some rest \<Rightarrow>
          (let host = url_host rest in
           host \<noteq> ''127.0.0.1'' \<and> host \<noteq> ''localhost'' \<and> host \<noteq> ''::1'')
      | None \<Rightarrow> False)"

definition is_absolute_path :: "string \<Rightarrow> bool" where
  "is_absolute_path p \<longleftrightarrow> starts_with ''/'' p"

fun bad_folder :: "string list \<Rightarrow> string option" where
  "bad_folder [] = None"
| "bad_folder (f # fs) =
     (if f \<noteq> [] \<and> \<not> is_absolute_path f then Some f else bad_folder fs)"

definition Settings_validate :: "settings \<Rightarrow> error + unit" where
  "Settings_validate s =
     (if s_active_downloads s = 0 then Inl (Other ''active_downloads must be at least 1'')
      else if s_search_concurrency s = 0 then Inl (Other ''search_concurrency must be at least 1'')
      else if s_daily_torrent_cap s = 0 then Inl (Other ''daily_torrent_cap must be at least 1'')
      else if s_nyaa_interval_secs s \<le> 0 then Inl (Other ''nyaa_interval_secs must be greater than 0'')
      else if s_jikan_per_second s \<le> 0 then Inl (Other ''jikan_per_second must be greater than 0'')
      else if s_jikan_breaker_cooldown_secs s = 0
        then Inl (Other ''jikan_breaker_cooldown_secs must be greater than 0'')
      else if s_min_episode_mb s \<ge> s_max_episode_mb s
        then Inl (Other ''min_episode_mb must be smaller than max_episode_mb'')
      else if s_max_batch_gb s = 0 then Inl (Other ''max_batch_gb must be greater than 0'')
      else if s_score_threshold s > 100 then Inl (Other ''score_threshold is a score out of 100'')
      else if \<not> (0 \<le> s_fuzzy_threshold s \<and> s_fuzzy_threshold s \<le> 1)
        then Inl (Other ''fuzzy_threshold is a ratio between 0 and 1'')
      else if \<not> starts_with ''http://'' (s_qbit_url s) \<and> \<not> starts_with ''https://'' (s_qbit_url s)
        then Inl (Other ''qbit_url must start with http:// or https://'')
      else (case bad_folder [s_library_folder s, s_download_folder s] of
          Some f \<Rightarrow> Inl (Other (''folder path must be absolute: '' @ f))
        | None \<Rightarrow>
            if qbit_is_remote (s_qbit_url s) \<and> \<not> s_qbit_remote_acknowledged s
            then Inl (Other ''remote qBittorrent URL needs explicit acknowledgment'')
            else Inr ()))"

definition settings_ok :: "settings \<Rightarrow> bool" where
  "settings_ok s \<longleftrightarrow>
     1 \<le> s_active_downloads s \<and> 1 \<le> s_search_concurrency s \<and> 1 \<le> s_daily_torrent_cap s \<and>
     0 < s_nyaa_interval_secs s \<and> 0 < s_jikan_per_second s \<and>
     1 \<le> s_jikan_breaker_cooldown_secs s \<and>
     s_min_episode_mb s < s_max_episode_mb s \<and> 1 \<le> s_max_batch_gb s \<and>
     s_score_threshold s \<le> 100 \<and> 0 \<le> s_fuzzy_threshold s \<and> s_fuzzy_threshold s \<le> 1 \<and>
     (starts_with ''http://'' (s_qbit_url s) \<or> starts_with ''https://'' (s_qbit_url s)) \<and>
     (\<forall>f \<in> {s_library_folder s, s_download_folder s}. f \<noteq> [] \<longrightarrow> is_absolute_path f) \<and>
     (qbit_is_remote (s_qbit_url s) \<longrightarrow> s_qbit_remote_acknowledged s)"

lemma bad_folder_None_iff: "bad_folder fs = None \<longleftrightarrow> (\<forall>f \<in> set fs. f \<noteq> [] \<longrightarrow> is_absolute_path f)"
  by (induction fs) auto

lemma Settings_validate_ok_iff: "Settings_validate s = Inr () \<longleftrightarrow> settings_ok s"
  unfolding Settings_validate_def settings_ok_def
  by (auto split: option.splits if_splits simp: bad_folder_None_iff [symmetric] not_le not_less Suc_le_eq)

section \<open>Properties\<close>

text \<open>
  The consent to a remote qBittorrent is asked by the text of the URL, not by its
  host. \<open>validate\<close> cuts the host at the first \<open>:\<close>, so a URL that starts with
  \<open>http://localhost:\<close> counts as local whatever follows; with user information in it
  (\<open>http://localhost:x@example.org\<close>) the client talks to another machine, and
  the settings are accepted without the acknowledgment that such a machine needs.
\<close>

theorem remote_consent_bypassed:
  assumes "settings_ok s"
  shows "Settings_validate (s\<lparr>s_qbit_url := ''http://localhost:'' @ rest,
      s_qbit_remote_acknowledged := False\<rparr>) = Inr ()"
proof -
  have "starts_with ''http://'' (''http://localhost:'' @ rest)" by (simp add: starts_with_def)
  moreover have "\<not> qbit_is_remote (''http://localhost:'' @ rest)"
    by (simp add: qbit_is_remote_def url_host_def strip_prefix_def starts_with_def)
  ultimately show ?thesis
    using assms unfolding Settings_validate_ok_iff by (simp add: settings_ok_def)
qed

lemma default_settings_ok: "settings_ok Settings_default"
proof -
  have "\<not> qbit_is_remote ''http://127.0.0.1:8080''" "starts_with ''http://'' ''http://127.0.0.1:8080''"
    by code_simp+
  then show ?thesis
    by (simp add: settings_ok_def Settings_default_def default_max_episode_mb_def default_max_batch_gb_def)
qed

theorem remote_consent_bypassed_witness:
  "Settings_validate (Settings_default\<lparr>s_qbit_url := ''http://localhost:'' @ ''x@example.org'',
      s_qbit_remote_acknowledged := False\<rparr>) = Inr ()"
  by (rule remote_consent_bypassed) (rule default_settings_ok)

end
