(* ===== verification/Rules.thy ===== *)
theory Rules
  imports Settings
begin

text \<open>
  \<open>rules.rs\<close>: the download preferences. The \<open>rules\<close> table is a list of rows
  (scope, key, value); the scope \<open>None\<close> is the global one. A value is a JSON
  value, decoded field by field as \<open>serde\<close> does for a struct with
  \<open>#[serde(default)]\<close>: a missing key keeps the default, a value of the wrong
  type is an error.
\<close>

named_theorems rules_simps \<open>unfolding rules of the rules codec\<close>

section \<open>The record\<close>

record rules =
  r_groups :: "string list"
  r_preferred_resolution :: string
  r_min_resolution :: string
  r_codecs_blocked :: "string list"
  r_blocked_uploaders :: "string list"
  r_preferred_languages :: "string list"
  r_min_size_mb :: nat
  r_max_size_mb :: nat
  r_seed_auto_threshold :: nat
  r_seed_ask_min :: nat
  r_seed_ask_max :: nat
  r_prefer_batch_when_finished :: bool
  r_auto_plan_to_watch :: "bool option"
  r_move_mode :: "move_mode option"
  r_seed_ratio_target :: "f64 option"

definition Rules_default :: rules where
  "Rules_default = \<lparr>
     r_groups = [],
     r_preferred_resolution = ''1080p'',
     r_min_resolution = ''720p'',
     r_codecs_blocked = [],
     r_blocked_uploaders = [],
     r_preferred_languages = [],
     r_min_size_mb = 100,
     r_max_size_mb = 4096,
     r_seed_auto_threshold = 10,
     r_seed_ask_min = 1,
     r_seed_ask_max = 9,
     r_prefer_batch_when_finished = True,
     r_auto_plan_to_watch = None,
     r_move_mode = None,
     r_seed_ratio_target = None\<rparr>"

definition Rules_validate :: "rules \<Rightarrow> error + unit" where
  "Rules_validate r =
     (if r_seed_ask_min r > r_seed_ask_max r
      then Inl (Other ''seed_ask_min must not exceed seed_ask_max'')
      else if r_seed_auto_threshold r < r_seed_ask_max r
      then Inl (Other ''auto-download threshold must be at or above the top of the ask range'')
      else if r_min_size_mb r \<ge> r_max_size_mb r
      then Inl (Other ''min_size_mb must be smaller than max_size_mb'')
      else (case r_seed_ratio_target r of
          Some ratio \<Rightarrow>
            if ratio < 0 then Inl (Other ''seed_ratio_target must be non-negative'') else Inr ()
        | None \<Rightarrow> Inr ()))"

definition rules_ok :: "rules \<Rightarrow> bool" where
  "rules_ok r \<longleftrightarrow>
     r_seed_ask_min r \<le> r_seed_ask_max r \<and> r_seed_ask_max r \<le> r_seed_auto_threshold r \<and>
     r_min_size_mb r < r_max_size_mb r \<and>
     (\<forall>q. r_seed_ratio_target r = Some q \<longrightarrow> 0 \<le> q)"

lemma Rules_validate_ok_iff: "Rules_validate r = Inr () \<longleftrightarrow> rules_ok r"
  by (auto simp: Rules_validate_def rules_ok_def split: option.splits)

section \<open>Values and keys\<close>

datatype json = JNull | JBool bool | JInt int | JReal f64 | JStr string | JList "json list"

definition rule_keys :: "string list" where
  "rule_keys =
     [''groups'', ''preferred_resolution'', ''min_resolution'', ''codecs_blocked'',
      ''blocked_uploaders'', ''preferred_languages'', ''min_size_mb'', ''max_size_mb'',
      ''seed_auto_threshold'', ''seed_ask_min'', ''seed_ask_max'',
      ''prefer_batch_when_finished'', ''auto_plan_to_watch'', ''move_mode'',
      ''seed_ratio_target'']"

definition ensure_known_key :: "string \<Rightarrow> error + unit" where
  "ensure_known_key k =
     (if k \<in> set rule_keys then Inr () else Inl (Other (''unknown rule key: '' @ k)))"

definition bad_type :: "error + 'a" where
  "bad_type = Inl (Json ''invalid type'')"

fun dec_str :: "json \<Rightarrow> error + string" where
  "dec_str (JStr s) = Inr s"
| "dec_str _ = bad_type"

fun dec_strs :: "json list \<Rightarrow> error + string list" where
  "dec_strs [] = Inr []"
| "dec_strs (j # js) =
     (case dec_str j of Inl e \<Rightarrow> Inl e
      | Inr s \<Rightarrow> (case dec_strs js of Inl e \<Rightarrow> Inl e | Inr ss \<Rightarrow> Inr (s # ss)))"

fun dec_list :: "json \<Rightarrow> error + string list" where
  "dec_list (JList js) = dec_strs js"
| "dec_list _ = bad_type"

fun dec_uint :: "nat \<Rightarrow> json \<Rightarrow> error + nat" where
  "dec_uint w (JInt i) = (if 0 \<le> i \<and> i < 2 ^ w then Inr (nat i) else bad_type)"
| "dec_uint w _ = bad_type"

fun dec_bool :: "json \<Rightarrow> error + bool" where
  "dec_bool (JBool b) = Inr b"
| "dec_bool _ = bad_type"

fun dec_opt_bool :: "json \<Rightarrow> error + bool option" where
  "dec_opt_bool JNull = Inr None"
| "dec_opt_bool (JBool b) = Inr (Some b)"
| "dec_opt_bool _ = bad_type"

fun dec_opt_f64 :: "json \<Rightarrow> error + f64 option" where
  "dec_opt_f64 JNull = Inr None"
| "dec_opt_f64 (JReal q) = Inr (Some q)"
| "dec_opt_f64 (JInt i) = Inr (Some (of_int i))"
| "dec_opt_f64 _ = bad_type"

fun MoveMode_as_str :: "move_mode \<Rightarrow> string" where
  "MoveMode_as_str Hardlink = ''hardlink''"
| "MoveMode_as_str Move = ''move''"
| "MoveMode_as_str Copy = ''copy''"

fun dec_opt_mode :: "json \<Rightarrow> error + move_mode option" where
  "dec_opt_mode JNull = Inr None"
| "dec_opt_mode (JStr s) =
     (if s = ''hardlink'' then Inr (Some Hardlink)
      else if s = ''move'' then Inr (Some Move)
      else if s = ''copy'' then Inr (Some Copy)
      else bad_type)"
| "dec_opt_mode _ = bad_type"

definition map_ok :: "('a \<Rightarrow> 'b) \<Rightarrow> error + 'a \<Rightarrow> error + 'b" where
  "map_ok f r = (case r of Inl e \<Rightarrow> Inl e | Inr x \<Rightarrow> Inr (f x))"

text \<open>One field of \<open>from_value\<close>; a key that names no field is ignored.\<close>

definition set_field :: "string \<Rightarrow> json \<Rightarrow> rules \<Rightarrow> error + rules" where
  "set_field k v r =
     (if k = ''groups'' then map_ok (\<lambda>x. r\<lparr>r_groups := x\<rparr>) (dec_list v)
      else if k = ''preferred_resolution'' then map_ok (\<lambda>x. r\<lparr>r_preferred_resolution := x\<rparr>) (dec_str v)
      else if k = ''min_resolution'' then map_ok (\<lambda>x. r\<lparr>r_min_resolution := x\<rparr>) (dec_str v)
      else if k = ''codecs_blocked'' then map_ok (\<lambda>x. r\<lparr>r_codecs_blocked := x\<rparr>) (dec_list v)
      else if k = ''blocked_uploaders'' then map_ok (\<lambda>x. r\<lparr>r_blocked_uploaders := x\<rparr>) (dec_list v)
      else if k = ''preferred_languages'' then map_ok (\<lambda>x. r\<lparr>r_preferred_languages := x\<rparr>) (dec_list v)
      else if k = ''min_size_mb'' then map_ok (\<lambda>x. r\<lparr>r_min_size_mb := x\<rparr>) (dec_uint 64 v)
      else if k = ''max_size_mb'' then map_ok (\<lambda>x. r\<lparr>r_max_size_mb := x\<rparr>) (dec_uint 64 v)
      else if k = ''seed_auto_threshold'' then map_ok (\<lambda>x. r\<lparr>r_seed_auto_threshold := x\<rparr>) (dec_uint 32 v)
      else if k = ''seed_ask_min'' then map_ok (\<lambda>x. r\<lparr>r_seed_ask_min := x\<rparr>) (dec_uint 32 v)
      else if k = ''seed_ask_max'' then map_ok (\<lambda>x. r\<lparr>r_seed_ask_max := x\<rparr>) (dec_uint 32 v)
      else if k = ''prefer_batch_when_finished'' then map_ok (\<lambda>x. r\<lparr>r_prefer_batch_when_finished := x\<rparr>) (dec_bool v)
      else if k = ''auto_plan_to_watch'' then map_ok (\<lambda>x. r\<lparr>r_auto_plan_to_watch := x\<rparr>) (dec_opt_bool v)
      else if k = ''move_mode'' then map_ok (\<lambda>x. r\<lparr>r_move_mode := x\<rparr>) (dec_opt_mode v)
      else if k = ''seed_ratio_target'' then map_ok (\<lambda>x. r\<lparr>r_seed_ratio_target := x\<rparr>) (dec_opt_f64 v)
      else Inr r)"

text \<open>\<open>to_value\<close>, one field.\<close>

definition get_field :: "string \<Rightarrow> rules \<Rightarrow> json option" where
  "get_field k r =
     (if k = ''groups'' then Some (JList (map JStr (r_groups r)))
      else if k = ''preferred_resolution'' then Some (JStr (r_preferred_resolution r))
      else if k = ''min_resolution'' then Some (JStr (r_min_resolution r))
      else if k = ''codecs_blocked'' then Some (JList (map JStr (r_codecs_blocked r)))
      else if k = ''blocked_uploaders'' then Some (JList (map JStr (r_blocked_uploaders r)))
      else if k = ''preferred_languages'' then Some (JList (map JStr (r_preferred_languages r)))
      else if k = ''min_size_mb'' then Some (JInt (int (r_min_size_mb r)))
      else if k = ''max_size_mb'' then Some (JInt (int (r_max_size_mb r)))
      else if k = ''seed_auto_threshold'' then Some (JInt (int (r_seed_auto_threshold r)))
      else if k = ''seed_ask_min'' then Some (JInt (int (r_seed_ask_min r)))
      else if k = ''seed_ask_max'' then Some (JInt (int (r_seed_ask_max r)))
      else if k = ''prefer_batch_when_finished'' then Some (JBool (r_prefer_batch_when_finished r))
      else if k = ''auto_plan_to_watch''
        then Some (case r_auto_plan_to_watch r of None \<Rightarrow> JNull | Some b \<Rightarrow> JBool b)
      else if k = ''move_mode''
        then Some (case r_move_mode r of None \<Rightarrow> JNull | Some m \<Rightarrow> JStr (MoveMode_as_str m))
      else if k = ''seed_ratio_target''
        then Some (case r_seed_ratio_target r of None \<Rightarrow> JNull | Some q \<Rightarrow> JReal q)
      else None)"

text \<open>\<open>from_value\<close> of an object given by its entries, over a starting record.\<close>

fun set_fields :: "(string \<times> json) list \<Rightarrow> rules \<Rightarrow> error + rules" where
  "set_fields [] r = Inr r"
| "set_fields ((k, v) # kvs) r =
     (case set_field k v r of Inl e \<Rightarrow> Inl e | Inr r' \<Rightarrow> set_fields kvs r')"

section \<open>The table\<close>

record rule_row =
  rr_mal_id :: "int option"
  rr_key :: string
  rr_value :: json

type_synonym rules_table = "rule_row list"

text \<open>\<open>Rules::read\<close>: the rows of one scope; no row at all is \<open>None\<close>.\<close>

definition read_rules :: "rules_table \<Rightarrow> int option \<Rightarrow> (string \<times> json) list" where
  "read_rules t scope = map (\<lambda>x. (rr_key x, rr_value x)) (filter (\<lambda>x. rr_mal_id x = scope) t)"

definition Rules_global :: "rules_table \<Rightarrow> error + rules" where
  "Rules_global t = set_fields (read_rules t None) Rules_default"

text \<open>
  \<open>Rules::for_show\<close> serializes the global rules, overwrites the keys the show
  stores and reads the object back: the show's entries are set over the global record.
\<close>

definition Rules_for_show :: "rules_table \<Rightarrow> int \<Rightarrow> error + rules" where
  "Rules_for_show t m =
     (case Rules_global t of
        Inl e \<Rightarrow> Inl e
      | Inr g \<Rightarrow> set_fields (read_rules t (Some m)) g)"

definition get_rules :: "rules_table \<Rightarrow> int option \<Rightarrow> error + rules" where
  "get_rules t scope = (case scope of Some m \<Rightarrow> Rules_for_show t m | None \<Rightarrow> Rules_global t)"

text \<open>\<open>INSERT \<dots> ON CONFLICT DO UPDATE\<close>: (scope, key) is unique.\<close>

definition upsert_rule :: "int option \<Rightarrow> string \<Rightarrow> json \<Rightarrow> rules_table \<Rightarrow> rules_table" where
  "upsert_rule scope k v t =
     (if \<exists>x\<in>set t. rr_mal_id x = scope \<and> rr_key x = k
      then update_rows (\<lambda>x. rr_mal_id x = scope \<and> rr_key x = k) (\<lambda>x. x\<lparr>rr_value := v\<rparr>) t
      else t @ [\<lparr>rr_mal_id = scope, rr_key = k, rr_value = v\<rparr>])"

definition set_override :: "int \<Rightarrow> string \<Rightarrow> json \<Rightarrow> (rules_table, error, unit) act" where
  "set_override m k v =
     seq (lift (ensure_known_key k)) (\<lambda>_. modify (upsert_rule (Some m) k v))"

definition clear_override :: "int \<Rightarrow> string \<Rightarrow> (rules_table, error, unit) act" where
  "clear_override m k = modify (filter (\<lambda>x. \<not> (rr_mal_id x = Some m \<and> rr_key x = k)))"

definition clear_all_overrides :: "int \<Rightarrow> (rules_table, error, unit) act" where
  "clear_all_overrides m = modify (filter (\<lambda>x. rr_mal_id x \<noteq> Some m))"

definition save_global :: "rules \<Rightarrow> (rules_table, error, unit) act" where
  "save_global r =
     seq (lift (Rules_validate r)) (\<lambda>_.
     modify (\<lambda>t. filter (\<lambda>x. rr_mal_id x \<noteq> None) t @
       map (\<lambda>k. \<lparr>rr_mal_id = None, rr_key = k, rr_value = the (get_field k r)\<rparr>) rule_keys))"

text \<open>
  \<open>update_rule\<close>: the key is checked, the effective rules with the new value are
  decoded and validated, and only then the row is written. (The log line that
  follows cannot fail the call and is not part of the table.)
\<close>

definition update_rule :: "int option \<Rightarrow> string \<Rightarrow> json \<Rightarrow> (rules_table, error, unit) act" where
  "update_rule scope k v =
     seq (lift (ensure_known_key k)) (\<lambda>_.
     seq (\<lambda>t. (get_rules t scope, t)) (\<lambda>current.
     seq (lift (set_field k v current)) (\<lambda>updated.
     seq (lift (Rules_validate updated)) (\<lambda>_.
     modify (upsert_rule scope k v)))))"

definition reset_rule :: "int option \<Rightarrow> string option \<Rightarrow> (rules_table, error, unit) act" where
  "reset_rule scope key =
     seq (lift (case key of Some k \<Rightarrow> ensure_known_key k | None \<Rightarrow> Inr ())) (\<lambda>_.
     modify (case key of
         Some k \<Rightarrow> filter (\<lambda>x. \<not> (rr_mal_id x = scope \<and> rr_key x = k))
       | None \<Rightarrow> filter (\<lambda>x. rr_mal_id x \<noteq> scope)))"

section \<open>One field at a time\<close>

text \<open>
  Whether a stored value decodes, and the value it stands for: neither depends on
  the record that the field is set in, and setting one field leaves the others.
\<close>

definition decodes :: "string \<Rightarrow> json \<Rightarrow> bool" where
  "decodes k v = (case set_field k v Rules_default of Inl _ \<Rightarrow> False | Inr _ \<Rightarrow> True)"

definition canon :: "string \<Rightarrow> json \<Rightarrow> json option" where
  "canon k v = (case set_field k v Rules_default of Inl _ \<Rightarrow> None | Inr r \<Rightarrow> get_field k r)"

lemma map_ok_Inr_iff: "map_ok f x = Inr y \<longleftrightarrow> (\<exists>z. x = Inr z \<and> y = f z)"
  by (auto simp: map_ok_def split: sum.split)

lemma set_field_unknown: "k \<notin> set rule_keys \<Longrightarrow> set_field k v r = Inr r"
  by (simp add: rule_keys_def set_field_def)

lemma get_field_unknown: "k \<notin> set rule_keys \<Longrightarrow> get_field k r = None"
  by (simp add: rule_keys_def get_field_def)

lemma set_field_other:
  assumes "set_field k v r = Inr r'" "k' \<noteq> k"
  shows "get_field k' r' = get_field k' r"
proof (cases "k \<in> set rule_keys")
  case True
  then show ?thesis using assms
    unfolding rule_keys_def list.set insert_iff empty_iff
    by (elim disjE; (elim FalseE)?; hypsubst; simp add: set_field_def map_ok_Inr_iff; elim exE conjE; simp add: get_field_def)
next
  case False
  then show ?thesis using assms by (simp add: set_field_unknown)
qed

lemma set_field_same:
  assumes "set_field k v r = Inr r'" "set_field k v s = Inr s'" "k \<in> set rule_keys"
  shows "get_field k r' = get_field k s'"
  using assms
  unfolding rule_keys_def list.set insert_iff empty_iff
  by (elim disjE; (elim FalseE)?; hypsubst; simp add: set_field_def map_ok_Inr_iff; elim exE conjE; simp add: get_field_def)

lemma set_field_decodes: "(\<exists>r'. set_field k v r = Inr r') \<longleftrightarrow> decodes k v"
proof -
  have "(\<exists>r'. set_field k v r = Inr r') \<longleftrightarrow> (\<exists>r'. set_field k v Rules_default = Inr r')"
    unfolding set_field_def by (simp add: map_ok_Inr_iff)
  then show ?thesis by (auto simp: decodes_def split: sum.split)
qed

lemma set_field_get:
  assumes "set_field k v r = Inr r'"
  shows "get_field k' r' = (if k' = k \<and> k \<in> set rule_keys then canon k v else get_field k' r)"
proof (cases "k' = k \<and> k \<in> set rule_keys")
  case True
  obtain s where "set_field k v Rules_default = Inr s"
    using set_field_decodes [of k v r] set_field_decodes [of k v Rules_default] assms by blast
  with True show ?thesis using set_field_same [OF assms] by (simp add: canon_def)
next
  case False
  then show ?thesis using set_field_other [OF assms] assms get_field_unknown by (cases "k' = k") auto
qed

lemma inj_JStr: "map JStr xs = map JStr ys \<longleftrightarrow> xs = ys"
  by (simp add: inj_map_eq_map inj_def)

lemma MoveMode_as_str_eq: "MoveMode_as_str a = MoveMode_as_str b \<longleftrightarrow> a = b"
  by (cases a; cases b) simp_all

lemma rules_ext:
  assumes "\<And>k. k \<in> set rule_keys \<Longrightarrow> get_field k r = get_field k s"
  shows "r = s"
proof -
  have "list_all (\<lambda>k. get_field k r = get_field k s) rule_keys" using assms by (simp add: list_all_iff)
  then show ?thesis
    by (intro rules.equality)
      (simp_all add: rule_keys_def get_field_def inj_JStr MoveMode_as_str_eq split: option.split_asm)
qed

lemma set_fields_decodes:
  "(\<exists>r'. set_fields kvs r = Inr r') \<longleftrightarrow> list_all (\<lambda>(k, v). decodes k v) kvs"
proof (induction kvs arbitrary: r)
  case (Cons kv kvs)
  obtain k v where kv: "kv = (k, v)" by fastforce
  show ?case
  proof (cases "set_field k v r")
    case (Inl e)
    then have "\<not> decodes k v" unfolding set_field_decodes [of k v r, symmetric] by simp
    then show ?thesis using Inl kv by simp
  next
    case (Inr r')
    then have "decodes k v" unfolding set_field_decodes [of k v r, symmetric] by simp
    then show ?thesis using Inr kv Cons [of r'] by simp
  qed
qed simp

lemma set_fields_get:
  assumes "set_fields kvs r = Inr r'" "distinct (map fst kvs)" "k \<in> set rule_keys"
  shows "get_field k r' = (case map_of kvs k of Some v \<Rightarrow> canon k v | None \<Rightarrow> get_field k r)"
  using assms
proof (induction kvs arbitrary: r)
  case (Cons kv kvs)
  obtain a v where kv: "kv = (a, v)" by fastforce
  from Cons.prems kv obtain s where s: "set_field a v r = Inr s" "set_fields kvs s = Inr r'"
    by (auto split: sum.splits)
  have "get_field k r' = (case map_of kvs k of Some v \<Rightarrow> canon k v | None \<Rightarrow> get_field k s)"
    using Cons.IH [OF s(2)] Cons.prems kv by simp
  moreover have "map_of kvs a = None" using Cons.prems kv by (simp add: map_of_eq_None_iff)
  ultimately show ?case
    using set_field_get [OF s(1), of k] Cons.prems kv by (auto split: option.split)
qed simp

section \<open>The table as a map\<close>

definition rules_table_ok :: "rules_table \<Rightarrow> bool" where
  "rules_table_ok t \<longleftrightarrow> distinct (map (\<lambda>x. (rr_mal_id x, rr_key x)) t)"

definition stored :: "rules_table \<Rightarrow> int option \<Rightarrow> string \<Rightarrow> json option" where
  "stored t scope k = map_of (read_rules t scope) k"

text \<open>What the rules of a scope are: the show's own value, else the global one, else the factory's.\<close>

definition effective :: "rules_table \<Rightarrow> int option \<Rightarrow> string \<Rightarrow> json option" where
  "effective t scope k =
     (let global = (case stored t None k of Some v \<Rightarrow> canon k v | None \<Rightarrow> get_field k Rules_default)
      in case scope of
           None \<Rightarrow> global
         | Some m \<Rightarrow> (case stored t (Some m) k of Some v \<Rightarrow> canon k v | None \<Rightarrow> global))"

definition readable :: "rules_table \<Rightarrow> int option \<Rightarrow> bool" where
  "readable t scope \<longleftrightarrow> list_all (\<lambda>(k, v). decodes k v) (read_rules t None @ read_rules t scope)"

lemma keys_distinct: "rules_table_ok t \<Longrightarrow> distinct (map fst (read_rules t scope))"
  by (auto simp: rules_table_ok_def read_rules_def distinct_map inj_on_def comp_def)

lemma canon_unknown: "k \<notin> set rule_keys \<Longrightarrow> canon k v = None"
  by (simp add: canon_def set_field_unknown get_field_unknown)

lemma set_fields_all:
  assumes "set_fields kvs r = Inr r'" "distinct (map fst kvs)"
  shows "get_field k r' = (case map_of kvs k of Some v \<Rightarrow> canon k v | None \<Rightarrow> get_field k r)"
  using set_fields_get [OF assms] get_field_unknown canon_unknown
  by (cases "k \<in> set rule_keys") (auto split: option.split)

lemma get_rules_refines:
  assumes "rules_table_ok t"
  shows "case get_rules t scope of
      Inl e \<Rightarrow> \<not> readable t scope
    | Inr r \<Rightarrow> readable t scope \<and> (\<lambda>k. get_field k r) = effective t scope"
proof -
  note d = keys_distinct [OF assms]
  have dec: "(\<exists>r'. set_fields (read_rules t s) r = Inr r') \<longleftrightarrow> list_all (\<lambda>(k, v). decodes k v) (read_rules t s)"
    for s r by (rule set_fields_decodes)
  show ?thesis
  proof (cases "Rules_global t")
    case (Inl e)
    then show ?thesis using dec [of None Rules_default]
      by (auto simp: get_rules_def Rules_for_show_def Rules_global_def readable_def split: option.split)
  next
    case (Inr g)
    then have ok: "list_all (\<lambda>(k, v). decodes k v) (read_rules t None)"
      and g: "get_field k g = (case stored t None k of Some v \<Rightarrow> canon k v | None \<Rightarrow> get_field k Rules_default)" for k
      using dec [of None Rules_default] set_fields_all [OF _ d] by (auto simp: Rules_global_def stored_def)
    show ?thesis
    proof (cases scope)
      case None
      then show ?thesis using Inr ok g
        by (auto simp: get_rules_def readable_def effective_def fun_eq_iff)
    next
      case (Some m)
      show ?thesis
      proof (cases "set_fields (read_rules t (Some m)) g")
        case (Inl e)
        then show ?thesis using Some Inr dec [of "Some m" g]
          by (auto simp: get_rules_def Rules_for_show_def readable_def)
      next
        case (Inr r)
        have "get_field k r = effective t scope k" for k
          using set_fields_all [OF Inr d, of k] g [of k] Some
          by (simp add: effective_def stored_def Let_def split: option.split)
        then show ?thesis using Some Inr \<open>Rules_global t = Inr g\<close> dec [of "Some m" g] ok
          by (auto simp: get_rules_def Rules_for_show_def readable_def fun_eq_iff)
      qed
    qed
  qed
qed

text \<open>The update of one row, and the replacement of a scope, in terms of the map.\<close>

lemma read_update_rows:
  "read_rules (update_rows (\<lambda>x. rr_mal_id x = scope \<and> rr_key x = k) (\<lambda>x. x\<lparr>rr_value := v\<rparr>) t) s =
     map (\<lambda>(a, b). (a, if s = scope \<and> a = k then v else b)) (read_rules t s)"
  by (cases "s = scope"; induction t) (auto simp: read_rules_def update_rows_def)

lemma map_of_keyed: "map_of (map (\<lambda>(a, b). (a, f a b)) kvs) k = map_option (f k) (map_of kvs k)"
  by (induction kvs) auto

lemma stored_upsert:
  "stored (upsert_rule scope k v t) s = (if s = scope then (stored t scope)(k \<mapsto> v) else stored t s)"
proof (cases "\<exists>x\<in>set t. rr_mal_id x = scope \<and> rr_key x = k")
  case True
  then have "map_of (read_rules t scope) k \<noteq> None"
    by (auto simp: map_of_eq_None_iff read_rules_def image_iff)
  then have "stored (upsert_rule scope k v t) s k' = (if s = scope then (stored t scope)(k \<mapsto> v) else stored t s) k'" for k'
    unfolding stored_def upsert_rule_def if_P [OF True] read_update_rows map_of_keyed
    by (cases "map_of (read_rules t s) k'") auto
  then show ?thesis by (rule ext)
next
  case False
  then have "map_of (read_rules t scope) k = None"
    by (fastforce simp: map_of_eq_None_iff read_rules_def)
  with False show ?thesis
    by (auto simp: fun_eq_iff stored_def upsert_rule_def read_rules_def map_add_def split: option.split)
qed

lemma upsert_table_ok: "rules_table_ok t \<Longrightarrow> rules_table_ok (upsert_rule scope k v t)"
proof (cases "\<exists>x\<in>set t. rr_mal_id x = scope \<and> rr_key x = k")
  case True
  have "map (\<lambda>x. (rr_mal_id x, rr_key x)) (update_rows P (\<lambda>x. x\<lparr>rr_value := v\<rparr>) t) =
      map (\<lambda>x. (rr_mal_id x, rr_key x)) t" for P
    by (induction t) (auto simp: update_rows_def)
  then show "rules_table_ok t \<Longrightarrow> rules_table_ok (upsert_rule scope k v t)"
    using True by (simp add: rules_table_ok_def upsert_rule_def)
next
  case False
  then show "rules_table_ok t \<Longrightarrow> rules_table_ok (upsert_rule scope k v t)"
    by (auto simp: rules_table_ok_def upsert_rule_def)
qed

lemma list_all_map_of:
  "distinct (map fst kvs) \<Longrightarrow> list_all (\<lambda>(k, v). P k v) kvs \<longleftrightarrow> (\<forall>k v. map_of kvs k = Some v \<longrightarrow> P k v)"
  by (auto simp: list_all_iff)

lemma readable_stored:
  "rules_table_ok t \<Longrightarrow> readable t scope \<longleftrightarrow>
     (\<forall>s\<in>{None, scope}. \<forall>k v. stored t s k = Some v \<longrightarrow> decodes k v)"
  by (simp add: readable_def stored_def list_all_map_of keys_distinct)

text \<open>
  C13: the rules of a show are an overlay. On a table with one row per scope and
  key, \<open>get_rules\<close> fails exactly when a row of the global scope or of the show
  does not decode, and otherwise every field is the show's own value, or the
  global value where the show stores none, or the factory's where neither does:
  the record refines that map.
\<close>

theorem rules_overlay:
  assumes "rules_table_ok t"
  shows "case get_rules t scope of
      Inl e \<Rightarrow> \<not> readable t scope
    | Inr r \<Rightarrow> readable t scope \<and> (\<lambda>k. get_field k r) = effective t scope"
  by (rule get_rules_refines) (rule assms)

theorem rules_overlay_witness:
  "case get_rules [\<lparr> rr_mal_id = Some 7, rr_key = ''seed_ask_max'', rr_value = JInt 4 \<rparr>] (Some 7) of
     Inl e \<Rightarrow> False | Inr r \<Rightarrow> r_seed_ask_max r = 4 \<and> r_seed_auto_threshold r = 10"
proof -
  let ?t = "[\<lparr> rr_mal_id = Some 7, rr_key = ''seed_ask_max'', rr_value = JInt 4 \<rparr>]"
  have "rules_table_ok ?t" by (simp add: rules_table_ok_def)
  from rules_overlay [OF this, of "Some 7"]
  have o: "case get_rules ?t (Some 7) of Inl e \<Rightarrow> \<not> readable ?t (Some 7)
    | Inr r \<Rightarrow> readable ?t (Some 7) \<and> (\<lambda>k. get_field k r) = effective ?t (Some 7)" .
  have "readable ?t (Some 7)"
    by (simp add: readable_def read_rules_def decodes_def set_field_def map_ok_def)
  moreover have "effective ?t (Some 7) ''seed_ask_max'' = Some (JInt 4)"
    "effective ?t (Some 7) ''seed_auto_threshold'' = Some (JInt 10)"
    by (simp_all add: effective_def stored_def read_rules_def canon_def set_field_def map_ok_def get_field_def
        Rules_default_def)
  moreover obtain r where r: "get_rules ?t (Some 7) = Inr r" "(\<lambda>k. get_field k r) = effective ?t (Some 7)"
    using o \<open>readable ?t (Some 7)\<close> by (cases "get_rules ?t (Some 7)") auto
  ultimately have "get_field ''seed_ask_max'' r = Some (JInt 4)" "get_field ''seed_auto_threshold'' r = Some (JInt 10)"
    by (simp_all add: fun_eq_iff)
  then show ?thesis using r(1) by (simp add: get_field_def)
qed

lemma update_rule_eq:
  "update_rule scope k v t =
     (if k \<notin> set rule_keys then (Inl (Other (''unknown rule key: '' @ k)), t)
      else case get_rules t scope of
        Inl e \<Rightarrow> (Inl e, t)
      | Inr current \<Rightarrow> (case set_field k v current of
          Inl e \<Rightarrow> (Inl e, t)
        | Inr updated \<Rightarrow> (case Rules_validate updated of
            Inl e \<Rightarrow> (Inl e, t)
          | Inr u \<Rightarrow> (Inr (), upsert_rule scope k v t))))"
  by (simp add: update_rule_def seq_def lift_def modify_def ensure_known_key_def split: sum.split)

lemma update_rule_cases:
  obtains (refused) e where "update_rule scope k v t = (Inl e, t)"
  | (written) current updated where "update_rule scope k v t = (Inr (), upsert_rule scope k v t)"
      "k \<in> set rule_keys" "get_rules t scope = Inr current" "set_field k v current = Inr updated" "rules_ok updated"
proof (cases "k \<in> set rule_keys")
  case True
  note eq = update_rule_eq [of scope k v t, simplified True not_True_eq_False if_False]
  show ?thesis
  proof (cases "get_rules t scope")
    case (Inl e)
    then show ?thesis using eq refused by simp
  next
    case (Inr current)
    note cur = this
    show ?thesis
    proof (cases "set_field k v current")
      case (Inl e)
      then show ?thesis using eq cur refused by simp
    next
      case (Inr updated)
      show ?thesis
      proof (cases "Rules_validate updated")
        case (Inl e)
        then show ?thesis using eq cur Inr refused by simp
      next
        case (Inr u)
        then have "rules_ok updated" using Rules_validate_ok_iff [of updated] by simp
        then show ?thesis using eq cur \<open>set_field k v current = Inr updated\<close> Inr True written by simp
      qed
    qed
  qed
next
  case False
  then show ?thesis using refused update_rule_eq by auto
qed

text \<open>
  \<open>update_rule\<close> never stores a rule that breaks the rules it belongs to. A call
  that fails leaves the table as it was. A call that succeeds leaves one row per
  scope and key; the rules of its scope can be read again and are valid, and they
  are the old ones with this one field replaced; and no other scope's rows change.
\<close>

theorem update_rule_safe:
  assumes "rules_table_ok t"
  shows "case update_rule scope k v t of
      (Inl e, t') \<Rightarrow> t' = t
    | (Inr u, t') \<Rightarrow> rules_table_ok t' \<and>
        (\<exists>r. get_rules t' scope = Inr r \<and> rules_ok r \<and>
           (\<lambda>k'. get_field k' r) = (effective t scope)(k := canon k v)) \<and>
        (\<forall>s. stored t' s = (if s = scope then (stored t scope)(k \<mapsto> v) else stored t s))"
proof -
  show ?thesis
  proof (cases rule: update_rule_cases [of scope k v t])
    case (refused e)
    then show ?thesis by simp
  next
    case (written current updated)
    let ?t = "upsert_rule scope k v t"
    have ok: "rules_table_ok ?t" by (rule upsert_table_ok) (rule assms)
    have cur: "readable t scope" "(\<lambda>k'. get_field k' current) = effective t scope"
      using get_rules_refines [OF assms, of scope] written(3) by simp_all
    have "decodes k v" using set_field_decodes [of k v current] written(4) by blast
    then have "readable ?t scope"
      using cur(1) by (auto simp: readable_stored assms ok stored_upsert split: if_splits)
    then obtain r where r: "get_rules ?t scope = Inr r" "(\<lambda>k'. get_field k' r) = effective ?t scope"
      using get_rules_refines [OF ok, of scope] by (cases "get_rules ?t scope") auto
    have eff: "effective ?t scope = (effective t scope)(k := canon k v)"
      by (auto simp: fun_eq_iff effective_def stored_upsert Let_def split: option.split)
    have "get_field k' r = get_field k' updated" for k'
      using r(2) eff cur(2) written(2) set_field_get [OF written(4), of k']
      by (auto simp: fun_eq_iff)
    then have "r = updated" using rules_ext by blast
    then show ?thesis using written r ok eff by (simp add: stored_upsert)
  qed
qed

theorem update_rule_safe_witness:
  "\<exists>t' r. update_rule None ''seed_ask_max'' (JInt 5) [] = (Inr (), t') \<and> get_rules t' None = Inr r \<and>
     rules_ok r \<and> get_field ''seed_ask_max'' r = Some (JInt 5)"
proof -
  obtain t' where u: "update_rule None ''seed_ask_max'' (JInt 5) [] = (Inr (), t')"
    by (simp add: update_rule_def seq_def lift_def modify_def ensure_known_key_def rule_keys_def get_rules_def
        Rules_global_def read_rules_def set_field_def map_ok_def Rules_validate_def Rules_default_def)
  have "canon ''seed_ask_max'' (JInt 5) = Some (JInt 5)"
    by (simp add: canon_def set_field_def map_ok_def get_field_def)
  with u update_rule_safe [of "[]" None "''seed_ask_max''" "JInt 5"] show ?thesis
    by (auto simp: rules_table_ok_def fun_eq_iff)
qed

text \<open>The numbers of the record fit the integer types of the source.\<close>

definition rules_fit :: "rules \<Rightarrow> bool" where
  "rules_fit r \<longleftrightarrow>
     r_min_size_mb r < 2 ^ 64 \<and> r_max_size_mb r < 2 ^ 64 \<and> r_seed_auto_threshold r < 2 ^ 32 \<and>
     r_seed_ask_min r < 2 ^ 32 \<and> r_seed_ask_max r < 2 ^ 32"

lemma dec_strs_JStr [simp]: "dec_strs (map JStr xs) = Inr xs"
  by (induction xs) simp_all

lemma dec_opt_encode [simp]:
  "dec_opt_bool (case b of None \<Rightarrow> JNull | Some x \<Rightarrow> JBool x) = Inr b"
  "dec_opt_f64 (case q of None \<Rightarrow> JNull | Some x \<Rightarrow> JReal x) = Inr q"
  "dec_opt_mode (case m of None \<Rightarrow> JNull | Some x \<Rightarrow> JStr (MoveMode_as_str x)) = Inr m"
proof -
  show "dec_opt_mode (case m of None \<Rightarrow> JNull | Some x \<Rightarrow> JStr (MoveMode_as_str x)) = Inr m"
    by (cases m; cases "the m") simp_all
qed (simp_all split: option.split)

lemma set_fields_encoded:
  assumes "rules_fit r"
  shows "set_fields (map (\<lambda>k. (k, the (get_field k r))) rule_keys) s = Inr r"
  using assms
  by (simp add: rule_keys_def get_field_def set_field_def map_ok_def rules_fit_def)

text \<open>
  Saved rules come back. \<open>save_global\<close> writes valid rules so that reading the
  global scope gives the very same record, whatever the table held before; it
  leaves the rows of every show alone, and it refuses invalid rules without
  touching the table.
\<close>

theorem save_global_round_trip:
  assumes "rules_fit r"
  shows "case save_global r t of
      (Inl e, t') \<Rightarrow> t' = t \<and> \<not> rules_ok r
    | (Inr u, t') \<Rightarrow> Rules_global t' = Inr r \<and> (\<forall>m. read_rules t' (Some m) = read_rules t (Some m))"
proof (cases "rules_ok r")
  case False
  then show ?thesis using Rules_validate_ok_iff [of r]
    by (cases "Rules_validate r") (auto simp: save_global_def seq_def lift_def)
next
  case True
  let ?rows = "map (\<lambda>k. \<lparr>rr_mal_id = None, rr_key = k, rr_value = the (get_field k r)\<rparr>) rule_keys"
  let ?t = "filter (\<lambda>x. rr_mal_id x \<noteq> None) t @ ?rows"
  have "read_rules ?t None = map (\<lambda>k. (k, the (get_field k r))) rule_keys"
    by (simp add: read_rules_def comp_def filter_map) (auto simp: filter_empty_conv)
  then have "Rules_global ?t = Inr r"
    using set_fields_encoded [OF assms] by (simp add: Rules_global_def)
  moreover have "read_rules ?t (Some m) = read_rules t (Some m)" for m
    by (simp add: read_rules_def comp_def filter_map) (rule arg_cong [where f = "map _"], rule filter_cong, auto)
  moreover have "Rules_validate r = Inr ()" using True Rules_validate_ok_iff by blast
  ultimately show ?thesis by (simp add: save_global_def seq_def lift_def modify_def)
qed

theorem save_global_round_trip_witness:
  "\<exists>t'. save_global Rules_default [] = (Inr (), t') \<and> Rules_global t' = Inr Rules_default"
proof -
  have "Rules_validate Rules_default = Inr ()"
    by (simp add: Rules_validate_def Rules_default_def)
  then obtain t' where "save_global Rules_default [] = (Inr (), t')"
    by (simp add: save_global_def seq_def lift_def modify_def)
  moreover have "rules_fit Rules_default" by (simp add: rules_fit_def Rules_default_def)
  ultimately show ?thesis using save_global_round_trip [of Rules_default "[]"] by auto
qed

end
