(* ===== verification/Store.thy ===== *)
theory Store
  imports Rules
begin

text \<open>
  The state of the core: one SQLite database (\<open>db/migrations\<close>), the clock, and
  the commands sent to qBittorrent. A table is the list of its rows in id order;
  \<open>AUTOINCREMENT\<close> ids come from a counter that never goes back. The typed
  payloads and answers of questions (\<open>questions/payload.rs\<close>,
  \<open>questions/choice.rs\<close>) and the plan preview (\<open>planner/preview.rs\<close>) are rows of
  the store, so their types are here; \<open>events.rs\<close> is modelled here as well,
  because every component writes the Activity log.

  The clock does not advance within one call. A write the schema refuses is the
  error \<open>Db\<close>; failures of the database itself (disk full, corruption) are not
  modelled.
\<close>

named_theorems store_simps \<open>unfolding rules of the store\<close>

section \<open>Questions and answers\<close>

record expected_show =
  ex_mal_id :: int
  ex_title :: string
  ex_english_title :: "string option"
  ex_year :: "int option"

record match_option =
  mo_info_hash :: string
  mo_name :: string
  mo_magnet :: string
  mo_group :: "string option"
  mo_resolution :: "string option"
  mo_seeders :: nat
  mo_size_bytes :: nat
  mo_signal :: f64
  mo_ranking :: f64
  mo_title_ratio :: f64
  mo_why :: "string list"

datatype payload =
    MatchReview expected_show "match_option list" string
  | LowSeeds nat string string bool
  | FileExists f64 string string
  | BatchOnly string nat
  | DiskSpace nat nat
  | AllFailed nat
  | EntryChanged int string string
  | ServiceNotice string string

fun Payload_kind :: "payload \<Rightarrow> question_kind" where
  "Payload_kind (MatchReview e os r) = QMatchReview"
| "Payload_kind (LowSeeds n r m a) = QLowSeeds"
| "Payload_kind (FileExists e x c) = QFileExists"
| "Payload_kind (BatchOnly r n) = QBatchOnly"
| "Payload_kind (DiskSpace f l) = QDiskSpace"
| "Payload_kind (AllFailed n) = QAllFailed"
| "Payload_kind (EntryChanged m t d) = QEntryChanged"
| "Payload_kind (ServiceNotice s d) = QServiceNotice"

datatype choice =
    UseThis string
  | NoneOfThese
  | SearchAgain
  | WrongRelease
  | Alias string
  | Download
  | Wait
  | PickAnother
  | Keep
  | Replace
  | KeepBoth
  | Batch
  | WaitForSingles
  | Pause
  | ChangeFolder
  | RetryLater
  | ManualSearch
  | SkipEpisode
  | Expired

record answer =
  an_choice :: choice
  an_always :: bool

record question =
  qu_id :: int
  qu_job_id :: "int option"
  qu_mal_id :: "int option"
  qu_kind :: question_kind
  qu_payload :: payload
  qu_answer :: "answer option"
  qu_created_at :: time
  qu_expires_at :: "time option"

section \<open>Plans\<close>

record planned_episode =
  pe_mal_id :: int
  pe_title :: string
  pe_season :: int
  pe_episode :: f64

record skip_note =
  sk_mal_id :: int
  sk_title :: string
  sk_reason :: string

record plan_preview =
  pp_episodes :: "planned_episode list"
  pp_skipped :: "skip_note list"
  pp_cap :: nat
  pp_over_cap :: nat
  pp_awaiting_confirmation :: bool

section \<open>Names\<close>

record name_row =
  nr_id :: int
  nr_mal_id :: int
  nr_name :: string
  nr_normalized :: string
  nr_source :: name_source
  nr_priority :: nat

section \<open>The store\<close>

text \<open>Commands the code sends to qBittorrent, in the order it sends them.\<close>

datatype qbit_command = QAdd string string string | QRemove string bool

record world =
  w_now :: time
  w_settings :: settings
  w_rules :: rules_table
  w_shows :: "show_row list"
  w_names :: "name_row list"
  w_episodes :: "episode list"
  w_torrents :: "torrent list"
  w_jobs :: "job list"
  w_questions :: "question list"
  w_events :: "event list"
  w_last_plan_at :: "time option"
  w_pending_plan :: "plan_preview option"
  w_seq_names :: int
  w_seq_episodes :: int
  w_seq_torrents :: int
  w_seq_jobs :: int
  w_seq_questions :: int
  w_seq_events :: int
  w_sent :: "qbit_command list"

type_synonym 'a run = "(world, error, 'a) act"

definition empty_world :: "time \<Rightarrow> world" where
  "empty_world t = \<lparr>
     w_now = t, w_settings = Settings_default, w_rules = [], w_shows = [], w_names = [],
     w_episodes = [], w_torrents = [], w_jobs = [], w_questions = [], w_events = [],
     w_last_plan_at = None, w_pending_plan = None,
     w_seq_names = 0, w_seq_episodes = 0, w_seq_torrents = 0, w_seq_jobs = 0,
     w_seq_questions = 0, w_seq_events = 0, w_sent = []\<rparr>"

abbreviation the_job :: "int \<Rightarrow> world \<Rightarrow> job option" where
  "the_job i w \<equiv> find_row job_id i (w_jobs w)"

abbreviation the_episode :: "int \<Rightarrow> world \<Rightarrow> episode option" where
  "the_episode i w \<equiv> find_row ep_id i (w_episodes w)"

abbreviation the_torrent :: "int \<Rightarrow> world \<Rightarrow> torrent option" where
  "the_torrent i w \<equiv> find_row to_id i (w_torrents w)"

definition torrent_by_hash :: "string \<Rightarrow> world \<Rightarrow> torrent option" where
  "torrent_by_hash h w = List.find (\<lambda>t. to_info_hash t = h) (w_torrents w)"

definition update_job :: "int \<Rightarrow> (job \<Rightarrow> job) \<Rightarrow> world \<Rightarrow> world" where
  "update_job i f w = w\<lparr>w_jobs := update_rows (\<lambda>j. job_id j = i) f (w_jobs w)\<rparr>"

definition update_episode :: "int \<Rightarrow> (episode \<Rightarrow> episode) \<Rightarrow> world \<Rightarrow> world" where
  "update_episode i f w = w\<lparr>w_episodes := update_rows (\<lambda>e. ep_id e = i) f (w_episodes w)\<rparr>"

definition update_torrents :: "(torrent \<Rightarrow> bool) \<Rightarrow> (torrent \<Rightarrow> torrent) \<Rightarrow> world \<Rightarrow> world" where
  "update_torrents p f w = w\<lparr>w_torrents := update_rows p f (w_torrents w)\<rparr>"

text \<open>
  A table inside the store: the laws of reading and replacing its rows. The
  lemmas of the block are the frame facts every table shares.
\<close>

locale row_store =
  fixes rows :: "'s \<Rightarrow> 'r list"
    and put :: "'r list \<Rightarrow> 's \<Rightarrow> 's"
    and key :: "'r \<Rightarrow> int"
  assumes rows_put: "rows (put rs s) = rs"
    and put_rows: "put (rows s) s = s"
    and put_put: "put rs (put rs' s) = put rs s"
begin

lemma rows_update:
  "(\<And>r. key (f r) = key r) \<Longrightarrow>
   find_row key k (rows (put (update_rows (\<lambda>r. key r = i) f (rows s)) s)) =
     (if k = i then map_option f (find_row key k (rows s)) else find_row key k (rows s))"
  by (simp add: rows_put find_row_update_same find_row_update_other)

lemma update_missing:
  assumes "find_row key i (rows s) = None"
  shows "put (update_rows (\<lambda>r. key r = i) f (rows s)) s = s"
proof -
  from assms have "\<forall>r\<in>set (rows s). key r \<noteq> i"
    by (auto simp: find_row_None_iff)
  then have "update_rows (\<lambda>r. key r = i) f (rows s) = rows s"
    by (simp add: update_rows_none)
  then show ?thesis by (simp add: put_rows)
qed

lemma rows_insert:
  "find_row key k (rows (put (rows s @ [r]) s)) =
     (case find_row key k (rows s) of Some x \<Rightarrow> Some x | None \<Rightarrow> if key r = k then Some r else None)"
  by (simp add: rows_put find_row_append split: option.split)

lemma keys_update:
  "(\<And>r. key (f r) = key r) \<Longrightarrow>
   map key (rows (put (update_rows p f (rows s)) s)) = map key (rows s)"
  by (simp add: rows_put map_key_update_rows)

end

interpretation jobs_table: row_store w_jobs "\<lambda>rs w. w\<lparr>w_jobs := rs\<rparr>" job_id
  by unfold_locales simp_all

interpretation episodes_table: row_store w_episodes "\<lambda>rs w. w\<lparr>w_episodes := rs\<rparr>" ep_id
  by unfold_locales simp_all

interpretation torrents_table: row_store w_torrents "\<lambda>rs w. w\<lparr>w_torrents := rs\<rparr>" to_id
  by unfold_locales simp_all

interpretation questions_table: row_store w_questions "\<lambda>rs w. w\<lparr>w_questions := rs\<rparr>" qu_id
  by unfold_locales simp_all

lemma the_job_update:
  "(\<And>j. job_id (f j) = job_id j) \<Longrightarrow>
   the_job k (update_job i f w) = (if k = i then map_option f (the_job k w) else the_job k w)"
  unfolding update_job_def by (rule jobs_table.rows_update)

lemma update_job_missing: "the_job i w = None \<Longrightarrow> update_job i f w = w"
  unfolding update_job_def by (rule jobs_table.update_missing)

lemma job_ids_update:
  "(\<And>j. job_id (f j) = job_id j) \<Longrightarrow> map job_id (w_jobs (update_job i f w)) = map job_id (w_jobs w)"
  unfolding update_job_def by (rule jobs_table.keys_update)

lemma the_episode_update:
  "(\<And>e. ep_id (f e) = ep_id e) \<Longrightarrow>
   the_episode k (update_episode i f w) =
     (if k = i then map_option f (the_episode k w) else the_episode k w)"
  unfolding update_episode_def by (rule episodes_table.rows_update)

lemma update_job_frame [simp]:
  "w_now (update_job i f w) = w_now w"
  "w_settings (update_job i f w) = w_settings w"
  "w_rules (update_job i f w) = w_rules w"
  "w_shows (update_job i f w) = w_shows w"
  "w_names (update_job i f w) = w_names w"
  "w_episodes (update_job i f w) = w_episodes w"
  "w_torrents (update_job i f w) = w_torrents w"
  "w_questions (update_job i f w) = w_questions w"
  "w_events (update_job i f w) = w_events w"
  "w_seq_jobs (update_job i f w) = w_seq_jobs w"
  "w_seq_events (update_job i f w) = w_seq_events w"
  "w_seq_questions (update_job i f w) = w_seq_questions w"
  "w_sent (update_job i f w) = w_sent w"
  by (simp_all add: update_job_def)

lemma update_episode_frame [simp]:
  "w_now (update_episode i f w) = w_now w"
  "w_settings (update_episode i f w) = w_settings w"
  "w_jobs (update_episode i f w) = w_jobs w"
  "w_torrents (update_episode i f w) = w_torrents w"
  "w_questions (update_episode i f w) = w_questions w"
  "w_events (update_episode i f w) = w_events w"
  "w_sent (update_episode i f w) = w_sent w"
  by (simp_all add: update_episode_def)

section \<open>The Activity log\<close>

definition is_control :: "char \<Rightarrow> bool" where
  "is_control c = (let n = (of_char c :: nat) in n < 32 \<or> n = 127)"

text \<open>The loop of \<open>sanitize\<close> over \<open>message\<close>, with its output so far.\<close>

fun sanitize_loop :: "string \<Rightarrow> string \<Rightarrow> string" where
  "sanitize_loop out [] = out"
| "sanitize_loop out (c # cs) =
     (if c = CHR 0x0A \<or> c = CHR 0x0D \<or> c = CHR 0x09 then sanitize_loop (out @ '' '') cs
      else if is_control c \<or> (is_space c \<and> out \<noteq> [] \<and> last out = CHR '' '') then sanitize_loop out cs
      else sanitize_loop (out @ [c]) cs)"

definition sanitize :: "string \<Rightarrow> string" where
  "sanitize message = trim (sanitize_loop [] message)"

definition record_in :: "level \<Rightarrow> int option \<Rightarrow> int option \<Rightarrow> string \<Rightarrow> time \<Rightarrow> int run" where
  "record_in lvl jid mid message ts =
     (\<lambda>w. let i = w_seq_events w + 1 in
        (Inr i, w\<lparr>w_events := w_events w @
            [\<lparr>ev_id = i, ev_at = ts, ev_level = lvl, ev_job_id = jid, ev_mal_id = mid,
              ev_message = sanitize message\<rparr>],
          w_seq_events := i\<rparr>))"

text \<open>\<open>ORDER BY at DESC, id DESC LIMIT keep\<close>: the rows are in id order, the sort is stable.\<close>

definition newest_events :: "nat \<Rightarrow> event list \<Rightarrow> event list" where
  "newest_events n es = take n (rev (sort_key ev_at es))"

definition events_prune :: "nat \<Rightarrow> event list \<Rightarrow> event list" where
  "events_prune keep es = filter (\<lambda>e. ev_id e \<in> set (map ev_id (newest_events keep es))) es"

definition events_clear_before :: "time \<Rightarrow> event list \<Rightarrow> event list" where
  "events_clear_before before es = filter (\<lambda>e. \<not> ev_at e < before) es"

definition record_event :: "level \<Rightarrow> int option \<Rightarrow> int option \<Rightarrow> string \<Rightarrow> int run" where
  "record_event lvl jid mid message =
     seq (gets w_now) (\<lambda>ts.
     seq (record_in lvl jid mid message ts) (\<lambda>i.
     seq (if i mod 500 = 0
          then modify (\<lambda>w. w\<lparr>w_events := events_prune (s_events_keep_rows (w_settings w)) (w_events w)\<rparr>)
          else ret ()) (\<lambda>_.
     ret i)))"

definition log_info :: "int option \<Rightarrow> int option \<Rightarrow> string \<Rightarrow> int run" where
  "log_info = record_event Info"

definition log_warn :: "int option \<Rightarrow> int option \<Rightarrow> string \<Rightarrow> int run" where
  "log_warn = record_event Warn"

record event_filter =
  ef_level :: "level option"
  ef_job_id :: "int option"
  ef_mal_id :: "int option"
  ef_since :: "time option"
  ef_until :: "time option"
  ef_search :: "string option"
  ef_limit :: "nat option"

text \<open>
  The \<open>WHERE\<close> clause of \<open>EventLog::query\<close>. \<open>LIKE '%x%'\<close> with the escapes of
  \<open>escape_like\<close> is substring search, case-insensitive on ASCII letters.
\<close>

definition event_matches :: "event_filter \<Rightarrow> event \<Rightarrow> bool" where
  "event_matches f e \<longleftrightarrow>
     (case ef_level f of None \<Rightarrow> True | Some l \<Rightarrow> ev_level e = l) \<and>
     (case ef_job_id f of None \<Rightarrow> True | Some j \<Rightarrow> ev_job_id e = Some j) \<and>
     (case ef_mal_id f of None \<Rightarrow> True | Some m \<Rightarrow> ev_mal_id e = Some m) \<and>
     (case ef_since f of None \<Rightarrow> True | Some t \<Rightarrow> t \<le> ev_at e) \<and>
     (case ef_until f of None \<Rightarrow> True | Some t \<Rightarrow> ev_at e \<le> t) \<and>
     (case ef_search f of None \<Rightarrow> True | Some x \<Rightarrow> contains (lower x) (lower (ev_message e)))"

definition events_query :: "event_filter \<Rightarrow> event list \<Rightarrow> event list" where
  "events_query f es =
     newest_events (case ef_limit f of None \<Rightarrow> 200 | Some n \<Rightarrow> n) (filter (event_matches f) es)"

lemma record_in_frame [simp]:
  "fst (record_in l j m msg ts w) = Inr (w_seq_events w + 1)"
  "w_jobs (snd (record_in l j m msg ts w)) = w_jobs w"
  "w_now (snd (record_in l j m msg ts w)) = w_now w"
  "w_settings (snd (record_in l j m msg ts w)) = w_settings w"
  "w_rules (snd (record_in l j m msg ts w)) = w_rules w"
  "w_shows (snd (record_in l j m msg ts w)) = w_shows w"
  "w_names (snd (record_in l j m msg ts w)) = w_names w"
  "w_episodes (snd (record_in l j m msg ts w)) = w_episodes w"
  "w_torrents (snd (record_in l j m msg ts w)) = w_torrents w"
  "w_questions (snd (record_in l j m msg ts w)) = w_questions w"
  "w_seq_jobs (snd (record_in l j m msg ts w)) = w_seq_jobs w"
  "w_seq_questions (snd (record_in l j m msg ts w)) = w_seq_questions w"
  "w_sent (snd (record_in l j m msg ts w)) = w_sent w"
  by (simp_all add: record_in_def Let_def)

lemma record_in_eq: "record_in l j m msg ts w = (Inr (w_seq_events w + 1), snd (record_in l j m msg ts w))"
  by (simp add: record_in_def Let_def)

lemma seq_record_in [simp]:
  "seq (record_in l j m msg ts) f w = f (w_seq_events w + 1) (snd (record_in l j m msg ts w))"
  by (rule seq_Inr) (rule record_in_eq)

lemma record_event_frame [simp]:
  "fst (record_event l j m msg w) = Inr (w_seq_events w + 1)"
  "w_jobs (snd (record_event l j m msg w)) = w_jobs w"
  "w_now (snd (record_event l j m msg w)) = w_now w"
  "w_settings (snd (record_event l j m msg w)) = w_settings w"
  "w_rules (snd (record_event l j m msg w)) = w_rules w"
  "w_shows (snd (record_event l j m msg w)) = w_shows w"
  "w_names (snd (record_event l j m msg w)) = w_names w"
  "w_episodes (snd (record_event l j m msg w)) = w_episodes w"
  "w_torrents (snd (record_event l j m msg w)) = w_torrents w"
  "w_questions (snd (record_event l j m msg w)) = w_questions w"
  "w_seq_jobs (snd (record_event l j m msg w)) = w_seq_jobs w"
  "w_seq_questions (snd (record_event l j m msg w)) = w_seq_questions w"
  "w_sent (snd (record_event l j m msg w)) = w_sent w"
  by (simp_all add: record_event_def record_in_def seq_def Let_def)

lemma record_event_eq:
  "record_event l j m msg w = (Inr (w_seq_events w + 1), snd (record_event l j m msg w))"
  by (metis record_event_frame(1) prod.collapse)

lemma seq_record_event [simp]:
  "seq (record_event l j m msg) f w = f (w_seq_events w + 1) (snd (record_event l j m msg w))"
  by (rule seq_Inr) (rule record_event_eq)

section \<open>Sample rows\<close>

text \<open>A small store on which the properties of the later theories are instantiated.\<close>

definition sample_show :: show_row where
  "sample_show =
     \<lparr> sh_mal_id = 1, sh_title = ''Frieren'', sh_english_title = None, sh_type = ''tv'',
       sh_status = Some ''Finished Airing'', sh_total_episodes = Some 28, sh_start_year = Some 2023,
       sh_auto = True, sh_episode_offset = 0, sh_season = 1, sh_metadata_status = ''ready'' \<rparr>"

definition sample_episode :: episode where
  "sample_episode =
     \<lparr> ep_id = 1, ep_mal_id = 1, ep_number = 1, ep_state = EMissing, ep_file_path = None,
       ep_size = None, ep_torrent_id = None, ep_last_checked = None \<rparr>"

definition sample_torrent :: torrent where
  "sample_torrent =
     \<lparr> to_id = 1, to_info_hash = ''aa'', to_name = ''Frieren - 01'', to_magnet = ''magnet:?xt=urn:btih:aa'',
       to_seeders = 50, to_leechers = 1, to_size = 3000000000, to_group = None, to_resolution = None,
       to_source_url = None, to_score = 0, to_found_at = 900, to_mal_id = Some 1,
       to_rejected = False, to_trusted = False \<rparr>"

definition sample_job :: "int \<Rightarrow> job_kind \<Rightarrow> job_state \<Rightarrow> job" where
  "sample_job i k s =
     \<lparr> job_id = i, job_episode_id = 1, job_kind = k, job_state = s, job_attempts = 0,
       job_next_run_at = None, job_last_error = None, job_torrent_id = None, job_created_at = 900,
       job_updated_at = 900, job_progress = 0, job_last_progress_at = None, job_blocked_from = None \<rparr>"

definition sample_store :: "job list \<Rightarrow> world" where
  "sample_store js = (empty_world 1000)
     \<lparr> w_shows := [sample_show], w_episodes := [sample_episode], w_torrents := [sample_torrent],
       w_jobs := js, w_seq_episodes := 1, w_seq_torrents := 1, w_seq_jobs := 10 \<rparr>"

lemmas sample_defs = sample_show_def sample_episode_def sample_torrent_def sample_job_def
  sample_store_def empty_world_def

section \<open>Properties of the Activity log\<close>

lemma sanitize_loop_clean:
  "list_all (\<lambda>c. \<not> is_control c) out \<Longrightarrow> list_all (\<lambda>c. \<not> is_control c) (sanitize_loop out s)"
  by (induction s arbitrary: out) (simp_all add: is_control_def)

lemma trim_ends: "trim s = [] \<or> (\<not> is_space (hd (trim s)) \<and> \<not> is_space (last (trim s)))"
proof (cases "trim s = []")
  case False
  let ?d = "dropWhile is_space s"
  from False have r: "dropWhile is_space (rev ?d) \<noteq> []" by (simp add: trim_def)
  then have d: "?d \<noteq> []" by (metis dropWhile.simps(1) rev.simps(1))
  have l: "\<not> is_space (last (trim s))"
    using hd_dropWhile [OF r] by (simp add: trim_def last_rev)
  obtain t where t: "rev ?d = t @ dropWhile is_space (rev ?d)"
    by (metis takeWhile_dropWhile_id)
  then have "?d = trim s @ rev t" unfolding trim_def by (metis rev_append rev_rev_ident)
  with False have "hd (trim s) = hd ?d" by (metis hd_append2)
  with hd_dropWhile [OF d] l show ?thesis by simp
qed simp

text \<open>
  Every message the Activity log stores is one line of printable text:
  \<open>sanitize\<close> leaves no control character (so no line break or escape sequence) and
  no whitespace at either end, whatever the message was.
\<close>

theorem sanitize_spec:
  "list_all (\<lambda>c. \<not> is_control c) (sanitize s) \<and>
   (sanitize s = [] \<or> (\<not> is_space (hd (sanitize s)) \<and> \<not> is_space (last (sanitize s))))"
  using sanitize_loop_clean [of "[]" s] set_trim [of "sanitize_loop [] s"] trim_ends
  by (auto simp: sanitize_def list_all_iff)

text \<open>
  \<open>prune\<close> keeps exactly the \<open>keep\<close> newest rows of the log (all of them when
  there are fewer) in their order, and every row it drops is at most as new as
  every row it keeps.
\<close>

theorem events_prune_spec:
  assumes "distinct (map ev_id es)"
  shows "length (events_prune keep es) = min keep (length es) \<and>
    (\<exists>p. events_prune keep es = filter p es) \<and>
    (\<forall>k\<in>set (events_prune keep es). \<forall>d\<in>set es - set (events_prune keep es). ev_at d \<le> ev_at k)"
proof -
  let ?all = "rev (sort_key ev_at es)" and ?new = "newest_events keep es"
  have new: "set ?new \<subseteq> set es" by (auto simp: newest_events_def dest: in_set_takeD)
  have dis: "distinct es" using assms by (simp add: distinct_map)
  have kept: "set (events_prune keep es) = set ?new"
  proof -
    have "e \<in> set ?new" if "e \<in> set es" "ev_id e \<in> ev_id ` set ?new" for e
      using that new assms by (auto simp: distinct_map dest: inj_onD)
    then show ?thesis using new by (auto simp: events_prune_def)
  qed
  have "distinct ?new" using dis by (simp add: newest_events_def distinct_take)
  then have "length ?new = card (set (events_prune keep es))" by (simp add: kept distinct_card)
  also have "\<dots> = length (events_prune keep es)"
    by (rule distinct_card) (use dis in \<open>simp add: events_prune_def\<close>)
  finally have len: "length (events_prune keep es) = min keep (length es)"
    by (simp add: newest_events_def min.commute)
  have "sorted_wrt (\<lambda>a b. ev_at b \<le> ev_at a) (take keep ?all @ drop keep ?all)"
    using sorted_sort_key [of ev_at es] by (simp add: sorted_wrt_rev sorted_map)
  then have order: "\<forall>k\<in>set (take keep ?all). \<forall>d\<in>set (drop keep ?all). ev_at d \<le> ev_at k"
    unfolding sorted_wrt_append by blast
  have "d \<in> set (drop keep ?all)" if "d \<in> set es" "d \<notin> set (take keep ?all)" for d
  proof -
    have "set (take keep ?all) \<union> set (drop keep ?all) = set es"
      by (metis append_take_drop_id set_append set_rev set_sort)
    with that show ?thesis by blast
  qed
  with order have "\<forall>k\<in>set (events_prune keep es). \<forall>d\<in>set es - set (events_prune keep es). ev_at d \<le> ev_at k"
    unfolding kept newest_events_def by blast
  with len show ?thesis by (auto simp: events_prune_def)
qed

definition sample_event :: "int \<Rightarrow> time \<Rightarrow> event" where
  "sample_event i t =
     \<lparr> ev_id = i, ev_at = t, ev_level = Info, ev_job_id = None, ev_mal_id = None, ev_message = ''x'' \<rparr>"

theorem events_prune_spec_witness:
  "length (events_prune 1 [sample_event 1 5, sample_event 2 4]) = 1"
proof -
  have "distinct (map ev_id [sample_event 1 5, sample_event 2 4])" by (simp add: sample_event_def)
  from events_prune_spec [OF this, of 1] show ?thesis by simp
qed

end
