(* ===== verification/Jobs.thy ===== *)
theory Jobs
  imports Store "HOL-Library.Multiset"
begin

text \<open>
  The job queue's state machine: \<open>jobs/transitions.rs\<close>, \<open>jobs/enqueue.rs\<close>,
  \<open>jobs/queries.rs\<close>, \<open>jobs/backoff.rs\<close>. \<open>moves_by\<close> is the contract every later
  component keeps: whatever happens, a job either is deleted or moves along the
  table of allowed moves, and a finished job stays as it is.
\<close>

named_theorems job_simps \<open>unfolding rules of the job operations\<close>

section \<open>The table of moves\<close>

definition TRANSITIONS :: "(job_state \<times> job_state) list" where
  "TRANSITIONS =
     [(Search, Choose),
      (Choose, Add),
      (Add, Monitor),
      (Monitor, Finalize),
      (Finalize, Done),
      (Search, NeedsInput),
      (Search, Blocked),
      (Search, Failed),
      (Choose, NeedsInput),
      (Choose, Blocked),
      (Choose, Failed),
      (Add, Blocked),
      (Add, Failed),
      (Monitor, Search),
      (Monitor, NeedsInput),
      (Monitor, Blocked),
      (Monitor, Failed),
      (Finalize, NeedsInput),
      (Finalize, Blocked),
      (Finalize, Failed),
      (NeedsInput, Search),
      (NeedsInput, Choose),
      (NeedsInput, Add),
      (NeedsInput, Monitor),
      (NeedsInput, Finalize),
      (NeedsInput, Failed),
      (NeedsInput, Done),
      (Blocked, Search),
      (Blocked, Choose),
      (Blocked, Add),
      (Blocked, Monitor),
      (Blocked, Finalize),
      (Blocked, Failed),
      (Failed, Search),
      (Failed, Done),
      (Add, Choose),
      (Monitor, Add)]"

definition is_allowed :: "job_state \<Rightarrow> job_state \<Rightarrow> bool" where
  "is_allowed from to =
     (if from = to then False
      else if is_terminal from then False
      else (from, to) \<in> set TRANSITIONS)"

text \<open>No entry of the table is a self-loop or leaves \<open>Done\<close>: the two guards are redundant.\<close>

lemma is_allowed_iff: "is_allowed from to \<longleftrightarrow> (from, to) \<in> set TRANSITIONS"
  by (auto simp: is_allowed_def is_terminal_def TRANSITIONS_def)

lemma is_allowed_eval:
  "is_allowed Search to \<longleftrightarrow> to \<in> {Choose, NeedsInput, Blocked, Failed}"
  "is_allowed Choose to \<longleftrightarrow> to \<in> {Add, NeedsInput, Blocked, Failed}"
  "is_allowed Add to \<longleftrightarrow> to \<in> {Monitor, Choose, Blocked, Failed}"
  "is_allowed Monitor to \<longleftrightarrow> to \<in> {Finalize, Search, Add, NeedsInput, Blocked, Failed}"
  "is_allowed Finalize to \<longleftrightarrow> to \<in> {Done, NeedsInput, Blocked, Failed}"
  "is_allowed NeedsInput to \<longleftrightarrow> to \<in> {Search, Choose, Add, Monitor, Finalize, Failed, Done}"
  "is_allowed Blocked to \<longleftrightarrow> to \<in> {Search, Choose, Add, Monitor, Finalize, Failed}"
  "is_allowed Failed to \<longleftrightarrow> to \<in> {Search, Done}"
  "is_allowed Done to \<longleftrightarrow> False"
  by (cases to; simp add: is_allowed_iff TRANSITIONS_def)+

lemma is_allowed_refl [simp]: "\<not> is_allowed s s"
  by (simp add: is_allowed_def)

text \<open>The path of one job through the table.\<close>

inductive job_path :: "job_state \<Rightarrow> job_state \<Rightarrow> bool" where
  stay: "job_path s s"
| move: "job_path s t \<Longrightarrow> is_allowed t u \<Longrightarrow> job_path s u"

inductive_cases job_path_lastE: "job_path s u"

lemma job_path_one: "is_allowed s t \<Longrightarrow> job_path s t"
  by (rule job_path.move [OF job_path.stay])

lemma job_path_trans: "job_path s t \<Longrightarrow> job_path t u \<Longrightarrow> job_path s u"
proof (rotate_tac 1, induction t u rule: job_path.induct)
  case (stay t)
  then show ?case .
next
  case (move t v u)
  then show ?case by (blast intro: job_path.move)
qed

lemma job_path_from_Done: "job_path s t \<Longrightarrow> s = Done \<Longrightarrow> t = Done"
  by (induction rule: job_path.induct) (auto simp: is_allowed_eval)

section \<open>Kinds\<close>

definition kind_of_state :: "job_state \<Rightarrow> job_kind" where
  "kind_of_state s =
     (case s of Add \<Rightarrow> KAdd | Monitor \<Rightarrow> KMonitor | Finalize \<Rightarrow> KFinalize | _ \<Rightarrow> KSearch)"

definition kind_for :: "job_state \<Rightarrow> job_kind \<Rightarrow> job_state option \<Rightarrow> job_kind" where
  "kind_for to current blocked_from =
     (case to of
        Search \<Rightarrow> KSearch
      | Choose \<Rightarrow> KSearch
      | Add \<Rightarrow> KAdd
      | Monitor \<Rightarrow> KMonitor
      | Finalize \<Rightarrow> KFinalize
      | _ \<Rightarrow> (case blocked_from of Some f \<Rightarrow> kind_of_state f | None \<Rightarrow> current))"

lemma kind_for_active: "is_active to \<Longrightarrow> kind_for to k b = kind_of_state to"
  by (auto simp: is_active_def kind_for_def kind_of_state_def)

section \<open>Moving one job\<close>

record move_options =
  opt_clear_torrent :: bool
  opt_blocked_from :: "job_state option"
  opt_reset_attempts :: bool
  opt_count_attempt :: bool
  opt_next_run_at :: "time option"

definition MoveOptions_default :: move_options where
  "MoveOptions_default =
     \<lparr>opt_clear_torrent = False, opt_blocked_from = None, opt_reset_attempts = False,
      opt_count_attempt = False, opt_next_run_at = None\<rparr>"

definition MoveOptions_blocked :: "job_state \<Rightarrow> move_options" where
  "MoveOptions_blocked from = MoveOptions_default\<lparr>opt_blocked_from := Some from\<rparr>"

text \<open>The \<open>UPDATE\<close> that \<open>transition\<close> assembles, column by column.\<close>

definition moved_job :: "time \<Rightarrow> job_state \<Rightarrow> string \<Rightarrow> move_options \<Rightarrow> job \<Rightarrow> job" where
  "moved_job now to reason opts j =
     (let j1 = j\<lparr>job_state := to,
                 job_updated_at := now,
                 job_attempts := (if opt_reset_attempts opts then 0
                   else job_attempts j + (if opt_count_attempt opts then 1 else 0)),
                 job_kind := kind_for to (job_kind j) (opt_blocked_from opts)\<rparr>;
          j2 = (if opt_clear_torrent opts
                then j1\<lparr>job_torrent_id := None, job_progress := 0, job_last_progress_at := None\<rparr>
                else j1);
          j3 = (case opt_blocked_from opts of
                  Some f \<Rightarrow> j2\<lparr>job_blocked_from := Some f\<rparr>
                | None \<Rightarrow> if to \<noteq> Blocked then j2\<lparr>job_blocked_from := None\<rparr> else j2);
          j4 = (case opt_next_run_at opts of
                  Some n \<Rightarrow> j3\<lparr>job_next_run_at := Some n\<rparr>
                | None \<Rightarrow> if to = Blocked then j3\<lparr>job_next_run_at := Some (now + 30)\<rparr>
                          else j3\<lparr>job_next_run_at := None\<rparr>)
      in if to = Blocked \<or> to = Failed then j4\<lparr>job_last_error := Some reason\<rparr>
         else if job_state j = Blocked \<or> job_state j = Failed then j4\<lparr>job_last_error := None\<rparr>
         else j4)"

lemma moved_job_fields [simp]:
  "job_id (moved_job now to reason opts j) = job_id j"
  "job_episode_id (moved_job now to reason opts j) = job_episode_id j"
  "job_state (moved_job now to reason opts j) = to"
  "job_kind (moved_job now to reason opts j) = kind_for to (job_kind j) (opt_blocked_from opts)"
  "job_updated_at (moved_job now to reason opts j) = now"
  "job_created_at (moved_job now to reason opts j) = job_created_at j"
  "job_attempts (moved_job now to reason opts j) =
     (if opt_reset_attempts opts then 0
      else job_attempts j + (if opt_count_attempt opts then 1 else 0))"
  "job_torrent_id (moved_job now to reason opts j) =
     (if opt_clear_torrent opts then None else job_torrent_id j)"
  "job_progress (moved_job now to reason opts j) =
     (if opt_clear_torrent opts then 0 else job_progress j)"
  "job_last_progress_at (moved_job now to reason opts j) =
     (if opt_clear_torrent opts then None else job_last_progress_at j)"
  "job_next_run_at (moved_job now to reason opts j) =
     (case opt_next_run_at opts of Some n \<Rightarrow> Some n
      | None \<Rightarrow> if to = Blocked then Some (now + 30) else None)"
  "job_blocked_from (moved_job now to reason opts j) =
     (case opt_blocked_from opts of Some f \<Rightarrow> Some f
      | None \<Rightarrow> if to \<noteq> Blocked then None else job_blocked_from j)"
  "job_last_error (moved_job now to reason opts j) =
     (if to = Blocked \<or> to = Failed then Some reason
      else if job_state j = Blocked \<or> job_state j = Failed then None
      else job_last_error j)"
  by (simp_all add: moved_job_def Let_def split: option.split)

text \<open>\<open>SELECT e.mal_id FROM jobs j JOIN episodes e \<dots>\<close>, for the log line.\<close>

definition job_mal_id :: "int \<Rightarrow> world \<Rightarrow> int option" where
  "job_mal_id i w =
     (case the_job i w of
        None \<Rightarrow> None
      | Some j \<Rightarrow> map_option ep_mal_id (the_episode (job_episode_id j) w))"

definition arrow :: string where
  "arrow = [CHR '' '', CHR 0xE2, CHR 0x86, CHR 0x92, CHR '' '']"

definition transition_message :: "int \<Rightarrow> job_state \<Rightarrow> job_state \<Rightarrow> string \<Rightarrow> string" where
  "transition_message i from to reason =
     (if from = to then ''job '' @ show_int i @ '': '' @ reason
      else ''job '' @ show_int i @ '': '' @ JobState_as_str from @ arrow @ JobState_as_str to
        @ '' ('' @ reason @ '')'')"

definition transition :: "int \<Rightarrow> job_state \<Rightarrow> string \<Rightarrow> move_options \<Rightarrow> job_state run" where
  "transition i to reason opts =
     transact (
       seq (gets (the_job i)) (\<lambda>current.
       case current of
         None \<Rightarrow> throw (Other (''no job with id '' @ show_int i))
       | Some j \<Rightarrow>
           (let from = job_state j in
            if is_terminal from
            then throw (Other (''job '' @ show_int i @ '' is Done and never leaves that state''))
            else if from \<noteq> to \<and> \<not> is_allowed from to
            then throw (IllegalTransition from to i)
            else
              seq (gets w_now) (\<lambda>now.
              seq (modify (update_job i (moved_job now to reason opts))) (\<lambda>_.
              seq (gets (job_mal_id i)) (\<lambda>mal_id.
              seq (record_in Info (Some i) mal_id (transition_message i from to reason) now) (\<lambda>_.
              ret from)))))))"

definition can_move :: "job_state \<Rightarrow> job_state \<Rightarrow> bool" where
  "can_move from to \<longleftrightarrow> from \<noteq> Done \<and> (from = to \<or> is_allowed from to)"

definition after_transition :: "int \<Rightarrow> job_state \<Rightarrow> string \<Rightarrow> move_options \<Rightarrow> job \<Rightarrow> world \<Rightarrow> world" where
  "after_transition i to reason opts j w =
     snd (record_in Info (Some i) (map_option ep_mal_id (the_episode (job_episode_id j) w))
       (transition_message i (job_state j) to reason) (w_now w)
       (update_job i (moved_job (w_now w) to reason opts) w))"

text \<open>The call as one equation over its cases.\<close>

lemma transition_eq:
  "transition i to reason opts w =
     (case the_job i w of
        None \<Rightarrow> (Inl (Other (''no job with id '' @ show_int i)), w)
      | Some j \<Rightarrow>
          if job_state j = Done
          then (Inl (Other (''job '' @ show_int i @ '' is Done and never leaves that state'')), w)
          else if \<not> can_move (job_state j) to then (Inl (IllegalTransition (job_state j) to i), w)
          else (Inr (job_state j), after_transition i to reason opts j w))"
proof (cases "the_job i w")
  case None
  then show ?thesis by (simp add: transition_def transact_def)
next
  case (Some j)
  then have "job_mal_id i (update_job i (moved_job (w_now w) to reason opts) w) =
      map_option ep_mal_id (the_episode (job_episode_id j) w)"
    by (simp add: job_mal_id_def the_job_update)
  with Some show ?thesis
    by (auto simp: transition_def transact_def is_terminal_def can_move_def after_transition_def Let_def)
qed

lemma transition_ok_iff:
  "transition i to reason opts w = (Inr from, w') \<longleftrightarrow>
     (\<exists>j. the_job i w = Some j \<and> from = job_state j \<and> can_move from to \<and>
        w' = after_transition i to reason opts j w)"
  by (auto simp: transition_eq can_move_def split: option.split)

lemma after_transition_job:
  "the_job i w = Some j \<Longrightarrow>
   the_job k (after_transition i to reason opts j w) =
     (if k = i then Some (moved_job (w_now w) to reason opts j) else the_job k w)"
  by (simp add: after_transition_def the_job_update)

lemma after_transition_frame [simp]:
  "w_now (after_transition i to reason opts j w) = w_now w"
  "w_settings (after_transition i to reason opts j w) = w_settings w"
  "w_rules (after_transition i to reason opts j w) = w_rules w"
  "w_shows (after_transition i to reason opts j w) = w_shows w"
  "w_names (after_transition i to reason opts j w) = w_names w"
  "w_episodes (after_transition i to reason opts j w) = w_episodes w"
  "w_torrents (after_transition i to reason opts j w) = w_torrents w"
  "w_questions (after_transition i to reason opts j w) = w_questions w"
  "w_seq_jobs (after_transition i to reason opts j w) = w_seq_jobs w"
  "w_sent (after_transition i to reason opts j w) = w_sent w"
  by (simp_all add: after_transition_def)

lemma after_transition_events:
  "w_events (after_transition i to reason opts j w) = w_events w @
     [\<lparr>ev_id = w_seq_events w + 1, ev_at = w_now w, ev_level = Info, ev_job_id = Some i,
       ev_mal_id = map_option ep_mal_id (the_episode (job_episode_id j) w),
       ev_message = sanitize (transition_message i (job_state j) to reason)\<rparr>]"
  by (simp add: after_transition_def record_in_def Let_def)

text \<open>\<open>reschedule\<close> keeps the state; it writes the time, the reason and a log line.\<close>

definition reschedule :: "int \<Rightarrow> time \<Rightarrow> string \<Rightarrow> unit run" where
  "reschedule i next reason =
     transact (
       seq (gets (the_job i)) (\<lambda>current.
       case current of
         None \<Rightarrow> throw (Other (''no job with id '' @ show_int i))
       | Some j \<Rightarrow>
           seq (gets w_now) (\<lambda>now.
           seq (modify (update_job i (\<lambda>j. j\<lparr>job_next_run_at := Some next,
                job_last_error := Some reason, job_updated_at := now\<rparr>))) (\<lambda>_.
           seq (gets (job_mal_id i)) (\<lambda>mal_id.
           seq (record_in Info (Some i) mal_id (''job '' @ show_int i @ '': '' @ reason) now) (\<lambda>_.
           ret ()))))))"

lemma reschedule_ok:
  assumes "the_job i w = Some j"
  shows "\<exists>w'. reschedule i next reason w = (Inr (), w') \<and>
    (\<forall>k. the_job k w' = (if k = i then Some (j\<lparr>job_next_run_at := Some next,
        job_last_error := Some reason, job_updated_at := w_now w\<rparr>) else the_job k w)) \<and>
    w_questions w' = w_questions w \<and> w_settings w' = w_settings w \<and> w_now w' = w_now w \<and>
    w_episodes w' = w_episodes w \<and> w_torrents w' = w_torrents w \<and> w_sent w' = w_sent w"
  using assms
  by (simp add: reschedule_def transact_def the_job_update job_mal_id_def)

definition record_error :: "int \<Rightarrow> string \<Rightarrow> unit run" where
  "record_error i message = modify (update_job i (\<lambda>j. j\<lparr>job_last_error := Some message\<rparr>))"

section \<open>Creating jobs and candidates\<close>

definition foreign_key_failed :: error where
  "foreign_key_failed = Db ''FOREIGN KEY constraint failed''"

definition no_rows :: error where
  "no_rows = Db ''Query returned no rows''"

text \<open>The row \<open>SELECT id FROM jobs WHERE episode_id = ?1 AND kind = 'search' AND state != 'done'\<close>.\<close>

definition covering_job :: "int \<Rightarrow> world \<Rightarrow> job option" where
  "covering_job e w =
     List.find (\<lambda>j. job_episode_id j = e \<and> job_kind j = KSearch \<and> job_state j \<noteq> Done) (w_jobs w)"

definition new_job :: "int \<Rightarrow> int \<Rightarrow> time \<Rightarrow> job" where
  "new_job i e now =
     \<lparr>job_id = i, job_episode_id = e, job_kind = KSearch, job_state = Search,
      job_attempts = 0, job_next_run_at = None, job_last_error = None, job_torrent_id = None,
      job_created_at = now, job_updated_at = now, job_progress = 0,
      job_last_progress_at = None, job_blocked_from = None\<rparr>"

text \<open>
  \<open>enqueue_search\<close>. The number in the log line is an \<open>f64\<close> printed with
  \<open>Display\<close>; \<open>show_number\<close> is that formatting.
\<close>

definition enqueue_search :: "(f64 \<Rightarrow> string) \<Rightarrow> int \<Rightarrow> int run" where
  "enqueue_search show_number e =
     seq (gets (covering_job e)) (\<lambda>existing.
     case existing of
       Some j \<Rightarrow> ret (job_id j)
     | None \<Rightarrow>
         transact (
           seq (gets w_now) (\<lambda>now.
           seq (gets (the_episode e)) (\<lambda>row.
           case row of
             None \<Rightarrow> throw foreign_key_failed
           | Some ep \<Rightarrow>
               seq (gets (\<lambda>w. w_seq_jobs w + 1)) (\<lambda>i.
               seq (modify (\<lambda>w. w\<lparr>w_jobs := w_jobs w @ [new_job i e now], w_seq_jobs := i\<rparr>)) (\<lambda>_.
               seq (record_in Info (Some i) (Some (ep_mal_id ep))
                     (''queued search job '' @ show_int i @ '' for episode ''
                       @ show_number (ep_number ep)) now) (\<lambda>_.
               ret i)))))))"

record remembered_candidate =
  rc_info_hash :: string
  rc_name :: string
  rc_magnet :: string
  rc_seeders :: int
  rc_leechers :: int
  rc_size_bytes :: int
  rc_group :: "string option"
  rc_resolution :: "string option"
  rc_source_url :: "string option"
  rc_score :: f64
  rc_mal_id :: "int option"

definition new_torrent :: "int \<Rightarrow> remembered_candidate \<Rightarrow> time \<Rightarrow> torrent" where
  "new_torrent i c now =
     \<lparr>to_id = i, to_info_hash = rc_info_hash c, to_name = rc_name c, to_magnet = rc_magnet c,
      to_seeders = rc_seeders c, to_leechers = rc_leechers c, to_size = rc_size_bytes c,
      to_group = rc_group c, to_resolution = rc_resolution c, to_source_url = rc_source_url c,
      to_score = rc_score c, to_found_at = now, to_mal_id = rc_mal_id c, to_rejected = False,
      to_trusted = False\<rparr>"

definition known_show :: "world \<Rightarrow> int option \<Rightarrow> bool" where
  "known_show w m = (case m of None \<Rightarrow> True | Some x \<Rightarrow> x \<in> set (map sh_mal_id (w_shows w)))"

definition remember_candidate :: "remembered_candidate \<Rightarrow> int run" where
  "remember_candidate c =
     transact (\<lambda>w.
       if \<not> known_show w (rc_mal_id c) then (Inl foreign_key_failed, w)
       else case torrent_by_hash (rc_info_hash c) w of
         Some t \<Rightarrow>
           (Inr (to_id t),
            update_torrents (\<lambda>t. to_info_hash t = rc_info_hash c)
              (\<lambda>t. t\<lparr>to_seeders := rc_seeders c, to_leechers := rc_leechers c,
                     to_size := rc_size_bytes c, to_score := rc_score c,
                     to_mal_id := rc_mal_id c\<rparr>) w)
       | None \<Rightarrow>
           (let i = w_seq_torrents w + 1 in
            (Inr i, w\<lparr>w_torrents := w_torrents w @ [new_torrent i c (w_now w)],
                      w_seq_torrents := i\<rparr>)))"

definition reject_candidate :: "string \<Rightarrow> bool run" where
  "reject_candidate h =
     seq (gets (\<lambda>w. torrent_by_hash h w \<noteq> None)) (\<lambda>changed.
     seq (modify (update_torrents (\<lambda>t. to_info_hash t = h) (\<lambda>t. t\<lparr>to_rejected := True\<rparr>))) (\<lambda>_.
     ret changed))"

section \<open>Queries\<close>

definition is_due :: "time \<Rightarrow> job_kind list \<Rightarrow> job \<Rightarrow> bool" where
  "is_due now kinds j \<longleftrightarrow>
     (case job_next_run_at j of None \<Rightarrow> True | Some t \<Rightarrow> t \<le> now) \<and>
     (kinds = [] \<or> job_kind j \<in> set kinds) \<and>
     job_state j \<notin> {Blocked, NeedsInput, Failed, Done}"

definition due_jobs :: "time \<Rightarrow> job_kind list \<Rightarrow> nat \<Rightarrow> world \<Rightarrow> job list" where
  "due_jobs now kinds limit w =
     take limit (sort_key job_created_at (filter (is_due now kinds) (w_jobs w)))"

definition non_terminal_jobs :: "world \<Rightarrow> job list" where
  "non_terminal_jobs w = filter (\<lambda>j. job_state j \<noteq> Done) (w_jobs w)"

definition list_jobs :: "job_state option \<Rightarrow> nat \<Rightarrow> world \<Rightarrow> job list" where
  "list_jobs st limit w =
     take limit (sort_key job_created_at
       (case st of Some s \<Rightarrow> filter (\<lambda>j. job_state j = s) (w_jobs w) | None \<Rightarrow> w_jobs w))"

definition added_since :: "time \<Rightarrow> world \<Rightarrow> nat" where
  "added_since since w =
     length (filter (\<lambda>t. to_mal_id t \<noteq> None \<and> \<not> to_rejected t \<and> since \<le> to_found_at t) (w_torrents w))"

definition note_progress :: "int \<Rightarrow> f64 \<Rightarrow> bool \<Rightarrow> unit run" where
  "note_progress i progress moved =
     seq (gets w_now) (\<lambda>now.
     modify (update_job i (\<lambda>j. j\<lparr>job_progress := progress,
       job_last_progress_at := (if moved then Some now else job_last_progress_at j)\<rparr>)))"

section \<open>Backoff\<close>

definition ladder :: "nat list" where
  "ladder = [5, 30, 120, 600, 3600]"

text \<open>Seconds. \<open>LADDER.get(index).copied().unwrap_or(3600)\<close>.\<close>

definition backoff_delay :: "int \<Rightarrow> nat" where
  "backoff_delay attempts =
     (let index = nat (max attempts 1 - 1) in
      if index < length ladder then ladder ! index else 3600)"

definition with_jitter :: "f64 \<Rightarrow> f64 \<Rightarrow> f64" where
  "with_jitter delay sample =
     (let s = max 0 (min 1 sample) in delay + delay * ((1 / 4) * s))"

definition start_of_day :: "time \<Rightarrow> time" where
  "start_of_day t = t - t mod 86400"

lemma backoff_delay_cases:
  "backoff_delay a =
     (if a \<le> 1 then 5 else if a = 2 then 30 else if a = 3 then 120 else if a = 4 then 600 else 3600)"
proof -
  consider "a \<le> 1" | "a = 2" | "a = 3" | "a = 4" | "a = 5" | "a > 5" by linarith
  then show ?thesis
    by cases (auto simp: backoff_delay_def ladder_def Let_def)
qed

lemma start_of_day_bounds: "start_of_day t \<le> t \<and> t < start_of_day t + 86400 \<and> start_of_day t mod 86400 = 0"
proof -
  have "0 \<le> t mod 86400" "t mod 86400 < 86400"
    by (rule pos_mod_sign pos_mod_bound; simp)+
  moreover have "(t - t mod 86400) mod 86400 = 0"
    by (simp add: mod_diff_right_eq)
  ultimately show ?thesis
    unfolding start_of_day_def by linarith
qed

section \<open>The contract of the jobs table\<close>

text \<open>
  \<open>job_ok\<close>: the columns of one row fit each other. A blocked job remembers the main
  state it left, has that state's kind and a time to try again; no other job
  remembers one. The kind of a job in a main state is that state's kind, except in
  \<open>Add\<close>, which \<open>force_add\<close> of the inbox writes without it.
\<close>

definition job_ok :: "job \<Rightarrow> bool" where
  "job_ok j \<longleftrightarrow>
     0 \<le> job_attempts j \<and>
     (job_state j = Blocked \<longleftrightarrow> job_blocked_from j \<noteq> None) \<and>
     (\<forall>s. job_blocked_from j = Some s \<longrightarrow> is_active s \<and> job_kind j = kind_of_state s) \<and>
     (job_state j = Blocked \<longrightarrow> job_next_run_at j \<noteq> None) \<and>
     (is_active (job_state j) \<and> job_state j \<noteq> Add \<longrightarrow> job_kind j = kind_of_state (job_state j))"

text \<open>The moves the code asks for: to a state that is not \<open>Blocked\<close>, or from a main state to it.\<close>

definition safe_move :: "job_state \<Rightarrow> move_options \<Rightarrow> bool" where
  "safe_move to opts \<longleftrightarrow>
     (if to = Blocked then (\<exists>s. opt_blocked_from opts = Some s \<and> is_active s)
      else opt_blocked_from opts = None)"

lemma moved_job_ok: "safe_move to opts \<Longrightarrow> job_ok j \<Longrightarrow> job_ok (moved_job now to reason opts j)"
  by (cases to) (auto simp: job_ok_def safe_move_def kind_for_def kind_of_state_def is_active_def
      split: option.split)

lemma safe_move_simps [simp]:
  "to \<noteq> Blocked \<Longrightarrow> opt_blocked_from opts = None \<Longrightarrow> safe_move to opts"
  "is_active s \<Longrightarrow> safe_move Blocked (MoveOptions_blocked s)"
  "opt_blocked_from MoveOptions_default = None"
  by (simp_all add: safe_move_def MoveOptions_blocked_def MoveOptions_default_def)

lemma new_job_ok: "job_ok (new_job i e now)"
  by (simp add: job_ok_def new_job_def is_active_def kind_of_state_def)

text \<open>
  \<open>moves_by P w w'\<close>: from \<open>w\<close> to \<open>w'\<close> every job that is still there went from its
  old state \<open>s\<close> to its new one \<open>t\<close> with \<open>P id s t\<close>, and every new job is in
  \<open>Search\<close>'s place of the relation. Ids come from the counter: no two rows share
  one and no row is above it, and all rows are \<open>job_ok\<close>; the relation carries this
  along, which makes it reflexive on every state.
\<close>

definition jobs_counted :: "world \<Rightarrow> bool" where
  "jobs_counted w \<longleftrightarrow>
     distinct (map job_id (w_jobs w)) \<and>
     (\<forall>j \<in> set (w_jobs w). job_id j \<le> w_seq_jobs w \<and> job_ok j)"

definition moves_by :: "(int \<Rightarrow> job_state \<Rightarrow> job_state \<Rightarrow> bool) \<Rightarrow> world \<Rightarrow> world \<Rightarrow> bool" where
  "moves_by P w w' \<longleftrightarrow>
     (jobs_counted w \<longrightarrow>
        jobs_counted w' \<and> w_seq_jobs w \<le> w_seq_jobs w' \<and>
        (\<forall>k j'. the_job k w' = Some j' \<longrightarrow>
           (if k \<le> w_seq_jobs w
            then (\<exists>j. the_job k w = Some j \<and> P k (job_state j) (job_state j'))
            else P k Search (job_state j'))))"

text \<open>No state changes; any path of the table; at most one move, of job \<open>i\<close> alone.\<close>

definition states_kept :: "world \<Rightarrow> world \<Rightarrow> bool" where
  "states_kept = moves_by (\<lambda>k s t. t = s)"

definition jobs_evolve :: "world \<Rightarrow> world \<Rightarrow> bool" where
  "jobs_evolve = moves_by (\<lambda>k. job_path)"

definition one_move :: "int \<Rightarrow> world \<Rightarrow> world \<Rightarrow> bool" where
  "one_move i = moves_by (\<lambda>k s t. t = s \<or> (k = i \<and> is_allowed s t))"

lemma jobs_countedD: "jobs_counted w \<Longrightarrow> the_job k w = Some j \<Longrightarrow> k \<le> w_seq_jobs w"
  by (auto simp: jobs_counted_def dest: find_row_Some_iff_in)

lemma moves_by_refl: "(\<And>k s. P k s s) \<Longrightarrow> moves_by P w w"
  by (auto simp: moves_by_def dest: jobs_countedD)

lemma moves_by_mono: "moves_by P w w' \<Longrightarrow> (\<And>k s t. P k s t \<Longrightarrow> Q k s t) \<Longrightarrow> moves_by Q w w'"
  unfolding moves_by_def by (simp only: if_split) metis

lemma moves_by_comp:
  assumes wu: "moves_by P w u" and uv: "moves_by Q u v"
    and comp: "\<And>k s t r. P k s t \<Longrightarrow> Q k t r \<Longrightarrow> R k s r"
    and start: "\<And>k s t. Q k s t \<Longrightarrow> R k s t"
  shows "moves_by R w v"
  unfolding moves_by_def
proof (intro impI conjI allI)
  assume w: "jobs_counted w"
  with wu have u: "jobs_counted u" and le: "w_seq_jobs w \<le> w_seq_jobs u"
    by (simp_all add: moves_by_def)
  with uv show "jobs_counted v" "w_seq_jobs w \<le> w_seq_jobs v"
    by (auto simp: moves_by_def)
  fix k jv
  assume v: "the_job k v = Some jv"
  show "if k \<le> w_seq_jobs w
        then \<exists>j. the_job k w = Some j \<and> R k (job_state j) (job_state jv)
        else R k Search (job_state jv)"
  proof (cases "k \<le> w_seq_jobs u")
    case True
    with uv u v have "\<exists>ju. the_job k u = Some ju \<and> Q k (job_state ju) (job_state jv)"
      unfolding moves_by_def by presburger
    then obtain ju where ju: "the_job k u = Some ju" "Q k (job_state ju) (job_state jv)"
      by blast
    with wu w have "if k \<le> w_seq_jobs w
        then \<exists>j. the_job k w = Some j \<and> P k (job_state j) (job_state ju)
        else P k Search (job_state ju)"
      unfolding moves_by_def by blast
    with ju(2) comp show ?thesis
      by (auto split: if_splits)
  next
    case False
    with uv u v have "Q k Search (job_state jv)" unfolding moves_by_def by presburger
    with False le start show ?thesis by auto
  qed
qed

interpretation kept_evo: evolution states_kept
proof
  show "states_kept w w" for w by (simp add: states_kept_def moves_by_refl)
  show "states_kept w u \<Longrightarrow> states_kept u v \<Longrightarrow> states_kept w v" for w u v
    unfolding states_kept_def by (erule (1) moves_by_comp) simp_all
qed

interpretation jobs_evo: evolution jobs_evolve
proof
  show "jobs_evolve w w" for w by (simp add: jobs_evolve_def moves_by_refl job_path.stay)
  show "jobs_evolve w u \<Longrightarrow> jobs_evolve u v \<Longrightarrow> jobs_evolve w v" for w u v
    unfolding jobs_evolve_def by (erule (1) moves_by_comp) (auto intro: job_path_trans)
qed

interpretation move_obs: observation "one_move i" for i
  by unfold_locales (simp add: one_move_def moves_by_refl)

text \<open>What keeps the states is a move of any kind; a move may follow it.\<close>

lemma kept_evolves: "evolves states_kept m \<Longrightarrow> evolves jobs_evolve m"
  unfolding evolves_def states_kept_def jobs_evolve_def
  by (auto intro: moves_by_mono job_path.stay)

lemma kept_one_move: "evolves states_kept m \<Longrightarrow> evolves (one_move i) m"
  unfolding evolves_def states_kept_def one_move_def by (auto intro: moves_by_mono)

lemma one_move_evolves: "one_move i w w' \<Longrightarrow> jobs_evolve w w'"
  unfolding one_move_def jobs_evolve_def
  by (erule moves_by_mono) (auto intro: job_path.stay job_path_one)

lemma one_move_seq:
  assumes m: "evolves states_kept m" and f: "\<And>x. evolves (one_move i) (f x)"
  shows "evolves (one_move i) (seq m f)"
proof (rule evolvesI)
  fix w
  show "one_move i w (snd (seq m f w))"
  proof (cases "m w")
    case (Pair r u)
    have k: "states_kept w u" using evolvesD [OF m, of w] Pair by simp
    show ?thesis
    proof (cases r)
      case (Inl e)
      with Pair k show ?thesis
        unfolding states_kept_def one_move_def by (auto intro: moves_by_mono)
    next
      case (Inr x)
      have "one_move i u (snd (f x u))" by (rule evolvesD [OF f])
      with k have "one_move i w (snd (f x u))"
        unfolding states_kept_def one_move_def by (rule moves_by_comp) auto
      with Pair Inr show ?thesis by simp
    qed
  qed
qed

lemma one_move_after:
  assumes m: "evolves (one_move i) m" and f: "\<And>x. evolves states_kept (f x)"
  shows "evolves (one_move i) (seq m f)"
proof (rule evolvesI)
  fix w
  show "one_move i w (snd (seq m f w))"
  proof (cases "m w")
    case (Pair r u)
    have k: "one_move i w u" using evolvesD [OF m, of w] Pair by simp
    show ?thesis
    proof (cases r)
      case (Inl e)
      with Pair k show ?thesis by simp
    next
      case (Inr x)
      have "states_kept u (snd (f x u))" by (rule evolvesD [OF f])
      with k have "one_move i w (snd (f x u))"
        unfolding states_kept_def one_move_def by (rule moves_by_comp) auto
      with Pair Inr show ?thesis by simp
    qed
  qed
qed

lemma one_move_evolve: "evolves (one_move i) m \<Longrightarrow> evolves jobs_evolve m"
  by (auto simp: evolves_def intro: one_move_evolves)

text \<open>The primitive writes.\<close>

lemma states_kept_frame:
  assumes "w_jobs w' = w_jobs w" "w_seq_jobs w' = w_seq_jobs w"
  shows "states_kept w w'"
  using assms kept_evo.evo_refl [of w]
  by (simp add: states_kept_def moves_by_def jobs_counted_def)

lemma moves_by_update:
  assumes "\<And>j. job_id (f j) = job_id j" "\<And>k s. P k s s"
    and "\<And>j. the_job i w = Some j \<Longrightarrow> P i (job_state j) (job_state (f j))"
    and ok: "\<And>j. job_ok j \<Longrightarrow> job_ok (f j)"
  shows "moves_by P w (update_job i f w)"
  unfolding moves_by_def
proof (intro impI conjI allI)
  assume ids: "jobs_counted w"
  have same: "map job_id (w_jobs (update_job i f w)) = map job_id (w_jobs w)"
    by (rule job_ids_update) (rule assms(1))
  then have "job_id ` set (w_jobs (update_job i f w)) = job_id ` set (w_jobs w)"
    by (metis list.set_map)
  then have "\<forall>j\<in>set (w_jobs (update_job i f w)). job_id j \<in> job_id ` set (w_jobs w)"
    by blast
  moreover have "\<forall>j\<in>set (w_jobs (update_job i f w)). job_ok j"
    using ids ok by (auto simp: update_job_def update_rows_def jobs_counted_def)
  ultimately show "jobs_counted (update_job i f w)"
    using ids same by (auto simp: jobs_counted_def)
  show "w_seq_jobs w \<le> w_seq_jobs (update_job i f w)" by simp
  fix k j'
  assume "the_job k (update_job i f w) = Some j'"
  then show "if k \<le> w_seq_jobs w
      then \<exists>j. the_job k w = Some j \<and> P k (job_state j) (job_state j')
      else P k Search (job_state j')"
    using assms ids by (auto simp: the_job_update dest: jobs_countedD split: if_splits)
qed

lemma states_kept_insert:
  assumes "job_id j = w_seq_jobs w + 1" "job_state j = Search" "job_ok j"
  shows "states_kept w (w\<lparr>w_jobs := w_jobs w @ [j], w_seq_jobs := w_seq_jobs w + 1\<rparr>)"
  unfolding states_kept_def moves_by_def
proof (intro impI conjI allI)
  let ?w' = "w\<lparr>w_jobs := w_jobs w @ [j], w_seq_jobs := w_seq_jobs w + 1\<rparr>"
  assume ids: "jobs_counted w"
  then have "job_id j \<notin> job_id ` set (w_jobs w)"
    using assms(1) by (fastforce simp: jobs_counted_def)
  with ids assms show "jobs_counted ?w'"
    by (auto simp: jobs_counted_def)
  show "w_seq_jobs w \<le> w_seq_jobs ?w'" by simp
  fix k j'
  assume "the_job k ?w' = Some j'"
  with ids assms show "if k \<le> w_seq_jobs w
      then \<exists>j. the_job k w = Some j \<and> job_state j' = job_state j
      else job_state j' = Search"
    by (auto simp: find_row_append dest: jobs_countedD split: option.splits if_splits)
qed

lemma states_kept_delete: "states_kept w (w\<lparr>w_jobs := filter P (w_jobs w)\<rparr>)"
  by (auto simp: states_kept_def moves_by_def jobs_counted_def find_row_filter distinct_keys_filter
      dest: find_row_Some_iff_in split: option.splits if_splits)

text \<open>The operations that keep the states.\<close>

lemma kept_update_job [kept_intros]:
  "(\<And>j. job_id (f j) = job_id j) \<Longrightarrow> (\<And>j. job_state (f j) = job_state j) \<Longrightarrow>
   (\<And>j. job_ok j \<Longrightarrow> job_ok (f j)) \<Longrightarrow> evolves states_kept (modify (update_job i f))"
  unfolding states_kept_def by (intro evolvesI) (simp add: moves_by_update)

lemma kept_frame_modify:
  "(\<And>w. w_jobs (f w) = w_jobs w) \<Longrightarrow> (\<And>w. w_seq_jobs (f w) = w_seq_jobs w) \<Longrightarrow>
   evolves states_kept (modify f)"
  by (auto intro!: kept_evo.ev_modify states_kept_frame)

lemma kept_record_in [kept_intros]: "evolves states_kept (record_in l j m msg ts)"
  by (auto intro!: evolvesI states_kept_frame)

lemma kept_record_event [kept_intros]:
  "evolves states_kept (record_event l j m msg)" "evolves states_kept (log_info j m msg)"
  "evolves states_kept (log_warn j m msg)"
  by (auto simp: log_info_def log_warn_def intro!: evolvesI states_kept_frame)

lemma kept_reschedule [kept_intros]: "evolves states_kept (reschedule i next reason)"
  unfolding reschedule_def
  by (intro kept_evo.ev_rules kept_intros; simp add: job_ok_def)

lemma kept_enqueue_search [kept_intros]: "evolves states_kept (enqueue_search sn e)"
proof (rule evolvesI)
  fix w
  show "states_kept w (snd (enqueue_search sn e w))"
  proof (cases "covering_job e w = None \<and> the_episode e w \<noteq> None")
    case True
    let ?u = "w\<lparr>w_jobs := w_jobs w @ [new_job (w_seq_jobs w + 1) e (w_now w)],
      w_seq_jobs := w_seq_jobs w + 1\<rparr>"
    have "states_kept w ?u"
      by (rule states_kept_insert) (simp_all add: new_job_ok, simp_all add: new_job_def)
    moreover from True have "states_kept ?u (snd (enqueue_search sn e w))"
      by (intro states_kept_frame) (auto simp: enqueue_search_def transact_def)
    ultimately show ?thesis by (rule kept_evo.evo_trans)
  next
    case False
    then have "snd (enqueue_search sn e w) = w"
      by (auto simp: enqueue_search_def transact_def split: option.split)
    then show ?thesis by (simp add: kept_evo.evo_refl)
  qed
qed

lemma kept_remember_candidate [kept_intros]: "evolves states_kept (remember_candidate c)"
  by (auto intro!: evolvesI states_kept_frame
      simp: remember_candidate_def transact_def update_torrents_def Let_def split: option.split)

lemma kept_reject_candidate [kept_intros]: "evolves states_kept (reject_candidate h)"
  unfolding reject_candidate_def update_torrents_def
  by (intro kept_evo.ev_rules kept_frame_modify) simp_all

lemma kept_note_progress [kept_intros]: "evolves states_kept (note_progress i p m)"
  unfolding note_progress_def
  by (intro kept_evo.ev_rules kept_intros; simp add: job_ok_def)

text \<open>The one operation that moves.\<close>

lemma one_move_transition [move_intros]:
  assumes "safe_move to opts"
  shows "evolves (one_move i) (transition i to reason opts)"
proof (rule evolvesI)
  fix w
  show "one_move i w (snd (transition i to reason opts w))"
  proof (cases "\<exists>j. the_job i w = Some j \<and> can_move (job_state j) to")
    case True
    then obtain j where j: "the_job i w = Some j" "can_move (job_state j) to" by blast
    then have eq: "snd (transition i to reason opts w) = after_transition i to reason opts j w"
      by (auto simp: transition_eq can_move_def)
    have "moves_by (\<lambda>k s t. t = s \<or> (k = i \<and> is_allowed s t)) w
        (update_job i (moved_job (w_now w) to reason opts) w)"
      using j moved_job_ok [OF assms] by (intro moves_by_update) (auto simp: can_move_def)
    moreover have "moves_by (\<lambda>k s t. t = s) (update_job i (moved_job (w_now w) to reason opts) w)
        (after_transition i to reason opts j w)"
      unfolding states_kept_def [symmetric]
      by (rule states_kept_frame) (simp_all add: after_transition_def)
    ultimately show ?thesis
      unfolding one_move_def eq by (rule moves_by_comp) auto
  next
    case False
    then have "snd (transition i to reason opts w) = w"
      by (auto simp: transition_eq split: option.split)
    then show ?thesis unfolding one_move_def by (simp add: moves_by_refl)
  qed
qed

lemma evolve_transition [evolve_intros]:
  "safe_move to opts \<Longrightarrow> evolves jobs_evolve (transition i to reason opts)"
  by (rule one_move_evolve) (rule one_move_transition)

lemmas evolve_jobs [evolve_intros] =
  kept_update_job [THEN kept_evolves] kept_record_in [THEN kept_evolves]
  kept_record_event [THEN kept_evolves] kept_reschedule [THEN kept_evolves]
  kept_enqueue_search [THEN kept_evolves] kept_remember_candidate [THEN kept_evolves]
  kept_reject_candidate [THEN kept_evolves] kept_note_progress [THEN kept_evolves]

lemmas evolve_frame_modify = kept_frame_modify [THEN kept_evolves]

lemma jobs_evolve_frame: "w_jobs w' = w_jobs w \<Longrightarrow> w_seq_jobs w' = w_seq_jobs w \<Longrightarrow> jobs_evolve w w'"
  using states_kept_frame [of w' w] unfolding states_kept_def jobs_evolve_def
  by (auto intro: moves_by_mono job_path.stay)

section \<open>Properties\<close>

text \<open>
  \<open>transition\<close> exactly. An unknown job, a finished job and a move that the table
  does not list are refused with an error and leave the store as it was. Every
  other call returns the old state, moves this job alone (its episode, its
  attempt counter and its torrent change only as the options say; it remembers a
  main state only as \<open>blocked_from\<close> says), adds one line to the Activity log with
  the job's id, and changes no other table.
\<close>

theorem transition_spec:
  "case the_job i w of
     None \<Rightarrow> transition i to reason opts w = (Inl (Other (''no job with id '' @ show_int i)), w)
   | Some j \<Rightarrow>
       if job_state j \<noteq> Done \<and> (job_state j = to \<or> is_allowed (job_state j) to)
       then (\<exists>w' j' line. transition i to reason opts w = (Inr (job_state j), w') \<and>
         the_job i w' = Some j' \<and> job_state j' = to \<and> job_episode_id j' = job_episode_id j \<and>
         job_created_at j' = job_created_at j \<and> job_updated_at j' = w_now w \<and>
         job_attempts j' = (if opt_reset_attempts opts then 0
           else job_attempts j + (if opt_count_attempt opts then 1 else 0)) \<and>
         job_torrent_id j' = (if opt_clear_torrent opts then None else job_torrent_id j) \<and>
         job_blocked_from j' = (if opt_blocked_from opts \<noteq> None then opt_blocked_from opts
           else if to = Blocked then job_blocked_from j else None) \<and>
         filter (\<lambda>x. job_id x \<noteq> i) (w_jobs w') = filter (\<lambda>x. job_id x \<noteq> i) (w_jobs w) \<and>
         w_events w' = w_events w @ [line] \<and> ev_job_id line = Some i \<and> ev_at line = w_now w \<and>
         w_episodes w' = w_episodes w \<and> w_torrents w' = w_torrents w \<and> w_names w' = w_names w \<and>
         w_shows w' = w_shows w \<and> w_questions w' = w_questions w \<and> w_rules w' = w_rules w \<and>
         w_settings w' = w_settings w \<and> w_sent w' = w_sent w)
       else (\<exists>e. transition i to reason opts w = (Inl e, w))"
proof (cases "the_job i w")
  case None
  then show ?thesis by (simp add: transition_eq)
next
  case (Some j)
  show ?thesis
  proof (cases "job_state j \<noteq> Done \<and> (job_state j = to \<or> is_allowed (job_state j) to)")
    case False
    then show ?thesis using Some by (auto simp: transition_eq can_move_def)
  next
    case True
    let ?w = "after_transition i to reason opts j w"
    have "transition i to reason opts w = (Inr (job_state j), ?w)"
      using Some True by (auto simp: transition_eq can_move_def)
    moreover have "filter (\<lambda>x. job_id x \<noteq> i) (w_jobs ?w) = filter (\<lambda>x. job_id x \<noteq> i) (w_jobs w)"
      by (simp add: after_transition_def update_job_def filter_other_update_rows)
    moreover have "the_job i ?w = Some (moved_job (w_now w) to reason opts j)"
      by (simp add: after_transition_job [OF Some])
    ultimately show ?thesis
      using Some True by (auto simp: after_transition_events split: option.split)
  qed
qed

text \<open>
  \<open>due_jobs\<close> hands out the oldest due jobs: what it returns together with what
  it leaves out is, as a multiset, all due jobs of the asked kinds; the two in a
  row are in order of creation; it returns as many as the limit lets it; and
  every job it returns is in a main state with its waiting time over.
\<close>

theorem due_jobs_spec:
  "(\<exists>left. mset (due_jobs now kinds limit w) + mset left = mset (filter (is_due now kinds) (w_jobs w)) \<and>
      sorted (map job_created_at (due_jobs now kinds limit w @ left)) \<and>
      length (due_jobs now kinds limit w) = min limit (length (filter (is_due now kinds) (w_jobs w)))) \<and>
   list_all (\<lambda>j. is_active (job_state j) \<and>
      (case job_next_run_at j of None \<Rightarrow> True | Some t \<Rightarrow> t \<le> now)) (due_jobs now kinds limit w)"
proof
  let ?s = "sort_key job_created_at (filter (is_due now kinds) (w_jobs w))"
  have split: "due_jobs now kinds limit w @ drop limit ?s = ?s" by (simp add: due_jobs_def)
  then have "mset (due_jobs now kinds limit w) + mset (drop limit ?s) = mset ?s"
    by (metis mset_append)
  moreover have "sorted (map job_created_at (due_jobs now kinds limit w @ drop limit ?s))"
    unfolding split by simp
  moreover have "length (due_jobs now kinds limit w) = min limit (length (filter (is_due now kinds) (w_jobs w)))"
    by (simp add: due_jobs_def min.commute)
  ultimately show "\<exists>left. mset (due_jobs now kinds limit w) + mset left = mset (filter (is_due now kinds) (w_jobs w)) \<and>
      sorted (map job_created_at (due_jobs now kinds limit w @ left)) \<and>
      length (due_jobs now kinds limit w) = min limit (length (filter (is_due now kinds) (w_jobs w)))"
    by auto
  have "is_due now kinds j" if "j \<in> set (due_jobs now kinds limit w)" for j
    using in_set_takeD [of j limit ?s] that by (simp add: due_jobs_def)
  moreover have "is_active s" if "s \<notin> {Blocked, NeedsInput, Failed, Done}" for s
    using that by (cases s) (auto simp: is_active_def)
  ultimately show "list_all (\<lambda>j. is_active (job_state j) \<and>
      (case job_next_run_at j of None \<Rightarrow> True | Some t \<Rightarrow> t \<le> now)) (due_jobs now kinds limit w)"
    by (auto simp: list_all_iff is_due_def)
qed

text \<open>
  Queueing an episode is idempotent: a first call answers with a job of that
  episode that is in the table and not finished, and a second call answers with
  the same job and changes nothing.
\<close>

theorem enqueue_search_idempotent:
  assumes "jobs_counted w" "the_episode e w \<noteq> None"
  shows "\<exists>i w1 j. enqueue_search shown e w = (Inr i, w1) \<and> enqueue_search shown e w1 = (Inr i, w1) \<and>
    the_job i w1 = Some j \<and> job_episode_id j = e \<and> job_kind j = KSearch \<and> job_state j \<noteq> Done"
proof (cases "covering_job e w")
  case (Some j)
  then have "j \<in> set (w_jobs w)" and j: "job_episode_id j = e" "job_kind j = KSearch" "job_state j \<noteq> Done"
    by (auto simp: covering_job_def find_Some_iff)
  moreover have "the_job (job_id j) w = Some j" if "j \<in> set (w_jobs w)"
    using assms(1) that by (intro find_row_distinct) (simp_all add: jobs_counted_def)
  ultimately show ?thesis using Some by (intro exI [of _ "job_id j"]) (simp add: enqueue_search_def)
next
  case None
  obtain ep where ep: "the_episode e w = Some ep" using assms(2) by blast
  let ?i = "w_seq_jobs w + 1" and ?j = "new_job (w_seq_jobs w + 1) e (w_now w)"
  obtain w1 where w1: "enqueue_search shown e w = (Inr ?i, w1)" "w_jobs w1 = w_jobs w @ [?j]"
    using None ep by (simp add: enqueue_search_def transact_def)
  have "covering_job e w1 = Some ?j"
    using None w1(2) by (simp add: covering_job_def find_append new_job_def)
  then have "enqueue_search shown e w1 = (Inr ?i, w1)" by (simp add: enqueue_search_def new_job_def)
  moreover have "the_job ?i w1 = Some ?j"
    using jobs_countedD [OF assms(1), of ?i] w1(2)
    by (cases "the_job ?i w") (auto simp: find_row_append new_job_def)
  ultimately show ?thesis using w1(1) by (auto simp: new_job_def)
qed

theorem enqueue_search_idempotent_witness:
  "\<exists>i w1. enqueue_search (\<lambda>_. ''1'') 1 (sample_store []) = (Inr i, w1) \<and> the_job i w1 \<noteq> None"
proof -
  have "jobs_counted (sample_store [])" "the_episode 1 (sample_store []) \<noteq> None"
    by (simp_all add: jobs_counted_def sample_defs)
  from enqueue_search_idempotent [OF this, of "\<lambda>_. ''1''"] show ?thesis by auto
qed

definition live_jobs :: "int \<Rightarrow> world \<Rightarrow> job list" where
  "live_jobs e w = filter (\<lambda>j. job_episode_id j = e \<and> job_state j \<noteq> Done) (w_jobs w)"

text \<open>
  The check of \<open>enqueue_search\<close> reads the \<open>kind\<close> column, which changes as the
  job advances. An episode whose live jobs have all left the kind \<open>search\<close> (one is
  being added, watched or filed) gets a second live job when it is queued again.
\<close>

theorem enqueue_search_duplicates:
  assumes "the_episode e w \<noteq> None"
    and "\<forall>j\<in>set (w_jobs w). job_episode_id j = e \<longrightarrow> job_kind j \<noteq> KSearch"
  shows "length (live_jobs e (snd (enqueue_search shown e w))) = length (live_jobs e w) + 1"
proof -
  have "covering_job e w = None"
    using assms(2) by (auto simp: covering_job_def find_None_iff)
  moreover obtain ep where "the_episode e w = Some ep" using assms(1) by blast
  ultimately show ?thesis
    by (simp add: enqueue_search_def transact_def live_jobs_def new_job_def)
qed

theorem enqueue_search_duplicates_witness:
  "length (live_jobs 1 (snd (enqueue_search (\<lambda>_. ''1'') 1 (sample_store [sample_job 3 KMonitor Monitor])))) = 2"
proof -
  have "the_episode 1 (sample_store [sample_job 3 KMonitor Monitor]) \<noteq> None"
    "\<forall>j\<in>set (w_jobs (sample_store [sample_job 3 KMonitor Monitor])). job_episode_id j = 1 \<longrightarrow> job_kind j \<noteq> KSearch"
    by (simp_all add: sample_defs)
  from enqueue_search_duplicates [OF this, of "\<lambda>_. ''1''"] show ?thesis
    by (simp add: live_jobs_def sample_defs)
qed

end
