(* ===== verification/Filename.thy ===== *)
theory Filename
  imports Prelude
begin

text \<open>
  \<open>filename/normalize.rs\<close>: the edit distance and the fuzzy ratio that compare
  titles, and \<open>clean_title\<close>. The two rows of the dynamic program are lists
  that are written by index, as the \<open>Vec\<close>s of the source are.
  \<open>edit_script\<close> is the specification the distance is proved against.
\<close>

named_theorems distance_simps \<open>unfolding rules of the dynamic program\<close>

section \<open>Edit distance\<close>

definition lev_cost :: "'a \<Rightarrow> 'a \<Rightarrow> nat" where
  "lev_cost x y = (if x = y then 0 else 1)"

text \<open>\<open>cur[j + 1] = (prev[j] + cost).min(prev[j + 1] + 1).min(cur[j] + 1)\<close>\<close>

definition lev_cell :: "'a \<Rightarrow> nat list \<Rightarrow> nat list \<Rightarrow> nat \<times> 'a \<Rightarrow> nat list" where
  "lev_cell ca prev cur jcb =
     (case jcb of (j, cb) \<Rightarrow>
        cur[j + 1 := min (min (prev ! j + lev_cost ca cb) (prev ! (j + 1) + 1)) (cur ! j + 1)])"

text \<open>One turn of the outer loop; the pair is \<open>(prev, cur)\<close>, swapped at its end.\<close>

definition lev_row :: "'a list \<Rightarrow> nat list \<times> nat list \<Rightarrow> nat \<times> 'a \<Rightarrow> nat list \<times> nat list" where
  "lev_row b rows ica =
     (case rows of (prev, cur) \<Rightarrow> case ica of (i, ca) \<Rightarrow>
        (foldl (lev_cell ca prev) (cur[0 := i + 1]) (enumerate 0 b), prev))"

definition levenshtein :: "'a list \<Rightarrow> 'a list \<Rightarrow> nat" where
  "levenshtein a b =
     (let rows = foldl (lev_row b) ([0..<length b + 1], replicate (length b + 1) 0) (enumerate 0 a)
      in fst rows ! length b)"

definition fuzzy_ratio :: "string \<Rightarrow> string \<Rightarrow> real" where
  "fuzzy_ratio a b =
     (if a = [] \<and> b = [] then 1
      else if a = [] \<or> b = [] then 0
      else 1 - real (levenshtein a b) / real (max (length a) (length b)))"

text \<open>The recurrence the rows compute, on the reversed prefixes.\<close>

fun dist :: "'a list \<Rightarrow> 'a list \<Rightarrow> nat" where
  "dist [] ys = length ys"
| "dist (x # xs) [] = Suc (length xs)"
| "dist (x # xs) (y # ys) =
     min (min (dist xs ys + lev_cost x y) (dist xs (y # ys) + 1)) (dist (x # xs) ys + 1)"

abbreviation pre :: "'a list \<Rightarrow> nat \<Rightarrow> 'a list" where
  "pre xs i \<equiv> rev (take i xs)"

lemma pre_Suc: "i < length xs \<Longrightarrow> pre xs (Suc i) = xs ! i # pre xs i"
  by (simp add: take_Suc_conv_app_nth)

lemma dist_Nil2: "dist xs [] = length xs"
  by (cases xs) auto

text \<open>The inner loop fills the row \<open>j \<mapsto> dist (pre a (i + 1)) (pre b j)\<close>.\<close>

definition row_of :: "'a list \<Rightarrow> 'a list \<Rightarrow> nat list" where
  "row_of xs b = map (\<lambda>j. dist xs (pre b j)) [0..<length b + 1]"

lemma length_row_of [simp]: "length (row_of xs b) = length b + 1"
  by (simp add: row_of_def)

lemma nth_row_of: "j \<le> length b \<Longrightarrow> row_of xs b ! j = dist xs (pre b j)"
  unfolding row_of_def by (subst nth_map) (auto simp del: upt_Suc)

lemma lev_cell_step:
  assumes "j < length b" "length cur = length b + 1"
    and "take (j + 1) cur = take (j + 1) (row_of (x # xs) b)"
  shows "take (j + 2) (lev_cell x (row_of xs b) cur (j, b ! j)) = take (j + 2) (row_of (x # xs) b)"
proof -
  have left: "cur ! j = dist (x # xs) (pre b j)"
    using assms nth_row_of [of j b "x # xs"]
    by (metis add.commute less_Suc_eq nth_take plus_1_eq_Suc less_imp_le_nat)
  have new: "min (min (row_of xs b ! j + lev_cost x (b ! j)) (row_of xs b ! (j + 1) + 1)) (cur ! j + 1)
      = row_of (x # xs) b ! (j + 1)"
    using assms(1) by (simp add: left nth_row_of pre_Suc Suc_le_eq)
  have "take (Suc (j + 1)) (cur[j + 1 := v]) = take (j + 1) cur @ [v]" for v
    using assms(1,2) by (simp add: take_Suc_conv_app_nth)
  moreover have "take (Suc (j + 1)) (row_of (x # xs) b) =
      take (j + 1) (row_of (x # xs) b) @ [row_of (x # xs) b ! (j + 1)]"
    using assms(1) by (intro take_Suc_conv_app_nth) simp
  ultimately show ?thesis
    using new assms(3) by (simp add: lev_cell_def)
qed

lemma length_lev_cell [simp]: "length (lev_cell ca prev cur jcb) = length cur"
  by (simp add: lev_cell_def split: prod.split)

lemma lev_inner:
  assumes "length cur = length b + 1" and "cur ! 0 = Suc (length xs)" and "k \<le> length b"
  shows "let r = foldl (lev_cell x (row_of xs b)) cur (take k (enumerate 0 b)) in
    length r = length b + 1 \<and> take (k + 1) r = take (k + 1) (row_of (x # xs) b)"
  using assms(3)
proof (induction k)
  case 0
  have "take 1 cur = [Suc (length xs)]" "take 1 (row_of (x # xs) b) = [Suc (length xs)]"
    using assms(1,2) nth_row_of [of 0 b "x # xs"]
    by (auto simp: take_Suc_conv_app_nth)
  with assms(1) show ?case by simp
next
  case (Suc k)
  let ?r = "foldl (lev_cell x (row_of xs b)) cur (take k (enumerate 0 b))"
  have "take (Suc k) (enumerate 0 b) = take k (enumerate 0 b) @ [(k, b ! k)]"
    using Suc.prems by (simp add: take_Suc_conv_app_nth nth_enumerate_eq)
  with Suc lev_cell_step [of k b ?r x xs] show ?case
    by (simp add: Let_def)
qed

lemma lev_row_step:
  assumes "length cur = length b + 1"
  shows "fst (lev_row b (row_of xs b, cur) (length xs, x)) = row_of (x # xs) b"
proof -
  let ?r = "foldl (lev_cell x (row_of xs b)) (cur[0 := length xs + 1]) (enumerate 0 b)"
  have "length (cur[0 := length xs + 1]) = length b + 1" "cur[0 := length xs + 1] ! 0 = Suc (length xs)"
    using assms by auto
  from lev_inner [OF this, of "length b" x]
  have "length ?r = length b + 1" "take (length b + 1) ?r = take (length b + 1) (row_of (x # xs) b)"
    by (simp_all add: Let_def)
  then have "?r = row_of (x # xs) b"
    by (metis length_row_of take_all_iff order_refl)
  then show ?thesis by (simp add: lev_row_def)
qed

lemma lev_outer:
  assumes "k \<le> length a"
  shows "let rows = foldl (lev_row b) ([0..<length b + 1], replicate (length b + 1) 0)
      (take k (enumerate 0 a)) in
    fst rows = row_of (pre a k) b \<and> length (snd rows) = length b + 1"
  using assms
proof (induction k)
  case 0
  have "[0..<length b + 1] = row_of [] b"
    by (rule nth_equalityI) (auto simp: nth_row_of simp del: upt_Suc)
  then show ?case by simp
next
  case (Suc k)
  let ?rows = "foldl (lev_row b) ([0..<length b + 1], replicate (length b + 1) 0)
      (take k (enumerate 0 a))"
  from Suc have IH: "fst ?rows = row_of (pre a k) b" "length (snd ?rows) = length b + 1"
    by (simp_all add: Let_def)
  have len: "length (pre a k) = k" using Suc.prems by simp
  have "fst (lev_row b ?rows (k, a ! k)) = row_of (pre a (Suc k)) b"
    using lev_row_step [of "snd ?rows" b "pre a k" "a ! k"] IH Suc.prems
    by (metis pre_Suc Suc_le_eq len prod.collapse)
  moreover have "length (snd (lev_row b ?rows (k, a ! k))) = length b + 1"
    using IH by (simp add: lev_row_def split: prod.split) (metis fst_conv length_row_of Suc_eq_plus1)
  moreover have "take (Suc k) (enumerate 0 a) = take k (enumerate 0 a) @ [(k, a ! k)]"
    using Suc.prems by (simp add: take_Suc_conv_app_nth nth_enumerate_eq)
  ultimately show ?case by (simp add: Let_def)
qed

lemma levenshtein_dist: "levenshtein a b = dist (rev a) (rev b)"
proof -
  have "fst (foldl (lev_row b) ([0..<length b + 1], replicate (length b + 1) 0) (enumerate 0 a)) =
      row_of (rev a) b"
    using lev_outer [of "length a" a b] by (simp add: Let_def)
  then show ?thesis by (simp add: levenshtein_def Let_def nth_row_of)
qed

text \<open>
  The specification: \<open>edit_script a b n\<close> when \<open>n\<close> insertions, deletions and
  replacements of one character turn \<open>a\<close> into \<open>b\<close>.
\<close>

inductive edit_script :: "'a list \<Rightarrow> 'a list \<Rightarrow> nat \<Rightarrow> bool" where
  done_script: "edit_script [] [] 0"
| keep_char: "edit_script xs ys n \<Longrightarrow> edit_script (x # xs) (x # ys) n"
| replace_char: "edit_script xs ys n \<Longrightarrow> edit_script (x # xs) (y # ys) (Suc n)"
| insert_char: "edit_script xs ys n \<Longrightarrow> edit_script xs (y # ys) (Suc n)"
| delete_char: "edit_script xs ys n \<Longrightarrow> edit_script (x # xs) ys (Suc n)"

inductive_cases edit_script_NilE: "edit_script [] ys n"
inductive_cases edit_script_ConsE: "edit_script (x # xs) ys n"

lemma edit_script_append:
  "edit_script a b n \<Longrightarrow> edit_script c d m \<Longrightarrow> edit_script (a @ c) (b @ d) (n + m)"
  by (induction rule: edit_script.induct) (auto intro: edit_script.intros)

lemma edit_script_rev: "edit_script a b n \<Longrightarrow> edit_script (rev a) (rev b) n"
proof (induction rule: edit_script.induct)
  case done_script
  then show ?case by (simp add: edit_script.done_script)
next
  case (keep_char xs ys n x)
  from edit_script_append [OF keep_char.IH, of "[x]" "[x]" 0]
  show ?case by (simp add: edit_script.intros)
next
  case (replace_char xs ys n x y)
  from edit_script_append [OF replace_char.IH, of "[x]" "[y]" 1]
  show ?case by (simp add: edit_script.intros)
next
  case (insert_char xs ys n y)
  from edit_script_append [OF insert_char.IH, of "[]" "[y]" 1]
  show ?case by (simp add: edit_script.intros)
next
  case (delete_char xs ys n x)
  from edit_script_append [OF delete_char.IH, of "[x]" "[]" 1]
  show ?case by (simp add: edit_script.intros)
qed

lemma edit_script_inserts: "edit_script [] ys (length ys)"
  by (induction ys) (auto intro: edit_script.intros)

lemma edit_script_deletes: "edit_script xs [] (length xs)"
  by (induction xs) (auto intro: edit_script.intros)

lemma dist_script: "edit_script a b (dist a b)"
proof (induction a b rule: dist.induct)
  case (1 ys)
  then show ?case by (simp add: edit_script_inserts)
next
  case (2 x xs)
  then show ?case using edit_script_deletes [of "x # xs"] by simp
next
  case (3 x xs y ys)
  then have "edit_script (x # xs) (y # ys) (dist xs ys + lev_cost x y)"
    "edit_script (x # xs) (y # ys) (dist xs (y # ys) + 1)"
    "edit_script (x # xs) (y # ys) (dist (x # xs) ys + 1)"
    by (auto simp: lev_cost_def intro: edit_script.intros)
  then show ?case by (auto simp: min_def)
qed

lemma dist_Cons1: "dist (x # xs) ys \<le> Suc (dist xs ys)"
  by (cases ys) (auto simp: dist_Nil2)

lemma dist_Cons2: "dist xs (y # ys) \<le> Suc (dist xs ys)"
  by (cases xs) auto

lemma dist_least: "edit_script a b n \<Longrightarrow> dist a b \<le> n"
proof (induction rule: edit_script.induct)
  case (insert_char xs ys n y)
  then show ?case using dist_Cons2 [of xs y ys] by linarith
next
  case (delete_char xs ys n x)
  then show ?case using dist_Cons1 [of x xs ys] by linarith
qed (auto simp: lev_cost_def min_def)

lemma edit_script_lengths: "edit_script a b n \<Longrightarrow> length a \<le> length b + n \<and> length b \<le> length a + n"
  by (induction rule: edit_script.induct) auto

lemma edit_script_zero: "edit_script a b n \<Longrightarrow> n = 0 \<Longrightarrow> a = b"
  by (induction rule: edit_script.induct) auto

lemma edit_script_refl: "edit_script a a 0"
  by (induction a) (auto intro: edit_script.intros)

lemma edit_script_sym: "edit_script a b n \<Longrightarrow> edit_script b a n"
  by (induction rule: edit_script.induct) (auto intro: edit_script.intros)

lemma edit_script_max: "\<exists>n \<le> max (length a) (length b). edit_script a b n"
proof (induction a arbitrary: b)
  case Nil
  then show ?case using edit_script_inserts [of b] by auto
next
  case (Cons x xs)
  show ?case
  proof (cases b)
    case Nil
    then show ?thesis using edit_script_deletes [of "x # xs"] by (metis list.size(3) max_0R order_refl)
  next
    case (Cons y ys)
    from Cons.IH [of ys] obtain n where "n \<le> max (length xs) (length ys)" "edit_script xs ys n" by blast
    then show ?thesis using Cons by (intro exI [of _ "Suc n"]) (auto intro: edit_script.intros)
  qed
qed

lemma levenshtein_script: "edit_script a b (levenshtein a b)"
  using edit_script_rev [OF dist_script [of "rev a" "rev b"]] by (simp add: levenshtein_dist)

lemma levenshtein_le: "edit_script a b n \<Longrightarrow> levenshtein a b \<le> n"
  by (simp add: levenshtein_dist dist_least edit_script_rev)

lemma levenshtein_max: "levenshtein a b \<le> max (length a) (length b)"
  using edit_script_max [of a b] levenshtein_le by (meson order_trans)

lemma levenshtein_sym: "levenshtein a b = levenshtein b a"
  using levenshtein_le [OF edit_script_sym [OF levenshtein_script [of b a]]]
    levenshtein_le [OF edit_script_sym [OF levenshtein_script [of a b]]] by simp

lemma levenshtein_0_iff: "levenshtein a b = 0 \<longleftrightarrow> a = b"
proof
  assume "levenshtein a b = 0"
  then show "a = b" using edit_script_zero [OF levenshtein_script [of a b]] by simp
next
  assume "a = b"
  then show "levenshtein a b = 0" using levenshtein_le [OF edit_script_refl [of a]] by simp
qed

section \<open>Titles\<close>

text \<open>The loop of \<open>clean_title\<close>: the depth saturates at zero.\<close>

fun strip_brackets :: "nat \<Rightarrow> string \<Rightarrow> string" where
  "strip_brackets depth [] = []"
| "strip_brackets depth (c # cs) =
     (if c = CHR ''['' \<or> c = CHR ''('' then strip_brackets (depth + 1) cs
      else if c = CHR '']'' \<or> c = CHR '')'' then strip_brackets (depth - 1) cs
      else if depth = 0 then c # strip_brackets depth cs
      else strip_brackets depth cs)"

fun words_loop :: "string \<Rightarrow> string \<Rightarrow> string list" where
  "words_loop w [] = (if w = [] then [] else [w])"
| "words_loop w (c # cs) =
     (if is_space c then (if w = [] then words_loop [] cs else w # words_loop [] cs)
      else words_loop (w @ [c]) cs)"

definition split_whitespace :: "string \<Rightarrow> string list" where
  "split_whitespace s = words_loop [] s"

fun join_words :: "string list \<Rightarrow> string" where
  "join_words [] = []"
| "join_words [w] = w"
| "join_words (w # ws) = w @ '' '' @ join_words ws"

definition is_separator :: "char \<Rightarrow> bool" where
  "is_separator c \<longleftrightarrow> c = CHR ''-'' \<or> c = CHR '' '' \<or> c = CHR '','' \<or> c = CHR ''.'' \<or> c = CHR '':''"

definition trim_matches :: "(char \<Rightarrow> bool) \<Rightarrow> string \<Rightarrow> string" where
  "trim_matches p s = rev (dropWhile p (rev (dropWhile p s)))"

definition clean_title :: "string \<Rightarrow> string" where
  "clean_title text =
     (let out = strip_brackets 0 text;
          spaced = map (\<lambda>c. if c = CHR ''_'' \<or> c = CHR ''+'' then CHR '' '' else c) out;
          cleaned = join_words (split_whitespace spaced)
      in trim_matches is_separator cleaned)"

lemma strip_brackets_no_bracket:
  "c \<in> set (strip_brackets d s) \<Longrightarrow> c \<notin> {CHR ''['', CHR '']'', CHR ''('', CHR '')''}"
  by (induction d s rule: strip_brackets.induct) (auto split: if_splits)

lemma set_trim_matches: "set (trim_matches p s) \<subseteq> set s"
  unfolding trim_matches_def using set_dropWhileD by (metis subsetI set_rev)

lemma words_loop_sub: "w' \<in> set (words_loop w s) \<Longrightarrow> set w' \<subseteq> set w \<union> set s"
proof (induction w s arbitrary: w' rule: words_loop.induct)
  case (1 w)
  then show ?case by (simp split: if_splits)
next
  case (2 w c cs)
  show ?case
  proof (cases "is_space c")
    case True
    then have "w' = w \<or> w' \<in> set (words_loop [] cs)" using 2(4) by (auto split: if_splits)
    then show ?thesis using 2(1,2) [OF True] by (cases "w = []") auto
  next
    case False
    then have "w' \<in> set (words_loop (w @ [c]) cs)" using 2(4) by simp
    from 2(3) [OF False this] show ?thesis by auto
  qed
qed

lemma words_loop_no_space:
  "w' \<in> set (words_loop w s) \<Longrightarrow> \<forall>c\<in>set w. \<not> is_space c \<Longrightarrow> w' \<noteq> [] \<and> (\<forall>c\<in>set w'. \<not> is_space c)"
proof (induction w s arbitrary: w' rule: words_loop.induct)
  case (1 w)
  then show ?case by (simp split: if_splits)
next
  case (2 w c cs)
  show ?case
  proof (cases "is_space c")
    case True
    then have "w' = w \<and> w \<noteq> [] \<or> w' \<in> set (words_loop [] cs)" using 2(4) by (auto split: if_splits)
    moreover have "w' \<noteq> [] \<and> (\<forall>c\<in>set w'. \<not> is_space c)" if m: "w' \<in> set (words_loop [] cs)"
    proof (cases "w = []")
      case w: True
      show ?thesis by (rule 2(1) [OF True w m]) simp
    next
      case w: False
      show ?thesis by (rule 2(2) [OF True w m]) simp
    qed
    ultimately show ?thesis using 2(5) by blast
  next
    case False
    then have m: "w' \<in> set (words_loop (w @ [c]) cs)" using 2(4) by simp
    have "\<forall>c'\<in>set (w @ [c]). \<not> is_space c'" using False 2(5) by simp
    from 2(3) [OF False m this] show ?thesis .
  qed
qed

lemma set_join_words: "set (join_words ws) \<subseteq> {CHR '' ''} \<union> (\<Union>w\<in>set ws. set w)"
  by (induction ws rule: join_words.induct) auto

lemma trim_matches_ends:
  assumes "trim_matches p s \<noteq> []"
  shows "\<not> p (hd (trim_matches p s)) \<and> \<not> p (last (trim_matches p s))"
proof -
  let ?d = "dropWhile p s"
  have ne: "dropWhile p (rev ?d) \<noteq> []" using assms by (simp add: trim_matches_def)
  then have "\<not> p (hd (dropWhile p (rev ?d)))" by (rule hd_dropWhile)
  then have l: "\<not> p (last (trim_matches p s))"
    using ne by (simp add: trim_matches_def last_rev)
  have "?d \<noteq> []" using ne by (cases "?d = []") simp_all
  then have h: "\<not> p (hd ?d)" by (rule hd_dropWhile)
  obtain xs where "rev ?d = xs @ dropWhile p (rev ?d)"
    by (metis takeWhile_dropWhile_id)
  then have "?d = trim_matches p s @ rev xs"
    unfolding trim_matches_def by (metis rev_append rev_rev_ident)
  with assms h l show ?thesis by (metis hd_append2)
qed

section \<open>Properties\<close>

text \<open>
  The row-by-row \<open>levenshtein\<close> of the source computes the least number of
  single-character insertions, deletions and substitutions that turn one word
  into the other: there is an edit script of that length, and none is shorter.
\<close>

theorem levenshtein_minimal:
  "edit_script a b (levenshtein a b) \<and> levenshtein a b = (LEAST n. edit_script a b n)"
  using levenshtein_script levenshtein_le by (auto intro!: Least_equality [symmetric])

text \<open>
  \<open>fuzzy_ratio\<close> is a similarity: it lies between 0 and 1, is symmetric, and is
  1 for equal titles only.
\<close>

theorem fuzzy_ratio_similarity:
  "0 \<le> fuzzy_ratio a b \<and> fuzzy_ratio a b \<le> 1 \<and> fuzzy_ratio a b = fuzzy_ratio b a \<and>
   (fuzzy_ratio a b = 1) = (a = b)"
proof -
  have bound: "levenshtein a b \<le> max (length a) (length b)" by (rule levenshtein_max)
  have "real (levenshtein a b) \<le> real (max (length a) (length b))" using bound by (rule of_nat_mono)
  then have "0 \<le> fuzzy_ratio a b"
    by (auto simp: fuzzy_ratio_def field_simps le_max_iff_disj)
  moreover have "fuzzy_ratio a b \<le> 1" by (simp add: fuzzy_ratio_def)
  moreover have "fuzzy_ratio a b = fuzzy_ratio b a"
    by (auto simp: fuzzy_ratio_def levenshtein_sym [of a b] max.commute)
  moreover have "(fuzzy_ratio a b = 1) = (a = b)"
    by (auto simp: fuzzy_ratio_def levenshtein_0_iff max_def)
  ultimately show ?thesis by blast
qed

end
