(* ===== verification/Release.thy ===== *)
theory Release
  imports Filename "HOL-Library.Char_ord" "HOL-Library.List_Lexorder"
begin

text \<open>
  \<open>filename/release.rs\<close> and \<open>filename/mod.rs\<close>: what a release name says.

  The \<open>regex\<close> crate is a parameter: a \<open>matcher\<close> answers what \<open>captures\<close>,
  \<open>captures_iter\<close> and \<open>replace_all\<close> return for a pattern and a text, with the byte
  offsets of the match. The patterns are a datatype, one constructor for each
  regular expression of the source; \<open>is_match\<close> is \<open>captures\<close> giving a match, as
  the crate documents. Everything the code does with the matches (the order in
  which the forms are tried, the slicing of the name, what each form sets) is
  modelled, as are \<open>clean_title\<close> and \<open>normalize\<close> on ASCII text.
\<close>

datatype pattern =
    Ordinal_suffix          \<comment> \<open>\<open>(\d)(?:st|nd|rd|th)\b\<close>\<close>
  | Range_S_E               \<comment> \<open>\<open>\bS(\d{1,2})..E(\d{1,3})\s*-\s*E?(\d{1,3})\b\<close>\<close>
  | Single_S_E              \<comment> \<open>\<open>\bS(\d{1,2})..E(\d{1,3})\b\<close>\<close>
  | Nth_season              \<comment> \<open>\<open>\b(\d{1,2})(?:st|nd|rd|th)\s*season\b\<close>\<close>
  | Season_number           \<comment> \<open>\<open>\bSEASON\s*(\d{1,2})\b\<close>\<close>
  | S_number_version        \<comment> \<open>\<open>\bS(\d{1,2})\s*(?:v(\d+))?\b\<close>\<close>
  | Number_range            \<comment> \<open>\<open>(\d{1,3})\s*-\s*(\d{1,3})\<close> between separators\<close>
  | Dash_number             \<comment> \<open>\<open>(?:^|[\s])-\s*(\d{1,3}(?:\.\d)?)\s*(?:v(\d+))?\<close>\<close>
  | Episode_word            \<comment> \<open>\<open>\b(?:EPISODE|EP|E)\s*(\d{1,3}(?:\.\d)?)\b\<close>\<close>
  | Bracket_number          \<comment> \<open>\<open>\s\[(\d{1,3}(?:\.\d)?)\]\<close>\<close>
  | Resolution_tag | Hevc_tag | Av1_tag | Avc_tag | Remux_tag | Bd_tag | Webdl_tag | Webrip_tag
  | Tv_tag | Crc_tag | Version_tag | Year_tag | Batch_tag | Any_bracket | Dual_audio_tag
  | Metadata_bracket | Hex8_only | Batch_range | S_number | Roman_numeral | Cour_part
  | Leading_group

record rmatch =
  m_start :: nat
  m_end :: nat
  m_group :: "nat \<Rightarrow> string option"   \<comment> \<open>\<open>caps.get(k)\<close>; group 0 is the whole match\<close>

record matcher =
  rx_captures :: "pattern \<Rightarrow> string \<Rightarrow> rmatch option"
  rx_captures_iter :: "pattern \<Rightarrow> string \<Rightarrow> rmatch list"
  rx_replace_all :: "pattern \<Rightarrow> string \<Rightarrow> string"

definition is_match :: "matcher \<Rightarrow> pattern \<Rightarrow> string \<Rightarrow> bool" where
  "is_match rx p s \<longleftrightarrow> rx_captures rx p s \<noteq> None"

text \<open>\<open>caps[k]\<close>. The groups the code indexes are mandatory in their patterns.\<close>

definition caps_at :: "rmatch \<Rightarrow> nat \<Rightarrow> string" where
  "caps_at m k = (case m_group m k of Some s \<Rightarrow> s | None \<Rightarrow> '''')"

section \<open>Numbers\<close>

text \<open>\<open>str::parse\<close> on the digit strings that the groups of the patterns yield.\<close>

definition is_digit :: "char \<Rightarrow> bool" where
  "is_digit c = (let n = (of_char c :: nat) in 48 \<le> n \<and> n \<le> 57)"

definition digits_value :: "string \<Rightarrow> nat" where
  "digits_value s = foldl (\<lambda>n c. 10 * n + (of_char c - 48)) 0 s"

definition parse_bounded :: "nat \<Rightarrow> string \<Rightarrow> nat option" where
  "parse_bounded limit s =
     (if s \<noteq> [] \<and> list_all is_digit s \<and> digits_value s < limit then Some (digits_value s) else None)"

definition parse_u32 :: "string \<Rightarrow> nat option" where
  "parse_u32 s = parse_bounded (2 ^ 32) s"

definition parse_i64 :: "string \<Rightarrow> int option" where
  "parse_i64 s = map_option int (parse_bounded (2 ^ 63) s)"

definition parse_f64 :: "string \<Rightarrow> real option" where
  "parse_f64 s =
     (let whole = takeWhile is_digit s; rest = dropWhile is_digit s in
      if whole = [] then None
      else if rest = [] then Some (real (digits_value whole))
      else case rest of
          CHR ''.'' # decimals \<Rightarrow>
            if decimals \<noteq> [] \<and> list_all is_digit decimals
            then Some (real (digits_value whole) + real (digits_value decimals) / 10 ^ length decimals)
            else None
        | _ \<Rightarrow> None)"

section \<open>The release\<close>

record release =
  re_raw :: string
  re_group :: "string option"
  re_title :: string
  re_normalized_title :: string
  re_season :: "nat option"
  re_episode :: "real option"
  re_resolution :: "string option"
  re_codec :: "string option"
  re_source :: "string option"
  re_is_batch :: bool
  re_dual_audio :: bool
  re_languages :: "string list"
  re_crc :: "string option"
  re_version :: "nat option"
  re_year :: "int option"
  re_episode_range :: "(real \<times> real) option"
  re_extension :: "string option"
  re_marker_start :: "nat option"

definition Release_default :: release where
  "Release_default =
     \<lparr> re_raw = '''', re_group = None, re_title = '''', re_normalized_title = '''', re_season = None,
       re_episode = None, re_resolution = None, re_codec = None, re_source = None,
       re_is_batch = False, re_dual_audio = False, re_languages = [], re_crc = None,
       re_version = None, re_year = None, re_episode_range = None, re_extension = None,
       re_marker_start = None \<rparr>"

definition VIDEO_EXTENSIONS :: "string list" where
  "VIDEO_EXTENSIONS = [''mkv'', ''mp4'', ''avi'', ''m2ts'', ''ts'', ''wmv'', ''mov'', ''webm'']"

section \<open>Season and episode\<close>

text \<open>\<open>S01E01-E11\<close>\<close>

definition range_form :: "rmatch \<Rightarrow> release \<Rightarrow> release" where
  "range_form m r =
     (let r1 = r\<lparr> re_season := parse_u32 (caps_at m 1), re_is_batch := True \<rparr> in
      case (parse_f64 (caps_at m 2), parse_f64 (caps_at m 3)) of
        (Some f, Some t) \<Rightarrow> r1\<lparr> re_episode_range := Some (f, t) \<rparr>
      | _ \<Rightarrow> r1)"

text \<open>The season indicators; none of them ends the search.\<close>

definition season_form :: "matcher \<Rightarrow> string \<Rightarrow> release \<Rightarrow> release" where
  "season_form rx name r =
     (if re_season r = None then
        case rx_captures rx Nth_season name of
          Some m \<Rightarrow> r\<lparr> re_season := parse_u32 (caps_at m 1) \<rparr>
        | None \<Rightarrow>
          (case rx_captures rx Season_number name of
             Some m \<Rightarrow> r\<lparr> re_season := parse_u32 (caps_at m 1) \<rparr>
           | None \<Rightarrow>
             (case rx_captures rx S_number_version name of
                Some m \<Rightarrow>
                  (let version = Option.bind (m_group m 2) parse_u32 in
                   r\<lparr> re_season := parse_u32 (caps_at m 1), re_version := version,
                      re_is_batch := re_is_batch r \<or> version \<noteq> None \<rparr>)
              | None \<Rightarrow> r))
      else r)"

fun find_char :: "char \<Rightarrow> string \<Rightarrow> nat option" where
  "find_char c [] = None"
| "find_char c (x # xs) = (if x = c then Some 0 else map_option Suc (find_char c xs))"

text \<open>The forms that follow the range \<open>01-12\<close>, in the order they are tried.\<close>

definition single_forms :: "matcher \<Rightarrow> string \<Rightarrow> release \<Rightarrow> nat option \<times> release" where
  "single_forms rx name r =
     (case rx_captures rx Dash_number name of
        Some m \<Rightarrow>
          (Some (m_start m + (case find_char CHR ''-'' (caps_at m 0) of Some k \<Rightarrow> k | None \<Rightarrow> 0)),
           r\<lparr> re_episode := parse_f64 (caps_at m 1), re_version := Option.bind (m_group m 2) parse_u32 \<rparr>)
      | None \<Rightarrow>
        (case rx_captures rx Episode_word name of
           Some m \<Rightarrow> (Some (m_start m), r\<lparr> re_episode := parse_f64 (caps_at m 1) \<rparr>)
         | None \<Rightarrow>
           (case rx_captures rx Bracket_number name of
              Some m \<Rightarrow> (Some (m_start m), r\<lparr> re_episode := parse_f64 (caps_at m 1) \<rparr>)
            | None \<Rightarrow> (None, r))))"

definition number_or_0 :: "string \<Rightarrow> real" where
  "number_or_0 s = (case parse_f64 s of Some x \<Rightarrow> x | None \<Rightarrow> 0)"

definition extract_season_episode :: "matcher \<Rightarrow> string \<Rightarrow> release \<Rightarrow> nat option \<times> release" where
  "extract_season_episode rx name r =
     (case rx_captures rx Range_S_E name of
        Some m \<Rightarrow> (Some (m_start m), range_form m r)
      | None \<Rightarrow>
        (case rx_captures rx Single_S_E name of
           Some m \<Rightarrow> (Some (m_start m),
                      r\<lparr> re_season := parse_u32 (caps_at m 1), re_episode := parse_f64 (caps_at m 2) \<rparr>)
         | None \<Rightarrow>
           (let r1 = season_form rx name r in
            case rx_captures rx Number_range name of
              Some m \<Rightarrow>
                (let from = number_or_0 (caps_at m 1); until = number_or_0 (caps_at m 2) in
                 if from < until
                 then (Some (m_start m),
                       r1\<lparr> re_is_batch := True, re_episode_range := Some (from, until) \<rparr>)
                 else single_forms rx name r1)
            | None \<Rightarrow> single_forms rx name r1)))"

section \<open>Metadata\<close>

definition codec_of :: "matcher \<Rightarrow> string \<Rightarrow> string option" where
  "codec_of rx name =
     (if is_match rx Hevc_tag name then Some ''hevc''
      else if is_match rx Av1_tag name then Some ''av1''
      else if is_match rx Avc_tag name then Some ''avc''
      else None)"

definition source_of :: "matcher \<Rightarrow> string \<Rightarrow> string option" where
  "source_of rx name =
     (if is_match rx Remux_tag name then Some ''remux''
      else if is_match rx Bd_tag name then Some ''bd''
      else if is_match rx Webdl_tag name then Some ''web-dl''
      else if is_match rx Webrip_tag name then Some ''webrip''
      else if is_match rx Tv_tag name then Some ''tv''
      else None)"

definition ascii_upper :: "char \<Rightarrow> char" where
  "ascii_upper c = (let n = (of_char c :: nat) in if 97 \<le> n \<and> n \<le> 122 then char_of (n - 32) else c)"

definition extract_metadata :: "matcher \<Rightarrow> string \<Rightarrow> release \<Rightarrow> release" where
  "extract_metadata rx name r =
     r\<lparr> re_resolution :=
          map_option (\<lambda>m. let res = lower (caps_at m 1) in if res = ''4k'' then ''2160p'' else res)
            (rx_captures rx Resolution_tag name),
        re_codec := codec_of rx name,
        re_source := source_of rx name,
        re_crc := map_option (\<lambda>m. map ascii_upper (caps_at m 1)) (rx_captures rx Crc_tag name),
        re_version :=
          (if re_version r = None
           then Option.bind (rx_captures rx Version_tag name) (\<lambda>m. parse_u32 (caps_at m 1))
           else re_version r),
        re_year := Option.bind (rx_captures rx Year_tag name) (\<lambda>m. parse_i64 (caps_at m 1)),
        re_is_batch := re_is_batch r \<or> is_match rx Batch_tag name \<rparr>"

definition LANGS :: "string list" where
  "LANGS = [''english'', ''japanese'', ''chinese'', ''french'', ''spanish'', ''german'',
     ''portuguese'', ''russian'', ''italian'', ''korean'', ''hindi'', ''arabic'', ''thai'',
     ''vietnamese'', ''indonesian'', ''filipino'', ''polish'', ''turkish'', ''dutch'', ''swedish'',
     ''danish'', ''norwegian'', ''finnish'', ''czech'', ''romanian'', ''ukrainian'', ''multisub'',
     ''multi-sub'']"

definition extract_languages :: "matcher \<Rightarrow> string \<Rightarrow> string list" where
  "extract_languages rx name =
     remdups_adj (sort (concat (map
       (\<lambda>m. let inner = lower (caps_at m 1) in filter (\<lambda>lang. contains lang inner) LANGS)
       (rx_captures_iter rx Any_bracket name))))"

definition contains_dual_audio :: "matcher \<Rightarrow> string \<Rightarrow> bool" where
  "contains_dual_audio rx name = is_match rx Dual_audio_tag name"

definition is_metadata_bracket :: "matcher \<Rightarrow> string \<Rightarrow> bool" where
  "is_metadata_bracket rx inner =
     (if length inner = 4 \<and> list_all is_digit inner \<and> starts_with ''2'' (lower inner) then True
      else is_match rx Metadata_bracket inner \<or> is_match rx Hex8_only inner)"

text \<open>The season a title names, for the season chain.\<close>

definition roman_value :: "string \<Rightarrow> int option" where
  "roman_value s =
     map_of [(''II'', 2), (''III'', 3), (''IV'', 4), (''VI'', 6), (''VII'', 7), (''VIII'', 8),
             (''IX'', 9), (''X'', 10)] s"

definition extract_season_from_title :: "matcher \<Rightarrow> string \<Rightarrow> int option" where
  "extract_season_from_title rx title =
     (case rx_captures rx Nth_season title of
        Some m \<Rightarrow> parse_i64 (caps_at m 1)
      | None \<Rightarrow>
        (case rx_captures rx Season_number title of
           Some m \<Rightarrow> parse_i64 (caps_at m 1)
         | None \<Rightarrow>
           (case rx_captures rx S_number title of
              Some m \<Rightarrow> parse_i64 (caps_at m 1)
            | None \<Rightarrow>
              (case rx_captures rx Roman_numeral title of
                 Some m \<Rightarrow> roman_value (caps_at m 1)
               | None \<Rightarrow> None))))"

text \<open>The three negated patterns of the source match what the patterns with a group do.\<close>

definition is_cour_or_part_split :: "matcher \<Rightarrow> string \<Rightarrow> bool" where
  "is_cour_or_part_split rx title \<longleftrightarrow>
     is_match rx Cour_part title \<and> \<not> is_match rx Nth_season title
     \<and> \<not> is_match rx Season_number title \<and> \<not> is_match rx S_number title"

section \<open>Normalization\<close>

definition is_alphanumeric :: "char \<Rightarrow> bool" where
  "is_alphanumeric c =
     (let n = (of_char c :: nat) in
      (48 \<le> n \<and> n \<le> 57) \<or> (65 \<le> n \<and> n \<le> 90) \<or> (97 \<le> n \<and> n \<le> 122))"

definition season_words :: "string list" where
  "season_words = [''season'', ''cour'', ''part'', ''series'', ''the'']"

definition unpad :: "string \<Rightarrow> string" where
  "unpad w =
     (if 1 < length w \<and> starts_with ''0'' w \<and> list_all is_digit w
      then dropWhile (\<lambda>c. c = CHR ''0'') w else w)"

definition normalize :: "matcher \<Rightarrow> string \<Rightarrow> string" where
  "normalize rx input =
     (let deordinalled = rx_replace_all rx Ordinal_suffix (lower input);
          stripped = map (\<lambda>c. if is_alphanumeric c then c else CHR '' '') deordinalled;
          kept = filter (\<lambda>w. w \<notin> set season_words) (split_whitespace stripped);
          unpadded = filter (\<lambda>w. w \<noteq> []) (map unpad kept)
      in join_words (remdups_adj unpadded))"

section \<open>The parser\<close>

fun rsplit_dot :: "string \<Rightarrow> (string \<times> string) option" where
  "rsplit_dot [] = None"
| "rsplit_dot (c # cs) =
     (case rsplit_dot cs of
        Some (stem, ext) \<Rightarrow> Some (c # stem, ext)
      | None \<Rightarrow> if c = CHR ''.'' then Some ([], cs) else None)"

definition split_extension :: "string \<Rightarrow> string \<times> string option" where
  "split_extension raw =
     (case rsplit_dot raw of
        Some (stem, ext) \<Rightarrow>
          (if lower ext \<in> set VIDEO_EXTENSIONS \<and> CHR '' '' \<notin> set (lower ext)
           then (stem, Some (lower ext)) else (raw, None))
      | None \<Rightarrow> (raw, None))"

definition leading_group :: "matcher \<Rightarrow> string \<Rightarrow> string option \<times> nat" where
  "leading_group rx name =
     (case rx_captures rx Leading_group name of
        Some m \<Rightarrow>
          (let candidate = trim (caps_at m 1) in
           if \<not> is_metadata_bracket rx candidate then (Some candidate, m_end m) else (None, 0))
      | None \<Rightarrow> (None, 0))"

definition replace_range :: "nat \<Rightarrow> nat \<Rightarrow> string \<Rightarrow> string \<Rightarrow> string" where
  "replace_range i j new s = take i s @ new @ drop j s"

definition parse_release :: "matcher \<Rightarrow> string \<Rightarrow> release" where
  "parse_release rx input =
     (let raw = trim input;
          (name, ext) = split_extension raw;
          (group, title_start) = leading_group rx name;
          r0 = Release_default\<lparr> re_raw := raw, re_extension := ext, re_group := group \<rparr>;
          tail = drop title_start name;
          (offset, r1) = extract_season_episode rx tail r0;
          r2 = r1\<lparr> re_marker_start := map_option (\<lambda>k. title_start + k) offset \<rparr>;
          r3 = extract_metadata rx tail r2;
          title_end = (case re_marker_start r3 of Some pos \<Rightarrow> min pos (length name) | None \<Rightarrow> length name);
          title = drop (min title_start title_end) (take title_end name);
          cut = (if re_episode r3 = None \<and> re_is_batch r3
                 then case rx_captures rx Batch_range title of
                        Some m \<Rightarrow> replace_range (m_start m) (m_end m) '' '' title
                      | None \<Rightarrow> title
                 else title);
          cleaned = clean_title cut
      in r3\<lparr> re_title := cleaned, re_normalized_title := normalize rx cleaned,
             re_languages := extract_languages rx tail,
             re_dual_audio := contains_dual_audio rx tail \<rparr>)"

section \<open>Facts\<close>

lemma clean_title_chars:
  "c \<in> set (clean_title s) \<Longrightarrow> c \<notin> {CHR ''['', CHR '']'', CHR ''('', CHR '')''}"
proof -
  assume c: "c \<in> set (clean_title s)"
  define spaced where "spaced = map (\<lambda>c. if c = CHR ''_'' \<or> c = CHR ''+'' then CHR '' '' else c) (strip_brackets 0 s)"
  have ok: "x \<notin> {CHR ''['', CHR '']'', CHR ''('', CHR '')''}" if "x \<in> set spaced" for x
    using that strip_brackets_no_bracket by (auto simp: spaced_def split: if_splits)
  have "c \<in> set (join_words (split_whitespace spaced))"
    using c set_trim_matches by (auto simp: clean_title_def spaced_def Let_def)
  then have "c = CHR '' '' \<or> (\<exists>w\<in>set (split_whitespace spaced). c \<in> set w)"
    using set_join_words by blast
  then show ?thesis
  proof
    assume "\<exists>w\<in>set (split_whitespace spaced). c \<in> set w"
    then obtain w where "w \<in> set (words_loop [] spaced)" "c \<in> set w" by (auto simp: split_whitespace_def)
    then have "c \<in> set spaced" using words_loop_sub [of w "[]" spaced] by auto
    then show ?thesis by (rule ok)
  qed simp
qed

lemma clean_title_ends:
  "clean_title s \<noteq> [] \<Longrightarrow> \<not> is_separator (hd (clean_title s)) \<and> \<not> is_separator (last (clean_title s))"
  unfolding clean_title_def Let_def by (rule trim_matches_ends)

text \<open>What the single-episode forms leave alone.\<close>

lemma season_form_frame [simp]:
  "re_episode (season_form rx name r) = re_episode r"
  "re_episode_range (season_form rx name r) = re_episode_range r"
  by (simp_all add: season_form_def Let_def split: option.split)

lemma single_forms_range [simp]: "re_episode_range (snd (single_forms rx name r)) = re_episode_range r"
  by (simp add: single_forms_def split: option.split)

lemma range_form_fields [simp]:
  "re_episode (range_form m r) = re_episode r" "re_is_batch (range_form m r)"
  by (simp_all add: range_form_def Let_def split: option.split)

lemma extract_season_episode_range:
  assumes "re_episode r = None" "re_episode_range r = None"
    and "re_episode_range (snd (extract_season_episode rx name r)) \<noteq> None"
  shows "re_episode (snd (extract_season_episode rx name r)) = None \<and>
         re_is_batch (snd (extract_season_episode rx name r))"
  using assms by (auto simp: extract_season_episode_def Let_def split: option.splits if_splits)

lemma extract_metadata_frame [simp]:
  "re_episode (extract_metadata rx name r) = re_episode r"
  "re_episode_range (extract_metadata rx name r) = re_episode_range r"
  "re_is_batch r \<Longrightarrow> re_is_batch (extract_metadata rx name r)"
  by (simp_all add: extract_metadata_def)

lemma words_loop_join:
  assumes "\<forall>w\<in>set ws. w \<noteq> [] \<and> (\<forall>c\<in>set w. \<not> is_space c)"
  shows "split_whitespace (join_words ws) = ws"
proof -
  have word: "words_loop acc (w @ s) = words_loop (acc @ w) s" if "\<forall>c\<in>set w. \<not> is_space c" for acc w s
    using that by (induction w arbitrary: acc) auto
  have sp: "is_space CHR '' ''" by (simp add: is_space_def)
  have "words_loop [] (join_words ws) = ws"
    using assms
  proof (induction ws rule: join_words.induct)
    case (2 w)
    then show ?case using word [of w "[]" "[]"] by simp
  next
    case (3 w v ws)
    then have "words_loop [] (w @ '' '' @ join_words (v # ws)) = words_loop w ('' '' @ join_words (v # ws))"
      using word [of w "[]"] by simp
    also have "\<dots> = w # words_loop [] (join_words (v # ws))"
      using 3(2) sp by simp
    finally show ?case using 3 by simp
  qed simp
  then show ?thesis by (simp add: split_whitespace_def)
qed

text \<open>The words of a normalized title, and that the title is those words joined by one space.\<close>

definition plain_word :: "string \<Rightarrow> bool" where
  "plain_word w \<longleftrightarrow> w \<noteq> [] \<and> list_all is_alphanumeric w
     \<and> (list_all is_digit w \<and> 1 < length w \<longrightarrow> hd w \<noteq> CHR ''0'')"

lemma is_alphanumeric_not_space: "is_alphanumeric c \<Longrightarrow> \<not> is_space c"
  by (auto simp: is_alphanumeric_def is_space_def Let_def)

lemma unpad_plain:
  assumes "list_all is_alphanumeric w" "unpad w \<noteq> []"
  shows "plain_word (unpad w)"
proof (cases "1 < length w \<and> starts_with ''0'' w \<and> list_all is_digit w")
  case True
  then have u: "unpad w = dropWhile (\<lambda>c. c = CHR ''0'') w" by (simp add: unpad_def)
  then have "hd (unpad w) \<noteq> CHR ''0''" using assms(2) hd_dropWhile [of "\<lambda>c. c = CHR ''0''" w] by simp
  moreover have "list_all is_alphanumeric (unpad w)"
    using assms(1) u by (auto simp: list_all_iff dest: set_dropWhileD)
  ultimately show ?thesis using assms(2) by (simp add: plain_word_def)
next
  case False
  then have u: "unpad w = w" by (simp only: unpad_def if_False)
  have "hd w \<noteq> CHR ''0''" if "list_all is_digit w \<and> 1 < length w"
  proof
    assume "hd w = CHR ''0''"
    moreover have "w \<noteq> []" using that by auto
    ultimately have "starts_with ''0'' w" by (cases w) (simp_all add: starts_with_def)
    with False that show False by simp
  qed
  then show ?thesis using assms u by (simp add: plain_word_def)
qed

lemma normalize_words:
  obtains ws where "normalize rx s = join_words ws" "\<forall>w\<in>set ws. plain_word w" "distinct_adj ws"
proof -
  define stripped where "stripped = map (\<lambda>c. if is_alphanumeric c then c else CHR '' '') (rx_replace_all rx Ordinal_suffix (lower s))"
  define ws where "ws = filter (\<lambda>w. w \<noteq> []) (map unpad (filter (\<lambda>w. w \<notin> set season_words) (split_whitespace stripped)))"
  have alnum: "list_all is_alphanumeric w" if w: "w \<in> set (split_whitespace stripped)" for w
  proof -
    have mem: "w \<in> set (words_loop [] stripped)" using w by (simp add: split_whitespace_def)
    have "set w \<subseteq> set stripped" using words_loop_sub [OF mem] by simp
    moreover have "\<forall>c\<in>set w. \<not> is_space c" using words_loop_no_space [OF mem] by simp
    moreover have "is_space CHR '' ''" by (simp add: is_space_def)
    ultimately show ?thesis by (auto simp: stripped_def list_all_iff split: if_splits)
  qed
  have "\<forall>w\<in>set ws. plain_word w" using alnum unpad_plain by (auto simp: ws_def)
  then have "\<forall>w\<in>set (remdups_adj ws). plain_word w" by simp
  moreover have "normalize rx s = join_words (remdups_adj ws)"
    by (simp add: normalize_def ws_def stripped_def)
  moreover have "distinct_adj (remdups_adj ws)" by simp
  ultimately show ?thesis using that by blast
qed

lemma plain_words_split:
  assumes "\<forall>w\<in>set ws. plain_word w"
  shows "split_whitespace (join_words ws) = ws"
proof (rule words_loop_join)
  show "\<forall>w\<in>set ws. w \<noteq> [] \<and> (\<forall>c\<in>set w. \<not> is_space c)"
    using assms is_alphanumeric_not_space by (auto simp: plain_word_def list_all_iff)
qed

section \<open>A sample matcher\<close>

text \<open>A \<open>regex\<close> crate in which no pattern matches, for concrete instances.\<close>

definition no_match :: matcher where
  "no_match = \<lparr> rx_captures = \<lambda>p s. None, rx_captures_iter = \<lambda>p s. [], rx_replace_all = \<lambda>p s. s \<rparr>"

section \<open>Properties\<close>

lemma range_is_batch:
  "extract_season_episode rx name r = (off, r1) \<Longrightarrow> re_episode_range r1 = Some p \<Longrightarrow>
   re_episode r = None \<Longrightarrow> re_episode_range r = None \<Longrightarrow> re_episode r1 = None \<and> re_is_batch r1"
  using extract_season_episode_range [of r rx name] by simp

lemma last_update:
  "re_title (r\<lparr>re_title := a, re_normalized_title := b, re_languages := c, re_dual_audio := d\<rparr>) = a"
  "re_normalized_title (r\<lparr>re_title := a, re_normalized_title := b, re_languages := c, re_dual_audio := d\<rparr>) = b"
  by simp_all

text \<open>
  C35: what the parser makes of any file name, whatever its patterns match. The
  title has no bracket or parenthesis and no separator at its ends; the normalized title is a
  row of non-empty alphanumeric words, numbers without leading zeros and no word
  the same as its neighbour; and a name with an episode range is a batch that
  claims no single episode.
\<close>

theorem parse_release_spec:
  "(\<exists>ws. re_normalized_title (parse_release rx s) = join_words ws \<and> list_all plain_word ws \<and> distinct_adj ws) \<and>
   list_all (\<lambda>c. c \<notin> {CHR ''['', CHR '']'', CHR ''('', CHR '')''}) (re_title (parse_release rx s)) \<and>
   (re_title (parse_release rx s) = [] \<or>
     (\<not> is_separator (hd (re_title (parse_release rx s))) \<and> \<not> is_separator (last (re_title (parse_release rx s))))) \<and>
   (re_episode_range (parse_release rx s) = None \<or>
     (re_is_batch (parse_release rx s) \<and> re_episode (parse_release rx s) = None))"
proof -
  have "\<exists>cut. re_title (parse_release rx s) = clean_title cut \<and>
      re_normalized_title (parse_release rx s) = normalize rx (clean_title cut)"
    unfolding parse_release_def Let_def split_beta last_update by blast
  then obtain cut where title: "re_title (parse_release rx s) = clean_title cut"
    "re_normalized_title (parse_release rx s) = normalize rx (clean_title cut)" by blast
  obtain ws where "normalize rx (clean_title cut) = join_words ws" "\<forall>w\<in>set ws. plain_word w" "distinct_adj ws"
    by (rule normalize_words)
  moreover have "re_episode_range (parse_release rx s) = None \<or>
      (re_is_batch (parse_release rx s) \<and> re_episode (parse_release rx s) = None)"
    by (auto simp: parse_release_def Let_def Release_default_def split: prod.split dest: range_is_batch)
  ultimately show ?thesis
    using title clean_title_chars clean_title_ends by (auto simp: list_all_iff)
qed

end
