(* ===== verification/Names.thy ===== *)
theory Names
  imports Jobs Release
begin

text \<open>
  \<open>names.rs\<close>: the name set of a show, the rows of \<open>show_names\<close> in the store.
  \<open>names_ok\<close> is what the schema and the operations keep: one row for each pair
  of show and normalized name, ids from the counter.
\<close>

named_theorems names_simps \<open>unfolding rules of the name set\<close>

definition PRIORITY_MAIN :: nat where "PRIORITY_MAIN = 0"
definition PRIORITY_TRANSLATED :: nat where "PRIORITY_TRANSLATED = 1"
definition PRIORITY_SYNONYM :: nat where "PRIORITY_SYNONYM = 2"
definition PRIORITY_USER :: nat where "PRIORITY_USER = 9"

definition ABBREVIATIONS :: "(string \<times> string) list" where
  "ABBREVIATIONS =
     [(''knk'', ''kumo no mukou yami nakutemo''),
      (''oregairu'', ''yahari ore no seishun love come wa machigatteiru''),
      (''snk'', ''shingeki no kyojin''),
      (''aot'', ''shingeki no kyojin''),
      (''mha'', ''boku no hero academia''),
      (''opm'', ''one punch man''),
      (''fma'', ''fullmetal alchemist''),
      (''fmab'', ''fullmetal alchemist brotherhood''),
      (''hxh'', ''hunter x hunter''),
      (''nnt'', ''non non biyori''),
      (''kyoukai'', ''kyoukai no kanata''),
      (''kks'', ''kyoukai no kanata'')]"

definition normalize_alias :: "matcher \<Rightarrow> string \<Rightarrow> string" where
  "normalize_alias rx input =
     (let base = normalize rx input in
      case map_of ABBREVIATIONS base of Some expansion \<Rightarrow> expansion | None \<Rightarrow> base)"

record name_entry =
  ne_name :: string
  ne_normalized :: string
  ne_priority :: nat
  ne_source :: name_source

section \<open>Operations\<close>

text \<open>\<open>ORDER BY priority, id\<close>: the rows are in id order and the sort is stable.\<close>

definition names_of :: "int \<Rightarrow> world \<Rightarrow> name_row list" where
  "names_of m w = sort_key nr_priority (filter (\<lambda>r. nr_mal_id r = m) (w_names w))"

definition NameSet_load :: "matcher \<Rightarrow> int \<Rightarrow> world \<Rightarrow> name_entry list" where
  "NameSet_load rx m w =
     map (\<lambda>r. \<lparr>ne_name = nr_name r, ne_normalized = normalize_alias rx (nr_name r),
                ne_priority = nr_priority r, ne_source = nr_source r\<rparr>) (names_of m w)"

definition has_name :: "int \<Rightarrow> string \<Rightarrow> world \<Rightarrow> bool" where
  "has_name m normalized w \<longleftrightarrow>
     list_ex (\<lambda>r. nr_mal_id r = m \<and> nr_normalized r = normalized) (w_names w)"

definition insert_name_row ::
  "int \<Rightarrow> string \<Rightarrow> string \<Rightarrow> name_source \<Rightarrow> nat \<Rightarrow> world \<Rightarrow> world" where
  "insert_name_row m name normalized src prio w =
     (let i = w_seq_names w + 1 in
      w\<lparr>w_names := w_names w @ [\<lparr>nr_id = i, nr_mal_id = m, nr_name = name,
           nr_normalized = normalized, nr_source = src, nr_priority = prio\<rparr>],
        w_seq_names := i\<rparr>)"

text \<open>\<open>INSERT \<dots> ON CONFLICT (mal_id, normalized) DO NOTHING\<close>; whether a row was written.\<close>

definition insert_name ::
  "int \<Rightarrow> string \<Rightarrow> string \<Rightarrow> name_source \<Rightarrow> nat \<Rightarrow> bool run" where
  "insert_name m name normalized src prio =
     seq (gets (has_name m normalized)) (\<lambda>exists.
     if exists then ret False
     else seq (gets (\<lambda>w. known_show w (Some m))) (\<lambda>known.
       if \<not> known then throw foreign_key_failed
       else seq (modify (insert_name_row m name normalized src prio)) (\<lambda>_. ret True)))"

definition NameSet_add :: "matcher \<Rightarrow> int \<Rightarrow> string \<Rightarrow> name_source \<Rightarrow> nat \<Rightarrow> bool run" where
  "NameSet_add rx m name src prio =
     (let normalized = normalize_alias rx name in
      if normalized = [] then ret False else insert_name m name normalized src prio)"

definition sync_one :: "matcher \<Rightarrow> int \<Rightarrow> string \<times> name_source \<times> nat \<Rightarrow> unit run" where
  "sync_one rx m item =
     (case item of (name, src, prio) \<Rightarrow>
        (let normalized = normalize_alias rx name in
         if normalized = [] then ret ()
         else seq (insert_name m name normalized src prio) (\<lambda>_. ret ())))"

definition NameSet_replace_from_sync ::
  "matcher \<Rightarrow> int \<Rightarrow> (string \<times> name_source \<times> nat) list \<Rightarrow> unit run" where
  "NameSet_replace_from_sync rx m names =
     transact (
       seq (modify (\<lambda>w. w\<lparr>w_names := filter (\<lambda>r. \<not> (nr_mal_id r = m \<and> nr_source r \<noteq> User)) (w_names w)\<rparr>)) (\<lambda>_.
       for_each (sync_one rx m) names))"

definition NameSet_remove :: "matcher \<Rightarrow> int \<Rightarrow> string \<Rightarrow> bool run" where
  "NameSet_remove rx m name =
     (let normalized = normalize_alias rx name in
      seq (gets (has_name m normalized)) (\<lambda>changed.
      seq (modify (\<lambda>w. w\<lparr>w_names :=
             filter (\<lambda>r. \<not> (nr_mal_id r = m \<and> nr_normalized r = normalized)) (w_names w)\<rparr>)) (\<lambda>_.
      ret changed)))"

definition user_aliases :: "int \<Rightarrow> world \<Rightarrow> string list" where
  "user_aliases m w = map nr_name (filter (\<lambda>r. nr_source r = User) (names_of m w))"

definition search_order :: "name_entry list \<Rightarrow> string list" where
  "search_order entries = remdups_adj (map ne_normalized entries)"

definition NameSet_contains :: "name_entry list \<Rightarrow> string \<Rightarrow> bool" where
  "NameSet_contains entries normalized = list_ex (\<lambda>e. ne_normalized e = normalized) entries"

definition name_kind :: "nat \<Rightarrow> string" where
  "name_kind p =
     (if p = PRIORITY_MAIN then ''romaji''
      else if p = PRIORITY_TRANSLATED then ''translated''
      else if p = PRIORITY_SYNONYM then ''synonym'' else ''alias'')"

definition NameSet_summary :: "name_entry list \<Rightarrow> string" where
  "NameSet_summary entries =
     (let kinds = foldl (\<lambda>acc k. if k \<in> set acc then acc else acc @ [k]) []
                    (map (\<lambda>e. name_kind (ne_priority e)) entries)
      in show_nat (length entries) @ '' name(s) ('' @ join_with '', '' kinds @ '')'')"

definition parse_source :: "string \<Rightarrow> name_source" where
  "parse_source raw = (if raw = ''mal'' then Mal else if raw = ''jikan'' then Jikan else User)"

section \<open>Facts\<close>

definition names_ok :: "world \<Rightarrow> bool" where
  "names_ok w \<longleftrightarrow>
     distinct (map (\<lambda>r. (nr_mal_id r, nr_normalized r)) (w_names w)) \<and>
     (\<forall>r\<in>set (w_names w). nr_normalized r \<noteq> [] \<and> known_show w (Some (nr_mal_id r)))"

text \<open>An operation on the names of show \<open>m\<close> that may only add or drop rows of that show.\<close>

definition names_step :: "int \<Rightarrow> world \<Rightarrow> world \<Rightarrow> bool" where
  "names_step m w w' \<longleftrightarrow>
     w_shows w' = w_shows w \<and>
     filter (\<lambda>r. nr_mal_id r \<noteq> m) (w_names w') = filter (\<lambda>r. nr_mal_id r \<noteq> m) (w_names w) \<and>
     (names_ok w \<longrightarrow> names_ok w')"

interpretation names_evo: evolution "names_step m"
  by unfold_locales (auto simp: names_step_def)

lemma has_name_iff:
  "has_name m n w \<longleftrightarrow> (m, n) \<in> (\<lambda>r. (nr_mal_id r, nr_normalized r)) ` set (w_names w)"
  by (auto simp: has_name_def list_ex_iff)

lemma insert_name_eq:
  "insert_name m name n src prio w =
     (if has_name m n w then (Inr False, w)
      else if known_show w (Some m) then (Inr True, insert_name_row m name n src prio w)
      else (Inl foreign_key_failed, w))"
  by (simp add: insert_name_def)

lemma insert_name_row_shows [simp]: "w_shows (insert_name_row m name n src prio w) = w_shows w"
  by (simp add: insert_name_row_def Let_def)

lemma insert_name_step: "n \<noteq> [] \<Longrightarrow> evolves (names_step m) (insert_name m name n src prio)"
  by (rule evolvesI)
    (auto simp: insert_name_eq names_step_def names_ok_def has_name_iff insert_name_row_def
      known_show_def Let_def)

lemma sync_one_step: "evolves (names_step m) (sync_one rx m item)"
  unfolding sync_one_def Let_def
  by (cases item) (auto intro!: names_evo.ev_ret names_evo.ev_seq insert_name_step)

lemma delete_names_step:
  "(\<And>r. P r \<Longrightarrow> nr_mal_id r = m) \<Longrightarrow>
   names_step m w (w\<lparr>w_names := filter (\<lambda>r. \<not> P r) (w_names w)\<rparr>)"
  by (auto simp: names_step_def names_ok_def known_show_def distinct_map_filter conj_commute
      intro!: filter_cong)

lemma replace_from_sync_step: "evolves (names_step m) (NameSet_replace_from_sync rx m names)"
  unfolding NameSet_replace_from_sync_def
  by (intro names_evo.ev_transact names_evo.ev_seq names_evo.ev_for_each sync_one_step
      names_evo.ev_modify delete_names_step) simp

lemma add_step: "evolves (names_step m) (NameSet_add rx m name src prio)"
  unfolding NameSet_add_def Let_def
  by (auto intro!: names_evo.ev_ret insert_name_step)

lemma remove_step: "evolves (names_step m) (NameSet_remove rx m name)"
  unfolding NameSet_remove_def Let_def
  by (intro names_evo.ev_seq names_evo.ev_gets names_evo.ev_ret names_evo.ev_modify delete_names_step) simp

text \<open>The operations touch no other table.\<close>

lemma names_kept [kept_intros]:
  "evolves states_kept (insert_name m name n src prio)"
  "evolves states_kept (NameSet_add rx m name src prio)"
  "evolves states_kept (NameSet_replace_from_sync rx m names)"
  "evolves states_kept (NameSet_remove rx m name)"
proof -
  show i: "evolves states_kept (insert_name m name n src prio)" for n
    by (rule evolvesI) (auto simp: insert_name_eq insert_name_row_def Let_def intro!: states_kept_frame)
  then show "evolves states_kept (NameSet_add rx m name src prio)"
    by (auto simp: NameSet_add_def Let_def intro: kept_evo.ev_ret)
  have "evolves states_kept (sync_one rx m item)" for item
    by (rule evolvesI)
      (auto simp: sync_one_def seq_def insert_name_eq insert_name_row_def Let_def
        intro!: states_kept_frame split: prod.split)
  then show "evolves states_kept (NameSet_replace_from_sync rx m names)"
    unfolding NameSet_replace_from_sync_def
    by (intro kept_evo.ev_rules kept_frame_modify) simp_all
  show "evolves states_kept (NameSet_remove rx m name)"
    unfolding NameSet_remove_def Let_def
    by (intro kept_evo.ev_rules kept_frame_modify) simp_all
qed

lemmas names_evolve [evolve_intros] =
  names_kept [THEN kept_evolves]

section \<open>Properties\<close>

definition sync_rows :: "matcher \<Rightarrow> (string \<times> name_source \<times> nat) list \<Rightarrow> (string \<times> string \<times> name_source \<times> nat) set" where
  "sync_rows rx names = {(n, normalize_alias rx n, s, p) |n s p. (n, s, p) \<in> set names \<and> normalize_alias rx n \<noteq> []}"

lemma sync_loop:
  "for_each (sync_one rx m) names w = (Inr (), w') \<Longrightarrow>
   \<exists>new. w_names w' = w_names w @ new \<and>
     (\<forall>r\<in>set new. nr_mal_id r = m \<and> (nr_name r, nr_normalized r, nr_source r, nr_priority r) \<in> sync_rows rx names) \<and>
     (\<forall>(n, k, s, p)\<in>sync_rows rx names. has_name m k w')"
proof (induction names arbitrary: w)
  case Nil
  then show ?case by (simp add: sync_rows_def)
next
  case (Cons item names)
  obtain n s p where item: "item = (n, s, p)" by (cases item)
  let ?k = "normalize_alias rx n"
  from Cons.prems obtain u where one: "sync_one rx m item w = (Inr (), u)"
    and rest: "for_each (sync_one rx m) names u = (Inr (), w')"
    by (auto elim!: seq_ok_cases)
  from Cons.IH [OF rest] obtain new where new: "w_names w' = w_names u @ new"
    "\<forall>r\<in>set new. nr_mal_id r = m \<and> (nr_name r, nr_normalized r, nr_source r, nr_priority r) \<in> sync_rows rx names"
    "\<forall>(n, k, s, p)\<in>sync_rows rx names. has_name m k w'" by blast
  have rows: "sync_rows rx (item # names) =
      (if ?k = [] then {} else {(n, ?k, s, p)}) \<union> sync_rows rx names"
    by (auto simp: sync_rows_def item)
  show ?case
  proof (cases "?k = [] \<or> has_name m ?k w")
    case True
    then have "u = w" using one by (auto simp: sync_one_def item insert_name_eq Let_def seq_def split: if_splits)
    moreover have "has_name m ?k w'" if "?k \<noteq> []"
      using True that new(1) \<open>u = w\<close> by (auto simp: has_name_def)
    ultimately show ?thesis using new rows by auto
  next
    case False
    then have u: "u = insert_name_row m n ?k s p w"
      using one by (auto simp: sync_one_def item insert_name_eq Let_def seq_def split: if_splits)
    then have "has_name m ?k w'" using new(1) by (auto simp: has_name_def insert_name_row_def Let_def)
    then show ?thesis using new rows u False
      by (intro exI [of _ "drop (length (w_names w)) (w_names u) @ new"])
        (auto simp: insert_name_row_def Let_def)
  qed
qed

text \<open>
  A sync never costs the user an alias. \<open>replace_from_sync\<close> either fails and
  changes nothing, or drops exactly the show's rows that came from a sync, keeps
  every row the user added and every row of another show, and adds rows of the given names
  only; then every given name with a non-empty normal form is found under that
  form, and there is still one row for each show and form.
\<close>

theorem sync_keeps_user_aliases:
  assumes "names_ok w"
  shows "case NameSet_replace_from_sync rx m names w of
      (Inl e, w') \<Rightarrow> w' = w
    | (Inr u, w') \<Rightarrow> names_ok w' \<and>
        (\<exists>new. w_names w' = filter (\<lambda>r. nr_mal_id r \<noteq> m \<or> nr_source r = User) (w_names w) @ new \<and>
           list_all (\<lambda>r. nr_mal_id r = m \<and>
             (nr_name r, nr_normalized r, nr_source r, nr_priority r) \<in> sync_rows rx names) new) \<and>
        list_all (\<lambda>x. normalize_alias rx (fst x) = [] \<or> has_name m (normalize_alias rx (fst x)) w') names"
proof -
  obtain r w' where run: "NameSet_replace_from_sync rx m names w = (r, w')" by fastforce
  have ok: "names_ok w'"
    using evolvesD [OF replace_from_sync_step [of m rx names], of w] run assms by (simp add: names_step_def)
  show ?thesis
  proof (cases r)
    case (Inl e)
    then have "w' = w"
      using run by (auto simp: NameSet_replace_from_sync_def transact_def split: prod.splits sum.splits)
    with run Inl show ?thesis by simp
  next
    case (Inr u)
    let ?v = "w\<lparr>w_names := filter (\<lambda>r. \<not> (nr_mal_id r = m \<and> nr_source r \<noteq> User)) (w_names w)\<rparr>"
    from run Inr have "for_each (sync_one rx m) names ?v = (Inr (), w')"
      by (simp add: NameSet_replace_from_sync_def transact_ok_iff)
    from sync_loop [OF this] obtain new where new: "w_names w' = w_names ?v @ new"
      "\<forall>r\<in>set new. nr_mal_id r = m \<and> (nr_name r, nr_normalized r, nr_source r, nr_priority r) \<in> sync_rows rx names"
      "\<forall>(n, k, s, p)\<in>sync_rows rx names. has_name m k w'" by blast
    have "list_all (\<lambda>x. normalize_alias rx (fst x) = [] \<or> has_name m (normalize_alias rx (fst x)) w') names"
      using new(3) unfolding list_all_iff sync_rows_def by force
    with new ok run Inr show ?thesis by (auto simp: list_all_iff)
  qed
qed

text \<open>A show with a user alias and a synced name, and a sync that brings another name.\<close>

definition named_store :: world where
  "named_store = (sample_store [])\<lparr>w_seq_names := 2, w_names :=
     [\<lparr>nr_id = 1, nr_mal_id = 1, nr_name = ''x'', nr_normalized = ''x'', nr_source = User, nr_priority = 9\<rparr>,
      \<lparr>nr_id = 2, nr_mal_id = 1, nr_name = ''y'', nr_normalized = ''y'', nr_source = Mal, nr_priority = 0\<rparr>]\<rparr>"

theorem sync_keeps_user_aliases_witness:
  "case NameSet_replace_from_sync no_match 1 [(''abc'', Mal, 0)] named_store of
     (Inl e, w') \<Rightarrow> False
   | (Inr u, w') \<Rightarrow> list_ex (\<lambda>r. nr_name r = ''x'' \<and> nr_source r = User) (w_names w') \<and> has_name 1 ''abc'' w'"
proof -
  have abc: "normalize_alias no_match ''abc'' = ''abc''" by code_simp
  have "names_ok named_store" by (simp add: names_ok_def named_store_def sample_defs known_show_def)
  note spec = sync_keeps_user_aliases [OF this, where rx = no_match and m = 1 and names = "[(''abc'', Mal, 0)]"]
  have "\<exists>w'. NameSet_replace_from_sync no_match 1 [(''abc'', Mal, 0)] named_store = (Inr (), w')"
    by (simp add: NameSet_replace_from_sync_def transact_ok_iff sync_one_def abc insert_name_eq known_show_def Let_def has_name_def insert_name_row_def
        named_store_def sample_defs seq_def)
  then obtain w' where run: "NameSet_replace_from_sync no_match 1 [(''abc'', Mal, 0)] named_store = (Inr (), w')" ..
  with spec abc show ?thesis by (auto simp: named_store_def)
qed

end
