(* ===== verification/Questions.thy ===== *)
theory Questions
  imports Names
begin

text \<open>
  \<open>questions/mod.rs\<close>: the Inbox. A row's payload and answer are kept as the typed
  values that the code serializes; \<open>kind\<close> is written by \<open>ask\<close> from the payload.
\<close>

named_theorems question_simps \<open>unfolding rules of the question store\<close>

section \<open>Operations\<close>

definition known_job :: "world \<Rightarrow> int option \<Rightarrow> bool" where
  "known_job w j = (case j of None \<Rightarrow> True | Some i \<Rightarrow> the_job i w \<noteq> None)"

definition new_question ::
  "int \<Rightarrow> int option \<Rightarrow> int option \<Rightarrow> payload \<Rightarrow> time \<Rightarrow> int option \<Rightarrow> question" where
  "new_question i jid mid p now expires_in =
     \<lparr> qu_id = i, qu_job_id = jid, qu_mal_id = mid, qu_kind = Payload_kind p, qu_payload = p,
       qu_answer = None, qu_created_at = now,
       qu_expires_at = map_option (\<lambda>secs. now + secs) expires_in \<rparr>"

definition QuestionStore_ask ::
  "int option \<Rightarrow> int option \<Rightarrow> payload \<Rightarrow> time \<Rightarrow> int option \<Rightarrow> int run" where
  "QuestionStore_ask jid mid p now expires_in =
     (\<lambda>w. if known_job w jid \<and> known_show w mid
          then let i = w_seq_questions w + 1 in
            (Inr i, w\<lparr>w_questions := w_questions w @ [new_question i jid mid p now expires_in],
                      w_seq_questions := i\<rparr>)
          else (Inl foreign_key_failed, w))"

text \<open>\<open>answer IS NULL AND (expires_at IS NULL OR expires_at > now)\<close>\<close>

definition is_open :: "time \<Rightarrow> question \<Rightarrow> bool" where
  "is_open now q \<longleftrightarrow>
     qu_answer q = None \<and> (case qu_expires_at q of None \<Rightarrow> True | Some t \<Rightarrow> now < t)"

definition has_expired :: "time \<Rightarrow> question \<Rightarrow> bool" where
  "has_expired now q \<longleftrightarrow>
     qu_answer q = None \<and> (case qu_expires_at q of None \<Rightarrow> False | Some t \<Rightarrow> t \<le> now)"

definition QuestionStore_open :: "time \<Rightarrow> world \<Rightarrow> question list" where
  "QuestionStore_open now w = filter (is_open now) (w_questions w)"

definition QuestionStore_for_show :: "int \<Rightarrow> time \<Rightarrow> world \<Rightarrow> question list" where
  "QuestionStore_for_show m now w =
     filter (\<lambda>q. is_open now q \<and> qu_mal_id q = Some m) (w_questions w)"

definition QuestionStore_of_kind :: "question_kind \<Rightarrow> time \<Rightarrow> world \<Rightarrow> question list" where
  "QuestionStore_of_kind k now w = filter (\<lambda>q. is_open now q \<and> qu_kind q = k) (w_questions w)"

definition set_answer :: "answer \<Rightarrow> question \<Rightarrow> question" where
  "set_answer a q = q\<lparr>qu_answer := Some a\<rparr>"

definition update_questions :: "(question \<Rightarrow> bool) \<Rightarrow> (question \<Rightarrow> question) \<Rightarrow> world \<Rightarrow> world" where
  "update_questions p f w = w\<lparr>w_questions := update_rows p f (w_questions w)\<rparr>"

definition QuestionStore_answer :: "int \<Rightarrow> answer \<Rightarrow> unit run" where
  "QuestionStore_answer i a = modify (update_questions (\<lambda>q. qu_id q = i) (set_answer a))"

definition QuestionStore_get :: "int \<Rightarrow> world \<Rightarrow> question option" where
  "QuestionStore_get i w = find_row qu_id i (w_questions w)"

definition expired_answer :: answer where
  "expired_answer = \<lparr> an_choice = Expired, an_always = False \<rparr>"

text \<open>The rows are read first; each of them is then answered by its id in one transaction.\<close>

definition QuestionStore_expire :: "time \<Rightarrow> question list run" where
  "QuestionStore_expire now =
     seq (gets (\<lambda>w. filter (has_expired now) (w_questions w))) (\<lambda>expired.
     seq (transact (for_each (\<lambda>q. QuestionStore_answer (qu_id q) expired_answer) expired)) (\<lambda>_.
     ret expired))"

definition QuestionStore_delete :: "int \<Rightarrow> bool run" where
  "QuestionStore_delete i =
     seq (gets (\<lambda>w. QuestionStore_get i w \<noteq> None)) (\<lambda>changed.
     seq (modify (\<lambda>w. w\<lparr>w_questions := filter (\<lambda>q. qu_id q \<noteq> i) (w_questions w)\<rparr>)) (\<lambda>_.
     ret changed))"

definition QuestionStore_open_count :: "time \<Rightarrow> world \<Rightarrow> nat" where
  "QuestionStore_open_count now w = length (QuestionStore_open now w)"

section \<open>Facts\<close>

lemma open_or_expired:
  "qu_answer q = None \<Longrightarrow> is_open now q \<noteq> has_expired now q"
  by (auto simp: is_open_def has_expired_def split: option.splits)

lemma set_answer_id [simp]: "qu_id (set_answer a q) = qu_id q"
  by (simp add: set_answer_def)

lemma update_rows_comp_ids:
  assumes "\<And>r. key (f r) = key r" "\<And>r. f (f r) = f r"
  shows "update_rows (\<lambda>r. key r = k) f (update_rows (\<lambda>r. key r \<in> K) f rs)
    = update_rows (\<lambda>r. key r \<in> insert k K) f rs"
  using assms by (induction rs) auto

lemma answer_all:
  "for_each (\<lambda>q. QuestionStore_answer (qu_id q) a) qs w =
     (Inr (), update_questions (\<lambda>q. qu_id q \<in> qu_id ` set qs) (set_answer a) w)"
proof -
  have gen: "for_each (\<lambda>q. QuestionStore_answer (qu_id q) a) qs
        (update_questions (\<lambda>q. qu_id q \<in> K) (set_answer a) w) =
      (Inr (), update_questions (\<lambda>q. qu_id q \<in> qu_id ` set qs \<union> K) (set_answer a) w)" for K
  proof (induction qs arbitrary: K)
    case Nil
    then show ?case by simp
  next
    case (Cons q qs)
    have "update_questions (\<lambda>r. qu_id r = qu_id q) (set_answer a)
        (update_questions (\<lambda>r. qu_id r \<in> K) (set_answer a) w) =
      update_questions (\<lambda>r. qu_id r \<in> insert (qu_id q) K) (set_answer a) w"
      using update_rows_comp_ids [of qu_id "set_answer a" "qu_id q" K "w_questions w"]
      by (simp add: update_questions_def set_answer_def)
    with Cons [of "insert (qu_id q) K"] show ?case by (simp add: QuestionStore_answer_def)
  qed
  have "update_questions (\<lambda>q. qu_id q \<in> {}) (set_answer a) w = w"
    by (simp add: update_questions_def update_rows_none)
  with gen [of "{}"] show ?thesis by simp
qed

lemma expire_eq:
  "QuestionStore_expire now w =
     (Inr (filter (has_expired now) (w_questions w)),
      update_questions (\<lambda>q. qu_id q \<in> qu_id ` {r \<in> set (w_questions w). has_expired now r})
        (set_answer expired_answer) w)"
  by (simp add: QuestionStore_expire_def answer_all transact_def seq_def)

lemma ask_frame [simp]:
  "w_jobs (snd (QuestionStore_ask jid mid p now e w)) = w_jobs w"
  "w_seq_jobs (snd (QuestionStore_ask jid mid p now e w)) = w_seq_jobs w"
  "w_episodes (snd (QuestionStore_ask jid mid p now e w)) = w_episodes w"
  "w_shows (snd (QuestionStore_ask jid mid p now e w)) = w_shows w"
  "w_names (snd (QuestionStore_ask jid mid p now e w)) = w_names w"
  "w_torrents (snd (QuestionStore_ask jid mid p now e w)) = w_torrents w"
  "w_settings (snd (QuestionStore_ask jid mid p now e w)) = w_settings w"
  "w_rules (snd (QuestionStore_ask jid mid p now e w)) = w_rules w"
  "w_now (snd (QuestionStore_ask jid mid p now e w)) = w_now w"
  "w_events (snd (QuestionStore_ask jid mid p now e w)) = w_events w"
  "w_sent (snd (QuestionStore_ask jid mid p now e w)) = w_sent w"
  by (simp_all add: QuestionStore_ask_def Let_def)

lemma ask_ok:
  "known_job w jid \<Longrightarrow> known_show w mid \<Longrightarrow>
   QuestionStore_ask jid mid p now e w =
     (Inr (w_seq_questions w + 1),
      w\<lparr>w_questions := w_questions w @ [new_question (w_seq_questions w + 1) jid mid p now e],
        w_seq_questions := w_seq_questions w + 1\<rparr>)"
  by (simp add: QuestionStore_ask_def Let_def)

lemma update_questions_frame [simp]:
  "w_jobs (update_questions P f w) = w_jobs w"
  "w_seq_jobs (update_questions P f w) = w_seq_jobs w"
  "w_episodes (update_questions P f w) = w_episodes w"
  "w_settings (update_questions P f w) = w_settings w"
  "w_now (update_questions P f w) = w_now w"
  by (simp_all add: update_questions_def)

lemma questions_kept [kept_intros]:
  "evolves states_kept (QuestionStore_ask jid mid p now e)"
  "evolves states_kept (QuestionStore_answer i a)"
  "evolves states_kept (QuestionStore_expire now)"
  "evolves states_kept (QuestionStore_delete i)"
proof -
  show "evolves states_kept (QuestionStore_ask jid mid p now e)"
    by (rule evolvesI) (simp add: states_kept_frame)
  show "evolves states_kept (QuestionStore_answer i a)"
    unfolding QuestionStore_answer_def by (rule kept_frame_modify) simp_all
  show "evolves states_kept (QuestionStore_expire now)"
    by (rule evolvesI) (simp add: expire_eq states_kept_frame)
  show "evolves states_kept (QuestionStore_delete i)"
    unfolding QuestionStore_delete_def
    by (intro kept_evo.ev_rules kept_frame_modify) simp_all
qed

lemmas questions_evolve [evolve_intros] =
  questions_kept [THEN kept_evolves]

section \<open>Properties\<close>

lemma update_rows_in_image:
  assumes "distinct (map key rs)"
  shows "update_rows (\<lambda>r. key r \<in> key ` {x \<in> set rs. p x}) f rs = map (\<lambda>r. if p r then f r else r) rs"
proof -
  have "key r \<in> key ` {x \<in> set rs. p x} \<longleftrightarrow> p r" if "r \<in> set rs" for r
    using that assms by (auto simp: distinct_map dest: inj_onD)
  then show ?thesis by (simp add: update_rows_def)
qed

text \<open>
  Expiry takes exactly what is overdue. On a table with unique ids \<open>expire\<close>
  returns the unanswered questions whose time is over, answers each of them with
  \<open>Expired\<close> and leaves every other row as it is: the open questions are the same before and after,
  none is left to expire, and a second call at the same time finds nothing.
\<close>

theorem expire_exact:
  assumes "distinct (map qu_id (w_questions w))"
  shows "\<exists>w'. QuestionStore_expire now w = (Inr (filter (has_expired now) (w_questions w)), w') \<and>
    w_questions w' = map (\<lambda>q. if has_expired now q then q\<lparr>qu_answer := Some expired_answer\<rparr> else q) (w_questions w) \<and>
    QuestionStore_open now w' = QuestionStore_open now w \<and>
    QuestionStore_expire now w' = (Inr [], w')"
proof -
  let ?f = "\<lambda>q. if has_expired now q then set_answer expired_answer q else q"
  let ?w = "update_questions (\<lambda>q. qu_id q \<in> qu_id ` {r \<in> set (w_questions w). has_expired now r})
        (set_answer expired_answer) w"
  have rows: "w_questions ?w = map ?f (w_questions w)"
    using update_rows_in_image [OF assms] by (simp add: update_questions_def)
  have no: "\<not> has_expired now (set_answer expired_answer q)" for q by (simp add: has_expired_def set_answer_def)
  have "filter (is_open now) (map ?f qs) = filter (is_open now) qs" for qs
    by (induction qs) (auto simp: is_open_def has_expired_def set_answer_def split: option.splits)
  then have "QuestionStore_open now ?w = QuestionStore_open now w" by (simp add: QuestionStore_open_def rows)
  moreover have "QuestionStore_expire now ?w = (Inr [], ?w)"
  proof -
    have "filter (has_expired now) (w_questions ?w) = []"
      unfolding rows filter_empty_conv using no by auto
    then show ?thesis by (simp add: QuestionStore_expire_def transact_def)
  qed
  ultimately show ?thesis using rows by (intro exI [of _ ?w]) (simp add: expire_eq set_answer_def)
qed

theorem expire_exact_witness:
  "\<exists>q w'. QuestionStore_expire 10 ((empty_world 0)\<lparr>w_questions := [q]\<rparr>) = (Inr [q], w') \<and>
     QuestionStore_expire 10 w' = (Inr [], w')"
proof -
  let ?q = "new_question 1 None None (LowSeeds 0 [] [] False) 0 (Some 5)"
  have "distinct (map qu_id (w_questions ((empty_world 0)\<lparr>w_questions := [?q]\<rparr>)))" by simp
  from expire_exact [OF this, of 10] show ?thesis
    by (intro exI [of _ ?q]) (auto simp: new_question_def has_expired_def)
qed

end
