(* ===== verification/Season.thy ===== *)
theory Season
  imports Settings Release
begin

text \<open>
  \<open>season/\<close>: the franchise as an ordered list of MAL entries, what the list
  wants next (\<open>walk.rs\<close>) and what one parsed release is good for (\<open>decide.rs\<close>).
  The walk and the decision are the code's branches in the code's order.
  \<open>shown\<close> is the \<open>Display\<close> form of an \<open>f64\<close>, which only appears in reasons.
  A slice out of range is the error \<open>Panic\<close>.
\<close>

named_theorems season_simps \<open>unfolding rules of the season functions\<close>

section \<open>The chain\<close>

record season_entry =
  se_mal_id :: int
  se_title :: string
  se_list_status :: list_status
  se_watched_count :: int
  se_total_episodes :: "int option"
  se_episode_offset :: int
  se_show_type :: show_type
  se_fully_aired :: bool

type_synonym season_chain = "season_entry list"

record wanted =
  wa_mal_id :: int
  wa_title :: string
  wa_season :: int
  wa_episode :: "f64 option"

datatype want = Want_Some wanted | Want_Skip string bool

datatype decision = DDownload int f64 | DSkip string | DAsk string | DNotFound string

definition chain_entry :: "season_chain \<Rightarrow> int \<Rightarrow> season_entry option" where
  "chain_entry es m = find_row se_mal_id m es"

text \<open>The loop of \<open>season_of\<close> over the entries before the target.\<close>

fun season_loop :: "matcher \<Rightarrow> nat \<Rightarrow> int \<Rightarrow> season_chain \<Rightarrow> int" where
  "season_loop rx i season [] = season"
| "season_loop rx i season (prev # es) =
     (case extract_season_from_title rx (se_title prev) of
        Some e \<Rightarrow> season_loop rx (i + 1) (e + 1) es
      | None \<Rightarrow>
          if 0 < i \<and> is_cour_or_part_split rx (se_title prev)
          then season_loop rx (i + 1) season es
          else season_loop rx (i + 1) (season + 1) es)"

definition chain_position :: "season_chain \<Rightarrow> int \<Rightarrow> nat option" where
  "chain_position es m = position (\<lambda>e. se_mal_id e = m) es"

function season_of :: "matcher \<Rightarrow> season_chain \<Rightarrow> int \<Rightarrow> int option" where
  "season_of rx es m =
     (case chain_position es m of
        None \<Rightarrow> None
      | Some p \<Rightarrow>
          (case extract_season_from_title rx (se_title (es ! p)) of
             Some explicit \<Rightarrow> Some explicit
           | None \<Rightarrow>
               if 0 < p \<and> is_cour_or_part_split rx (se_title (es ! p))
               then season_of rx es (se_mal_id (es ! (p - 1)))
               else Some (season_loop rx 0 1 (take p es))))"
  by pat_completeness auto

text \<open>The call for a split cour looks up an entry that stands earlier in the chain.\<close>

termination season_of
proof (relation "measure (\<lambda>(rx, es, m). case chain_position es m of None \<Rightarrow> 0 | Some p \<Rightarrow> p)")
  fix rx es m p
  assume p: "chain_position es m = Some p" and "0 < p \<and> is_cour_or_part_split rx (se_title (es ! p))"
  then have "p - 1 < length es" "p - 1 < p"
    using position_SomeD [of _ es p] by (fastforce simp: chain_position_def)+
  moreover then obtain k where "k \<le> p - 1" "chain_position es (se_mal_id (es ! (p - 1))) = Some k"
    using position_le [of "p - 1" es "\<lambda>e. se_mal_id e = se_mal_id (es ! (p - 1))"]
    by (auto simp: chain_position_def)
  ultimately show "((rx, es, se_mal_id (es ! (p - 1))), rx, es, m)
      \<in> measure (\<lambda>(rx, es, m). case chain_position es m of None \<Rightarrow> 0 | Some p \<Rightarrow> p)"
    using p by simp
qed simp

declare season_of.simps [simp del]

definition by_season :: "season_chain \<Rightarrow> int \<Rightarrow> season_entry option" where
  "by_season es season =
     (if season < 1 \<or> int (length es) < season then None else Some (es ! (nat season - 1)))"

fun total_loop :: "int \<Rightarrow> season_chain \<Rightarrow> int option" where
  "total_loop acc [] = Some acc"
| "total_loop acc (e # es) =
     (case se_total_episodes e of None \<Rightarrow> None | Some n \<Rightarrow> total_loop (acc + n) es)"

text \<open>\<open>&self.entries[..k]\<close> panics when \<open>k\<close> is beyond the length.\<close>

definition episodes_before :: "season_chain \<Rightarrow> int \<Rightarrow> error + int option" where
  "episodes_before es season =
     (let k = nat (max (max season 1 - 1) 0) in
      if length es < k then Inl (Panic ''range end index out of range for slice'')
      else Inr (total_loop 0 (take k es)))"

section \<open>The walk\<close>

definition wanted_from :: "matcher \<Rightarrow> season_chain \<Rightarrow> season_entry \<Rightarrow> int \<Rightarrow> wanted" where
  "wanted_from rx es e n =
     \<lparr> wa_mal_id = se_mal_id e, wa_title = se_title e,
       wa_season = (case season_of rx es (se_mal_id e) of Some s \<Rightarrow> s | None \<Rightarrow> 1),
       wa_episode = Some (real_of_int n) \<rparr>"

definition em_dash :: string where
  "em_dash = [CHR '' '', CHR 0xE2, CHR 0x80, CHR 0x94, CHR '' '']"

definition fully_watched :: "season_entry \<Rightarrow> bool" where
  "fully_watched e = (case se_total_episodes e of Some t \<Rightarrow> t \<le> se_watched_count e | None \<Rightarrow> False)"

fun walk :: "matcher \<Rightarrow> bool \<Rightarrow> season_chain \<Rightarrow> season_chain \<Rightarrow> want" where
  "walk rx plan_allowed es [] = Want_Skip ''nothing left to download in this chain'' False"
| "walk rx plan_allowed es (e # rest) =
     (case se_list_status e of
        Completed \<Rightarrow> walk rx plan_allowed es rest
      | OnHold \<Rightarrow> Want_Skip (se_title e @ '' is on hold'') False
      | Dropped \<Rightarrow> Want_Skip (se_title e @ '' is dropped'') False
      | PlanToWatch \<Rightarrow>
          if \<not> plan_allowed
          then Want_Skip (se_title e @ '' is plan to watch and Plan to watch is manual by default'') False
          else if fully_watched e then walk rx plan_allowed es rest
          else Want_Some (wanted_from rx es e (se_watched_count e + 1))
      | Watching \<Rightarrow>
          if fully_watched e
          then Want_Skip (se_title e @ '' is fully watched'' @ em_dash @ ''consider marking it Completed'') True
          else Want_Some (wanted_from rx es e (se_watched_count e + 1)))"

definition chain_wanted :: "matcher \<Rightarrow> settings \<Rightarrow> bool option \<Rightarrow> season_chain \<Rightarrow> want" where
  "chain_wanted rx st auto_plan_to_watch es =
     walk rx (case auto_plan_to_watch of Some b \<Rightarrow> b | None \<Rightarrow> s_auto_plan_to_watch st) es es"

section \<open>The decision\<close>

text \<open>\<open>found > w\<close>: the number must be absolute, or it is refused.\<close>

definition decide_later ::
  "(f64 \<Rightarrow> string) \<Rightarrow> season_chain \<Rightarrow> season_entry \<Rightarrow> int \<Rightarrow> f64 \<Rightarrow> f64 \<Rightarrow> error + decision" where
  "decide_later shown es entry wanted_season w found =
     (case se_total_episodes entry of
        Some cnt \<Rightarrow>
          if cnt < as_i64 found then
            (case episodes_before es wanted_season of
               Inl e \<Rightarrow> Inl e
             | Inr None \<Rightarrow>
                 Inr (DAsk (''episode '' @ shown found
                   @ '' looks absolute, but an earlier season's episode count is unknown''))
             | Inr (Some cumulative) \<Rightarrow>
                 (let mapped = as_i64 found - cumulative in
                  if mapped = as_i64 w then Inr (DDownload wanted_season w)
                  else if 1 \<le> mapped \<and> mapped \<le> cnt
                  then Inr (DSkip (''absolute episode '' @ shown found @ '' is episode ''
                         @ show_int mapped @ '', not '' @ shown w))
                  else Inr (DAsk (''episode '' @ shown found @ '' does not fit the season chain''))))
          else Inr (DSkip (''episode '' @ shown found @ '' is later than the wanted episode '' @ shown w))
      | None \<Rightarrow>
          Inr (DAsk (''episode '' @ shown found @ '' is beyond the wanted '' @ shown w
            @ '' and the entry has no episode count'')))"

definition accepted_numbers :: "season_entry \<Rightarrow> f64 \<Rightarrow> f64 list" where
  "accepted_numbers entry w =
     w # (if se_episode_offset entry \<noteq> 0 then [w + real_of_int (se_episode_offset entry)] else [])"

text \<open>A release that carries the number \<open>found\<close>.\<close>

definition decide_number ::
  "(f64 \<Rightarrow> string) \<Rightarrow> season_chain \<Rightarrow> season_entry \<Rightarrow> int \<Rightarrow> f64 \<Rightarrow> f64 \<Rightarrow> error + decision" where
  "decide_number shown es entry wanted_season w found =
     (if list_ex (\<lambda>x. \<bar>x - found\<bar> < f64_EPSILON) (accepted_numbers entry w)
      then Inr (DDownload wanted_season w)
      else if found < w then
        (if as_i64 found \<le> se_watched_count entry
         then Inr (DSkip (''episode '' @ shown found @ '' is already watched''))
         else Inr (DSkip (''episode '' @ shown found @ '' is earlier than the wanted episode '' @ shown w)))
      else decide_later shown es entry wanted_season w found)"

definition decide :: "(f64 \<Rightarrow> string) \<Rightarrow> season_chain \<Rightarrow> wanted \<Rightarrow> release \<Rightarrow> error + decision" where
  "decide shown es wnt rel =
     (case chain_entry es (wa_mal_id wnt) of
        None \<Rightarrow> Inr (DNotFound (''no chain entry for '' @ show_int (wa_mal_id wnt)))
      | Some entry \<Rightarrow>
          (let wanted_season = wa_season wnt in
           if (case re_season rel of Some s \<Rightarrow> int s \<noteq> wanted_season | None \<Rightarrow> False)
           then Inr (DNotFound (''release is for season ''
                  @ (case re_season rel of Some s \<Rightarrow> show_nat s | None \<Rightarrow> '''')
                  @ '', but '' @ wa_title wnt @ '' wants season '' @ show_int wanted_season))
           else case wa_episode wnt of
             None \<Rightarrow>
               (case re_episode rel of
                  None \<Rightarrow> Inr (DDownload wanted_season 1)
                | Some found \<Rightarrow>
                    if found = 1 then Inr (DDownload wanted_season 1)
                    else Inr (DAsk (''episode-numbered release ('' @ shown found
                           @ '') for a feature without episodes'')))
           | Some w \<Rightarrow>
               if re_is_batch rel \<and> re_episode rel = None then
                 (if se_fully_aired entry then Inr (DDownload wanted_season w)
                  else Inr (DAsk ''only a batch is available and the show is still airing''))
               else case re_episode rel of
                 None \<Rightarrow> Inr (DAsk ''release has no episode number'')
               | Some found \<Rightarrow> decide_number shown es entry wanted_season w found))"

section \<open>Facts\<close>

text \<open>An entry the walk passes over.\<close>

definition walked_past :: "bool \<Rightarrow> season_entry \<Rightarrow> bool" where
  "walked_past plan_allowed e \<longleftrightarrow>
     se_list_status e = Completed \<or>
     (se_list_status e = PlanToWatch \<and> plan_allowed \<and> fully_watched e)"

text \<open>An entry whose next episode the walk answers with.\<close>

definition stops_with_episode :: "bool \<Rightarrow> season_entry \<Rightarrow> bool" where
  "stops_with_episode plan_allowed e \<longleftrightarrow>
     \<not> fully_watched e \<and>
     (se_list_status e = Watching \<or> (se_list_status e = PlanToWatch \<and> plan_allowed))"

lemma walk_past: "\<forall>e\<in>set before. walked_past pa e \<Longrightarrow> walk rx pa es (before @ rest) = walk rx pa es rest"
  by (induction before) (auto simp: walked_past_def)

lemma walk_first:
  obtains (all) "\<forall>e\<in>set xs. walked_past pa e"
  | (first) before e rest where "xs = before @ e # rest" "\<forall>e\<in>set before. walked_past pa e" "\<not> walked_past pa e"
proof (cases "\<forall>e\<in>set xs. walked_past pa e")
  case False
  then have "\<exists>before e rest. xs = before @ e # rest \<and> \<not> walked_past pa e \<and> (\<forall>e\<in>set before. \<not> \<not> walked_past pa e)"
    using split_list_first_prop [of xs "\<lambda>e. \<not> walked_past pa e"] by blast
  then show ?thesis using first by blast
qed (rule all)

lemma walk_Some_iff:
  "walk rx pa es xs = Want_Some w \<longleftrightarrow>
     (\<exists>before e rest. xs = before @ e # rest \<and> (\<forall>p\<in>set before. walked_past pa p)
        \<and> stops_with_episode pa e \<and> w = wanted_from rx es e (se_watched_count e + 1))"
  (is "?l \<longleftrightarrow> ?r")
proof
  assume l: ?l
  show ?r
  proof (cases xs pa rule: walk_first)
    case all
    then show ?thesis using l walk_past [OF all, of rx es "[]"] by simp
  next
    case (first before e rest)
    with l have "walk rx pa es (e # rest) = Want_Some w" using walk_past by simp
    with first(3) have "stops_with_episode pa e \<and> w = wanted_from rx es e (se_watched_count e + 1)"
      by (auto simp: walked_past_def stops_with_episode_def split: list_status.splits if_splits)
    with first show ?thesis by blast
  qed
next
  assume ?r
  then obtain before e rest where "xs = before @ e # rest" "\<forall>p\<in>set before. walked_past pa p"
    "stops_with_episode pa e" "w = wanted_from rx es e (se_watched_count e + 1)" by blast
  then show ?l
    using walk_past [of before pa rx es "e # rest"]
    by (auto simp: stops_with_episode_def split: list_status.split)
qed

lemma decide_later_download:
  "decide_later shown es entry s w found = Inr (DDownload s' e) \<Longrightarrow> s' = s \<and> e = w"
  by (auto simp: decide_later_def Let_def split: option.splits if_splits sum.splits)

lemma decide_number_download:
  "decide_number shown es entry s w found = Inr (DDownload s' e) \<Longrightarrow> s' = s \<and> e = w"
  by (auto simp: decide_number_def dest: decide_later_download split: if_splits)

lemma episodes_before_panic:
  "(\<exists>m. episodes_before es s = Inl m) \<longleftrightarrow> int (length es) < s - 1"
  by (auto simp: episodes_before_def Let_def)

lemma decide_later_panic:
  "(\<exists>m. decide_later shown es entry s w found = Inl m) \<longleftrightarrow>
     (\<exists>cnt. se_total_episodes entry = Some cnt \<and> cnt < as_i64 found) \<and> int (length es) < s - 1"
  unfolding episodes_before_panic [symmetric]
  by (auto simp: decide_later_def Let_def split: option.splits if_splits sum.splits)

lemma total_loop_sum:
  "total_loop t es = (if \<forall>e\<in>set es. se_total_episodes e \<noteq> None
     then Some (t + (\<Sum>e\<leftarrow>es. the (se_total_episodes e))) else None)"
  by (induction t es rule: total_loop.induct) (auto split: option.splits)

section \<open>Properties\<close>

lemma wanted_from_iff:
  "w = wanted_from rx es e n \<longleftrightarrow>
     wa_mal_id w = se_mal_id e \<and> wa_title w = se_title e \<and> wa_episode w = Some (real_of_int n) \<and>
     wa_season w = (case season_of rx es (se_mal_id e) of Some s \<Rightarrow> s | None \<Rightarrow> 1)"
  by (cases w) (auto simp: wanted_from_def simp del: season_of.simps)

text \<open>
  C8: the walk over a franchise is in order. \<open>chain_wanted\<close> answers with an episode
  exactly when the list splits into entries that are done with (completed, or
  planned, allowed and fully watched), then an entry that is being watched (or
  planned and allowed) and has an episode left; it wants the episode after the
  last watched one of that entry, so nothing behind an entry on hold, dropped or
  not allowed is ever wanted.
\<close>

theorem chain_wanted_spec:
  "(chain_wanted rx st auto_plan es = Want_Some w) =
     (\<exists>before e rest allowed. allowed = (case auto_plan of Some b \<Rightarrow> b | None \<Rightarrow> s_auto_plan_to_watch st) \<and>
        es = before @ e # rest \<and> list_all (walked_past allowed) before \<and> stops_with_episode allowed e \<and>
        wa_mal_id w = se_mal_id e \<and> wa_title w = se_title e \<and>
        wa_episode w = Some (real_of_int (se_watched_count e + 1)) \<and>
        wa_season w = (case season_of rx es (se_mal_id e) of Some s \<Rightarrow> s | None \<Rightarrow> 1))"
  unfolding chain_wanted_def walk_Some_iff wanted_from_iff list_all_iff by blast

lemma decide_later_download_iff:
  "(decide_later shown es entry s w found = Inr (DDownload s' e)) \<longleftrightarrow>
     s' = s \<and> e = w \<and> (\<exists>cnt before. se_total_episodes entry = Some cnt \<and> cnt < as_i64 found \<and>
       episodes_before es s = Inr (Some before) \<and> as_i64 found = before + as_i64 w)"
  by (auto simp: decide_later_def Let_def split: option.splits if_splits sum.splits)


text \<open>
  Where the decision aborts. \<open>episodes_before\<close> slices the chain up to the wanted
  season, and that number can come from the title (\<open>4th Season\<close>) while the chain is
  shorter. \<open>decide\<close> then panics, and only then: the release carries no other
  season, its number is none of the accepted ones, not below the wanted one and
  above the entry's episode count, and the chain has fewer entries than seasons before the wanted one.
\<close>

theorem decide_panics:
  "(\<exists>m. decide shown es wnt rel = Inl m) =
     (\<exists>entry w found cnt. chain_entry es (wa_mal_id wnt) = Some entry \<and>
        (re_season rel = None \<or> map_option int (re_season rel) = Some (wa_season wnt)) \<and>
        wa_episode wnt = Some w \<and> re_episode rel = Some found \<and>
        list_all (\<lambda>x. f64_EPSILON \<le> \<bar>x - found\<bar>) (accepted_numbers entry w) \<and> w \<le> found \<and>
        se_total_episodes entry = Some cnt \<and> cnt < as_i64 found \<and> int (length es) < wa_season wnt - 1)"
proof -
  have far: "(\<not> list_ex (\<lambda>x. \<bar>x - found\<bar> < f64_EPSILON) xs) =
      list_all (\<lambda>x. f64_EPSILON \<le> \<bar>x - found\<bar>) xs" for found xs
    by (induction xs) auto
  have number: "(\<exists>m. decide_number shown es entry s w found = Inl m) \<longleftrightarrow>
      list_all (\<lambda>x. f64_EPSILON \<le> \<bar>x - found\<bar>) (accepted_numbers entry w) \<and> w \<le> found \<and>
      (\<exists>cnt. se_total_episodes entry = Some cnt \<and> cnt < as_i64 found) \<and> int (length es) < s - 1"
    for entry s w found
    using decide_later_panic [of shown es entry s w found]
    by (auto simp: decide_number_def far [symmetric] not_less split: if_splits)
  show ?thesis
  proof (cases "chain_entry es (wa_mal_id wnt)")
    case None
    then show ?thesis by (simp add: decide_def)
  next
    case (Some entry)
    have "(\<exists>m. decide shown es wnt rel = Inl m) \<longleftrightarrow>
        (re_season rel = None \<or> map_option int (re_season rel) = Some (wa_season wnt)) \<and>
        (\<exists>w found. wa_episode wnt = Some w \<and> re_episode rel = Some found \<and>
           (\<exists>m. decide_number shown es entry (wa_season wnt) w found = Inl m))"
      using Some
      by (cases "re_season rel"; cases "wa_episode wnt"; cases "re_episode rel") (simp_all add: decide_def Let_def)
    then show ?thesis unfolding number using Some by auto
  qed
qed

end
