(* ===== verification/Score.thy ===== *)
theory Score
  imports Rules Release
begin

text \<open>
  \<open>score/\<close>: the hard filters, the accept score and the ranking of one candidate
  against one target. \<open>evaluate\<close> is cut into the stages its comments name, each
  a function of the same inputs; the notes accumulate in the same order.

  \<open>f64\<close> values are reals, so \<open>log10\<close> and \<open>powf\<close> are the real functions. The
  textual forms of numbers (\<open>{}\<close>, \<open>{:.0}\<close>, \<open>{:.1}\<close>, \<open>{:.2}\<close>) and of a quoted string
  (\<open>{:?}\<close>) are the parameter \<open>formats\<close>; they only appear in notes and reasons.
\<close>

named_theorems score_simps \<open>unfolding rules of the scorer\<close>

section \<open>Seed health\<close>

datatype seed_health = Dead | Thin | Healthy

instantiation seed_health :: linorder
begin

fun health_rank :: "seed_health \<Rightarrow> nat" where
  "health_rank Dead = 0"
| "health_rank Thin = 1"
| "health_rank Healthy = 2"

definition less_eq_seed_health :: "seed_health \<Rightarrow> seed_health \<Rightarrow> bool" where
  "less_eq_seed_health a b \<longleftrightarrow> health_rank a \<le> health_rank b"

definition less_seed_health :: "seed_health \<Rightarrow> seed_health \<Rightarrow> bool" where
  "less_seed_health a b \<longleftrightarrow> health_rank a < health_rank b"

lemma health_rank_inj: "health_rank a = health_rank b \<Longrightarrow> a = b"
  by (cases a; cases b; simp)

instance
  by standard
    (auto simp: less_eq_seed_health_def less_seed_health_def intro: health_rank_inj)

end

definition seed_health_of :: "nat \<Rightarrow> rules \<Rightarrow> seed_health" where
  "seed_health_of seeders r =
     (if seeders = 0 then Dead
      else if r_seed_auto_threshold r \<le> seeders then Healthy
      else Thin)"

section \<open>Candidates and targets\<close>

text \<open>\<open>nyaa::FeedItem\<close>, the fields the scorer reads, with the magnet \<open>FeedItem::magnet\<close> builds.\<close>

record feed_item =
  fi_title :: string
  fi_published_at :: time
  fi_seeders :: nat
  fi_leechers :: nat
  fi_info_hash :: string
  fi_magnet :: string
  fi_category_id :: string
  fi_size_bytes :: nat
  fi_trusted :: bool
  fi_remake :: bool

record candidate =
  ca_release :: release
  ca_info_hash :: string
  ca_magnet :: string
  ca_seeders :: nat
  ca_leechers :: nat
  ca_trusted :: bool
  ca_remake :: bool
  ca_size_bytes :: nat
  ca_published_at :: time
  ca_uploader :: "string option"
  ca_show_type :: "show_type option"
  ca_category_id :: "string option"

definition Candidate_from_item :: "release \<Rightarrow> feed_item \<Rightarrow> candidate" where
  "Candidate_from_item rel item =
     \<lparr> ca_release = rel, ca_info_hash = lower (trim (fi_info_hash item)), ca_magnet = fi_magnet item,
       ca_seeders = fi_seeders item, ca_leechers = fi_leechers item, ca_trusted = fi_trusted item,
       ca_remake = fi_remake item, ca_size_bytes = fi_size_bytes item,
       ca_published_at = fi_published_at item, ca_uploader = None, ca_show_type = None,
       ca_category_id = Some (fi_category_id item) \<rparr>"

record target =
  ta_names :: "string list"
  ta_other_names :: "string list"
  ta_wanted_episode :: "f64 option"
  ta_show_type :: show_type
  ta_season :: int
  ta_start_year :: "int option"
  ta_fully_aired :: bool
  ta_total_episodes :: "int option"

datatype rejection =
    NoSeeders
  | ResolutionBelowFloor string string
  | CodecBlocked string
  | SizeOutOfRange nat nat nat
  | UploaderBlocked string
  | WrongEpisode f64 f64
  | EpisodeOnAFeature f64
  | TitleIsAnotherShow string f64
  | TypeMismatch show_type show_type
  | SeasonConflict int int

record formats =
  fm_display :: "f64 \<Rightarrow> string"
  fm_dec0 :: "f64 \<Rightarrow> string"
  fm_dec1 :: "f64 \<Rightarrow> string"
  fm_dec2 :: "f64 \<Rightarrow> string"
  fm_quoted :: "string \<Rightarrow> string"

fun ShowType_debug :: "show_type \<Rightarrow> string" where
  "ShowType_debug Tv = ''Tv''"
| "ShowType_debug Movie = ''Movie''"
| "ShowType_debug Ova = ''Ova''"
| "ShowType_debug Ona = ''Ona''"
| "ShowType_debug Special = ''Special''"

definition en_dash :: string where
  "en_dash = [CHR 0xE2, CHR 0x80, CHR 0x93]"

fun Rejection_display :: "formats \<Rightarrow> rejection \<Rightarrow> string" where
  "Rejection_display fm NoSeeders = ''no seeders''"
| "Rejection_display fm (ResolutionBelowFloor resolution flr) =
     ''resolution '' @ resolution @ '' is below your floor of '' @ flr"
| "Rejection_display fm (CodecBlocked codec) = ''codec '' @ codec @ '' is blocked''"
| "Rejection_display fm (SizeOutOfRange size_mb min_mb max_mb) =
     ''size '' @ show_nat size_mb @ '' MB is outside your '' @ show_nat min_mb @ en_dash
       @ show_nat max_mb @ '' MB range''"
| "Rejection_display fm (UploaderBlocked uploader) = ''uploader '' @ uploader @ '' is blocked''"
| "Rejection_display fm (WrongEpisode w found) =
     ''episode '' @ fm_display fm found @ '' is not the wanted episode '' @ fm_display fm w"
| "Rejection_display fm (EpisodeOnAFeature found) =
     ''episode-numbered '' @ fm_display fm found @ '' for a feature without episodes''"
| "Rejection_display fm (TitleIsAnotherShow name ratio) =
     ''title matches a different show ('' @ name @ '', ratio '' @ fm_dec2 fm ratio @ '')''"
| "Rejection_display fm (TypeMismatch w found) =
     ''type '' @ ShowType_debug found @ '' does not match '' @ ShowType_debug w"
| "Rejection_display fm (SeasonConflict w found) =
     ''season '' @ show_int found @ '' conflicts with wanted season '' @ show_int w"

record scored =
  sc_signal :: f64
  sc_ranking :: f64
  sc_title_ratio :: f64
  sc_matched_name :: "string option"
  sc_notes :: "string list"

definition Scored_total :: "scored \<Rightarrow> f64" where
  "Scored_total s = sc_signal s + sc_ranking s"

section \<open>Helpers of the evaluation\<close>

definition resolution_rank :: "string \<Rightarrow> nat option" where
  "resolution_rank resolution =
     (let s = lower (trim resolution) in
      if s = ''480p'' then Some 1
      else if s = ''576p'' then Some 2
      else if s = ''720p'' then Some 3
      else if s = ''1080p'' then Some 4
      else if s = ''1440p'' then Some 5
      else if s = ''2160p'' \<or> s = ''4k'' then Some 6
      else None)"

fun best_ratio_loop :: "f64 \<Rightarrow> string option \<Rightarrow> string list \<Rightarrow> string \<Rightarrow> f64 \<times> string option" where
  "best_ratio_loop best best_name [] title = (best, best_name)"
| "best_ratio_loop best best_name (name # names) title =
     (let ratio = fuzzy_ratio name title in
      if best < ratio then best_ratio_loop ratio (Some name) names title
      else best_ratio_loop best best_name names title)"

definition best_ratio :: "string list \<Rightarrow> string \<Rightarrow> f64 \<times> string option" where
  "best_ratio names title = best_ratio_loop 0 None names title"

definition u64_MAX :: nat where
  "u64_MAX = 2 ^ 64 - 1"

definition saturating_mul :: "nat \<Rightarrow> nat \<Rightarrow> nat" where
  "saturating_mul a b = min (a * b) u64_MAX"

definition div_ceil :: "nat \<Rightarrow> nat \<Rightarrow> nat" where
  "div_ceil a b = (if a mod b = 0 then a div b else a div b + 1)"

text \<open>\<open>x as u64\<close>\<close>

definition as_u64 :: "f64 \<Rightarrow> nat" where
  "as_u64 x = min u64_MAX (nat \<lfloor>x\<rfloor>)"

section \<open>Stage 1: hard filters\<close>

definition any_ignore_case :: "string list \<Rightarrow> string \<Rightarrow> bool" where
  "any_ignore_case xs s \<longleftrightarrow> list_ex (\<lambda>b. eq_ignore_case b s) xs"

definition blocked_by :: "string list \<Rightarrow> string option \<Rightarrow> bool" where
  "blocked_by xs v = (case v of Some s \<Rightarrow> any_ignore_case xs s | None \<Rightarrow> False)"

definition below_floor :: "string option \<Rightarrow> rules \<Rightarrow> bool" where
  "below_floor resolution r =
     (case resolution of
        Some res \<Rightarrow>
          (case (resolution_rank res, resolution_rank (r_min_resolution r)) of
             (Some got, Some flr) \<Rightarrow> got < flr
           | _ \<Rightarrow> False)
      | None \<Rightarrow> False)"

definition foreign_category :: "string option \<Rightarrow> bool" where
  "foreign_category c = (case c of Some cat \<Rightarrow> \<not> starts_with ''1_'' cat \<and> cat \<noteq> [] | None \<Rightarrow> False)"

definition text_or_empty :: "string option \<Rightarrow> string" where
  "text_or_empty v = (case v of Some s \<Rightarrow> s | None \<Rightarrow> [])"

definition hard_filter :: "candidate \<Rightarrow> target \<Rightarrow> rules \<Rightarrow> rejection option" where
  "hard_filter c t r =
     (if ca_seeders c = 0 then Some NoSeeders
      else if foreign_category (ca_category_id c) then Some (TypeMismatch (ta_show_type t) Special)
      else if blocked_by (r_blocked_uploaders r) (ca_uploader c)
        then Some (UploaderBlocked (text_or_empty (ca_uploader c)))
      else if below_floor (re_resolution (ca_release c)) r
        then Some (ResolutionBelowFloor (text_or_empty (re_resolution (ca_release c))) (r_min_resolution r))
      else if blocked_by (r_codecs_blocked r) (re_codec (ca_release c))
        then Some (CodecBlocked (text_or_empty (re_codec (ca_release c))))
      else None)"

definition is_batch_for :: "candidate \<Rightarrow> target \<Rightarrow> bool" where
  "is_batch_for c t \<longleftrightarrow>
     re_is_batch (ca_release c) \<or>
     (ta_show_type t = Tv \<and> ta_wanted_episode t \<noteq> None \<and> re_episode (ca_release c) = None
      \<and> ca_show_type c \<noteq> Some Movie)"

definition episode_count :: "candidate \<Rightarrow> target \<Rightarrow> nat" where
  "episode_count c t =
     (case re_episode_range (ca_release c) of
        Some (from, til) \<Rightarrow> max (as_u64 (til - from + 1)) 1
      | None \<Rightarrow> nat (max (case ta_total_episodes t of Some n \<Rightarrow> n | None \<Rightarrow> 1) 1))"

definition MIB :: nat where
  "MIB = 1024 * 1024"

definition size_policy :: "candidate \<Rightarrow> target \<Rightarrow> settings \<Rightarrow> rejection option" where
  "size_policy c t st =
     (let size_bytes = ca_size_bytes c;
          size_mb = div_ceil size_bytes MIB;
          max_bytes = saturating_mul (s_max_batch_gb st) (1024 * 1024 * 1024);
          max_mb = saturating_mul (s_max_batch_gb st) 1024
      in if is_batch_for c t then
           (if max_bytes < size_bytes
            then Some (SizeOutOfRange size_mb (s_min_episode_mb st) max_mb)
            else let per_ep_mb = div_ceil (size_bytes div episode_count c t) MIB in
              if s_max_episode_mb st < per_ep_mb \<or> per_ep_mb < s_min_episode_mb st
              then Some (SizeOutOfRange per_ep_mb (s_min_episode_mb st) (s_max_episode_mb st))
              else None)
         else if ta_show_type t = Movie then
           (if max_bytes < size_bytes \<or> size_mb < s_min_episode_mb st
            then Some (SizeOutOfRange size_mb (s_min_episode_mb st) max_mb)
            else None)
         else if s_max_episode_mb st < size_mb \<or> size_mb < s_min_episode_mb st
           then Some (SizeOutOfRange size_mb (s_min_episode_mb st) (s_max_episode_mb st))
           else None)"

text \<open>The raw name explicitly mentions another show.\<close>

definition mentions :: "string \<Rightarrow> string \<Rightarrow> bool" where
  "mentions raw other \<longleftrightarrow> 4 \<le> length (lower (trim other)) \<and> contains (lower (trim other)) (lower raw)"

definition identity_filter :: "candidate \<Rightarrow> target \<Rightarrow> settings \<Rightarrow> rejection option" where
  "identity_filter c t st =
     (let title = re_normalized_title (ca_release c);
          (best_own, matched) = best_ratio (ta_names t) title;
          (best_other, other_match) = best_ratio (ta_other_names t) title
      in if best_own < s_fuzzy_threshold st \<and> s_fuzzy_threshold st \<le> best_other
         then Some (TitleIsAnotherShow (text_or_empty other_match) best_other)
         else case List.find (mentions (re_raw (ca_release c))) (ta_other_names t) of
           Some other \<Rightarrow> Some (TitleIsAnotherShow other 1)
         | None \<Rightarrow> None)"

section \<open>Stage 2: the accept score\<close>

definition title_points :: "formats \<Rightarrow> settings \<Rightarrow> f64 \<Rightarrow> string option \<Rightarrow> f64 \<times> string list" where
  "title_points fm st best_own matched =
     (if s_fuzzy_threshold st \<le> best_own
      then (50, [''title matches '' @ fm_quoted fm (text_or_empty matched) @ '' ('' @ fm_dec2 fm best_own @ '')''])
      else (0, [''no name match at '' @ fm_dec2 fm best_own @ '' (need ''
                  @ fm_dec2 fm (s_fuzzy_threshold st) @ '')'']))"

definition episode_points ::
  "formats \<Rightarrow> f64 option \<Rightarrow> release \<Rightarrow> rejection + (f64 \<times> string list)" where
  "episode_points fm wnt rel =
     (case (wnt, re_episode rel) of
        (None, None) \<Rightarrow> Inr (30, [''no episodes expected, none found''])
      | (None, Some found) \<Rightarrow>
          if \<not> re_is_batch rel then Inl (EpisodeOnAFeature found) else Inr (0, [])
      | (Some w, Some found) \<Rightarrow>
          if f64_EPSILON < \<bar>w - found\<bar> \<and> \<not> re_is_batch rel then Inl (WrongEpisode w found)
          else if \<bar>w - found\<bar> \<le> f64_EPSILON
            then Inr (30, [''episode '' @ fm_display fm found @ '' matches''])
            else Inr (0, [''batch release covering season episodes''])
      | (Some w, None) \<Rightarrow> Inr (0, [''no episode number (batch or feature)'']))"

definition outside_range :: "f64 option \<Rightarrow> release \<Rightarrow> rejection option" where
  "outside_range wnt rel =
     (case (wnt, re_episode_range rel) of
        (Some w, Some (from, til)) \<Rightarrow> if w < from \<or> til < w then Some (WrongEpisode w til) else None
      | _ \<Rightarrow> None)"

definition type_points :: "show_type option \<Rightarrow> show_type \<Rightarrow> rejection + (f64 \<times> string list)" where
  "type_points found w =
     (case found of
        None \<Rightarrow> Inr (0, [])
      | Some f \<Rightarrow> if f \<noteq> w then Inl (TypeMismatch w f)
                  else Inr (10, [''type '' @ ShowType_debug f @ '' matches'']))"

definition release_season :: "release \<Rightarrow> int" where
  "release_season rel = (case re_season rel of Some s \<Rightarrow> int s | None \<Rightarrow> 1)"

definition year_points :: "int option \<Rightarrow> int option \<Rightarrow> f64 \<times> string list" where
  "year_points ours theirs =
     (case (ours, theirs) of
        (Some o', Some t) \<Rightarrow>
          if 1 < \<bar>o' - t\<bar>
          then (-20, [''year '' @ show_int o' @ '' differs from the show's '' @ show_int t
                        @ '' by more than one''])
          else (0, [])
      | _ \<Rightarrow> (0, []))"

definition batch_points :: "candidate \<Rightarrow> target \<Rightarrow> rules \<Rightarrow> f64 \<times> string list" where
  "batch_points c t r =
     (if is_batch_for c t \<and> ta_fully_aired t then
        (if ta_wanted_episode t \<noteq> None \<and> r_prefer_batch_when_finished r
         then (50, [''season batch prioritized over single episodes (+50)''])
         else if ta_wanted_episode t \<noteq> None then (30, [''batch covering season episodes (+30)''])
         else (15, [''batch for a show that has finished airing'']))
      else if is_batch_for c t then (0, [''batch, but the show is still airing''])
      else (0, []))"

definition signal_score ::
  "formats \<Rightarrow> candidate \<Rightarrow> target \<Rightarrow> rules \<Rightarrow> settings \<Rightarrow> rejection + (f64 \<times> string list)" where
  "signal_score fm c t r st =
     (let rel = ca_release c;
          (best_own, matched) = best_ratio (ta_names t) (re_normalized_title rel);
          (p1, n1) = title_points fm st best_own matched
      in case episode_points fm (ta_wanted_episode t) rel of
           Inl rej \<Rightarrow> Inl rej
         | Inr (p2, n2) \<Rightarrow>
           (case outside_range (ta_wanted_episode t) rel of
              Some rej \<Rightarrow> Inl rej
            | None \<Rightarrow>
              (case type_points (ca_show_type c) (ta_show_type t) of
                 Inl rej \<Rightarrow> Inl rej
               | Inr (p3, n3) \<Rightarrow>
                 (if release_season rel \<noteq> ta_season t
                  then Inl (SeasonConflict (ta_season t) (release_season rel))
                  else let (p4, n4) = year_points (re_year rel) (ta_start_year t);
                           (p5, n5) = batch_points c t r
                       in Inr (p1 + p2 + p3 + p4 + p5, n1 @ n2 @ n3 @ n4 @ n5)))))"

section \<open>Stage 3: ranking\<close>

definition group_points :: "release \<Rightarrow> rules \<Rightarrow> f64 \<times> string list" where
  "group_points rel r =
     (case re_group rel of
        None \<Rightarrow> (0, [])
      | Some g \<Rightarrow>
          (case position (\<lambda>x. eq_ignore_case x g) (r_groups r) of
             None \<Rightarrow> (0, [])
           | Some i \<Rightarrow> (40 - 5 * real i, [g @ '' is priority group #'' @ show_nat (i + 1)])))"

definition resolution_points :: "release \<Rightarrow> rules \<Rightarrow> f64 \<times> string list" where
  "resolution_points rel r =
     (case re_resolution rel of
        Some res \<Rightarrow>
          if eq_ignore_case res (r_preferred_resolution r)
          then (25, [res @ '' is your preferred resolution'']) else (10, [])
      | None \<Rightarrow> (0, []))"

definition seeder_points :: "nat \<Rightarrow> f64" where
  "seeder_points n = 20 * (log 10 (real n + 1) / log 10 1001)"

definition trust_points :: "candidate \<Rightarrow> f64 \<times> string list" where
  "trust_points c = (if ca_trusted c \<and> \<not> ca_remake c then (15, [''trusted, not a remake'']) else (0, []))"

definition language_points :: "release \<Rightarrow> rules \<Rightarrow> f64 \<times> string list" where
  "language_points rel r =
     (if r_preferred_languages r \<noteq> [] \<and>
         list_ex (\<lambda>l. any_ignore_case (r_preferred_languages r) l) (re_languages rel)
      then (15, [''has the subtitle language you asked for''])
      else if re_dual_audio rel then (10, [''dual audio'']) else (0, []))"

definition recency_points :: "candidate \<Rightarrow> time \<Rightarrow> f64 \<times> string list" where
  "recency_points c now =
     (let age_days = real_of_int (max (now - ca_published_at c) 0) / 86400;
          recency = 10 * ((1/2) powr (age_days / 7))
      in if 2 \<le> (case re_version (ca_release c) of Some v \<Rightarrow> v | None \<Rightarrow> 1)
         then (max recency 10, [''v2 or newer fix'']) else (recency, []))"

definition episode_first_points :: "candidate \<Rightarrow> target \<Rightarrow> rules \<Rightarrow> f64 \<times> string list" where
  "episode_first_points c t r =
     (if re_is_batch (ca_release c) \<and> ta_wanted_episode t \<noteq> None
         \<and> \<not> (ta_fully_aired t \<and> r_prefer_batch_when_finished r)
      then (-50, [''multi-episode batch deprioritized in episode-first mode (-50)'']) else (0, []))"

definition is_dub :: "release \<Rightarrow> bool" where
  "is_dub rel \<longleftrightarrow>
     \<not> re_dual_audio rel \<and>
     (list_ex (\<lambda>l. eq_ignore_case l ''dub'' \<or> eq_ignore_case l ''english dub'') (re_languages rel)
      \<or> contains ''dub'' (lower (re_raw rel)))"

definition dub_points :: "release \<Rightarrow> rules \<Rightarrow> f64 \<times> string list" where
  "dub_points rel r =
     (if is_dub rel \<and> \<not> list_ex (\<lambda>p. contains ''dub'' (lower p)) (r_preferred_languages r)
      then (-40, [''pure dub deprioritized without preference (-40)'']) else (0, []))"

definition ranking_score ::
  "formats \<Rightarrow> candidate \<Rightarrow> target \<Rightarrow> rules \<Rightarrow> time \<Rightarrow> f64 \<times> string list" where
  "ranking_score fm c t r now =
     (let rel = ca_release c; sp = seeder_points (ca_seeders c);
          parts = [group_points rel r, resolution_points rel r,
                   (sp, [show_nat (ca_seeders c) @ '' seeders (+'' @ fm_dec1 fm sp @ '')'']),
                   trust_points c, language_points rel r, recency_points c now,
                   episode_first_points c t r, dub_points rel r]
      in (sum_list (map fst parts), concat (map snd parts)))"

section \<open>The evaluation\<close>

definition evaluate ::
  "formats \<Rightarrow> candidate \<Rightarrow> target \<Rightarrow> rules \<Rightarrow> settings \<Rightarrow> time \<Rightarrow> rejection + scored" where
  "evaluate fm c t r st now =
     (case hard_filter c t r of
        Some rej \<Rightarrow> Inl rej
      | None \<Rightarrow>
        (case size_policy c t st of
           Some rej \<Rightarrow> Inl rej
         | None \<Rightarrow>
           (case identity_filter c t st of
              Some rej \<Rightarrow> Inl rej
            | None \<Rightarrow>
              (case signal_score fm c t r st of
                 Inl rej \<Rightarrow> Inl rej
               | Inr (signal, notes) \<Rightarrow>
                   (let (best_own, matched) = best_ratio (ta_names t) (re_normalized_title (ca_release c));
                        (ranking, more) = ranking_score fm c t r now
                    in Inr \<lparr> sc_signal = signal, sc_ranking = ranking, sc_title_ratio = best_own,
                             sc_matched_name = matched, sc_notes = notes @ more \<rparr>)))))"

section \<open>Facts\<close>

text \<open>What a candidate that is not rejected satisfies, and nothing else.\<close>

definition size_in_range :: "candidate \<Rightarrow> target \<Rightarrow> settings \<Rightarrow> bool" where
  "size_in_range c t st \<longleftrightarrow>
     (let mb = div_ceil (ca_size_bytes c) MIB;
          most = saturating_mul (s_max_batch_gb st) (1024 * 1024 * 1024);
          per_episode = div_ceil (ca_size_bytes c div episode_count c t) MIB
      in if is_batch_for c t
         then ca_size_bytes c \<le> most \<and> s_min_episode_mb st \<le> per_episode \<and> per_episode \<le> s_max_episode_mb st
         else if ta_show_type t = Movie
         then ca_size_bytes c \<le> most \<and> s_min_episode_mb st \<le> mb
         else s_min_episode_mb st \<le> mb \<and> mb \<le> s_max_episode_mb st)"

definition episode_agrees :: "candidate \<Rightarrow> target \<Rightarrow> bool" where
  "episode_agrees c t \<longleftrightarrow>
     (case (ta_wanted_episode t, re_episode (ca_release c)) of
        (None, Some f) \<Rightarrow> re_is_batch (ca_release c)
      | (Some w, Some f) \<Rightarrow> \<bar>w - f\<bar> \<le> f64_EPSILON \<or> re_is_batch (ca_release c)
      | _ \<Rightarrow> True) \<and>
     (case (ta_wanted_episode t, re_episode_range (ca_release c)) of
        (Some w, Some (from, til)) \<Rightarrow> from \<le> w \<and> w \<le> til
      | _ \<Rightarrow> True)"

definition acceptable :: "candidate \<Rightarrow> target \<Rightarrow> rules \<Rightarrow> settings \<Rightarrow> bool" where
  "acceptable c t r st \<longleftrightarrow>
     0 < ca_seeders c \<and>
     \<not> foreign_category (ca_category_id c) \<and>
     \<not> blocked_by (r_blocked_uploaders r) (ca_uploader c) \<and>
     \<not> blocked_by (r_codecs_blocked r) (re_codec (ca_release c)) \<and>
     \<not> below_floor (re_resolution (ca_release c)) r \<and>
     size_in_range c t st \<and>
     identity_filter c t st = None \<and>
     episode_agrees c t \<and>
     (\<forall>f. ca_show_type c = Some f \<longrightarrow> f = ta_show_type t) \<and>
     release_season (ca_release c) = ta_season t"

lemma hard_filter_None_iff:
  "hard_filter c t r = None \<longleftrightarrow>
     0 < ca_seeders c \<and> \<not> foreign_category (ca_category_id c) \<and>
     \<not> blocked_by (r_blocked_uploaders r) (ca_uploader c) \<and>
     \<not> below_floor (re_resolution (ca_release c)) r \<and>
     \<not> blocked_by (r_codecs_blocked r) (re_codec (ca_release c))"
  by (auto simp: hard_filter_def)

lemma size_policy_None_iff: "size_policy c t st = None \<longleftrightarrow> size_in_range c t st"
  by (auto simp: size_policy_def size_in_range_def Let_def)

lemma episode_points_ok_iff:
  "(\<exists>x. episode_points fm (ta_wanted_episode t) (ca_release c) = Inr x) \<and>
   outside_range (ta_wanted_episode t) (ca_release c) = None \<longleftrightarrow> episode_agrees c t"
  by (auto simp: episode_points_def outside_range_def episode_agrees_def not_less split: option.splits)

lemma type_points_ok_iff: "(\<exists>x. type_points f w = Inr x) \<longleftrightarrow> (\<forall>g. f = Some g \<longrightarrow> g = w)"
  by (auto simp: type_points_def split: option.split)

lemma signal_score_ok_iff:
  "(\<exists>x. signal_score fm c t r st = Inr x) \<longleftrightarrow>
     episode_agrees c t \<and> (\<forall>f. ca_show_type c = Some f \<longrightarrow> f = ta_show_type t) \<and>
     release_season (ca_release c) = ta_season t"
  unfolding episode_points_ok_iff [of fm t c, symmetric]
    type_points_ok_iff [of "ca_show_type c" "ta_show_type t", symmetric]
  by (auto simp: signal_score_def Let_def split: prod.splits sum.splits option.splits)

lemma evaluate_ok_iff: "(\<exists>s. evaluate fm c t r st now = Inr s) \<longleftrightarrow> acceptable c t r st"
proof -
  have "(\<exists>s. evaluate fm c t r st now = Inr s) \<longleftrightarrow>
      hard_filter c t r = None \<and> size_policy c t st = None \<and> identity_filter c t st = None \<and>
      (\<exists>x. signal_score fm c t r st = Inr x)"
    by (auto simp: evaluate_def Let_def split: prod.splits sum.splits option.splits)
  then show ?thesis
    unfolding hard_filter_None_iff size_policy_None_iff signal_score_ok_iff acceptable_def by blast
qed

lemma evaluate_signal:
  "evaluate fm c t r st now = Inr s \<Longrightarrow> \<exists>notes. signal_score fm c t r st = Inr (sc_signal s, notes)"
  by (auto simp: evaluate_def Let_def split: prod.splits sum.splits option.splits)

lemma signal_score_parts:
  assumes "signal_score fm c t r st = Inr (p, notes)"
  obtains p1 p2 p3 p4 p5 where "p = p1 + p2 + p3 + p4 + p5" "p1 \<in> {0, 50}" "p2 \<in> {0, 30}"
    "p3 \<in> {0, 10}" "p4 \<in> {-20, 0}" "p5 \<in> {0, 15, 30, 50}"
proof -
  from assms obtain bo m p1 n1 p2 n2 p3 n3 p4 n4 p5 n5 where
    parts: "title_points fm st bo m = (p1, n1)"
    "episode_points fm (ta_wanted_episode t) (ca_release c) = Inr (p2, n2)"
    "type_points (ca_show_type c) (ta_show_type t) = Inr (p3, n3)"
    "year_points (re_year (ca_release c)) (ta_start_year t) = (p4, n4)"
    "batch_points c t r = (p5, n5)" and p: "p = p1 + p2 + p3 + p4 + p5"
    by (auto simp: signal_score_def Let_def split: prod.splits sum.splits option.splits if_splits)
  have "p1 \<in> {0, 50}" using parts(1) by (auto simp: title_points_def split: if_splits)
  moreover have "p2 \<in> {0, 30}"
    using parts(2) by (auto simp: episode_points_def split: option.splits if_splits)
  moreover have "p3 \<in> {0, 10}"
    using parts(3) by (auto simp: type_points_def split: option.splits if_splits)
  moreover have "p4 \<in> {-20, 0}"
    using parts(4) by (auto simp: year_points_def split: option.splits if_splits)
  moreover have "p5 \<in> {0, 15, 30, 50}"
    using parts(5) by (auto simp: batch_points_def split: if_splits)
  ultimately show ?thesis using p that by blast
qed

lemma seeder_points_mono: "m \<le> n \<Longrightarrow> seeder_points m \<le> seeder_points n"
  by (simp add: seeder_points_def divide_right_mono)

section \<open>Sample formats\<close>

definition sample_formats :: formats where
  "sample_formats = \<lparr> fm_display = \<lambda>_. ''n'', fm_dec0 = \<lambda>_. ''n'', fm_dec1 = \<lambda>_. ''n'',
     fm_dec2 = \<lambda>_. ''n'', fm_quoted = \<lambda>s. s \<rparr>"

section \<open>Properties\<close>

lemma no_seeders_rejected: "ca_seeders c = 0 \<Longrightarrow> evaluate fm c t r st now = Inl NoSeeders"
  by (simp add: evaluate_def hard_filter_def)

lemma other_rejections:
  "size_policy c t st \<noteq> Some NoSeeders" "identity_filter c t st \<noteq> Some NoSeeders"
  "signal_score fm c t r st \<noteq> Inl NoSeeders"
proof -
  show "size_policy c t st \<noteq> Some NoSeeders" by (simp add: size_policy_def Let_def)
  show "identity_filter c t st \<noteq> Some NoSeeders"
    by (simp add: identity_filter_def Let_def split: prod.split option.split)
  have "episode_points fm w rel \<noteq> Inl NoSeeders" "outside_range w rel \<noteq> Some NoSeeders"
    "type_points f v \<noteq> Inl NoSeeders" for w rel f v
    by (auto simp: episode_points_def outside_range_def type_points_def split: option.split)
  then show "signal_score fm c t r st \<noteq> Inl NoSeeders"
    by (auto simp: signal_score_def Let_def split: prod.split sum.split option.split)
qed


lemma best_ratio_signal:
  assumes "signal_score fm c t r st = Inr (p, ns)"
  shows "p \<le> (if s_fuzzy_threshold st \<le> fst (best_ratio (ta_names t) (re_normalized_title (ca_release c)))
    then 140 else 90)"
proof -
  obtain bo m where best: "best_ratio (ta_names t) (re_normalized_title (ca_release c)) = (bo, m)"
    by fastforce
  from assms best obtain p1 n1 p2 n2 p3 n3 p4 n4 p5 n5 where
    parts: "title_points fm st bo m = (p1, n1)"
    "episode_points fm (ta_wanted_episode t) (ca_release c) = Inr (p2, n2)"
    "type_points (ca_show_type c) (ta_show_type t) = Inr (p3, n3)"
    "year_points (re_year (ca_release c)) (ta_start_year t) = (p4, n4)"
    "batch_points c t r = (p5, n5)" and p: "p = p1 + p2 + p3 + p4 + p5"
    by (auto simp: signal_score_def Let_def split: prod.splits sum.splits option.splits if_splits)
  have "p1 = (if s_fuzzy_threshold st \<le> bo then 50 else 0)"
    using parts(1) by (auto simp: title_points_def split: if_splits)
  moreover have "p2 \<le> 30" using parts(2) by (auto simp: episode_points_def split: option.splits if_splits)
  moreover have "p3 \<le> 10" using parts(3) by (auto simp: type_points_def split: option.splits if_splits)
  moreover have "p4 \<le> 0" using parts(4) by (auto simp: year_points_def split: option.splits if_splits)
  moreover have "p5 \<le> 50" using parts(5) by (auto simp: batch_points_def split: if_splits)
  ultimately show ?thesis using best p by (simp split: if_splits)
qed

lemma evaluate_ratio:
  "evaluate fm c t r st now = Inr s \<Longrightarrow>
   sc_title_ratio s = fst (best_ratio (ta_names t) (re_normalized_title (ca_release c)))"
  by (auto simp: evaluate_def Let_def split: prod.splits sum.splits option.splits)

text \<open>
  The accept score of a candidate lies between -20 and 140, and it is at most
  90 when none of the show's names reaches the configured title ratio.
\<close>

theorem signal_bounds:
  "case evaluate fm c t r st now of
     Inl rej \<Rightarrow> \<not> acceptable c t r st
   | Inr s \<Rightarrow> -20 \<le> sc_signal s \<and>
       sc_signal s \<le> (if s_fuzzy_threshold st \<le> sc_title_ratio s then 140 else 90)"
proof (cases "evaluate fm c t r st now")
  case (Inl rej)
  then show ?thesis using evaluate_ok_iff [of fm c t r st now] by simp
next
  case (Inr s)
  from evaluate_signal [OF this] obtain ns where
    n: "signal_score fm c t r st = Inr (sc_signal s, ns)" by blast
  then have "-20 \<le> sc_signal s" by (rule signal_score_parts) auto
  then show ?thesis using Inr best_ratio_signal [OF n] evaluate_ratio [OF Inr] by simp
qed

end
