(* ===== verification/Matching.thy ===== *)
theory Matching
  imports Names Score
begin

text \<open>
  \<open>matching/\<close>: the inputs of one run, the search over the names of the show, the
  ranking and the decision (Step 4). Nyaa's answer to a query is the parameter
  \<open>nyaa\<close>; it includes what \<open>nyaa::search\<close> does with the reply (parsing the feed,
  dropping items below \<open>min_seeders\<close>, cutting at \<open>limit\<close>).
\<close>

named_theorems matching_simps \<open>unfolding rules of the matcher\<close>

section \<open>Inputs\<close>

record target_inputs =
  ti_mal_id :: int
  ti_title :: string
  ti_english_title :: "string option"
  ti_start_year :: "int option"
  ti_show_type :: show_type
  ti_total_episodes :: "int option"
  ti_season :: int
  ti_fully_aired :: bool
  ti_auto :: bool
  ti_names :: "string list"
  ti_other_names :: "string list"

definition load_show :: "int \<Rightarrow> world \<Rightarrow> error + show_row option" where
  "load_show m w =
     (case find_row sh_mal_id m (w_shows w) of
        None \<Rightarrow> Inr None
      | Some s \<Rightarrow>
          if sh_status s = None then Inl (Db ''Invalid column type Null at index: 4, name: status'')
          else Inr (Some s))"

text \<open>\<open>SELECT DISTINCT\<close> leaves the order open; the model takes the rows' order.\<close>

definition other_show_names :: "int \<Rightarrow> world \<Rightarrow> string list" where
  "other_show_names m w = remdups (map nr_normalized (filter (\<lambda>r. nr_mal_id r \<noteq> m) (w_names w)))"

definition TargetInputs_load :: "matcher \<Rightarrow> int \<Rightarrow> world \<Rightarrow> error + target_inputs" where
  "TargetInputs_load rx m w =
     (case load_show m w of
        Inl e \<Rightarrow> Inl e
      | Inr None \<Rightarrow> Inl (Other (''no show with MAL id '' @ show_int m))
      | Inr (Some s) \<Rightarrow>
          (let names = search_order (NameSet_load rx m w) in
           if names = [] then Inl (Other (''show '' @ show_int m @ '' has no names to search for''))
           else Inr \<lparr> ti_mal_id = sh_mal_id s, ti_title = sh_title s,
                      ti_english_title = sh_english_title s, ti_start_year = sh_start_year s,
                      ti_show_type = ShowType_parse (sh_type s),
                      ti_total_episodes = sh_total_episodes s,
                      ti_season = (case extract_season_from_title rx (sh_title s) of
                                     Some n \<Rightarrow> n | None \<Rightarrow> sh_season s),
                      ti_fully_aired =
                        (case sh_status s of Some t \<Rightarrow> AiringStatus_parse t = Finished | None \<Rightarrow> False),
                      ti_auto = sh_auto s, ti_names = names,
                      ti_other_names = other_show_names m w \<rparr>))"

definition with_season :: "target_inputs \<Rightarrow> int \<Rightarrow> target_inputs" where
  "with_season ti season = ti\<lparr> ti_season := season \<rparr>"

definition score_target :: "target_inputs \<Rightarrow> f64 option \<Rightarrow> target" where
  "score_target ti wanted_episode =
     \<lparr> ta_names = ti_names ti, ta_other_names = ti_other_names ti,
       ta_wanted_episode = wanted_episode, ta_show_type = ti_show_type ti,
       ta_season = ti_season ti, ta_start_year = ti_start_year ti,
       ta_fully_aired = ti_fully_aired ti, ta_total_episodes = ti_total_episodes ti \<rparr>"

definition expected_show_of :: "target_inputs \<Rightarrow> expected_show" where
  "expected_show_of ti =
     \<lparr> ex_mal_id = ti_mal_id ti, ex_title = ti_title ti, ex_english_title = ti_english_title ti,
       ex_year = ti_start_year ti \<rparr>"

record ranked =
  ra_candidate :: candidate
  ra_scored :: scored

definition to_option :: "ranked \<Rightarrow> match_option" where
  "to_option r =
     (let c = ra_candidate r; s = ra_scored r in
      \<lparr> mo_info_hash = ca_info_hash c, mo_name = re_raw (ca_release c), mo_magnet = ca_magnet c,
        mo_group = re_group (ca_release c), mo_resolution = re_resolution (ca_release c),
        mo_seeders = ca_seeders c, mo_size_bytes = ca_size_bytes c, mo_signal = sc_signal s,
        mo_ranking = sc_ranking s, mo_title_ratio = sc_title_ratio s, mo_why = sc_notes s \<rparr>)"

datatype ask_reason =
    NoConfidentMatch f64 f64
  | TooClose f64 f64 f64
  | ThinSeeds nat
  | SizeReview string

fun AskReason_display :: "formats \<Rightarrow> ask_reason \<Rightarrow> string" where
  "AskReason_display fm (NoConfidentMatch best needed) =
     ''best candidate scored '' @ fm_dec0 fm best @ '', below the '' @ fm_dec0 fm needed
       @ '' needed to proceed''"
| "AskReason_display fm (TooClose best runner_up margin) =
     ''runner-up scored '' @ fm_dec0 fm runner_up @ '' against the best '' @ fm_dec0 fm best
       @ '', closer than the '' @ fm_dec0 fm margin @ '' margin''"
| "AskReason_display fm (ThinSeeds seeders) =
     ''only '' @ show_nat seeders @ '' seeders, which is below your auto-download line''"
| "AskReason_display fm (SizeReview reason) = reason"

type_synonym rejected = "(string \<times> rejection) list"

datatype verdict =
    V_Auto ranked bool
  | V_Ask ask_reason "ranked list"
  | V_NotFound rejected

section \<open>Searching\<close>

record search_query =
  sq_text :: string
  sq_min_seeders :: nat
  sq_limit :: nat

definition candidate_from :: "release \<Rightarrow> feed_item \<Rightarrow> candidate" where
  "candidate_from rel item = (Candidate_from_item rel item)\<lparr> ca_uploader := None \<rparr>"

text \<open>The inner loop over the items of one reply; the state is \<open>(seen, found)\<close>.\<close>

fun collect_items ::
  "matcher \<Rightarrow> feed_item list \<Rightarrow> string list \<times> candidate list \<Rightarrow> string list \<times> candidate list" where
  "collect_items rx [] st = st"
| "collect_items rx (item # items) (seen, found) =
     (if fi_info_hash item \<in> set seen then collect_items rx items (seen, found)
      else collect_items rx items
        (seen @ [fi_info_hash item],
         found @ [candidate_from (parse_release rx (fi_title item)) item]))"

fun search_loop ::
  "matcher \<Rightarrow> (search_query \<Rightarrow> error + feed_item list) \<Rightarrow> nat \<Rightarrow> nat \<Rightarrow> string list
     \<Rightarrow> string list \<times> candidate list \<Rightarrow> error + candidate list" where
  "search_loop rx nyaa per_name stop_after [] (seen, found) = Inr found"
| "search_loop rx nyaa per_name stop_after (name # names) (seen, found) =
     (if stop_after \<le> length found then Inr found
      else case nyaa \<lparr> sq_text = name, sq_min_seeders = 1, sq_limit = max 1 (min per_name 1000) \<rparr> of
        Inl e \<Rightarrow> Inl e
      | Inr items \<Rightarrow>
          search_loop rx nyaa per_name stop_after names (collect_items rx items (seen, found)))"

definition best_seeders_first :: "candidate list \<Rightarrow> candidate list" where
  "best_seeders_first cs = sort_key (\<lambda>c. - int (ca_seeders c)) cs"

definition search_candidates ::
  "matcher \<Rightarrow> (search_query \<Rightarrow> error + feed_item list) \<Rightarrow> string list \<Rightarrow> nat \<Rightarrow> nat
     \<Rightarrow> error + candidate list" where
  "search_candidates rx nyaa names per_name stop_after =
     (case search_loop rx nyaa per_name stop_after names ([], []) of
        Inl e \<Rightarrow> Inl e
      | Inr found \<Rightarrow> Inr (take (max stop_after 1) (best_seeders_first found)))"

section \<open>Ranking and the decision\<close>

fun score_all ::
  "formats \<Rightarrow> target \<Rightarrow> rules \<Rightarrow> settings \<Rightarrow> time \<Rightarrow> candidate list \<Rightarrow> ranked list \<times> rejected" where
  "score_all fm t r st now [] = ([], [])"
| "score_all fm t r st now (c # cs) =
     (let (ok, bad) = score_all fm t r st now cs in
      case evaluate fm c t r st now of
        Inr s \<Rightarrow> (\<lparr> ra_candidate = c, ra_scored = s \<rparr> # ok, bad)
      | Inl rej \<Rightarrow> (ok, (re_raw (ca_release c), rej) # bad))"

definition best_total_first :: "ranked list \<Rightarrow> ranked list" where
  "best_total_first rs = sort_key (\<lambda>r. - Scored_total (ra_scored r)) rs"

definition rank ::
  "formats \<Rightarrow> candidate list \<Rightarrow> target_inputs \<Rightarrow> f64 option \<Rightarrow> rules \<Rightarrow> settings \<Rightarrow> time
     \<Rightarrow> ranked list \<times> rejected" where
  "rank fm candidates ti wanted_episode r st now =
     (let (ok, bad) = score_all fm (score_target ti wanted_episode) r st now candidates in
      (take 20 (best_total_first ok), bad))"

definition signal_of :: "ranked \<Rightarrow> f64" where
  "signal_of r = sc_signal (ra_scored r)"

definition group_is :: "string \<Rightarrow> ranked \<Rightarrow> bool" where
  "group_is pref_norm r =
     (case re_group (ca_release (ra_candidate r)) of
        Some g \<Rightarrow> lower (trim g) = pref_norm | None \<Rightarrow> False)"

fun preferred_pick :: "string list \<Rightarrow> ranked list \<Rightarrow> ranked option" where
  "preferred_pick [] tied = None"
| "preferred_pick (pref # prefs) tied =
     (if lower (trim pref) = [] then preferred_pick prefs tied
      else case List.find (group_is (lower (trim pref))) tied of
        Some c \<Rightarrow> Some c
      | None \<Rightarrow> preferred_pick prefs tied)"

text \<open>The runner-up test: the pick, or the reason to ask.\<close>

definition settle_tie :: "ranked list \<Rightarrow> ranked \<Rightarrow> rules \<Rightarrow> settings \<Rightarrow> ask_reason + ranked" where
  "settle_tie rs best r st =
     (case rs of
        (_ # runner_up # _) \<Rightarrow>
          (let batch_prefers_winner =
                 re_is_batch (ca_release (ra_candidate best))
                 \<and> \<not> re_is_batch (ca_release (ra_candidate runner_up))
                 \<and> r_prefer_batch_when_finished r
           in if \<not> batch_prefers_winner \<and> signal_of best - signal_of runner_up < s_score_margin st
              then case preferred_pick (r_groups r)
                          (filter (\<lambda>x. signal_of best - signal_of x < s_score_margin st) rs) of
                     Some picked \<Rightarrow> Inr picked
                   | None \<Rightarrow> Inl (TooClose (signal_of best) (signal_of runner_up) (s_score_margin st))
              else Inr best)
      | _ \<Rightarrow> Inr best)"

definition health_verdict :: "ranked list \<Rightarrow> rejected \<Rightarrow> target_inputs \<Rightarrow> rules \<Rightarrow> ranked \<Rightarrow> verdict" where
  "health_verdict rs bad ti r best =
     (case seed_health_of (ca_seeders (ra_candidate best)) r of
        Dead \<Rightarrow> V_NotFound ((re_raw (ca_release (ra_candidate best)), NoSeeders) # bad)
      | Thin \<Rightarrow> if \<not> ti_auto ti then V_Ask (ThinSeeds (ca_seeders (ra_candidate best))) rs
                else V_Auto best True
      | Healthy \<Rightarrow> V_Auto best False)"

definition decide_verdict ::
  "ranked list \<Rightarrow> rejected \<Rightarrow> target_inputs \<Rightarrow> rules \<Rightarrow> settings \<Rightarrow> verdict" where
  "decide_verdict rs bad ti r st =
     (case rs of
        [] \<Rightarrow> V_NotFound bad
      | best # _ \<Rightarrow>
          if signal_of best < s_score_threshold st
          then V_Ask (NoConfidentMatch (signal_of best) (s_score_threshold st)) rs
          else case settle_tie rs best r st of
            Inl reason \<Rightarrow> V_Ask reason rs
          | Inr picked \<Rightarrow> health_verdict rs bad ti r picked)"

definition matching_run ::
  "matcher \<Rightarrow> formats \<Rightarrow> (search_query \<Rightarrow> error + feed_item list) \<Rightarrow> target_inputs \<Rightarrow> f64 option
     \<Rightarrow> rules \<Rightarrow> settings \<Rightarrow> time \<Rightarrow> error + verdict" where
  "matching_run rx fm nyaa ti wanted_episode r st now =
     (case search_candidates rx nyaa (ti_names ti) 1000 1000 of
        Inl e \<Rightarrow> Inl e
      | Inr candidates \<Rightarrow>
          (let (rs, bad) = rank fm candidates ti wanted_episode r st now in
           Inr (decide_verdict rs bad ti r st)))"

section \<open>Facts\<close>

lemma score_all_ok:
  "x \<in> set (fst (score_all fm t r st now cs)) \<longleftrightarrow>
     ra_candidate x \<in> set cs \<and> evaluate fm (ra_candidate x) t r st now = Inr (ra_scored x)"
proof (induction cs)
  case (Cons c cs)
  show ?case
  proof (cases "evaluate fm c t r st now")
    case (Inl rej)
    then show ?thesis using Cons by (auto simp: split_beta)
  next
    case (Inr s)
    then show ?thesis using Cons by (cases x) (auto simp: split_beta)
  qed
qed simp

lemma score_all_length:
  "length (fst (score_all fm t r st now cs)) + length (snd (score_all fm t r st now cs)) = length cs"
  by (induction cs) (auto simp: split_beta split: sum.split)

lemma preferred_pick_in: "preferred_pick prefs tied = Some x \<Longrightarrow> x \<in> set tied"
  by (induction prefs) (auto split: if_splits option.splits simp: find_Some_iff)

lemma settle_tie_in: "settle_tie rs best r st = Inr x \<Longrightarrow> best \<in> set rs \<Longrightarrow> x \<in> set rs"
  by (auto simp: settle_tie_def Let_def split: list.splits if_splits option.splits dest: preferred_pick_in)

lemma settle_tie_signal:
  "settle_tie rs best r st = Inr x \<Longrightarrow> x = best \<or> signal_of best - signal_of x < s_score_margin st"
  by (auto simp: settle_tie_def Let_def split: list.splits if_splits option.splits dest: preferred_pick_in)

lemma decide_verdict_auto:
  assumes "decide_verdict rs bad ti r st = V_Auto x thin"
  obtains best rest where "rs = best # rest" "s_score_threshold st \<le> signal_of best"
    "settle_tie rs best r st = Inr x" "health_verdict rs bad ti r x = V_Auto x thin"
proof -
  from assms obtain best rest where rs: "rs = best # rest"
    and s: "s_score_threshold st \<le> signal_of best"
    and v: "(case settle_tie rs best r st of Inl reason \<Rightarrow> V_Ask reason rs
             | Inr picked \<Rightarrow> health_verdict rs bad ti r picked) = V_Auto x thin"
    by (auto simp: decide_verdict_def split: list.splits if_splits)
  from v obtain p where p: "settle_tie rs best r st = Inr p" "health_verdict rs bad ti r p = V_Auto x thin"
    by (auto split: sum.splits)
  then have "p = x" by (auto simp: health_verdict_def split: seed_health.splits if_splits)
  with rs s p show ?thesis using that by blast
qed

lemma collect_items_hashes:
  assumes "distinct seen" "map (\<lambda>c. ca_info_hash c) found = map (\<lambda>h. lower (trim h)) seen"
  shows "distinct (fst (collect_items rx items (seen, found))) \<and>
    map (\<lambda>c. ca_info_hash c) (snd (collect_items rx items (seen, found))) =
      map (\<lambda>h. lower (trim h)) (fst (collect_items rx items (seen, found)))"
  using assms
  by (induction items arbitrary: seen found) (auto simp: candidate_from_def Candidate_from_item_def)

section \<open>Properties\<close>

lemma score_all_accepted:
  "map ra_candidate (fst (score_all fm t r st now cs)) = filter (\<lambda>c. acceptable c t r st) cs"
proof (induction cs)
  case (Cons c cs)
  then show ?case using evaluate_ok_iff [of fm c t r st now] by (auto simp: split_beta split: sum.split)
qed simp

lemma score_all_rejected:
  "map fst (snd (score_all fm t r st now cs)) =
     map (\<lambda>c. re_raw (ca_release c)) (filter (\<lambda>c. \<not> acceptable c t r st) cs)"
proof (induction cs)
  case (Cons c cs)
  then show ?case using evaluate_ok_iff [of fm c t r st now] by (auto simp: split_beta split: sum.split)
qed simp

lemma rank_accepted:
  assumes "rank fm cs ti wnt r st now = (rs, bad)" "x \<in> set rs"
  shows "ra_candidate x \<in> set cs \<and> acceptable (ra_candidate x) (score_target ti wnt) r st \<and>
    evaluate fm (ra_candidate x) (score_target ti wnt) r st now = Inr (ra_scored x)"
proof -
  let ?ok = "fst (score_all fm (score_target ti wnt) r st now cs)"
  have "rs = take 20 (best_total_first ?ok)" using assms(1) by (auto simp: rank_def split_beta)
  then have "x \<in> set (best_total_first ?ok)" using assms(2) in_set_takeD by metis
  then have "x \<in> set ?ok" by (simp add: best_total_first_def)
  then have "ra_candidate x \<in> set cs"
    "evaluate fm (ra_candidate x) (score_target ti wnt) r st now = Inr (ra_scored x)"
    by (simp_all add: score_all_ok)
  then show ?thesis using evaluate_ok_iff by blast
qed

text \<open>
  Ranking orders and never rescues. What \<open>rank\<close> returns, together with what
  its limit of twenty cuts off, are the candidates that pass the scorer, each once
  per occurrence and with its score; the two in a row are in falling order of
  their totals; and the rejected list names every other candidate, in order.
\<close>

theorem rank_spec:
  assumes "rank fm cs ti wnt r st now = (rs, bad)"
  shows "(\<exists>left. mset (map ra_candidate rs) + mset (map ra_candidate left) =
        mset (filter (\<lambda>c. acceptable c (score_target ti wnt) r st) cs) \<and>
      sorted (map (\<lambda>x. - Scored_total (ra_scored x)) (rs @ left)) \<and>
      length rs = min 20 (length (rs @ left)) \<and>
      list_all (\<lambda>x. evaluate fm (ra_candidate x) (score_target ti wnt) r st now = Inr (ra_scored x)) (rs @ left)) \<and>
    map fst bad = map (\<lambda>c. re_raw (ca_release c)) (filter (\<lambda>c. \<not> acceptable c (score_target ti wnt) r st) cs)"
proof
  let ?ok = "fst (score_all fm (score_target ti wnt) r st now cs)"
  let ?s = "best_total_first ?ok"
  have rs: "rs = take 20 ?s" and bad: "bad = snd (score_all fm (score_target ti wnt) r st now cs)"
    using assms by (auto simp: rank_def split_beta)
  have all: "rs @ drop 20 ?s = ?s" by (simp add: rs)
  have "mset (map ra_candidate ?s) = mset (filter (\<lambda>c. acceptable c (score_target ti wnt) r st) cs)"
    unfolding score_all_accepted [of fm _ r st now, symmetric]
    by (simp add: best_total_first_def image_mset.compositionality [symmetric])
  then have "mset (map ra_candidate rs) + mset (map ra_candidate (drop 20 ?s)) =
      mset (filter (\<lambda>c. acceptable c (score_target ti wnt) r st) cs)"
    by (metis all map_append mset_append)
  moreover have "sorted (map (\<lambda>x. - Scored_total (ra_scored x)) (rs @ drop 20 ?s))"
    unfolding all unfolding best_total_first_def by (rule sorted_sort_key)
  moreover have "length rs = min 20 (length (rs @ drop 20 ?s))"
    unfolding all by (simp add: rs min.commute)
  moreover have "list_all (\<lambda>x. evaluate fm (ra_candidate x) (score_target ti wnt) r st now = Inr (ra_scored x))
      (rs @ drop 20 ?s)"
    unfolding all by (auto simp: list_all_iff best_total_first_def score_all_ok)
  ultimately show "\<exists>left. mset (map ra_candidate rs) + mset (map ra_candidate left) =
        mset (filter (\<lambda>c. acceptable c (score_target ti wnt) r st) cs) \<and>
      sorted (map (\<lambda>x. - Scored_total (ra_scored x)) (rs @ left)) \<and>
      length rs = min 20 (length (rs @ left)) \<and>
      list_all (\<lambda>x. evaluate fm (ra_candidate x) (score_target ti wnt) r st now = Inr (ra_scored x)) (rs @ left)"
    by blast
  show "map fst bad = map (\<lambda>c. re_raw (ca_release c)) (filter (\<lambda>c. \<not> acceptable c (score_target ti wnt) r st) cs)"
    unfolding bad by (rule score_all_rejected)
qed

definition sample_inputs :: target_inputs where
  "sample_inputs =
     \<lparr> ti_mal_id = 1, ti_title = ''show'', ti_english_title = None, ti_start_year = None,
       ti_show_type = Tv, ti_total_episodes = Some 12, ti_season = 1, ti_fully_aired = False,
       ti_auto = True, ti_names = [''show''], ti_other_names = [] \<rparr>"

definition sample_candidate :: candidate where
  "sample_candidate =
     \<lparr> ca_release = Release_default\<lparr>re_raw := ''show - 1'', re_normalized_title := ''show'', re_episode := Some 1\<rparr>,
       ca_info_hash = ''aa'', ca_magnet = ''magnet:aa'', ca_seeders = 50, ca_leechers = 0,
       ca_trusted = False, ca_remake = False, ca_size_bytes = 500 * MIB, ca_published_at = 0,
       ca_uploader = None, ca_show_type = None, ca_category_id = None \<rparr>"

lemma sample_ratio: "best_ratio [''show''] ''show'' = (1, Some ''show'')"
proof -
  have "levenshtein ''show'' ''show'' = 0" by (simp add: levenshtein_0_iff)
  then show ?thesis by (simp add: best_ratio_def fuzzy_ratio_def)
qed

lemma sample_accepted:
  "acceptable sample_candidate (score_target sample_inputs (Some 1)) Rules_default Settings_default"
  by (simp add: acceptable_def sample_candidate_def sample_inputs_def score_target_def Release_default_def
      foreign_category_def blocked_by_def below_floor_def size_in_range_def is_batch_for_def MIB_def
      div_ceil_def Settings_default_def identity_filter_def sample_ratio episode_agrees_def
      release_season_def best_ratio_def f64_EPSILON_def split: prod.split)

lemma sample_signal:
  "evaluate fm sample_candidate (score_target sample_inputs (Some 1)) Rules_default Settings_default now = Inr s \<Longrightarrow>
   sc_signal s = 80"
  by (drule evaluate_signal)
    (auto simp: signal_score_def sample_candidate_def sample_inputs_def score_target_def Release_default_def
      sample_ratio title_points_def episode_points_def type_points_def year_points_def batch_points_def
      outside_range_def is_batch_for_def release_season_def Settings_default_def f64_EPSILON_def)

lemma sample_rank:
  obtains s where "rank fm [sample_candidate] sample_inputs (Some 1) Rules_default Settings_default now =
      ([\<lparr> ra_candidate = sample_candidate, ra_scored = s \<rparr>], [])" "sc_signal s = 80"
proof -
  obtain s where "evaluate fm sample_candidate (score_target sample_inputs (Some 1)) Rules_default
      Settings_default now = Inr s"
    using sample_accepted evaluate_ok_iff by blast
  then show ?thesis using sample_signal that by (simp add: rank_def best_total_first_def)
qed

theorem rank_spec_witness:
  "\<exists>rs. rank sample_formats [sample_candidate] sample_inputs (Some 1) Rules_default Settings_default 0 = (rs, []) \<and>
     length rs = 1 \<and> list_all (\<lambda>x. evaluate sample_formats (ra_candidate x) (score_target sample_inputs (Some 1))
        Rules_default Settings_default 0 = Inr (ra_scored x)) rs"
proof -
  obtain s where "rank sample_formats [sample_candidate] sample_inputs (Some 1) Rules_default Settings_default 0 =
      ([\<lparr> ra_candidate = sample_candidate, ra_scored = s \<rparr>], [])" by (rule sample_rank)
  with rank_spec [OF this] show ?thesis by auto
qed

text \<open>
  C4: what the application downloads by itself is justified. If \<open>decide_verdict\<close>
  chooses a release of a ranking without asking, then that release is one of the
  candidates, passes every filter of the scorer, and has seeders; the best of the
  ranking reaches the accept threshold, and the choice is this best one or a
  release of a group the user prefers that is closer to it than the margin; it is
  flagged as thin exactly when it has fewer seeders than the automatic threshold,
  which only a show on the automatic list allows.
\<close>

theorem auto_choice_justified:
  assumes "rank fm cs ti wnt r st now = (rs, bad)" "decide_verdict rs bad ti r st = V_Auto x thin"
  shows "ra_candidate x \<in> set cs \<and> acceptable (ra_candidate x) (score_target ti wnt) r st \<and>
    0 < ca_seeders (ra_candidate x) \<and>
    (\<exists>best rest. rs = best # rest \<and> s_score_threshold st \<le> signal_of best \<and>
       (x = best \<or> (signal_of best - signal_of x < s_score_margin st \<and>
          (\<exists>g\<in>set (r_groups r). lower (trim g) \<noteq> [] \<and> group_is (lower (trim g)) x)))) \<and>
    thin = (ca_seeders (ra_candidate x) < r_seed_auto_threshold r) \<and> thin \<le> ti_auto ti"
proof -
  from assms(2) obtain best rest where rs: "rs = best # rest" and s: "s_score_threshold st \<le> signal_of best"
    and t: "settle_tie rs best r st = Inr x" and h: "health_verdict rs bad ti r x = V_Auto x thin"
    by (rule decide_verdict_auto)
  have "x \<in> set rs" using settle_tie_in [OF t] rs by simp
  then have "ra_candidate x \<in> set cs" "acceptable (ra_candidate x) (score_target ti wnt) r st"
    using rank_accepted [OF assms(1)] by blast+
  moreover have "0 < ca_seeders (ra_candidate x)" "thin = (ca_seeders (ra_candidate x) < r_seed_auto_threshold r)"
    "thin \<le> ti_auto ti"
    using h by (auto simp: health_verdict_def seed_health_of_def split: if_splits)
  moreover have "\<exists>g\<in>set (r_groups r). lower (trim g) \<noteq> [] \<and> group_is (lower (trim g)) x" if "x \<noteq> best"
  proof -
    have "preferred_pick gs tied = Some x \<Longrightarrow>
        \<exists>g\<in>set gs. lower (trim g) \<noteq> [] \<and> group_is (lower (trim g)) x" for gs tied
      by (induction gs) (auto simp: find_Some_iff split: if_splits option.splits)
    then show ?thesis using t that rs by (auto simp: settle_tie_def Let_def split: list.splits if_splits option.splits)
  qed
  ultimately show ?thesis using rs s settle_tie_signal [OF t] by auto
qed

theorem auto_choice_justified_witness:
  "\<exists>rs bad x. rank sample_formats [sample_candidate] sample_inputs (Some 1) Rules_default Settings_default 0 = (rs, bad) \<and>
     decide_verdict rs bad sample_inputs Rules_default Settings_default = V_Auto x False \<and>
     acceptable (ra_candidate x) (score_target sample_inputs (Some 1)) Rules_default Settings_default"
proof -
  obtain s where rs: "rank sample_formats [sample_candidate] sample_inputs (Some 1) Rules_default Settings_default 0 =
      ([\<lparr> ra_candidate = sample_candidate, ra_scored = s \<rparr>], [])" and s: "sc_signal s = 80"
    by (rule sample_rank)
  let ?x = "\<lparr> ra_candidate = sample_candidate, ra_scored = s \<rparr>"
  have v: "decide_verdict [?x] [] sample_inputs Rules_default Settings_default = V_Auto ?x False"
    by (simp add: decide_verdict_def signal_of_def s Settings_default_def settle_tie_def health_verdict_def
        seed_health_of_def sample_candidate_def Rules_default_def)
  from rs v auto_choice_justified [OF rs v] show ?thesis by blast
qed

end
