(* ===== verification/Planner.thy ===== *)
theory Planner
  imports Questions Season Matching
begin

text \<open>
  \<open>planner/\<close>: from a MAL list to show, name and episode rows and search jobs.
  The list is an argument (\<open>MalList\<close> is read from a file or from the MAL sync).
  \<open>shown\<close> is the \<open>Display\<close> form of an \<open>f64\<close>, as in \<open>enqueue_search\<close>.
\<close>

named_theorems planner_simps \<open>unfolding rules of the planner\<close>

section \<open>The list\<close>

record list_entry =
  le_mal_id :: int
  le_title :: string
  le_english_title :: "string option"
  le_list_status :: list_status
  le_watched_count :: int
  le_total_episodes :: "int option"
  le_start_year :: "int option"
  le_auto :: bool
  le_episode_offset :: int
  le_names :: "string list"
  le_franchise :: int
  le_season :: int

definition airing_finished :: "list_entry \<Rightarrow> bool" where
  "airing_finished e = (case le_total_episodes e of Some t \<Rightarrow> t \<le> le_watched_count e | None \<Rightarrow> True)"

definition to_season_entry :: "list_entry \<Rightarrow> season_entry" where
  "to_season_entry e =
     \<lparr> se_mal_id = le_mal_id e, se_title = le_title e, se_list_status = le_list_status e,
       se_watched_count = le_watched_count e, se_total_episodes = le_total_episodes e,
       se_episode_offset = le_episode_offset e, se_show_type = Tv,
       se_fully_aired = airing_finished e \<rparr>"

definition chains :: "list_entry list \<Rightarrow> season_chain list" where
  "chains entries =
     map (\<lambda>f. map to_season_entry (sort_key le_season (filter (\<lambda>e. le_franchise e = f) entries)))
       (remdups_adj (sort (map le_franchise entries)))"

section \<open>Rows\<close>

definition fresh_show :: "list_entry \<Rightarrow> show_row" where
  "fresh_show e =
     \<lparr> sh_mal_id = le_mal_id e, sh_title = le_title e, sh_english_title = le_english_title e,
       sh_type = ''tv'', sh_status = Some ''finished'', sh_total_episodes = le_total_episodes e,
       sh_start_year = le_start_year e, sh_auto = le_auto e,
       sh_episode_offset = le_episode_offset e, sh_season = le_season e,
       sh_metadata_status = ''pending'' \<rparr>"

definition coalesce :: "'a option \<Rightarrow> 'a option \<Rightarrow> 'a option" where
  "coalesce a b = (case a of Some x \<Rightarrow> Some x | None \<Rightarrow> b)"

definition refresh_show :: "list_entry \<Rightarrow> show_row \<Rightarrow> show_row" where
  "refresh_show e s =
     s\<lparr> sh_title := le_title e,
        sh_english_title := coalesce (le_english_title e) (sh_english_title s),
        sh_total_episodes := coalesce (le_total_episodes e) (sh_total_episodes s),
        sh_start_year := coalesce (le_start_year e) (sh_start_year s),
        sh_auto := le_auto e, sh_episode_offset := le_episode_offset e, sh_season := le_season e \<rparr>"

definition upsert_show_row :: "list_entry \<Rightarrow> world \<Rightarrow> world" where
  "upsert_show_row e w =
     (if find_row sh_mal_id (le_mal_id e) (w_shows w) = None
      then w\<lparr>w_shows := w_shows w @ [fresh_show e]\<rparr>
      else w\<lparr>w_shows := update_rows (\<lambda>s. sh_mal_id s = le_mal_id e) (refresh_show e) (w_shows w)\<rparr>)"

definition upsert_show :: "list_entry \<Rightarrow> unit run" where
  "upsert_show e = modify (upsert_show_row e)"

fun enumerate_names :: "nat \<Rightarrow> string list \<Rightarrow> (string \<times> name_source \<times> nat) list" where
  "enumerate_names i [] = []"
| "enumerate_names i (n # ns) =
     (n, Mal, if i = 0 then PRIORITY_MAIN else min i 255) # enumerate_names (i + 1) ns"

definition upsert_names :: "matcher \<Rightarrow> list_entry \<Rightarrow> unit run" where
  "upsert_names rx e =
     NameSet_replace_from_sync rx (le_mal_id e)
       (if le_names e = [] then [(le_title e, Mal, PRIORITY_MAIN)] else enumerate_names 0 (le_names e))"

definition find_episode :: "int \<Rightarrow> f64 \<Rightarrow> world \<Rightarrow> episode option" where
  "find_episode m n w = List.find (\<lambda>e. ep_mal_id e = m \<and> ep_number e = n) (w_episodes w)"

definition new_episode :: "int \<Rightarrow> int \<Rightarrow> f64 \<Rightarrow> time \<Rightarrow> episode" where
  "new_episode i m n now =
     \<lparr> ep_id = i, ep_mal_id = m, ep_number = n, ep_state = EMissing, ep_file_path = None,
       ep_size = None, ep_torrent_id = None, ep_last_checked = Some now \<rparr>"

definition ensure_episode :: "int \<Rightarrow> f64 \<Rightarrow> int run" where
  "ensure_episode m n =
     (\<lambda>w. case find_episode m n w of
        Some e \<Rightarrow>
          (Inr (ep_id e),
           w\<lparr>w_episodes := update_rows (\<lambda>x. ep_mal_id x = m \<and> ep_number x = n)
               (\<lambda>x. x\<lparr>ep_last_checked := Some (w_now w)\<rparr>) (w_episodes w)\<rparr>)
      | None \<Rightarrow>
          if known_show w (Some m)
          then let i = w_seq_episodes w + 1 in
            (Inr i, w\<lparr>w_episodes := w_episodes w @ [new_episode i m n (w_now w)],
                      w_seq_episodes := i\<rparr>)
          else (Inl foreign_key_failed, w))"

definition mark_done :: "int \<Rightarrow> string \<Rightarrow> int \<Rightarrow> unit run" where
  "mark_done e path bytes =
     modify (update_episode e (\<lambda>x. x\<lparr>ep_state := EDone, ep_file_path := Some path, ep_size := Some bytes\<rparr>))"

definition mark_missing :: "int \<Rightarrow> unit run" where
  "mark_missing e = modify (update_episode e (\<lambda>x. x\<lparr>ep_state := EMissing\<rparr>))"

definition airing_status_of :: "int \<Rightarrow> world \<Rightarrow> airing_status option" where
  "airing_status_of m w =
     Option.bind (find_row sh_mal_id m (w_shows w)) (\<lambda>s. map_option AiringStatus_parse (sh_status s))"

section \<open>The preview\<close>

definition plural :: "nat \<Rightarrow> string" where
  "plural n = (if n = 1 then '''' else ''s'')"

definition PlanPreview_summary :: "plan_preview \<Rightarrow> string" where
  "PlanPreview_summary p =
     (let shows = length (remdups (map pe_mal_id (pp_episodes p))); n = length (pp_episodes p) in
      ''This will queue '' @ show_nat n @ '' episode'' @ plural n @ '' across '' @ show_nat shows
        @ '' show'' @ plural shows
        @ (if 0 < pp_over_cap p then ''; '' @ show_nat (pp_over_cap p) @ '' more wait for the daily cap''
           else ''''))"

definition wanted_number :: "wanted \<Rightarrow> f64" where
  "wanted_number wnt = (case wa_episode wnt of Some n \<Rightarrow> n | None \<Rightarrow> 1)"

text \<open>One turn of the loop over the chains: what it adds to \<open>episodes\<close> and \<open>skipped\<close>.\<close>

definition preview_chain ::
  "matcher \<Rightarrow> settings \<Rightarrow> world \<Rightarrow> season_chain \<Rightarrow> error + (planned_episode list \<times> skip_note list)" where
  "preview_chain rx st w chain =
     (case (case chain of
              [] \<Rightarrow> Inr None
            | e # _ \<Rightarrow>
                (case Rules_for_show (w_rules w) (se_mal_id e) of
                   Inl err \<Rightarrow> Inl err | Inr r \<Rightarrow> Inr (r_auto_plan_to_watch r))) of
        Inl err \<Rightarrow> Inl err
      | Inr override \<Rightarrow>
          (case chain_wanted rx st override chain of
             Want_Some wnt \<Rightarrow>
               if find_episode (wa_mal_id wnt) (wanted_number wnt) w = None
               then Inr ([\<lparr> pe_mal_id = wa_mal_id wnt, pe_title = wa_title wnt,
                            pe_season = wa_season wnt, pe_episode = wanted_number wnt \<rparr>], [])
               else Inr ([], [])
           | Want_Skip reason _ \<Rightarrow>
               Inr ([], map (\<lambda>e. \<lparr> sk_mal_id = se_mal_id e, sk_title = se_title e,
                                    sk_reason = reason \<rparr>) chain)))"

fun preview_chains ::
  "matcher \<Rightarrow> settings \<Rightarrow> world \<Rightarrow> season_chain list
     \<Rightarrow> error + (planned_episode list \<times> skip_note list)" where
  "preview_chains rx st w [] = Inr ([], [])"
| "preview_chains rx st w (c # cs) =
     (case preview_chain rx st w c of
        Inl err \<Rightarrow> Inl err
      | Inr (es, ss) \<Rightarrow>
          (case preview_chains rx st w cs of
             Inl err \<Rightarrow> Inl err
           | Inr (es', ss') \<Rightarrow> Inr (es @ es', ss @ ss')))"

definition build_preview :: "matcher \<Rightarrow> list_entry list \<Rightarrow> settings \<Rightarrow> world \<Rightarrow> error + plan_preview" where
  "build_preview rx entries st w =
     (case preview_chains rx st w (chains entries) of
        Inl err \<Rightarrow> Inl err
      | Inr (es, ss) \<Rightarrow>
          Inr \<lparr> pp_episodes = es, pp_skipped = ss, pp_cap = s_daily_torrent_cap st,
                pp_over_cap = length es - s_daily_torrent_cap st,
                pp_awaiting_confirmation = \<not> s_first_run_complete st \<rparr>)"

definition preview :: "matcher \<Rightarrow> list_entry list \<Rightarrow> world \<Rightarrow> error + plan_preview" where
  "preview rx entries w = build_preview rx entries (w_settings w) w"

definition pending_preview :: "world \<Rightarrow> plan_preview option" where
  "pending_preview w = w_pending_plan w"

definition discard_preview :: "unit run" where
  "discard_preview = modify (\<lambda>w. w\<lparr>w_pending_plan := None\<rparr>)"

definition store_pending :: "plan_preview \<Rightarrow> unit run" where
  "store_pending p = modify (\<lambda>w. w\<lparr>w_pending_plan := Some p\<rparr>)"

section \<open>Applying a plan\<close>

definition usize_MAX :: nat where
  "usize_MAX = 2 ^ 64 - 1"

definition RECHECK_SECS :: int where
  "RECHECK_SECS = 7 * 24 * 3600"

fun apply_loop :: "(f64 \<Rightarrow> string) \<Rightarrow> nat \<Rightarrow> nat \<Rightarrow> planned_episode list \<Rightarrow> nat \<Rightarrow> nat run" where
  "apply_loop shown added_today cap [] queued = ret queued"
| "apply_loop shown added_today cap (p # ps) queued =
     (if cap \<le> added_today + queued then ret queued
      else seq (ensure_episode (pe_mal_id p) (pe_episode p)) (\<lambda>e.
           seq (enqueue_search shown e) (\<lambda>_.
           apply_loop shown added_today cap ps (queued + 1))))"

definition sync_entry :: "matcher \<Rightarrow> list_entry \<Rightarrow> unit run" where
  "sync_entry rx e = seq (upsert_show e) (\<lambda>_. upsert_names rx e)"

definition apply_preview_capped ::
  "matcher \<Rightarrow> (f64 \<Rightarrow> string) \<Rightarrow> list_entry list \<Rightarrow> plan_preview \<Rightarrow> nat \<Rightarrow> nat run" where
  "apply_preview_capped rx shown entries p cap =
     seq (for_each (sync_entry rx) entries) (\<lambda>_.
     seq (gets (\<lambda>w. added_since (start_of_day (w_now w)) w)) (\<lambda>added_today.
     apply_loop shown added_today cap (pp_episodes p) 0))"

definition apply_preview ::
  "matcher \<Rightarrow> (f64 \<Rightarrow> string) \<Rightarrow> list_entry list \<Rightarrow> plan_preview \<Rightarrow> nat run" where
  "apply_preview rx shown entries p =
     seq (gets w_settings) (\<lambda>st. apply_preview_capped rx shown entries p (s_daily_torrent_cap st))"

datatype plan_outcome = P_Preview plan_preview | P_Applied nat plan_preview

definition quiet_preview :: plan_preview where
  "quiet_preview = \<lparr> pp_episodes = [], pp_skipped = [], pp_cap = 0, pp_over_cap = 0,
     pp_awaiting_confirmation = False \<rparr>"

definition within_week :: "world \<Rightarrow> bool" where
  "within_week w = (case w_last_plan_at w of None \<Rightarrow> False | Some t \<Rightarrow> w_now w - t < RECHECK_SECS)"

definition plan ::
  "matcher \<Rightarrow> (f64 \<Rightarrow> string) \<Rightarrow> list_entry list \<Rightarrow> bool \<Rightarrow> plan_outcome run" where
  "plan rx shown entries force =
     seq (gets w_settings) (\<lambda>st.
     seq (gets within_week) (\<lambda>quiet.
     if \<not> force \<and> quiet then ret (P_Preview quiet_preview)
     else
       seq (gets (build_preview rx entries st)) (\<lambda>built.
       seq (lift built) (\<lambda>p.
       if \<not> s_first_run_complete st
       then seq (store_pending p) (\<lambda>_. ret (P_Preview p))
       else
         seq (apply_preview rx shown entries p) (\<lambda>queued.
         seq (modify (\<lambda>w. w\<lparr>w_last_plan_at := Some (w_now w)\<rparr>)) (\<lambda>_.
         ret (P_Applied queued p)))))))"

definition confirm_capped ::
  "matcher \<Rightarrow> (f64 \<Rightarrow> string) \<Rightarrow> list_entry list \<Rightarrow> bool \<Rightarrow> nat run" where
  "confirm_capped rx shown entries bypass_cap =
     seq (gets w_pending_plan) (\<lambda>pending.
     seq (gets w_settings) (\<lambda>st.
     seq (gets (\<lambda>w. case pending of Some p \<Rightarrow> Inr p | None \<Rightarrow> build_preview rx entries st w)) (\<lambda>built.
     seq (lift built) (\<lambda>p.
     seq (apply_preview_capped rx shown entries p
            (if bypass_cap then usize_MAX
             else if \<not> s_first_run_complete st then s_first_sync_cap st
             else s_daily_torrent_cap st)) (\<lambda>queued.
     seq (modify (\<lambda>w. w\<lparr>w_pending_plan := None, w_last_plan_at := Some (w_now w)\<rparr>)) (\<lambda>_.
     ret queued))))))"

definition confirm :: "matcher \<Rightarrow> (f64 \<Rightarrow> string) \<Rightarrow> list_entry list \<Rightarrow> nat run" where
  "confirm rx shown entries = confirm_capped rx shown entries False"

section \<open>One show directly\<close>

definition metadata_unresolved :: error where
  "metadata_unresolved =
     Other ''Metadata unresolved: refresh metadata before downloading this show or season''"

definition named_show :: "string \<Rightarrow> bool" where
  "named_show title \<longleftrightarrow> trim title \<noteq> [] \<and> \<not> eq_ignore_case (trim title) ''unknown''"

definition single_entry :: "show_row \<Rightarrow> list_entry" where
  "single_entry s =
     \<lparr> le_mal_id = sh_mal_id s, le_title = sh_title s, le_english_title = sh_english_title s,
       le_list_status = Watching, le_watched_count = 0, le_total_episodes = sh_total_episodes s,
       le_start_year = sh_start_year s, le_auto = True, le_episode_offset = sh_episode_offset s,
       le_names = [sh_title s], le_franchise = sh_mal_id s, le_season = sh_season s \<rparr>"

definition unfinished_numbers :: "int \<Rightarrow> int \<Rightarrow> world \<Rightarrow> f64 list" where
  "unfinished_numbers m cnt w =
     map real_of_int (filter (\<lambda>i. \<not> list_ex (\<lambda>e. ep_mal_id e = m \<and> ep_number e = real_of_int i
                                              \<and> ep_state e = EDone) (w_episodes w)) [1..cnt])"

definition queue_number :: "(f64 \<Rightarrow> string) \<Rightarrow> int \<Rightarrow> f64 \<Rightarrow> unit run" where
  "queue_number shown m n =
     seq (ensure_episode m n) (\<lambda>e. seq (enqueue_search shown e) (\<lambda>_. ret ()))"

definition plan_single ::
  "matcher \<Rightarrow> (f64 \<Rightarrow> string) \<Rightarrow> int \<Rightarrow> f64 option \<Rightarrow> nat run" where
  "plan_single rx shown m target_episode =
     seq (gets (\<lambda>w. find_row sh_mal_id m (w_shows w))) (\<lambda>row.
     case row of
       None \<Rightarrow> throw no_rows
     | Some s \<Rightarrow>
         if sh_metadata_status s \<notin> {''ready'', ''partial''} \<or> \<not> named_show (sh_title s)
            \<or> (target_episode = None \<and> (case sh_total_episodes s of Some t \<Rightarrow> t | None \<Rightarrow> 0) \<le> 0)
         then throw metadata_unresolved
         else
           (let entry = single_entry s in
            seq (upsert_show entry) (\<lambda>_.
            seq (upsert_names rx entry) (\<lambda>_.
            seq (gets (\<lambda>w. case target_episode of
                    Some ep \<Rightarrow> [ep]
                  | None \<Rightarrow> unfinished_numbers m
                      (case le_total_episodes entry of Some t \<Rightarrow> t | None \<Rightarrow> 1) w)) (\<lambda>eps.
            seq (gets (\<lambda>w. Rules_for_show (w_rules w) m)) (\<lambda>loaded.
            seq (lift loaded) (\<lambda>r.
            (let is_finished = (case sh_status s of
                    Some t \<Rightarrow> AiringStatus_parse t = Finished | None \<Rightarrow> airing_finished entry);
                 should_batch = target_episode = None \<and> 1 < length eps
                    \<and> r_prefer_batch_when_finished r \<and> is_finished
             in if should_batch then
                  seq (for_each (\<lambda>n. seq (ensure_episode m n) (\<lambda>_. ret ())) eps) (\<lambda>_.
                  case eps of
                    [] \<Rightarrow> ret 0
                  | first_ep # _ \<Rightarrow> seq (queue_number shown m first_ep) (\<lambda>_. ret 1))
                else seq (for_each (queue_number shown m) eps) (\<lambda>_. ret (length eps))))))))))"

section \<open>Facts\<close>

lemma upsert_show_frame [simp]:
  "w_jobs (upsert_show_row e w) = w_jobs w" "w_seq_jobs (upsert_show_row e w) = w_seq_jobs w"
  "w_episodes (upsert_show_row e w) = w_episodes w" "w_torrents (upsert_show_row e w) = w_torrents w"
  "w_now (upsert_show_row e w) = w_now w" "w_settings (upsert_show_row e w) = w_settings w"
  "w_rules (upsert_show_row e w) = w_rules w"
  by (simp_all add: upsert_show_row_def)

lemma ensure_episode_frame [simp]:
  "w_jobs (snd (ensure_episode m n w)) = w_jobs w"
  "w_seq_jobs (snd (ensure_episode m n w)) = w_seq_jobs w"
  "w_settings (snd (ensure_episode m n w)) = w_settings w"
  "w_rules (snd (ensure_episode m n w)) = w_rules w"
  "w_shows (snd (ensure_episode m n w)) = w_shows w"
  by (simp_all add: ensure_episode_def Let_def split: option.split)

lemma planner_kept [kept_intros]:
  "evolves states_kept (upsert_show e)"
  "evolves states_kept (upsert_names rx e)"
  "evolves states_kept (ensure_episode m n)"
  "evolves states_kept (mark_done i path bytes)"
  "evolves states_kept (mark_missing i)"
  "evolves states_kept (store_pending p)"
  "evolves states_kept discard_preview"
proof -
  show "evolves states_kept (upsert_show e)"
    unfolding upsert_show_def by (rule kept_frame_modify) simp_all
  show "evolves states_kept (upsert_names rx e)"
    unfolding upsert_names_def by (rule kept_intros)
  show "evolves states_kept (ensure_episode m n)"
    by (rule evolvesI) (simp add: states_kept_frame)
  show "evolves states_kept (mark_done i path bytes)"
    unfolding mark_done_def by (rule kept_frame_modify) (simp_all add: update_episode_def)
  show "evolves states_kept (mark_missing i)"
    unfolding mark_missing_def by (rule kept_frame_modify) (simp_all add: update_episode_def)
  show "evolves states_kept (store_pending p)" "evolves states_kept discard_preview"
    unfolding store_pending_def discard_preview_def by (rule kept_frame_modify; simp)+
qed

lemma apply_loop_kept: "evolves states_kept (apply_loop shown added cap ps queued)"
  by (induction ps arbitrary: queued) (auto intro!: kept_evo.ev_rules kept_intros)

lemma apply_preview_kept [kept_intros]:
  "evolves states_kept (apply_preview_capped rx shown entries p cap)"
  "evolves states_kept (apply_preview rx shown entries p)"
proof -
  show a: "evolves states_kept (apply_preview_capped rx shown entries p cap)" for cap
    unfolding apply_preview_capped_def sync_entry_def
    by (intro kept_evo.ev_rules kept_intros apply_loop_kept)
  show "evolves states_kept (apply_preview rx shown entries p)"
    unfolding apply_preview_def by (intro kept_evo.ev_rules a)
qed

lemma plan_kept [kept_intros]:
  "evolves states_kept (plan rx shown entries force)"
  "evolves states_kept (confirm_capped rx shown entries bypass)"
  "evolves states_kept (confirm rx shown entries)"
  "evolves states_kept (plan_single rx shown m ep)"
proof -
  show "evolves states_kept (plan rx shown entries force)"
    unfolding plan_def by (intro kept_evo.ev_rules kept_intros kept_frame_modify) simp_all
  show c: "evolves states_kept (confirm_capped rx shown entries bypass)" for bypass
    unfolding confirm_capped_def by (intro kept_evo.ev_rules kept_intros kept_frame_modify) simp_all
  then show "evolves states_kept (confirm rx shown entries)" by (simp add: confirm_def)
  show "evolves states_kept (plan_single rx shown m ep)"
    unfolding plan_single_def Let_def queue_number_def
    by (intro kept_evo.ev_rules kept_intros)
qed

text \<open>The cap: how many episodes a run queues.\<close>

lemma apply_loop_count:
  "apply_loop shown added cap ps queued w = (Inr n, w') \<Longrightarrow>
   n = queued + min (length ps) (cap - (added + queued))"
proof (induction ps arbitrary: queued w)
  case (Cons p ps)
  show ?case
  proof (cases "cap \<le> added + queued")
    case False
    with Cons.prems obtain u where "apply_loop shown added cap ps (queued + 1) u = (Inr n, w')"
      by (auto elim!: seq_ok_cases)
    from Cons.IH [OF this] False show ?thesis by auto
  qed (use Cons.prems in simp)
qed simp

lemma apply_preview_capped_count:
  assumes "apply_preview_capped rx shown entries p cap w = (Inr n, w')"
  obtains u where "snd (for_each (sync_entry rx) entries w) = u"
    "n = min (length (pp_episodes p)) (cap - added_since (start_of_day (w_now u)) u)"
  using assms unfolding apply_preview_capped_def
  by (auto elim!: seq_ok_cases dest!: apply_loop_count)

lemmas planner_evolve [evolve_intros] =
  planner_kept [THEN kept_evolves]
  apply_preview_kept [THEN kept_evolves]
  plan_kept [THEN kept_evolves]

section \<open>Properties\<close>

text \<open>The part of the store that syncing the list leaves alone.\<close>

definition sync_frame :: "world \<Rightarrow> world \<Rightarrow> bool" where
  "sync_frame w w' \<longleftrightarrow> w_jobs w' = w_jobs w \<and> w_torrents w' = w_torrents w \<and> w_now w' = w_now w"

interpretation sync_evo: evolution sync_frame
  by unfold_locales (auto simp: sync_frame_def)

lemma sync_entry_frame: "evolves sync_frame (sync_entry rx e)"
proof -
  have one: "evolves sync_frame (sync_one rx m item)" for m item
    by (rule evolvesI) (auto simp: sync_one_def seq_def insert_name_eq insert_name_row_def Let_def sync_frame_def
        split: prod.split)
  have "evolves sync_frame (NameSet_replace_from_sync rx m names)" for m names
    unfolding NameSet_replace_from_sync_def
    by (intro sync_evo.ev_rules one) (simp add: sync_frame_def sync_evo.ev_modify)
  then show ?thesis
    unfolding sync_entry_def upsert_show_def upsert_names_def
    by (intro sync_evo.ev_seq sync_evo.ev_modify) (simp_all add: sync_frame_def)
qed

lemma enqueue_search_grows:
  "length (w_jobs (snd (enqueue_search shown e w))) \<le> length (w_jobs w) + 1"
  by (auto simp: enqueue_search_def transact_def record_in_def Let_def split: option.split)

lemma apply_loop_grows:
  "length (w_jobs (snd (apply_loop shown added cap ps queued w)))
     \<le> length (w_jobs w) + min (length ps) (cap - (added + queued))"
proof (induction ps arbitrary: queued w)
  case (Cons p ps)
  show ?case
  proof (cases "cap \<le> added + queued")
    case False
    obtain r u where e: "ensure_episode (pe_mal_id p) (pe_episode p) w = (r, u)" by fastforce
    then have u: "w_jobs u = w_jobs w" using ensure_episode_frame(1) [of "pe_mal_id p" "pe_episode p" w] by simp
    show ?thesis
    proof (cases r)
      case (Inl err)
      with e u False show ?thesis by simp
    next
      case (Inr i)
      obtain r' v where q: "enqueue_search shown i u = (r', v)" by fastforce
      then have v: "length (w_jobs v) \<le> length (w_jobs w) + 1"
        using enqueue_search_grows [of shown i u] u by simp
      show ?thesis
      proof (cases r')
        case (Inl err)
        then show ?thesis using e q v Inr False by (simp add: seq_def)
      next
        case Inr': (Inr k)
        then have "apply_loop shown added cap (p # ps) queued w = apply_loop shown added cap ps (queued + 1) v"
          using e q Inr False by (simp add: seq_def)
        then show ?thesis using Cons.IH [of "queued + 1" v] v False by simp
      qed
    qed
  qed simp
qed simp

text \<open>
  A planning run keeps to its cap. Applying a plan creates at most as many jobs as
  it has episodes and as the cap leaves after the candidates found since the start
  of the day, also when it fails half-way; the number it returns obeys the same
  bound, so with the cap used up it queues nothing.
\<close>

theorem plan_run_capped:
  "length (w_jobs (snd (apply_preview_capped rx shown entries p cap w))) \<le>
     length (w_jobs w) + min (length (pp_episodes p)) (cap - added_since (start_of_day (w_now w)) w) \<and>
   (case fst (apply_preview_capped rx shown entries p cap w) of
      Inl e \<Rightarrow> True
    | Inr n \<Rightarrow> n = min (length (pp_episodes p)) (cap - added_since (start_of_day (w_now w)) w))"
proof -
  obtain r u where s: "for_each (sync_entry rx) entries w = (r, u)" by fastforce
  have "sync_frame w u"
    using evolvesD [OF sync_evo.ev_for_each [of "sync_entry rx" entries, OF sync_entry_frame], of w] s by simp
  then have u: "w_jobs u = w_jobs w" "added_since (start_of_day (w_now u)) u = added_since (start_of_day (w_now w)) w"
    by (simp_all add: sync_frame_def added_since_def)
  show ?thesis
  proof (cases r)
    case (Inl e)
    then show ?thesis using s u by (simp add: apply_preview_capped_def)
  next
    case (Inr x)
    let ?a = "added_since (start_of_day (w_now w)) w"
    have run: "apply_preview_capped rx shown entries p cap w = apply_loop shown ?a cap (pp_episodes p) 0 u"
      using s u Inr by (simp add: apply_preview_capped_def)
    have "case fst (apply_loop shown ?a cap (pp_episodes p) 0 u) of
        Inl e \<Rightarrow> True | Inr n \<Rightarrow> n = min (length (pp_episodes p)) (cap - ?a)"
      using apply_loop_count [of shown ?a cap "pp_episodes p" 0 u]
      by (cases "apply_loop shown ?a cap (pp_episodes p) 0 u") (auto split: sum.split)
    then show ?thesis
      using apply_loop_grows [of shown ?a cap "pp_episodes p" 0 u] u(1) unfolding run by simp
  qed
qed

text \<open>
  Nothing is queued before the user has seen the first plan. While the first
  run is not complete, \<open>plan\<close> creates no job, episode or show, whatever the list
  and the flags; it only keeps the preview for the confirmation.
\<close>

theorem first_plan_waits:
  assumes "\<not> s_first_run_complete (w_settings w)"
  shows "\<exists>p. snd (plan rx shown entries force w) = w\<lparr>w_pending_plan := p\<rparr> \<and>
    (case fst (plan rx shown entries force w) of
       Inr (P_Applied n q) \<Rightarrow> False
     | _ \<Rightarrow> True)"
proof (cases "\<not> force \<and> within_week w")
  case True
  then show ?thesis by (intro exI [of _ "w_pending_plan w"]) (simp add: plan_def)
next
  case False
  show ?thesis
  proof (cases "build_preview rx entries (w_settings w) w")
    case (Inl e)
    then show ?thesis using False
      by (intro exI [of _ "w_pending_plan w"]) (auto simp: plan_def)
  next
    case (Inr p)
    then show ?thesis using False assms
      by (intro exI [of _ "Some p"]) (auto simp: plan_def store_pending_def)
  qed
qed

theorem first_plan_waits_witness:
  "w_jobs (snd (plan no_match (\<lambda>_. ''1'') [single_entry sample_show] True (sample_store []))) = []"
proof -
  have "\<not> s_first_run_complete (w_settings (sample_store []))"
    by (simp add: sample_defs Settings_default_def)
  then obtain p where "snd (plan no_match (\<lambda>_. ''1'') [single_entry sample_show] True (sample_store [])) =
      (sample_store [])\<lparr>w_pending_plan := p\<rparr>"
    using first_plan_waits [of "sample_store []"] by blast
  then show ?thesis by (simp add: sample_defs)
qed

end
