(* ===== verification/Engine.thy ===== *)
theory Engine
  imports Planner
begin

text \<open>
  \<open>worker/types.rs\<close>, \<open>worker/engine.rs\<close> and \<open>worker/helpers.rs\<close>: what every step of
  a job uses. The surroundings of one step are the record \<open>env\<close>: the replies of
  Nyaa and of qBittorrent, the circuit breaker of the HTTP gate, the file system,
  the home directory, the metadata fetch and the library step (the \<open>Finalizer\<close>
  trait object). The fetch and the library step return a whole store; only the
  tables they write in the source are taken from it, so no reply of theirs can
  change a job.
\<close>

named_theorems engine_simps \<open>unfolding rules of the engine's helpers\<close>

definition MONITOR_POLL_SECS :: int where
  "MONITOR_POLL_SECS = 10"

definition CATEGORY :: string where
  "CATEGORY = ''genrl''"

datatype finalize_outcome = Fin_Done string | Fin_NeedsInput int

record qbit_torrent =
  qt_name :: string
  qt_progress :: f64
  qt_num_seeds :: int
  qt_size :: int
  qt_state :: string
  qt_content_path :: string

definition is_complete :: "qbit_torrent \<Rightarrow> bool" where
  "is_complete t \<longleftrightarrow> 1 \<le> qt_progress t"

record env =
  en_rx :: matcher
  en_fm :: formats
  en_error_text :: "error \<Rightarrow> string"
  en_nyaa :: "search_query \<Rightarrow> error + feed_item list"
  en_nyaa_allowed :: bool
  en_fetch_metadata :: "int \<Rightarrow> world \<Rightarrow> world"
  en_client :: "error + unit"
  en_qbit_version :: "error + string"
  en_qbit_torrent :: "string \<Rightarrow> error + qbit_torrent option"
  en_qbit_add :: "error + unit"
  en_home :: "string option"
  en_free_bytes :: "string \<Rightarrow> nat option"
  en_exists :: "string \<Rightarrow> bool"
  en_writable :: "string \<Rightarrow> bool"
  en_file_len :: "string \<Rightarrow> nat option"
  en_is_dir :: "string \<Rightarrow> bool"
  en_dir_nonempty :: "string \<Rightarrow> bool"
  en_create_dir :: "string \<Rightarrow> string option"
  en_show_folder :: "string \<Rightarrow> int \<Rightarrow> string \<Rightarrow> int option \<Rightarrow> error + string"
  en_finalize :: "job \<Rightarrow> string \<Rightarrow> int \<Rightarrow> world \<Rightarrow> (error + finalize_outcome) \<times> world"

definition en_shown :: "env \<Rightarrow> f64 \<Rightarrow> string" where
  "en_shown ev = fm_display (en_fm ev)"

section \<open>Paths\<close>

text \<open>\<open>Path::join\<close> on Unix paths.\<close>

definition join_path :: "string \<Rightarrow> string \<Rightarrow> string" where
  "join_path a b =
     (if starts_with ''/'' b \<or> a = [] then b
      else if last a = CHR ''/'' then a @ b else a @ ''/'' @ b)"

text \<open>\<open>$HOME\<close> is an argument.\<close>

definition resolve_home :: "string option \<Rightarrow> string \<Rightarrow> string" where
  "resolve_home home path_str =
     (let trimmed = trim path_str in
      case home of
        None \<Rightarrow> trimmed
      | Some h \<Rightarrow>
          if trimmed = ''~'' then h
          else if starts_with ''~/'' trimmed then join_path h (drop 2 trimmed)
          else trimmed)"

definition home_or_dot :: "string option \<Rightarrow> string" where
  "home_or_dot home = (case home of Some h \<Rightarrow> h | None \<Rightarrow> ''.'')"

definition default_download :: "string option \<Rightarrow> string" where
  "default_download home = join_path (join_path (home_or_dot home) ''Downloads'') ''Genrl''"

definition default_library :: "string option \<Rightarrow> string" where
  "default_library home = join_path (join_path (home_or_dot home) ''Videos'') ''Anime''"

abbreviation resolve_home_dir :: "env \<Rightarrow> string \<Rightarrow> string" where
  "resolve_home_dir ev \<equiv> resolve_home (en_home ev)"

abbreviation default_download_dir :: "env \<Rightarrow> string" where
  "default_download_dir ev \<equiv> default_download (en_home ev)"

abbreviation default_library_dir :: "env \<Rightarrow> string" where
  "default_library_dir ev \<equiv> default_library (en_home ev)"

definition download_dir :: "env \<Rightarrow> settings \<Rightarrow> string" where
  "download_dir ev st =
     resolve_home_dir ev (if trim (s_download_folder st) = [] then default_download_dir ev
                          else s_download_folder st)"

section \<open>The engine\<close>

definition GIB :: nat where
  "GIB = 1024 * 1024 * 1024"

definition disk_floor :: "settings \<Rightarrow> nat" where
  "disk_floor st = saturating_mul (s_disk_floor_gb st) GIB"

definition blocking_reason :: "env \<Rightarrow> settings \<Rightarrow> string option" where
  "blocking_reason ev st =
     (let resolved = download_dir ev st in
      case en_free_bytes ev resolved of
        None \<Rightarrow> Some (''download folder '' @ resolved @ '' is missing'')
      | Some free \<Rightarrow>
          if free < disk_floor st
          then Some (''free space '' @ show_nat (free div GIB) @ '' GiB is below the ''
                 @ show_nat (s_disk_floor_gb st) @ '' GiB floor'')
          else None)"

definition block :: "job \<Rightarrow> string \<Rightarrow> job_state run" where
  "block j reason = transition (job_id j) Blocked reason (MoveOptions_blocked (job_state j))"

definition restart_stall_timer :: "job \<Rightarrow> unit run" where
  "restart_stall_timer j =
     seq (gets w_now) (\<lambda>now.
     modify (update_job (job_id j) (\<lambda>x. x\<lparr>job_last_progress_at := Some now\<rparr>)))"

text \<open>\<open>torrent_id = (SELECT id FROM torrents WHERE info_hash = ?2)\<close>\<close>

definition set_chosen :: "int \<Rightarrow> string \<Rightarrow> unit run" where
  "set_chosen i h =
     seq (gets (\<lambda>w. map_option to_id (torrent_by_hash h w))) (\<lambda>t.
     modify (update_job i (\<lambda>x. x\<lparr>job_torrent_id := t\<rparr>)))"

record job_context =
  cx_mal_id :: int
  cx_number :: f64
  cx_title :: string

definition context_of :: "job \<Rightarrow> job_context run" where
  "context_of j =
     (\<lambda>w. case the_episode (job_episode_id j) w of
        None \<Rightarrow> (Inl no_rows, w)
      | Some e \<Rightarrow>
          (case find_row sh_mal_id (ep_mal_id e) (w_shows w) of
             None \<Rightarrow> (Inl no_rows, w)
           | Some s \<Rightarrow>
               (Inr \<lparr> cx_mal_id = ep_mal_id e, cx_number = ep_number e, cx_title = sh_title s \<rparr>, w)))"

definition episode_mal_id :: "job \<Rightarrow> int run" where
  "episode_mal_id j =
     (\<lambda>w. case the_episode (job_episode_id j) w of
        None \<Rightarrow> (Inl no_rows, w) | Some e \<Rightarrow> (Inr (ep_mal_id e), w))"

definition chosen_torrent :: "job \<Rightarrow> world \<Rightarrow> torrent option" where
  "chosen_torrent j w = Option.bind (job_torrent_id j) (\<lambda>t. the_torrent t w)"

definition is_resolved :: "int \<Rightarrow> bool run" where
  "is_resolved m =
     (\<lambda>w. case find_row sh_mal_id m (w_shows w) of
        None \<Rightarrow> (Inl no_rows, w)
      | Some s \<Rightarrow>
          (Inr (sh_metadata_status s \<in> {''ready'', ''partial''} \<and> named_show (sh_title s)), w))"

text \<open>The fetch writes \<open>shows\<close>, \<open>show_names\<close> and the Activity log.\<close>

definition fetch_metadata :: "env \<Rightarrow> int \<Rightarrow> unit run" where
  "fetch_metadata ev m =
     modify (\<lambda>w. let u = en_fetch_metadata ev m w in
       w\<lparr>w_shows := w_shows u, w_names := w_names u, w_seq_names := w_seq_names u,
         w_events := w_events u, w_seq_events := w_seq_events u\<rparr>)"

text \<open>The library step writes those and \<open>questions\<close> and \<open>episodes\<close>.\<close>

definition run_finalizer :: "env \<Rightarrow> job \<Rightarrow> string \<Rightarrow> int \<Rightarrow> finalize_outcome run" where
  "run_finalizer ev j content_path bytes =
     (\<lambda>w. case en_finalize ev j content_path bytes w of (r, u) \<Rightarrow>
        (r, w\<lparr>w_shows := w_shows u, w_names := w_names u, w_seq_names := w_seq_names u,
             w_episodes := w_episodes u, w_seq_episodes := w_seq_episodes u,
             w_questions := w_questions u, w_seq_questions := w_seq_questions u,
             w_events := w_events u, w_seq_events := w_seq_events u\<rparr>))"

definition send_command :: "qbit_command \<Rightarrow> unit run" where
  "send_command c = modify (\<lambda>w. w\<lparr>w_sent := w_sent w @ [c]\<rparr>)"

section \<open>Candidates\<close>

text \<open>\<open>as u32\<close>, \<open>as u64\<close> and \<open>as i64\<close> of integers wrap.\<close>

definition wrap_u32 :: "int \<Rightarrow> nat" where
  "wrap_u32 i = nat (i mod 2 ^ 32)"

definition wrap_u64 :: "int \<Rightarrow> nat" where
  "wrap_u64 i = nat (i mod 2 ^ 64)"

definition wrap_i64 :: "nat \<Rightarrow> int" where
  "wrap_i64 n = (let m = int n mod 2 ^ 64 in if m < 2 ^ 63 then m else m - 2 ^ 64)"

definition row_candidate :: "matcher \<Rightarrow> torrent \<Rightarrow> candidate" where
  "row_candidate rx t =
     \<lparr> ca_release = parse_release rx (to_name t), ca_info_hash = to_info_hash t,
       ca_magnet = to_magnet t, ca_seeders = wrap_u32 (to_seeders t),
       ca_leechers = wrap_u32 (to_leechers t), ca_trusted = to_trusted t, ca_remake = False,
       ca_size_bytes = wrap_u64 (to_size t), ca_published_at = to_found_at t,
       ca_uploader = None, ca_show_type = None, ca_category_id = None \<rparr>"

text \<open>\<open>ORDER BY found_at DESC, seeders DESC LIMIT 50\<close>\<close>

definition candidate_torrents :: "int \<Rightarrow> world \<Rightarrow> torrent list" where
  "candidate_torrents m w =
     take 50 (sort_key (\<lambda>t. - to_found_at t) (sort_key (\<lambda>t. - to_seeders t)
       (filter (\<lambda>t. to_mal_id t = Some m \<and> \<not> to_rejected t) (w_torrents w))))"

definition candidate_rows :: "matcher \<Rightarrow> int \<Rightarrow> world \<Rightarrow> candidate list" where
  "candidate_rows rx m w = map (row_candidate rx) (candidate_torrents m w)"

definition as_remembered :: "int \<Rightarrow> candidate \<Rightarrow> remembered_candidate" where
  "as_remembered m c =
     \<lparr> rc_info_hash = ca_info_hash c, rc_name = re_raw (ca_release c), rc_magnet = ca_magnet c,
       rc_seeders = int (ca_seeders c), rc_leechers = int (ca_leechers c),
       rc_size_bytes = wrap_i64 (ca_size_bytes c), rc_group = re_group (ca_release c),
       rc_resolution = re_resolution (ca_release c), rc_source_url = None, rc_score = 0,
       rc_mal_id = Some m \<rparr>"

section \<open>Asking and giving up\<close>

definition tried :: "int \<Rightarrow> nat" where
  "tried attempts = nat (max 0 (min (2 ^ 32 - 1) attempts))"

definition ask :: "job \<Rightarrow> int \<Rightarrow> payload \<Rightarrow> string \<Rightarrow> int run" where
  "ask j m p reason =
     seq (gets w_settings) (\<lambda>st.
     seq (gets w_now) (\<lambda>now.
     seq (QuestionStore_ask (Some (job_id j)) (Some m) p now
            (Some (int (s_question_expiry_hours st) * 3600))) (\<lambda>i.
     seq (log_warn (Some (job_id j)) (Some m)
            (''asked a question (#'' @ show_int i @ ''): '' @ reason)) (\<lambda>_.
     ret i))))"

definition fail_or_reschedule :: "job \<Rightarrow> string \<Rightarrow> job_state run" where
  "fail_or_reschedule j reason =
     seq (gets w_settings) (\<lambda>st.
     if int (s_max_failed_candidates st) \<le> job_attempts j + 1 then
       seq (episode_mal_id j) (\<lambda>m.
       seq (ask j m (AllFailed (tried (job_attempts j + 1))) reason) (\<lambda>_.
       transition (job_id j) Failed reason (MoveOptions_default\<lparr>opt_count_attempt := True\<rparr>)))
     else
       seq (gets w_now) (\<lambda>now.
       seq (reschedule (job_id j) (now + int (backoff_delay (job_attempts j + 1))) reason) (\<lambda>_.
       ret (job_state j))))"

definition next_candidate :: "job \<Rightarrow> int \<Rightarrow> string \<Rightarrow> job_state run" where
  "next_candidate j m reason =
     (let opts = MoveOptions_default\<lparr>opt_count_attempt := True, opt_clear_torrent := True\<rparr> in
      seq (gets w_settings) (\<lambda>st.
      if int (s_max_failed_candidates st) \<le> job_attempts j + 1 then
        seq (ask j m (AllFailed (tried (job_attempts j + 1))) reason) (\<lambda>_.
        transition (job_id j) Failed reason opts)
      else transition (job_id j) Search reason opts))"

definition names_qbittorrent :: "question \<Rightarrow> bool" where
  "names_qbittorrent q =
     (case qu_payload q of ServiceNotice service _ \<Rightarrow> service = ''qBittorrent'' | _ \<Rightarrow> False)"

definition ensure_service_notice :: "int \<Rightarrow> string \<Rightarrow> unit run" where
  "ensure_service_notice m detail =
     seq (gets (\<lambda>w. QuestionStore_of_kind QServiceNotice (w_now w) w)) (\<lambda>existing.
     if list_ex names_qbittorrent existing then ret ()
     else seq (gets w_now) (\<lambda>now.
          seq (QuestionStore_ask None (Some m) (ServiceNotice ''qBittorrent'' detail) now None) (\<lambda>_.
          ret ())))"

definition large_reason :: string where
  "large_reason = ''Download exceeds 2 GB. Confirm this release before downloading.''"

text \<open>An answered Match Review of this job that approves this torrent at this size.\<close>

definition approves :: "job \<Rightarrow> torrent \<Rightarrow> question \<Rightarrow> bool" where
  "approves j t q =
     (qu_job_id q = Some (job_id j) \<and>
      (case (qu_payload q, qu_answer q) of
         (MatchReview ex options reason, Some a) \<Rightarrow>
           (case an_choice a of
              UseThis h \<Rightarrow>
                reason = large_reason \<and> h = to_info_hash t \<and>
                list_ex (\<lambda>x. mo_info_hash x = h \<and> mo_size_bytes x = wrap_u64 (to_size t)) options
            | _ \<Rightarrow> False)
       | _ \<Rightarrow> False))"

definition large_option :: "candidate \<Rightarrow> match_option" where
  "large_option c =
     \<lparr> mo_info_hash = ca_info_hash c, mo_name = re_raw (ca_release c), mo_magnet = ca_magnet c,
       mo_group = re_group (ca_release c), mo_resolution = re_resolution (ca_release c),
       mo_seeders = ca_seeders c, mo_size_bytes = ca_size_bytes c, mo_signal = 0, mo_ranking = 0,
       mo_title_ratio = 0, mo_why = [large_reason] \<rparr>"

definition confirm_large_download :: "env \<Rightarrow> job \<Rightarrow> int \<Rightarrow> torrent \<Rightarrow> bool run" where
  "confirm_large_download ev j m t =
     (if to_size t \<le> 2000000000 then ret True
      else seq (gets (\<lambda>w. list_ex (approves j t) (w_questions w))) (\<lambda>approved.
        if approved then ret True
        else
          seq (gets (TargetInputs_load (en_rx ev) m)) (\<lambda>loaded.
          seq (lift loaded) (\<lambda>inputs.
          seq (gets (\<lambda>w. map large_option
                 (filter (\<lambda>c. ca_info_hash c = to_info_hash t) (candidate_rows (en_rx ev) m w)))) (\<lambda>options.
          seq (ask j m (MatchReview (expected_show_of inputs) options large_reason) large_reason) (\<lambda>_.
          seq (transition (job_id j) NeedsInput large_reason MoveOptions_default) (\<lambda>_.
          ret False)))))))"

definition siblings_to_queue :: "int \<Rightarrow> int \<Rightarrow> world \<Rightarrow> int list" where
  "siblings_to_queue m current w =
     map ep_id (sort_key ep_number (filter (\<lambda>e. ep_mal_id e = m \<and> ep_id e \<noteq> current
         \<and> ep_state e \<in> {EMissing, EQueued}
         \<and> \<not> list_ex (\<lambda>j. job_episode_id j = ep_id e \<and> job_kind j = KSearch) (w_jobs w))
       (w_episodes w)))"

definition enqueue_sibling_episodes_if_needed :: "env \<Rightarrow> int \<Rightarrow> int \<Rightarrow> unit run" where
  "enqueue_sibling_episodes_if_needed ev m current =
     seq (gets (siblings_to_queue m current)) (\<lambda>missing.
     for_each (\<lambda>e. seq (enqueue_search (en_shown ev) e) (\<lambda>_. ret ())) missing)"

section \<open>Facts\<close>

text \<open>
  What the engine's helpers do to the states of the jobs: most keep them all; those
  that end in a transition move their own job at most once.
\<close>

lemma engine_read_kept [kept_intros]:
  "evolves states_kept (context_of j)" "evolves states_kept (episode_mal_id j)"
  "evolves states_kept (is_resolved m)"
  by (rule evolvesI; simp add: context_of_def episode_mal_id_def is_resolved_def kept_evo.evo_refl
      split: option.split)+

lemma engine_frame_kept [kept_intros]:
  "evolves states_kept (fetch_metadata ev m)"
  "evolves states_kept (run_finalizer ev j p n)"
  "evolves states_kept (send_command c)"
  by (rule evolvesI; simp add: fetch_metadata_def run_finalizer_def send_command_def Let_def split_beta
      states_kept_frame)+

lemma engine_kept [kept_intros]:
  "evolves states_kept (restart_stall_timer j)"
  "evolves states_kept (set_chosen i h)"
  "evolves states_kept (ask j m p reason)"
  "evolves states_kept (ensure_service_notice m detail)"
  "evolves states_kept (enqueue_sibling_episodes_if_needed ev m c)"
  unfolding restart_stall_timer_def set_chosen_def ask_def ensure_service_notice_def
    enqueue_sibling_episodes_if_needed_def
  by (intro kept_evo.ev_rules kept_intros; simp add: job_ok_def)+

lemma block_moves [move_intros]:
  "is_active (job_state j) \<Longrightarrow> evolves (one_move (job_id j)) (block j reason)"
  unfolding block_def by (intro move_intros) simp

lemma engine_moves [move_intros]:
  "evolves (one_move (job_id j)) (fail_or_reschedule j reason)"
  "evolves (one_move (job_id j)) (next_candidate j m reason)"
  "evolves (one_move (job_id j)) (confirm_large_download ev j m t)"
proof -
  have r: "evolves (one_move (job_id j)) (seq (reschedule i t r) (\<lambda>_. ret s))" for i t r s
    by (rule kept_one_move) (intro kept_evo.ev_rules kept_intros)
  show "evolves (one_move (job_id j)) (fail_or_reschedule j reason)"
    unfolding fail_or_reschedule_def
    by (intro r move_obs.ob_rules one_move_seq kept_evo.ev_gets kept_intros move_intros) simp
  show "evolves (one_move (job_id j)) (next_candidate j m reason)"
    unfolding next_candidate_def Let_def
    by (intro move_obs.ob_rules one_move_seq kept_evo.ev_gets kept_intros move_intros) simp_all
  have l: "evolves (one_move (job_id j)) (seq (transition (job_id j) NeedsInput r MoveOptions_default) (\<lambda>_. ret b))"
    for r and b :: bool
    by (rule one_move_after) (intro kept_evo.ev_ret move_intros; simp)+
  show "evolves (one_move (job_id j)) (confirm_large_download ev j m t)"
    unfolding confirm_large_download_def
    by (intro l move_obs.ob_rules one_move_seq kept_evo.ev_gets kept_evo.ev_lift kept_intros)
qed

text \<open>A confirmed download moved nothing, so the rest of the step may.\<close>

lemma confirmed_unmoved:
  assumes "confirm_large_download ev j m t w = (Inr True, u)"
  shows "u = w"
  using assms unfolding confirm_large_download_def
  by (auto simp: seq_def gets_def ret_def lift_def split: if_splits prod.splits sum.splits)

lemmas engine_evolve [evolve_intros] =
  engine_read_kept [THEN kept_evolves] engine_frame_kept [THEN kept_evolves]
  engine_kept [THEN kept_evolves] engine_moves [THEN one_move_evolve]
  block_moves [THEN one_move_evolve]

lemma seq_context_of:
  "the_episode (job_episode_id j) w = Some e \<Longrightarrow> find_row sh_mal_id (ep_mal_id e) (w_shows w) = Some s \<Longrightarrow>
   seq (context_of j) f w = f \<lparr> cx_mal_id = ep_mal_id e, cx_number = ep_number e, cx_title = sh_title s \<rparr> w"
  by (rule seq_Inr) (simp add: context_of_def)

lemma seq_transition:
  "the_job i w = Some j \<Longrightarrow> can_move (job_state j) to \<Longrightarrow>
   seq (transition i to reason opts) f w = f (job_state j) (after_transition i to reason opts j w)"
  by (rule seq_Inr) (auto simp: transition_ok_iff)

lemma transition_run:
  "the_job i w = Some j \<Longrightarrow> can_move (job_state j) to \<Longrightarrow>
   transition i to reason opts w = (Inr (job_state j), after_transition i to reason opts j w)"
  by (simp add: transition_ok_iff)

section \<open>Sample surroundings\<close>

text \<open>Everything answers and there is room; for concrete instances.\<close>

definition sample_env :: env where
  "sample_env =
     \<lparr> en_rx = no_match, en_fm = sample_formats, en_error_text = \<lambda>_. ''error'', en_nyaa = \<lambda>_. Inr [],
       en_nyaa_allowed = True, en_fetch_metadata = \<lambda>m w. w, en_client = Inr (),
       en_qbit_version = Inr ''v5'', en_qbit_torrent = \<lambda>h. Inr None, en_qbit_add = Inr (),
       en_home = Some ''/home/u'', en_free_bytes = \<lambda>p. Some (2 ^ 40), en_exists = \<lambda>p. True,
       en_writable = \<lambda>p. True, en_file_len = \<lambda>p. None, en_is_dir = \<lambda>p. False,
       en_dir_nonempty = \<lambda>p. False, en_create_dir = \<lambda>p. None, en_show_folder = \<lambda>r m t y. Inr r,
       en_finalize = \<lambda>j p n w. (Inr (Fin_Done p), w) \<rparr>"

end
