(* ===== verification/Steps.thy ===== *)
theory Steps
  imports Engine
begin

text \<open>
  \<open>worker/steps_acquire.rs\<close>, \<open>worker/steps_finish.rs\<close> and the dispatch of
  \<open>Engine::step\<close>: one run of one job. A step receives the job as the row it was
  when the step began, as the code does.
\<close>

named_theorems step_simps \<open>unfolding rules of the steps\<close>

section \<open>Search\<close>

definition unresolved_reason :: string where
  "unresolved_reason = ''Metadata unresolved: refresh metadata before searching for releases''"

definition search_names :: "target_inputs \<Rightarrow> rules \<Rightarrow> string list" where
  "search_names ti r =
     (if ti_fully_aired ti \<and> r_prefer_batch_when_finished r
      then concat (map (\<lambda>n. [n @ '' Batch'', n @ '' Season '' @ show_int (ti_season ti)]) (ti_names ti))
             @ ti_names ti
      else ti_names ti)"

text \<open>Everything after the metadata check.\<close>

definition search_resolved :: "env \<Rightarrow> job \<Rightarrow> job_context \<Rightarrow> job_state run" where
  "search_resolved ev j cx =
     seq (gets (TargetInputs_load (en_rx ev) (cx_mal_id cx))) (\<lambda>loaded.
     seq (lift loaded) (\<lambda>inputs.
     if \<not> en_nyaa_allowed ev then block j ''Nyaa's circuit breaker is open''
     else
       seq (gets (\<lambda>w. Rules_for_show (w_rules w) (cx_mal_id cx))) (\<lambda>ruled.
       seq (lift ruled) (\<lambda>r.
       case search_candidates (en_rx ev) (en_nyaa ev) (search_names inputs r) 1000 1000 of
         Inl err \<Rightarrow>
           if is_transient err \<or> is_connection_failure err
           then block j (''Nyaa unreachable: '' @ en_error_text ev err)
           else fail_or_reschedule j (''search failed: '' @ en_error_text ev err)
       | Inr candidates \<Rightarrow>
           if candidates = [] then fail_or_reschedule j ''no candidates on any of the show's names''
           else
             seq (for_each (\<lambda>c. seq (remember_candidate (as_remembered (cx_mal_id cx) c)) (\<lambda>_. ret ()))
                    candidates) (\<lambda>_.
             seq (log_info (Some (job_id j)) (Some (cx_mal_id cx))
                    (''found '' @ show_nat (length candidates) @ '' candidate''
                      @ (if length candidates = 1 then '''' else ''s'') @ '' for episode ''
                      @ en_shown ev (cx_number cx) @ '' of '' @ cx_title cx)) (\<lambda>_.
             transition (job_id j) Choose ''candidates remembered'' MoveOptions_default))))))"

definition search_step :: "env \<Rightarrow> job \<Rightarrow> job_state run" where
  "search_step ev j =
     seq (context_of j) (\<lambda>cx.
     seq (is_resolved (cx_mal_id cx)) (\<lambda>resolved.
     if resolved then search_resolved ev j cx
     else
       seq (fetch_metadata ev (cx_mal_id cx)) (\<lambda>_.
       seq (is_resolved (cx_mal_id cx)) (\<lambda>now_resolved.
       if now_resolved then search_resolved ev j cx else block j unresolved_reason))))"

section \<open>Choose\<close>

definition store_scores :: "ranked list \<Rightarrow> unit run" where
  "store_scores rs =
     for_each (\<lambda>x. modify (update_torrents (\<lambda>t. to_info_hash t = ca_info_hash (ra_candidate x))
       (\<lambda>t. t\<lparr>to_score := signal_of x\<rparr>))) rs"

definition park :: "job \<Rightarrow> int \<Rightarrow> payload \<Rightarrow> string \<Rightarrow> job_state run" where
  "park j m p reason =
     seq (ask j m p reason) (\<lambda>_. transition (job_id j) NeedsInput reason MoveOptions_default)"

definition only_batches :: "target_inputs \<Rightarrow> ranked list \<Rightarrow> bool" where
  "only_batches ti rs \<longleftrightarrow>
     \<not> ti_fully_aired ti \<and> rs \<noteq> [] \<and> list_all (\<lambda>x. re_is_batch (ca_release (ra_candidate x))) rs"

text \<open>The \<open>match\<close> on the verdict.\<close>

definition act_on_verdict :: "env \<Rightarrow> job \<Rightarrow> job_context \<Rightarrow> target_inputs \<Rightarrow> verdict \<Rightarrow> job_state run" where
  "act_on_verdict ev j cx ti v =
     (case v of
        V_Auto chosen thin \<Rightarrow>
          seq (set_chosen (job_id j) (ca_info_hash (ra_candidate chosen))) (\<lambda>_.
          transition (job_id j) Add
            (''chose '' @ re_raw (ca_release (ra_candidate chosen)) @ '' (score ''
              @ fm_dec0 (en_fm ev) (signal_of chosen) @ '')''
              @ (if thin then '' with thin seeds, flagged'' else ''''))
            MoveOptions_default)
      | V_Ask (ThinSeeds seeders) rs \<Rightarrow>
          (case rs of
             [] \<Rightarrow> throw (Panic ''index out of bounds: the len is 0 but the index is 0'')
           | best # _ \<Rightarrow>
               seq (set_chosen (job_id j) (ca_info_hash (ra_candidate best))) (\<lambda>_.
               park j (cx_mal_id cx)
                 (LowSeeds seeders (re_raw (ca_release (ra_candidate best)))
                   (ca_magnet (ra_candidate best)) (ti_auto ti))
                 (''only '' @ show_nat seeders @ '' seeders'')))
      | V_Ask reason rs \<Rightarrow>
          park j (cx_mal_id cx)
            (MatchReview (expected_show_of ti) (map to_option (take 4 rs))
              (AskReason_display (en_fm ev) reason))
            (AskReason_display (en_fm ev) reason)
      | V_NotFound rejections \<Rightarrow>
          fail_or_reschedule j
            (''nothing usable: ''
              @ join_with ''; '' (map (\<lambda>x. Rejection_display (en_fm ev) (snd x)) rejections)))"

definition choose_step :: "env \<Rightarrow> job \<Rightarrow> job_state run" where
  "choose_step ev j =
     seq (context_of j) (\<lambda>cx.
     seq (gets w_settings) (\<lambda>st.
     seq (gets (\<lambda>w. Rules_for_show (w_rules w) (cx_mal_id cx))) (\<lambda>ruled.
     seq (lift ruled) (\<lambda>r.
     seq (gets (TargetInputs_load (en_rx ev) (cx_mal_id cx))) (\<lambda>loaded.
     seq (lift loaded) (\<lambda>inputs.
     seq (gets (candidate_rows (en_rx ev) (cx_mal_id cx))) (\<lambda>rows.
     if rows = [] then fail_or_reschedule j ''no candidates left to choose from''
     else
       seq (gets w_now) (\<lambda>now.
       case rank (en_fm ev) rows inputs (Some (cx_number cx)) r st now of (rs, bad) \<Rightarrow>
       seq (store_scores rs) (\<lambda>_.
       if only_batches inputs rs then
         seq (set_chosen (job_id j) (ca_info_hash (ra_candidate (hd rs)))) (\<lambda>_.
         seq (ask j (cx_mal_id cx)
                (BatchOnly (re_raw (ca_release (ra_candidate (hd rs)))) (ca_seeders (ra_candidate (hd rs))))
                ''only a batch is available'') (\<lambda>_.
         ret NeedsInput))
       else act_on_verdict ev j cx inputs (decide_verdict rs bad inputs r st))))))))))"

section \<open>Add\<close>

text \<open>What a batch does to the rest of its show.\<close>

definition claim_batch :: "job \<Rightarrow> int \<Rightarrow> torrent \<Rightarrow> world \<Rightarrow> world" where
  "claim_batch j m t w =
     (let eps = map ep_id (filter (\<lambda>e. ep_mal_id e = m) (w_episodes w));
          chosen = map_option to_id (torrent_by_hash (to_info_hash t) w) in
      w\<lparr>w_episodes := update_rows (\<lambda>e. ep_mal_id e = m \<and> ep_state e \<in> {EMissing, EQueued})
           (\<lambda>e. e\<lparr>ep_state := EDownloading, ep_torrent_id := chosen\<rparr>) (w_episodes w),
        w_jobs := filter (\<lambda>x. \<not> (job_id x \<noteq> job_id j \<and> job_episode_id x \<in> set eps
           \<and> job_kind x = KSearch)) (w_jobs w)\<rparr>)"

definition is_batch_torrent :: "env \<Rightarrow> torrent \<Rightarrow> bool" where
  "is_batch_torrent ev t \<longleftrightarrow>
     contains ''batch'' (lower (to_name t)) \<or> re_is_batch (parse_release (en_rx ev) (to_name t))"

text \<open>After qBittorrent took the magnet.\<close>

definition after_add :: "env \<Rightarrow> job \<Rightarrow> job_context \<Rightarrow> torrent \<Rightarrow> string \<Rightarrow> job_state run" where
  "after_add ev j cx t version =
     seq (if is_batch_torrent ev t then modify (claim_batch j (cx_mal_id cx) t)
          else enqueue_sibling_episodes_if_needed ev (cx_mal_id cx) (job_episode_id j)) (\<lambda>_.
     seq (log_info (Some (job_id j)) (Some (cx_mal_id cx))
            (''added '' @ to_name t @ '' to qBittorrent '' @ version)) (\<lambda>_.
     transition (job_id j) Monitor (''added '' @ to_name t) MoveOptions_default))"

definition saturating_add :: "nat \<Rightarrow> nat \<Rightarrow> nat" where
  "saturating_add a b = min (a + b) u64_MAX"

definition send_add :: "env \<Rightarrow> job \<Rightarrow> job_context \<Rightarrow> torrent \<Rightarrow> string \<Rightarrow> string \<Rightarrow> job_state run" where
  "send_add ev j cx t path version =
     seq (lift (en_client ev)) (\<lambda>_.
     seq (send_command (QAdd (to_magnet t) path CATEGORY)) (\<lambda>_.
     case en_qbit_add ev of
       Inr _ \<Rightarrow> after_add ev j cx t version
     | Inl err \<Rightarrow>
         if is_transient err \<or> is_connection_failure err
         then block j (''qBittorrent refused the add: '' @ en_error_text ev err)
         else fail_or_reschedule j (''add failed: '' @ en_error_text ev err)))"

definition quoted :: "string \<Rightarrow> string" where
  "quoted s = [CHR 0x27] @ s @ [CHR 0x27]"

definition short_of_space :: "env \<Rightarrow> string \<Rightarrow> nat \<Rightarrow> bool" where
  "short_of_space ev path required =
     (case en_free_bytes ev path of Some free \<Rightarrow> free < required | None \<Rightarrow> False)"

text \<open>The folder and the room for a confirmed torrent.\<close>

definition add_confirmed :: "env \<Rightarrow> job \<Rightarrow> job_context \<Rightarrow> settings \<Rightarrow> torrent \<Rightarrow> string \<Rightarrow> job_state run" where
  "add_confirmed ev j cx st t version =
     (let path = download_dir ev st;
          torrent_bytes = nat (max (to_size t) 0);
          required = saturating_add torrent_bytes (disk_floor st)
      in if \<not> en_exists ev path
         then block j (''download folder '' @ quoted path @ '' is missing'')
         else if \<not> en_writable ev path
         then block j (''download folder '' @ quoted path @ '' is not writable'')
         else if short_of_space ev path required
         then block j (''download folder '' @ quoted path @ '' has insufficient space: need ''
                @ show_nat required @ '' bytes (torrent '' @ show_nat torrent_bytes @ '' + floor ''
                @ show_nat (disk_floor st) @ ''), free ''
                @ (case en_free_bytes ev path of Some free \<Rightarrow> show_nat free | None \<Rightarrow> '''') @ '' bytes'')
         else send_add ev j cx t path version)"

definition add_step :: "env \<Rightarrow> job \<Rightarrow> job_state run" where
  "add_step ev j =
     seq (context_of j) (\<lambda>cx.
     seq (gets w_settings) (\<lambda>st.
     case blocking_reason ev st of
       Some reason \<Rightarrow> block j reason
     | None \<Rightarrow>
       (case en_qbit_version ev of
          Inl err \<Rightarrow>
            if is_connection_failure err
            then block j (''qBittorrent is not reachable: '' @ en_error_text ev err)
            else
              seq (case err of Auth _ _ \<Rightarrow> ensure_service_notice (cx_mal_id cx) (en_error_text ev err)
                   | _ \<Rightarrow> ret ()) (\<lambda>_.
              block j (''qBittorrent is not usable: '' @ en_error_text ev err))
        | Inr version \<Rightarrow>
            seq (gets (chosen_torrent j)) (\<lambda>chosen.
            case chosen of
              None \<Rightarrow> transition (job_id j) Choose ''no chosen candidate; choosing again'' MoveOptions_default
            | Some t \<Rightarrow>
                seq (confirm_large_download ev j (cx_mal_id cx) t) (\<lambda>confirmed.
                if \<not> confirmed then ret NeedsInput
                else add_confirmed ev j cx st t version)))))"

section \<open>Monitor\<close>

definition stall_timeout :: "settings \<Rightarrow> qbit_torrent \<Rightarrow> int" where
  "stall_timeout st info = (if qt_num_seeds info = 0 then 120 else int (s_stall_timeout_min st) * 60)"

definition stall_reason :: "settings \<Rightarrow> qbit_torrent \<Rightarrow> string" where
  "stall_reason st info =
     (if qt_num_seeds info = 0
      then ''0 seeders detected for '' @ qt_name info @ ''; switched to next candidate/single episodes''
      else ''no progress for '' @ show_nat (s_stall_timeout_min st) @ '' minutes; removed ''
             @ qt_name info @ '' and trying the next candidate'')"

definition has_moved :: "job \<Rightarrow> qbit_torrent \<Rightarrow> bool" where
  "has_moved j info \<longleftrightarrow> job_progress j + f64_EPSILON < qt_progress info"

definition has_stalled :: "settings \<Rightarrow> time \<Rightarrow> job \<Rightarrow> qbit_torrent \<Rightarrow> bool" where
  "has_stalled st now j info \<longleftrightarrow>
     \<not> has_moved j info \<and>
     stall_timeout st info \<le>
       now - (case job_last_progress_at j of Some t \<Rightarrow> t | None \<Rightarrow> job_updated_at j)"

text \<open>A torrent qBittorrent has and that is not complete.\<close>

definition monitor_running ::
  "env \<Rightarrow> job \<Rightarrow> job_context \<Rightarrow> settings \<Rightarrow> torrent \<Rightarrow> qbit_torrent \<Rightarrow> job_state run" where
  "monitor_running ev j cx st t info =
     seq (note_progress (job_id j) (qt_progress info) (has_moved j info)) (\<lambda>_.
     seq (gets w_now) (\<lambda>now.
     if has_stalled st now j info then
       seq (send_command (QRemove (to_info_hash t) False)) (\<lambda>_.
       seq (reject_candidate (to_info_hash t)) (\<lambda>_.
       next_candidate j (cx_mal_id cx) (stall_reason st info)))
     else
       seq (reschedule (job_id j) (now + MONITOR_POLL_SECS)
              (qt_state info @ '' at '' @ fm_dec0 (en_fm ev) (qt_progress info * 100) @ ''%'')) (\<lambda>_.
       ret Monitor)))"

definition monitor_step :: "env \<Rightarrow> job \<Rightarrow> job_state run" where
  "monitor_step ev j =
     seq (context_of j) (\<lambda>cx.
     seq (gets w_settings) (\<lambda>st.
     seq (gets (chosen_torrent j)) (\<lambda>chosen.
     case chosen of
       None \<Rightarrow> transition (job_id j) Choose ''no torrent to monitor; choosing again'' MoveOptions_default
     | Some t \<Rightarrow>
         seq (lift (en_client ev)) (\<lambda>_.
         case en_qbit_torrent ev (to_info_hash t) of
           Inl err \<Rightarrow>
             if is_transient err \<or> is_connection_failure err
             then block j (''qBittorrent unreachable while monitoring: '' @ en_error_text ev err)
             else fail_or_reschedule j (''monitor failed: '' @ en_error_text ev err)
         | Inr None \<Rightarrow> next_candidate j (cx_mal_id cx) ''the torrent left qBittorrent''
         | Inr (Some info) \<Rightarrow>
             if is_complete info
             then transition (job_id j) Finalize (qt_name info @ '' finished'') MoveOptions_default
             else monitor_running ev j cx st t info))))"

section \<open>Finalize\<close>

text \<open>Where the finished file is: the reply's path, or the file that qBittorrent forgot.\<close>

datatype finished = Fi_At string int | Fi_Waiting | Fi_Gone

definition locate_finished :: "env \<Rightarrow> settings \<Rightarrow> torrent \<Rightarrow> qbit_torrent option \<Rightarrow> finished" where
  "locate_finished ev st t info =
     (case info of
        Some i \<Rightarrow> if is_complete i then Fi_At (qt_content_path i) (max (qt_size i) 0) else Fi_Waiting
      | None \<Rightarrow>
          (let path = join_path (s_download_folder st) (to_name t) in
           case en_file_len ev path of
             Some n \<Rightarrow> if 0 < n then Fi_At path (wrap_i64 n) else Fi_Gone
           | None \<Rightarrow> Fi_Gone))"

definition verifies :: "env \<Rightarrow> string \<Rightarrow> int \<Rightarrow> bool" where
  "verifies ev path bytes =
     (if en_is_dir ev path then en_dir_nonempty ev path
      else case en_file_len ev path of
        Some n \<Rightarrow> wrap_i64 n = max bytes 0 \<or> bytes = 0 | None \<Rightarrow> False)"

definition file_it :: "env \<Rightarrow> job \<Rightarrow> job_context \<Rightarrow> settings \<Rightarrow> torrent \<Rightarrow> string \<Rightarrow> int \<Rightarrow> string \<Rightarrow> job_state run" where
  "file_it ev j cx st t path bytes dest =
     seq (mark_done (job_episode_id j) dest bytes) (\<lambda>_.
     seq (if s_remove_when_finished st
          then seq (lift (en_client ev)) (\<lambda>_. send_command (QRemove (to_info_hash t) False))
          else ret ()) (\<lambda>_.
     seq (log_info (Some (job_id j)) (Some (cx_mal_id cx))
            (''verified '' @ path @ '' and filed it to '' @ dest)) (\<lambda>_.
     transition (job_id j) Done ''episode owned'' MoveOptions_default)))"

definition run_library_step ::
  "env \<Rightarrow> job \<Rightarrow> job_context \<Rightarrow> settings \<Rightarrow> torrent \<Rightarrow> string \<Rightarrow> int \<Rightarrow> job_state run" where
  "run_library_step ev j cx st t path bytes =
     seq (attempt (run_finalizer ev j path bytes)) (\<lambda>outcome.
     case outcome of
       Inr (Fin_Done dest) \<Rightarrow> file_it ev j cx st t path bytes dest
     | Inr (Fin_NeedsInput q) \<Rightarrow>
         transition (job_id j) NeedsInput ''destination file exists; waiting for user choice''
           MoveOptions_default
     | Inl err \<Rightarrow>
         if is_transient err \<or> (case err of Io _ \<Rightarrow> True | _ \<Rightarrow> False)
         then block j (''library step could not file it: '' @ en_error_text ev err)
         else fail_or_reschedule j (''finalize failed: '' @ en_error_text ev err))"

definition library_root :: "env \<Rightarrow> settings \<Rightarrow> string" where
  "library_root ev st =
     (if trim (s_library_folder st) = [] then default_library_dir ev
      else resolve_home_dir ev (s_library_folder st))"

text \<open>The destination folder; \<open>start_year\<close> and the title come from the show's row.\<close>

definition finalize_verified ::
  "env \<Rightarrow> job \<Rightarrow> job_context \<Rightarrow> settings \<Rightarrow> torrent \<Rightarrow> string \<Rightarrow> int \<Rightarrow> job_state run" where
  "finalize_verified ev j cx st t path bytes =
     seq (gets (\<lambda>w. find_row sh_mal_id (cx_mal_id cx) (w_shows w))) (\<lambda>row.
     case row of
       None \<Rightarrow> throw no_rows
     | Some s \<Rightarrow>
         seq (lift (en_show_folder ev (library_root ev st) (cx_mal_id cx) (sh_title s) (sh_start_year s))) (\<lambda>dest.
         case (if en_exists ev dest then None else en_create_dir ev dest) of
           Some e \<Rightarrow> block j (''destination folder '' @ quoted dest @ '' could not be created: '' @ e)
         | None \<Rightarrow>
             (let required = saturating_add (nat (max bytes 0)) (disk_floor st) in
              if \<not> en_writable ev dest
              then block j (''destination folder '' @ quoted dest @ '' is not writable'')
              else if short_of_space ev dest required
              then block j (''destination folder '' @ quoted dest @ '' has insufficient space: need ''
                     @ show_nat required @ '' bytes, free ''
                     @ (case en_free_bytes ev dest of Some free \<Rightarrow> show_nat free | None \<Rightarrow> '''') @ '' bytes'')
              else run_library_step ev j cx st t path bytes)))"

definition finalize_step :: "env \<Rightarrow> job \<Rightarrow> job_state run" where
  "finalize_step ev j =
     seq (context_of j) (\<lambda>cx.
     seq (gets w_settings) (\<lambda>st.
     seq (gets (chosen_torrent j)) (\<lambda>chosen.
     case chosen of
       None \<Rightarrow> transition (job_id j) Search ''nothing to finalize; searching again'' MoveOptions_default
     | Some t \<Rightarrow>
         seq (lift (en_client ev)) (\<lambda>_.
         case en_qbit_torrent ev (to_info_hash t) of
           Inl err \<Rightarrow>
             if is_transient err \<or> is_connection_failure err
             then block j (''qBittorrent unreachable while verifying: '' @ en_error_text ev err)
             else fail_or_reschedule j (''verify failed: '' @ en_error_text ev err)
         | Inr info \<Rightarrow>
             (case locate_finished ev st t info of
                Fi_Waiting \<Rightarrow>
                  seq (gets w_now) (\<lambda>now.
                  seq (reschedule (job_id j) (now + MONITOR_POLL_SECS) ''still downloading; waiting'') (\<lambda>_.
                  ret Finalize))
              | Fi_Gone \<Rightarrow>
                  transition (job_id j) Search ''the finished file is gone; searching again'' MoveOptions_default
              | Fi_At path bytes \<Rightarrow>
                  if \<not> verifies ev path bytes
                  then fail_or_reschedule j (path @ '' does not verify against the torrent'')
                  else finalize_verified ev j cx st t path bytes)))))"

section \<open>One step\<close>

record step_outcome =
  so_job_id :: int
  so_from :: job_state
  so_to :: job_state

fun JobState_debug :: "job_state \<Rightarrow> string" where
  "JobState_debug Search = ''Search''"
| "JobState_debug Choose = ''Choose''"
| "JobState_debug Add = ''Add''"
| "JobState_debug Monitor = ''Monitor''"
| "JobState_debug Finalize = ''Finalize''"
| "JobState_debug NeedsInput = ''NeedsInput''"
| "JobState_debug Blocked = ''Blocked''"
| "JobState_debug Failed = ''Failed''"
| "JobState_debug Done = ''Done''"

definition run_state :: "env \<Rightarrow> job \<Rightarrow> job_state run" where
  "run_state ev j =
     (case job_state j of
        Search \<Rightarrow> search_step ev j
      | Choose \<Rightarrow> choose_step ev j
      | Add \<Rightarrow> add_step ev j
      | Monitor \<Rightarrow> monitor_step ev j
      | Finalize \<Rightarrow> finalize_step ev j
      | s \<Rightarrow> throw (Other (''job '' @ show_int (job_id j) @ '' is '' @ JobState_debug s
                        @ '': only the five main steps run work'')))"

definition step :: "env \<Rightarrow> int \<Rightarrow> step_outcome run" where
  "step ev i =
     seq (gets (the_job i)) (\<lambda>row.
     case row of
       None \<Rightarrow> throw (Other (''no job with id '' @ show_int i))
     | Some j \<Rightarrow>
         seq (run_state ev j) (\<lambda>_.
         seq (gets (the_job i)) (\<lambda>after.
         ret \<lparr> so_job_id = i, so_from = job_state j,
               so_to = (case after of Some k \<Rightarrow> job_state k | None \<Rightarrow> job_state j) \<rparr>)))"

section \<open>Facts\<close>

text \<open>
  Every step keeps the states of all jobs but its own, which it moves at most once.
\<close>

lemma claim_batch_kept [kept_intros]: "evolves states_kept (modify (claim_batch j m t))"
proof (rule kept_evo.ev_modify)
  fix w :: world
  let ?P = "\<lambda>x. \<not> (job_id x \<noteq> job_id j \<and> job_episode_id x
      \<in> set (map ep_id (filter (\<lambda>e. ep_mal_id e = m) (w_episodes w))) \<and> job_kind x = KSearch)"
  have "states_kept w (w\<lparr>w_jobs := filter ?P (w_jobs w)\<rparr>)" by (rule states_kept_delete)
  moreover have "states_kept (w\<lparr>w_jobs := filter ?P (w_jobs w)\<rparr>) (claim_batch j m t w)"
    by (rule states_kept_frame) (simp_all add: claim_batch_def Let_def)
  ultimately show "states_kept w (claim_batch j m t w)" by (rule kept_evo.evo_trans)
qed

lemma steps_kept [kept_intros]:
  "evolves states_kept (store_scores rs)"
  unfolding store_scores_def update_torrents_def
  by (intro kept_evo.ev_rules kept_frame_modify) simp_all

lemmas move_rules = move_obs.ob_rules one_move_seq kept_evo.ev_rules kept_intros

lemma park_moves [move_intros]: "evolves (one_move (job_id j)) (park j m p reason)"
  unfolding park_def by (intro move_rules move_intros) simp

lemma search_moves [move_intros]:
  assumes "is_active (job_state j)"
  shows "evolves (one_move (job_id j)) (search_resolved ev j cx)"
    and "evolves (one_move (job_id j)) (search_step ev j)"
proof -
  show s: "evolves (one_move (job_id j)) (search_resolved ev j cx)" for cx
    unfolding search_resolved_def by (intro move_rules move_intros assms) simp
  show "evolves (one_move (job_id j)) (search_step ev j)"
    unfolding search_step_def by (intro move_rules s move_intros assms)
qed

lemma act_on_verdict_moves [move_intros]: "evolves (one_move (job_id j)) (act_on_verdict ev j cx ti v)"
  unfolding act_on_verdict_def
  by (auto intro!: move_obs.ob_rules one_move_seq kept_intros move_intros
      split: verdict.split ask_reason.split)

lemma choose_moves [move_intros]: "evolves (one_move (job_id j)) (choose_step ev j)"
  unfolding choose_step_def by (intro move_rules move_intros)

text \<open>\<open>add_step\<close> has two moves, but the second only when the first was not made.\<close>

lemma add_moves [move_intros]:
  assumes "is_active (job_state j)"
  shows "evolves (one_move (job_id j)) (after_add ev j cx t version)"
    and "evolves (one_move (job_id j)) (send_add ev j cx t path version)"
    and "evolves (one_move (job_id j)) (add_confirmed ev j cx st t version)"
proof -
  show a: "evolves (one_move (job_id j)) (after_add ev j cx t version)" for cx t version
    unfolding after_add_def by (intro move_rules move_intros) simp
  show b: "evolves (one_move (job_id j)) (send_add ev j cx t path version)" for cx t path version
    unfolding send_add_def by (intro move_rules a move_intros assms)
  show "evolves (one_move (job_id j)) (add_confirmed ev j cx st t version)"
    unfolding add_confirmed_def Let_def by (intro move_rules b move_intros assms)
qed

lemma confirm_then_moves:
  assumes f: "evolves (one_move (job_id j)) f"
  shows "evolves (one_move (job_id j))
    (seq (confirm_large_download ev j m t) (\<lambda>ok. if \<not> ok then ret NeedsInput else f))"
proof (rule evolvesI)
  fix w
  obtain r u where c: "confirm_large_download ev j m t w = (r, u)" by (cases "confirm_large_download ev j m t w")
  have "one_move (job_id j) w u"
    using evolvesD [OF engine_moves(3) [of j ev m t], of w] c by simp
  moreover have "one_move (job_id j) w (snd (f w))" by (rule evolvesD [OF f])
  ultimately show "one_move (job_id j) w
      (snd (seq (confirm_large_download ev j m t) (\<lambda>ok. if \<not> ok then ret NeedsInput else f) w))"
    using c confirmed_unmoved [of ev j m t w u] by (cases r) auto
qed

lemma add_step_moves [move_intros]:
  assumes "is_active (job_state j)"
  shows "evolves (one_move (job_id j)) (add_step ev j)"
proof -
  have n: "evolves states_kept (case err of Auth _ _ \<Rightarrow> ensure_service_notice m d | _ \<Rightarrow> ret ())" for err m d
    by (cases err) (auto intro: kept_evo.ev_ret kept_intros)
  show ?thesis
    unfolding add_step_def by (intro confirm_then_moves move_rules n move_intros assms) simp
qed

lemma monitor_moves [move_intros]:
  assumes "is_active (job_state j)"
  shows "evolves (one_move (job_id j)) (monitor_running ev j cx st t info)"
    and "evolves (one_move (job_id j)) (monitor_step ev j)"
proof -
  show m: "evolves (one_move (job_id j)) (monitor_running ev j cx st t info)" for cx st t info
    unfolding monitor_running_def by (intro move_rules move_intros)
  show "evolves (one_move (job_id j)) (monitor_step ev j)"
    unfolding monitor_step_def by (intro move_rules m move_intros assms) simp_all
qed

lemma finish_moves [move_intros]:
  assumes "is_active (job_state j)"
  shows "evolves (one_move (job_id j)) (file_it ev j cx st t path n dest)"
    and "evolves (one_move (job_id j)) (run_library_step ev j cx st t path n)"
    and "evolves (one_move (job_id j)) (finalize_verified ev j cx st t path n)"
    and "evolves (one_move (job_id j)) (finalize_step ev j)"
proof -
  show a: "evolves (one_move (job_id j)) (file_it ev j cx st t path n dest)" for cx st t path n dest
    unfolding file_it_def by (intro move_rules move_intros) simp
  show b: "evolves (one_move (job_id j)) (run_library_step ev j cx st t path n)" for cx st t path n
    unfolding run_library_step_def
    by (rule one_move_seq) (auto intro!: kept_evo.ev_attempt kept_intros move_obs.ob_rules a move_intros assms
        split: finalize_outcome.split)
  show c: "evolves (one_move (job_id j)) (finalize_verified ev j cx st t path n)" for cx st t path n
    unfolding finalize_verified_def Let_def by (intro move_rules b move_intros assms)
  show "evolves (one_move (job_id j)) (finalize_step ev j)"
    unfolding finalize_step_def
    by (auto intro!: move_obs.ob_rules one_move_seq kept_evo.ev_gets kept_evo.ev_lift kept_intros
        c move_intros assms split: finished.split)
qed

lemma run_state_moves [move_intros]: "evolves (one_move (job_id j)) (run_state ev j)"
  unfolding run_state_def
  by (cases "job_state j") (auto intro!: move_obs.ev_throw move_intros simp: is_active_def)

lemma step_moves [move_intros]: "evolves (one_move i) (step ev i)"
proof (rule evolvesI)
  fix w
  show "one_move i w (snd (step ev i w))"
  proof (cases "the_job i w")
    case None
    then show ?thesis by (simp add: step_def move_obs.evo_refl)
  next
    case (Some j)
    then have i: "job_id j = i" by (auto dest: find_row_key)
    have k: "evolves states_kept (seq (gets (the_job i)) (\<lambda>after. ret (f after)))" for f
      by (intro kept_evo.ev_rules)
    have "evolves (one_move i) (seq (run_state ev j) (\<lambda>_. seq (gets (the_job i)) (\<lambda>after. ret (f after))))" for f
      unfolding i [symmetric] by (rule one_move_after) (intro move_intros, unfold i, rule k)
    from evolvesD [OF this, of w] Some show ?thesis by (simp add: step_def)
  qed
qed

lemmas steps_evolve [evolve_intros] =
  claim_batch_kept [THEN kept_evolves] steps_kept [THEN kept_evolves]
  park_moves [THEN one_move_evolve] run_state_moves [THEN one_move_evolve]
  step_moves [THEN one_move_evolve]

section \<open>What is sent to qBittorrent\<close>

text \<open>\<open>sends P\<close>: the commands sent between two stores all satisfy \<open>P\<close>.\<close>

definition sends :: "(qbit_command \<Rightarrow> bool) \<Rightarrow> world \<Rightarrow> world \<Rightarrow> bool" where
  "sends P w w' \<longleftrightarrow> (\<exists>cs. w_sent w' = w_sent w @ cs \<and> list_all P cs)"

interpretation send_evo: evolution "sends P" for P
  by unfold_locales (force simp: sends_def)+

lemma sends_quiet: "(\<And>w. w_sent (snd (m w)) = w_sent w) \<Longrightarrow> evolves (sends P) m"
  by (rule evolvesI) (simp add: sends_def)

lemma quiet_modify: "(\<And>w. w_sent (f w) = w_sent w) \<Longrightarrow> evolves (sends P) (modify f)"
  by (rule sends_quiet) simp

named_theorems send_intros \<open>rules that show what an action sends\<close>

lemma quiet_jobs [send_intros]:
  "evolves (sends P) (transition i to reason opts)"
  "evolves (sends P) (reschedule i next reason)"
  "evolves (sends P) (enqueue_search shown e)"
  "evolves (sends P) (remember_candidate c)"
  "evolves (sends P) (reject_candidate h)"
  "evolves (sends P) (note_progress i pr m)"
  "evolves (sends P) (record_event lv jid mid msg)"
  "evolves (sends P) (log_info jid mid msg)"
  "evolves (sends P) (log_warn jid mid msg)"
  "evolves (sends P) (QuestionStore_ask jid mid p now expiry)"
  "evolves (sends P) (mark_done e path n)"
proof -
  have r: "evolves (sends P) (record_in lv jid mid msg ts)" for lv jid mid msg ts
    by (rule sends_quiet) simp
  show "evolves (sends P) (transition i to reason opts)"
    by (rule sends_quiet) (simp add: transition_eq split: option.split)
  show "evolves (sends P) (reschedule i next reason)"
    unfolding reschedule_def by (intro send_evo.ev_rules quiet_modify r) simp
  show "evolves (sends P) (enqueue_search shown e)"
    unfolding enqueue_search_def by (intro send_evo.ev_rules quiet_modify r) simp
  show "evolves (sends P) (remember_candidate c)"
    by (rule sends_quiet)
      (simp add: remember_candidate_def transact_def update_torrents_def Let_def split: option.split)
  show "evolves (sends P) (reject_candidate h)"
    unfolding reject_candidate_def update_torrents_def by (intro send_evo.ev_rules quiet_modify) simp
  show "evolves (sends P) (note_progress i pr m)"
    unfolding note_progress_def by (intro send_evo.ev_rules quiet_modify) simp
  show e: "evolves (sends P) (record_event lv jid mid msg)" for lv
    by (rule sends_quiet) simp
  show "evolves (sends P) (log_info jid mid msg)" "evolves (sends P) (log_warn jid mid msg)"
    unfolding log_info_def log_warn_def by (rule e)+
  show "evolves (sends P) (QuestionStore_ask jid mid p now expiry)"
    by (rule sends_quiet) simp
  show "evolves (sends P) (mark_done e path n)"
    unfolding mark_done_def by (rule quiet_modify) simp
qed

lemma quiet_engine [send_intros]:
  "evolves (sends P) (context_of j)"
  "evolves (sends P) (episode_mal_id j)"
  "evolves (sends P) (is_resolved m)"
  "evolves (sends P) (fetch_metadata ev m)"
  "evolves (sends P) (run_finalizer ev j path n)"
  "evolves (sends P) (block j reason)"
  "evolves (sends P) (set_chosen i h)"
  "evolves (sends P) (ask j m p reason)"
  "evolves (sends P) (fail_or_reschedule j reason)"
  "evolves (sends P) (next_candidate j m reason)"
  "evolves (sends P) (ensure_service_notice m detail)"
  "evolves (sends P) (confirm_large_download ev j m t)"
  "evolves (sends P) (enqueue_sibling_episodes_if_needed ev m cur)"
  "evolves (sends P) (store_scores rs)"
  "evolves (sends P) (park j m p reason)"
proof -
  show "evolves (sends P) (context_of j)" "evolves (sends P) (is_resolved m)"
    by (rule sends_quiet; simp add: context_of_def is_resolved_def split: option.split)+
  show e: "evolves (sends P) (episode_mal_id j)"
    by (rule sends_quiet) (simp add: episode_mal_id_def split: option.split)
  show "evolves (sends P) (fetch_metadata ev m)" "evolves (sends P) (run_finalizer ev j path n)"
    by (rule sends_quiet; simp add: fetch_metadata_def run_finalizer_def Let_def split_beta)+
  show "evolves (sends P) (block j reason)"
    unfolding block_def by (rule send_intros)
  show "evolves (sends P) (set_chosen i h)"
    unfolding set_chosen_def by (intro send_evo.ev_rules quiet_modify) simp
  show a: "evolves (sends P) (ask j m p reason)" for m p reason
    unfolding ask_def by (intro send_evo.ev_rules send_intros)
  show "evolves (sends P) (fail_or_reschedule j reason)"
    unfolding fail_or_reschedule_def by (intro send_evo.ev_rules e a send_intros)
  show "evolves (sends P) (next_candidate j m reason)"
    unfolding next_candidate_def by (intro send_evo.ev_rules a send_intros)
  show "evolves (sends P) (ensure_service_notice m detail)"
    unfolding ensure_service_notice_def by (intro send_evo.ev_rules send_intros)
  show "evolves (sends P) (confirm_large_download ev j m t)"
    unfolding confirm_large_download_def by (intro send_evo.ev_rules a send_intros)
  show "evolves (sends P) (enqueue_sibling_episodes_if_needed ev m cur)"
    unfolding enqueue_sibling_episodes_if_needed_def by (intro send_evo.ev_rules send_intros)
  show "evolves (sends P) (store_scores rs)"
    unfolding store_scores_def update_torrents_def by (intro send_evo.ev_rules quiet_modify) simp
  show "evolves (sends P) (park j m p reason)"
    unfolding park_def by (intro send_evo.ev_rules a send_intros)
qed

definition is_add :: "qbit_command \<Rightarrow> bool" where
  "is_add c = (case c of QAdd m p k \<Rightarrow> True | QRemove h d \<Rightarrow> False)"

lemma send_remove [send_intros]: "evolves (sends (\<lambda>c. \<not> is_add c)) (send_command (QRemove h d))"
  by (rule evolvesI) (simp add: send_command_def sends_def is_add_def)

text \<open>The other four steps add nothing to qBittorrent.\<close>

lemma no_add_search: "evolves (sends P) (search_step ev j)"
  unfolding search_step_def search_resolved_def by (intro send_evo.ev_rules send_intros)

lemma no_add_choose: "evolves (sends P) (choose_step ev j)"
proof -
  have "evolves (sends P) (act_on_verdict ev j cx ti v)" for cx ti v
    unfolding act_on_verdict_def
    by (auto intro!: send_evo.ev_rules send_intros split: verdict.split ask_reason.split)
  then show ?thesis unfolding choose_step_def by (intro send_evo.ev_rules send_intros)
qed

lemma no_add_monitor: "evolves (sends (\<lambda>c. \<not> is_add c)) (monitor_step ev j)"
  unfolding monitor_step_def monitor_running_def by (intro send_evo.ev_rules send_intros)

lemma no_add_finalize: "evolves (sends (\<lambda>c. \<not> is_add c)) (finalize_step ev j)"
proof -
  have f: "evolves (sends (\<lambda>c. \<not> is_add c)) (file_it ev j cx st t path n dest)" for cx st t path n dest
    unfolding file_it_def by (intro send_evo.ev_rules send_intros)
  have r: "evolves (sends (\<lambda>c. \<not> is_add c)) (run_library_step ev j cx st t path n)" for cx st t path n
    unfolding run_library_step_def
    by (auto intro!: send_evo.ev_rules f send_intros split: finalize_outcome.split)
  have v: "evolves (sends (\<lambda>c. \<not> is_add c)) (finalize_verified ev j cx st t path n)" for cx st t path n
    unfolding finalize_verified_def Let_def by (intro send_evo.ev_rules r send_intros)
  show ?thesis
    unfolding finalize_step_def by (auto intro!: send_evo.ev_rules v send_intros split: finished.split)
qed

lemma add_confirmed_sends:
  "evolves (sends (\<lambda>c. c = QAdd (to_magnet t) (download_dir ev st) CATEGORY \<and>
       en_exists ev (download_dir ev st) \<and> en_writable ev (download_dir ev st)))
     (add_confirmed ev j cx st t version)"
proof -
  have c: "evolves (sends P) (modify (claim_batch j m t))" for P m
    by (rule quiet_modify) (simp add: claim_batch_def Let_def)
  have a: "evolves (sends P) (after_add ev j cx t version)" for P
    unfolding after_add_def by (intro send_evo.ev_rules c send_intros)
  have s: "evolves (sends P) (send_add ev j cx t path version)"
    if "P (QAdd (to_magnet t) path CATEGORY)" for P path
    unfolding send_add_def
  proof (intro send_evo.ev_rules a send_intros)
    show "evolves (sends P) (send_command (QAdd (to_magnet t) path CATEGORY))"
      by (rule evolvesI) (use that in \<open>simp add: send_command_def sends_def\<close>)
  qed
  show ?thesis
    unfolding add_confirmed_def Let_def
    by (intro send_evo.ev_branch send_intros s) simp_all
qed

text \<open>A torrent that may be added: small, or approved by an answered question of this job.\<close>

definition may_add :: "job \<Rightarrow> torrent \<Rightarrow> world \<Rightarrow> bool" where
  "may_add j t w \<longleftrightarrow> to_size t \<le> 2000000000 \<or> list_ex (approves j t) (w_questions w)"

lemma confirmed_may_add: "confirm_large_download ev j m t w = (Inr True, u) \<Longrightarrow> may_add j t w"
  unfolding confirm_large_download_def may_add_def
  by (auto simp: seq_def gets_def ret_def lift_def split: if_splits prod.splits sum.splits)

lemma add_step_sends:
  "sends (\<lambda>c. \<exists>t. chosen_torrent j w = Some t \<and> may_add j t w \<and>
       c = QAdd (to_magnet t) (download_dir ev (w_settings w)) CATEGORY \<and>
       en_exists ev (download_dir ev (w_settings w)) \<and> en_writable ev (download_dir ev (w_settings w)))
     w (snd (add_step ev j w))" (is "sends ?P w _")
proof -
  have n: "evolves (sends P) (case err of Auth _ _ \<Rightarrow> ensure_service_notice m d | _ \<Rightarrow> ret ())" for P err m d
    by (cases err) (auto intro: send_evo.ev_ret send_intros)
  have add: "sends ?P w (snd (seq (confirm_large_download ev j m t) (\<lambda>ok.
      if \<not> ok then ret NeedsInput else add_confirmed ev j cx (w_settings w) t version) w))"
    if t: "chosen_torrent j w = Some t" for m t cx version
  proof -
    obtain r u where c: "confirm_large_download ev j m t w = (r, u)"
      by (cases "confirm_large_download ev j m t w")
    then have u: "sends ?P w u" using evolvesD [OF quiet_engine(12), of ?P w ev j m t] by simp
    show ?thesis
    proof (cases "r = Inr True")
      case True
      with c have ok: "may_add j t w" and uw: "u = w"
        using confirmed_may_add confirmed_unmoved by blast+
      have "sends ?P w (snd (add_confirmed ev j cx (w_settings w) t version w))"
        using evolvesD [OF add_confirmed_sends [of t ev "w_settings w" j cx version], of w] ok t
        by (auto simp: sends_def list_all_iff)
      with c True uw show ?thesis by simp
    next
      case False
      then show ?thesis using c u by (cases r) auto
    qed
  qed
  have "snd (context_of j w) = w" by (simp add: context_of_def split: option.split)
  then obtain r where cx: "context_of j w = (r, w)" by (metis prod.collapse)
  have rest: "evolves (sends ?P) (case en_qbit_version ev of
        Inl err \<Rightarrow> f err | Inr version \<Rightarrow> g version) "
    if "\<And>err. evolves (sends ?P) (f err)" "\<And>v. evolves (sends ?P) (g v)"
    for f and g :: "string \<Rightarrow> job_state run"
    using that by (cases "en_qbit_version ev") auto
  show ?thesis
  proof (cases r)
    case (Inl e)
    then show ?thesis using cx by (simp add: add_step_def send_evo.evo_refl)
  next
    case (Inr c)
    have b: "sends P w (snd (block j x w))" for P x by (rule evolvesD) (rule send_intros)
    have nb: "sends P w (snd (seq (case err of Auth _ _ \<Rightarrow> ensure_service_notice m d | _ \<Rightarrow> ret ()) (\<lambda>_. block j x) w))"
      for P err m d x by (rule evolvesD) (intro send_evo.ev_seq n send_intros)
    have tr: "sends P w (snd (transition i to x opts w))" for P i to x opts
      by (rule evolvesD) (rule send_intros)
    show ?thesis
      using cx Inr b nb tr add
      by (simp add: add_step_def seq_Inr split: option.split sum.split)
  qed
qed


lemma quiet_after_add: "evolves (sends P) (after_add ev j cx t version)"
proof -
  have c: "evolves (sends P) (modify (claim_batch j m t))" for m
    by (rule quiet_modify) (simp add: claim_batch_def Let_def)
  show ?thesis unfolding after_add_def by (intro send_evo.ev_rules c send_intros)
qed

lemma send_add_sent:
  assumes "en_client ev = Inr ()"
  shows "w_sent (snd (send_add ev j cx t path version w)) = w_sent w @ [QAdd (to_magnet t) path CATEGORY]"
proof -
  have "evolves (sends (\<lambda>_. False)) (case en_qbit_add ev of
       Inr _ \<Rightarrow> after_add ev j cx t version
     | Inl err \<Rightarrow>
         if is_transient err \<or> is_connection_failure err
         then block j (''qBittorrent refused the add: '' @ en_error_text ev err)
         else fail_or_reschedule j (''add failed: '' @ en_error_text ev err))"
    by (intro send_evo.ev_rules quiet_after_add send_intros)
  from evolvesD [OF this, of "snd (send_command (QAdd (to_magnet t) path CATEGORY) w)"]
  show ?thesis
    using assms by (auto simp: send_add_def send_command_def sends_def list_all_iff)
qed

definition approval :: question where
  "approval =
     \<lparr> qu_id = 1, qu_job_id = Some 3, qu_mal_id = Some 1, qu_kind = QMatchReview,
       qu_payload = MatchReview \<lparr> ex_mal_id = 1, ex_title = ''Frieren'', ex_english_title = None, ex_year = None \<rparr>
         [\<lparr> mo_info_hash = ''aa'', mo_name = ''Frieren - 01'', mo_magnet = ''magnet:?xt=urn:btih:aa'',
            mo_group = None, mo_resolution = None, mo_seeders = 50, mo_size_bytes = 3000000000,
            mo_signal = 0, mo_ranking = 0, mo_title_ratio = 0, mo_why = [] \<rparr>] large_reason,
       qu_answer = Some \<lparr> an_choice = UseThis ''aa'', an_always = False \<rparr>, qu_created_at = 950,
       qu_expires_at = None \<rparr>"

definition approved_store :: world where
  "approved_store =
     (sample_store [(sample_job 3 KAdd Add)\<lparr>job_torrent_id := Some 1\<rparr>])\<lparr>w_questions := [approval]\<rparr>"

lemma approved_store_sends:
  "w_sent (snd (step sample_env 3 approved_store)) =
     [] @ [QAdd ''magnet:?xt=urn:btih:aa'' (download_dir sample_env (w_settings approved_store)) CATEGORY]"
proof -
  let ?w = approved_store and ?j = "(sample_job 3 KAdd Add)\<lparr>job_torrent_id := Some 1\<rparr>"
  let ?cx = "\<lparr> cx_mal_id = 1, cx_number = 1, cx_title = ''Frieren'' \<rparr>"
  have row: "the_job 3 ?w = Some ?j" by (simp add: approved_store_def sample_defs)
  have cx: "context_of ?j ?w = (Inr ?cx, ?w)" by (simp add: context_of_def approved_store_def sample_defs)
  have blk: "blocking_reason sample_env (w_settings ?w) = None"
    by (simp add: blocking_reason_def sample_env_def approved_store_def sample_defs Settings_default_def
        disk_floor_def saturating_mul_def u64_MAX_def GIB_def)
  have t: "chosen_torrent ?j ?w = Some sample_torrent"
    by (simp add: chosen_torrent_def approved_store_def sample_defs)
  have "confirm_large_download sample_env ?j 1 sample_torrent ?w = (Inr True, ?w)"
    by (simp add: confirm_large_download_def seq_def approves_def approval_def approved_store_def
        sample_defs wrap_u64_def)
  moreover have "add_confirmed sample_env ?j ?cx (w_settings ?w) sample_torrent ''v5'' =
      send_add sample_env ?j ?cx sample_torrent (download_dir sample_env (w_settings ?w)) ''v5''"
    by (simp add: add_confirmed_def Let_def short_of_space_def sample_env_def approved_store_def sample_defs
        Settings_default_def saturating_add_def disk_floor_def saturating_mul_def u64_MAX_def GIB_def)
  ultimately have "snd (run_state sample_env ?j ?w) =
      snd (send_add sample_env ?j ?cx sample_torrent (download_dir sample_env (w_settings ?w)) ''v5'' ?w)"
    using cx blk t
    by (simp add: run_state_def add_step_def seq_Inr sample_job_def) (simp add: sample_env_def seq_Inr)
  moreover have "w_sent (snd (step sample_env 3 ?w)) = w_sent (snd (run_state sample_env ?j ?w))"
    using row by (cases "run_state sample_env ?j ?w") (auto simp: step_def seq_def split: sum.split)
  moreover have "en_client sample_env = Inr ()" by (simp add: sample_env_def)
  ultimately show ?thesis
    by (simp add: send_add_sent) (simp add: approved_store_def sample_defs)
qed


section \<open>Asking, retrying, parking\<close>

lemma reschedule_run:
  assumes "the_job i w = Some j"
  obtains w' where "reschedule i next reason w = (Inr (), w')"
    "the_job i w' = Some (j\<lparr>job_next_run_at := Some next, job_last_error := Some reason, job_updated_at := w_now w\<rparr>)"
    "w_questions w' = w_questions w" "w_now w' = w_now w" "w_settings w' = w_settings w"
  using reschedule_ok [OF assms, of "next" reason] by auto

lemma ask_run:
  assumes "known_job w (Some (job_id j))" "known_show w (Some m)"
  obtains u where "ask j m p reason w = (Inr (w_seq_questions w + 1), u)" "w_jobs u = w_jobs w"
    "w_questions u = w_questions w @ [new_question (w_seq_questions w + 1) (Some (job_id j)) (Some m) p
      (w_now w) (Some (int (s_question_expiry_hours (w_settings w)) * 3600))]"
    "w_settings u = w_settings w" "w_now u = w_now w" "w_episodes u = w_episodes w" "w_sent u = w_sent w"
  using ask_ok [OF assms, of p "w_now w" "Some (int (s_question_expiry_hours (w_settings w)) * 3600)"]
  by (simp add: ask_def log_warn_def seq_Inr)

text \<open>
  A transient failure is retried, but the retry is never counted. While the
  attempt counter has not reached the limit, \<open>fail_or_reschedule\<close> leaves the job in
  its state with the counter as it was, asks nothing, and sets the next run to the
  first delay that the counter selects; so the next failure takes the same branch
  with the same delay, however often it happens (the code computes the next count
  and uses it for the delay, but writes it nowhere).
\<close>

theorem fail_or_reschedule_uncounted:
  assumes "the_job (job_id j) w = Some j"
    and "job_attempts j + 1 < int (s_max_failed_candidates (w_settings w))"
  shows "\<exists>w' j'. fail_or_reschedule j reason w = (Inr (job_state j), w') \<and>
    the_job (job_id j) w' = Some j' \<and> job_state j' = job_state j \<and>
    job_attempts j' = job_attempts j \<and> job_last_error j' = Some reason \<and>
    job_next_run_at j' = Some (w_now w + int (backoff_delay (job_attempts j + 1))) \<and>
    w_questions w' = w_questions w \<and> w_settings w' = w_settings w"
proof -
  let ?t = "w_now w + int (backoff_delay (job_attempts j + 1))"
  obtain w' where w': "reschedule (job_id j) ?t reason w = (Inr (), w')"
    "the_job (job_id j) w' = Some (j\<lparr>job_next_run_at := Some ?t, job_last_error := Some reason, job_updated_at := w_now w\<rparr>)"
    "w_questions w' = w_questions w" "w_settings w' = w_settings w"
    by (rule reschedule_run [OF assms(1)])
  with assms(2) show ?thesis
    by (simp add: fail_or_reschedule_def seq_Inr)
qed

theorem fail_or_reschedule_uncounted_witness:
  "\<exists>w' j'. fail_or_reschedule (sample_job 3 KSearch Search) ''search failed'' (sample_store [sample_job 3 KSearch Search])
      = (Inr Search, w') \<and> the_job 3 w' = Some j' \<and> job_attempts j' = 0 \<and> job_next_run_at j' = Some 1005"
proof -
  let ?j = "sample_job 3 KSearch Search"
  have "the_job (job_id ?j) (sample_store [?j]) = Some ?j" by (simp add: sample_defs)
  moreover have "job_attempts ?j + 1 < int (s_max_failed_candidates (w_settings (sample_store [?j])))"
    by (simp add: sample_defs Settings_default_def)
  moreover have "backoff_delay (job_attempts ?j + 1) = 5"
    by (simp add: sample_defs backoff_delay_cases)
  ultimately show ?thesis
    using fail_or_reschedule_uncounted [of ?j "sample_store [?j]" "''search failed''"]
    by (auto simp: sample_defs)
qed

text \<open>
  C37: the consent question for a large torrent is stored, but the job is not parked.
  \<open>add_step\<close> runs in \<open>Add\<close> and the table has no move from \<open>Add\<close> to \<open>NeedsInput\<close>, so
  when the chosen torrent is larger than 2 GB and not approved,
  \<open>confirm_large_download\<close> adds an open question and then fails with
  \<open>IllegalTransition\<close>; the job stays in \<open>Add\<close>, and every later run adds another
  question.
\<close>

theorem large_download_not_parked:
  assumes "the_job (job_id j) w = Some j" "job_state j = Add" "known_show w (Some m)"
    and "TargetInputs_load (en_rx ev) m w = Inr ti" "\<not> may_add j t w"
  shows "\<exists>w' q. confirm_large_download ev j m t w = (Inl (IllegalTransition Add NeedsInput (job_id j)), w') \<and>
    w_questions w' = w_questions w @ [q] \<and> qu_kind q = QMatchReview \<and> qu_answer q = None \<and>
    qu_job_id q = Some (job_id j) \<and> w_jobs w' = w_jobs w"
proof -
  have big: "\<not> to_size t \<le> 2000000000" "\<not> list_ex (approves j t) (w_questions w)"
    using assms(5) by (auto simp: may_add_def)
  have known: "known_job w (Some (job_id j))" using assms(1) by (simp add: known_job_def)
  define options where "options = map large_option
      (filter (\<lambda>c. ca_info_hash c = to_info_hash t) (candidate_rows (en_rx ev) m w))"
  obtain u where u: "ask j m (MatchReview (expected_show_of ti) options large_reason) large_reason w =
      (Inr (w_seq_questions w + 1), u)" "w_jobs u = w_jobs w"
    "w_questions u = w_questions w @ [new_question (w_seq_questions w + 1) (Some (job_id j)) (Some m)
      (MatchReview (expected_show_of ti) options large_reason) (w_now w)
      (Some (int (s_question_expiry_hours (w_settings w)) * 3600))]"
    by (rule ask_run [OF known assms(3)])
  have "transition (job_id j) NeedsInput large_reason MoveOptions_default u =
      (Inl (IllegalTransition Add NeedsInput (job_id j)), u)"
    using assms(1,2) u(2) by (simp add: transition_eq can_move_def is_allowed_eval)
  then have "confirm_large_download ev j m t w = (Inl (IllegalTransition Add NeedsInput (job_id j)), u)"
    using big assms(4) u(1) by (simp add: confirm_large_download_def seq_Inr seq_Inl options_def)
  with u show ?thesis by (simp add: new_question_def)
qed

definition sample_name :: name_row where
  "sample_name = \<lparr> nr_id = 1, nr_mal_id = 1, nr_name = ''frieren'', nr_normalized = ''frieren'',
     nr_source = Mal, nr_priority = 0 \<rparr>"

lemma sample_inputs: "\<exists>ti. TargetInputs_load rx 1 ((sample_store js)\<lparr>w_names := [sample_name]\<rparr>) = Inr ti"
  by (simp add: TargetInputs_load_def load_show_def search_order_def NameSet_load_def names_of_def
      sample_name_def sample_defs)

theorem large_download_not_parked_witness:
  "\<exists>w'. confirm_large_download sample_env (sample_job 3 KAdd Add) 1 sample_torrent
     ((sample_store [sample_job 3 KAdd Add])\<lparr>w_names := [sample_name]\<rparr>)
     = (Inl (IllegalTransition Add NeedsInput 3), w') \<and> length (w_questions w') = 1"
proof -
  let ?j = "sample_job 3 KAdd Add" and ?w = "(sample_store [sample_job 3 KAdd Add])\<lparr>w_names := [sample_name]\<rparr>"
  obtain ti where ti: "TargetInputs_load (en_rx sample_env) 1 ?w = Inr ti" using sample_inputs by blast
  have pre: "the_job (job_id ?j) ?w = Some ?j" "job_state ?j = Add" "known_show ?w (Some 1)"
    "\<not> may_add ?j sample_torrent ?w"
    by (simp_all add: sample_defs known_show_def may_add_def)
  have "w_questions ?w = []" "job_id ?j = 3" by (simp_all add: sample_defs)
  with large_download_not_parked [OF pre(1-3) ti pre(4)] show ?thesis by auto
qed

text \<open>
  A show that is still airing and has only batches on offer never waits for the
  user. \<open>choose_step\<close> stores the batch question and answers \<open>NeedsInput\<close>, but it
  makes no transition: the job stays in \<open>Choose\<close> with its waiting time as it was, so
  it is due again at once and the next run asks the same question again.
\<close>

theorem batch_only_not_parked:
  assumes "the_job (job_id j) w = Some j" "the_episode (job_episode_id j) w = Some e"
    and "find_row sh_mal_id (ep_mal_id e) (w_shows w) = Some s"
    and "Rules_for_show (w_rules w) (ep_mal_id e) = Inr r"
    and "TargetInputs_load (en_rx ev) (ep_mal_id e) w = Inr ti"
    and "candidate_rows (en_rx ev) (ep_mal_id e) w \<noteq> []"
    and "rank (en_fm ev) (candidate_rows (en_rx ev) (ep_mal_id e) w) ti (Some (ep_number e)) r
           (w_settings w) (w_now w) = (rs, bad)"
    and "only_batches ti rs"
  shows "\<exists>w' j' q. choose_step ev j w = (Inr NeedsInput, w') \<and>
    the_job (job_id j) w' = Some j' \<and> job_state j' = job_state j \<and>
    job_next_run_at j' = job_next_run_at j \<and>
    w_questions w' = w_questions w @ [q] \<and> qu_kind q = QBatchOnly \<and> qu_job_id q = Some (job_id j)"
proof -
  let ?h = "ca_info_hash (ra_candidate (hd rs))"
  define u where "u = snd (store_scores rs w)"
  have stored: "store_scores rs w = (Inr (), u) \<and> w_jobs u = w_jobs w \<and> w_questions u = w_questions w \<and>
      w_shows u = w_shows w \<and> w_settings u = w_settings w \<and> w_now u = w_now w"
    unfolding u_def store_scores_def
  proof (induction rs arbitrary: w)
    case (Cons x xs)
    from Cons [of "update_torrents (\<lambda>t. to_info_hash t = ca_info_hash (ra_candidate x))
        (\<lambda>t. t\<lparr>to_score := signal_of x\<rparr>) w"]
    show ?case by (simp add: update_torrents_def)
  qed simp
  define v where "v = snd (set_chosen (job_id j) ?h u)"
  have v: "set_chosen (job_id j) ?h u = (Inr (), v)" "w_questions v = w_questions w" "w_shows v = w_shows w"
    "the_job (job_id j) v = Some (j\<lparr>job_torrent_id := map_option to_id (torrent_by_hash ?h u)\<rparr>)"
    using stored assms(1) by (simp_all add: v_def set_chosen_def the_job_update)
  have "known_show v (Some (ep_mal_id e))"
    using find_row_Some_iff_in [OF assms(3)] v(3) by (auto simp: known_show_def intro: rev_image_eqI)
  moreover have "known_job v (Some (job_id j))" using v(4) by (simp add: known_job_def)
  ultimately obtain w' where w': "w_questions w' = w_questions v @
      [new_question (w_seq_questions v + 1) (Some (job_id j)) (Some (ep_mal_id e))
        (BatchOnly (re_raw (ca_release (ra_candidate (hd rs)))) (ca_seeders (ra_candidate (hd rs))))
        (w_now v) (Some (int (s_question_expiry_hours (w_settings v)) * 3600))]" "w_jobs w' = w_jobs v"
    "ask j (ep_mal_id e) (BatchOnly (re_raw (ca_release (ra_candidate (hd rs)))) (ca_seeders (ra_candidate (hd rs))))
        ''only a batch is available'' v = (Inr (w_seq_questions v + 1), w')"
    by (metis ask_run)
  have "choose_step ev j w = (Inr NeedsInput, w')"
    using assms(4-8) stored v(1) w'(3)
    by (simp add: choose_step_def seq_context_of [OF assms(2,3)])
  with w' v show ?thesis by (simp add: new_question_def)
qed

text \<open>A matcher that sees a batch everywhere, and an airing show with one big release.\<close>

definition batch_match :: matcher where
  "batch_match = no_match\<lparr>rx_captures := \<lambda>p s.
     if p = Batch_tag then Some \<lparr> m_start = 0, m_end = 0, m_group = \<lambda>_. None \<rparr> else None\<rparr>"

lemma batch_match_release:
  "re_is_batch (parse_release batch_match n)" "re_season (parse_release batch_match n) = None"
  "re_episode (parse_release batch_match n) = None" "re_codec (parse_release batch_match n) = None"
  "re_episode_range (parse_release batch_match n) = None"
  "re_resolution (parse_release batch_match n) = None"
  by (simp_all add: parse_release_def Let_def extract_season_episode_def season_form_def single_forms_def
      extract_metadata_def codec_of_def is_match_def leading_group_def batch_match_def Release_default_def
      split: prod.split)

definition airing_store :: "job list \<Rightarrow> world" where
  "airing_store js = (sample_store js)
     \<lparr> w_shows := [sample_show\<lparr>sh_status := Some ''Currently Airing''\<rparr>], w_names := [sample_name],
       w_torrents := [sample_torrent\<lparr>to_size := 14680064000\<rparr>] \<rparr>"

lemma parsed_literals: "AiringStatus_parse ''Currently Airing'' = Airing" "ShowType_parse ''tv'' = Tv"
  by code_simp+

lemma airing_rank:
  assumes "TargetInputs_load batch_match 1 (airing_store js) = Inr ti"
  shows "candidate_rows batch_match 1 (airing_store js) \<noteq> [] \<and>
    (\<exists>rs bad. rank fm (candidate_rows batch_match 1 (airing_store js)) ti (Some 1) Rules_default
       Settings_default now = (rs, bad) \<and> only_batches ti rs)"
proof -
  let ?c = "row_candidate batch_match (sample_torrent\<lparr>to_size := 14680064000\<rparr>)"
  have rows: "candidate_rows batch_match 1 (airing_store js) = [?c]"
    by (simp add: candidate_rows_def candidate_torrents_def airing_store_def sample_defs)
  have ti: "\<not> ti_fully_aired ti" "ti_season ti = 1" "ti_show_type ti = Tv" "ti_total_episodes ti = Some 28"
    "ti_other_names ti = []"
    using assms
    by (auto simp: TargetInputs_load_def load_show_def airing_store_def sample_defs parsed_literals Let_def
        extract_season_from_title_def batch_match_def no_match_def
        other_show_names_def sample_name_def split: if_splits)
  have "acceptable ?c (score_target ti (Some 1)) Rules_default Settings_default"
    using ti
    by (simp add: acceptable_def row_candidate_def score_target_def batch_match_release sample_torrent_def
        foreign_category_def blocked_by_def below_floor_def size_in_range_def is_batch_for_def
        episode_count_def MIB_def div_ceil_def saturating_mul_def u64_MAX_def Settings_default_def
        wrap_u32_def wrap_u64_def identity_filter_def best_ratio_def episode_agrees_def release_season_def
        split: prod.split)
  then obtain sc where "evaluate fm ?c (score_target ti (Some 1)) Rules_default Settings_default now = Inr sc"
    using evaluate_ok_iff by blast
  then have "rank fm [?c] ti (Some 1) Rules_default Settings_default now =
      ([\<lparr> ra_candidate = ?c, ra_scored = sc \<rparr>], [])"
    by (simp add: rank_def best_total_first_def)
  moreover have "re_is_batch (ca_release ?c)" by (simp add: row_candidate_def batch_match_release)
  ultimately show ?thesis using rows ti(1) by (simp add: only_batches_def)
qed

theorem batch_only_not_parked_witness:
  "\<exists>w' j'. choose_step (sample_env\<lparr>en_rx := batch_match\<rparr>) (sample_job 3 KSearch Choose)
      (airing_store [sample_job 3 KSearch Choose]) = (Inr NeedsInput, w') \<and>
    the_job 3 w' = Some j' \<and> job_state j' = Choose \<and> length (w_questions w') = 1"
proof -
  let ?j = "sample_job 3 KSearch Choose" and ?ev = "sample_env\<lparr>en_rx := batch_match\<rparr>"
  let ?w = "airing_store [?j]" and ?s = "sample_show\<lparr>sh_status := Some ''Currently Airing''\<rparr>"
  have rows: "the_job (job_id ?j) ?w = Some ?j" "the_episode (job_episode_id ?j) ?w = Some sample_episode"
    "find_row sh_mal_id (ep_mal_id sample_episode) (w_shows ?w) = Some ?s"
    "ep_mal_id sample_episode = 1" "ep_number sample_episode = 1" "w_settings ?w = Settings_default"
    "job_id ?j = 3" "job_state ?j = Choose" "w_questions ?w = []"
    by (simp_all add: airing_store_def sample_defs)
  have rules: "Rules_for_show (w_rules ?w) (ep_mal_id sample_episode) = Inr Rules_default"
    by (simp add: Rules_for_show_def Rules_global_def read_rules_def airing_store_def sample_defs)
  obtain ti where ti: "TargetInputs_load batch_match 1 ?w = Inr ti"
    by (simp add: TargetInputs_load_def load_show_def search_order_def NameSet_load_def names_of_def
        sample_name_def airing_store_def sample_defs)
  from airing_rank [OF ti, of "en_fm ?ev" "w_now ?w"] obtain rs bad where
    "candidate_rows batch_match 1 ?w \<noteq> []" "only_batches ti rs"
    "rank (en_fm ?ev) (candidate_rows batch_match 1 ?w) ti (Some 1) Rules_default Settings_default (w_now ?w) = (rs, bad)"
    by blast
  with batch_only_not_parked [OF rows(1-3) rules, of ?ev ti rs bad] rows ti
  show ?thesis by auto
qed

end
