(* ===== verification/Inbox.thy ===== *)
theory Inbox
  imports Engine
begin

text \<open>
  \<open>worker/inbox.rs\<close>: an Inbox answer applied to the job that asked. \<open>file_len\<close> is
  what \<open>std::fs::metadata\<close> answers for a path.
\<close>

named_theorems inbox_simps \<open>unfolding rules of the inbox\<close>

fun answer_label :: "choice \<Rightarrow> string" where
  "answer_label (UseThis h) = ''use this one''"
| "answer_label NoneOfThese = ''none of these''"
| "answer_label SearchAgain = ''search again''"
| "answer_label (Alias name) = ''alias '' @ name"
| "answer_label Download = ''download anyway''"
| "answer_label Wait = ''wait 24 h''"
| "answer_label PickAnother = ''pick another''"
| "answer_label Keep = ''keep what is on disk''"
| "answer_label Replace = ''replace''"
| "answer_label KeepBoth = ''keep both''"
| "answer_label Batch = ''take the batch''"
| "answer_label WaitForSingles = ''wait for singles''"
| "answer_label Pause = ''pause the queue''"
| "answer_label ChangeFolder = ''choose another folder''"
| "answer_label RetryLater = ''retry later''"
| "answer_label ManualSearch = ''manual search''"
| "answer_label WrongRelease = ''wrong release''"
| "answer_label SkipEpisode = ''skip this episode''"
| "answer_label Expired = ''expired''"

definition names_alias :: "matcher \<Rightarrow> int \<Rightarrow> string \<Rightarrow> unit run" where
  "names_alias rx m name = seq (NameSet_add rx m name User PRIORITY_USER) (\<lambda>_. ret ())"

definition on_rules :: "(rules_table, error, unit) act \<Rightarrow> unit run" where
  "on_rules a = (\<lambda>w. case a (w_rules w) of (r, t) \<Rightarrow> (r, w\<lparr>w_rules := t\<rparr>))"

definition set_groups_override :: "int \<Rightarrow> string \<Rightarrow> unit run" where
  "set_groups_override m grp =
     seq (gets (\<lambda>w. known_show w (Some m))) (\<lambda>known.
     if known then on_rules (set_override m ''groups'' (JList [JStr grp]))
     else throw foreign_key_failed)"

section \<open>Resolving the other questions of the show\<close>

definition group_matches :: "string \<Rightarrow> match_option \<Rightarrow> bool" where
  "group_matches group_norm x =
     (case mo_group x of Some g \<Rightarrow> lower (trim g) = group_norm | None \<Rightarrow> False)"

text \<open>The raw \<open>UPDATE jobs SET torrent_id = \<dots>, state = 'add', last_error = NULL\<close>.\<close>

definition force_add :: "int \<Rightarrow> string \<Rightarrow> world \<Rightarrow> world" where
  "force_add i h w =
     (let t = map_option to_id (torrent_by_hash h w) in
      update_job i (\<lambda>j. if job_state j = NeedsInput
        then j\<lparr>job_torrent_id := t, job_state := Add, job_last_error := None\<rparr> else j) w)"

definition resolve_one :: "string \<Rightarrow> question \<Rightarrow> unit run" where
  "resolve_one group_norm q =
     (case qu_payload q of
        MatchReview ex options reason \<Rightarrow>
          (case List.find (group_matches group_norm) options of
             None \<Rightarrow> ret ()
           | Some x \<Rightarrow>
               seq (QuestionStore_answer (qu_id q)
                      \<lparr> an_choice = UseThis (mo_info_hash x), an_always = True \<rparr>) (\<lambda>_.
               case qu_job_id q of
                 None \<Rightarrow> ret ()
               | Some i \<Rightarrow> modify (force_add i (mo_info_hash x))))
      | _ \<Rightarrow> ret ())"

definition auto_resolve_show_questions :: "int \<Rightarrow> string \<Rightarrow> unit run" where
  "auto_resolve_show_questions m grp =
     seq (gets (\<lambda>w. filter (\<lambda>q. qu_mal_id q = Some m \<and> qu_answer q = None \<and> qu_kind q = QMatchReview)
                      (w_questions w))) (\<lambda>open_questions.
     for_each (resolve_one (lower (trim grp))) open_questions)"

section \<open>Applying an answer\<close>

text \<open>\<open>Choice::UseThis\<close> with its \<open>always\<close> half.\<close>

definition use_this :: "int \<Rightarrow> int option \<Rightarrow> bool \<Rightarrow> string \<Rightarrow> unit run" where
  "use_this i mid always h =
     seq (set_chosen i h) (\<lambda>_.
     case (if always then mid else None) of
       None \<Rightarrow> ret ()
     | Some m \<Rightarrow>
         seq (gets (\<lambda>w. Option.bind (torrent_by_hash h w) to_group)) (\<lambda>grp.
         case grp of
           None \<Rightarrow> ret ()
         | Some g \<Rightarrow>
             if trim g = [] then ret ()
             else seq (set_groups_override m (trim g)) (\<lambda>_.
                  auto_resolve_show_questions m (trim g))))"

definition keep_on_disk :: "(string \<Rightarrow> nat option) \<Rightarrow> int \<Rightarrow> unit run" where
  "keep_on_disk file_len i =
     seq (gets (\<lambda>w. Option.bind (the_job i w) (\<lambda>j. the_episode (job_episode_id j) w))) (\<lambda>row.
     case row of
       None \<Rightarrow> throw no_rows
     | Some e \<Rightarrow>
         (let bytes = (case Option.bind (ep_file_path e) file_len of Some n \<Rightarrow> wrap_i64 n | None \<Rightarrow> 0)
          in mark_done (ep_id e) (case ep_file_path e of Some p \<Rightarrow> p | None \<Rightarrow> []) bytes))"

definition pause_queue :: "unit run" where
  "pause_queue = modify (\<lambda>w. w\<lparr>w_settings := (w_settings w)\<lparr>s_automation_on := False\<rparr>\<rparr>)"

text \<open>The \<open>match\<close> on the choice: its effects and the state it asks for. \<open>RetryLater\<close> is apart.\<close>

definition choice_effect ::
  "matcher \<Rightarrow> (string \<Rightarrow> nat option) \<Rightarrow> job \<Rightarrow> int option \<Rightarrow> answer \<Rightarrow> job_state option run" where
  "choice_effect rx file_len j mid a =
     (let i = job_id j in
      case an_choice a of
        UseThis h \<Rightarrow> seq (use_this i mid (an_always a) h) (\<lambda>_. ret (Some Add))
      | NoneOfThese \<Rightarrow> ret (Some Failed)
      | SearchAgain \<Rightarrow> ret (Some Search)
      | WrongRelease \<Rightarrow> ret (Some Search)
      | Alias name \<Rightarrow>
          seq (case mid of Some m \<Rightarrow> names_alias rx m name | None \<Rightarrow> ret ()) (\<lambda>_. ret (Some Search))
      | Download \<Rightarrow> ret (Some Add)
      | Wait \<Rightarrow>
          seq (gets w_now) (\<lambda>now.
          seq (reschedule i (now + 24 * 3600) ''waiting 24 h for seeds'') (\<lambda>_. ret (Some Search)))
      | PickAnother \<Rightarrow> ret (Some Search)
      | Keep \<Rightarrow> seq (keep_on_disk file_len i) (\<lambda>_. ret (Some Done))
      | Replace \<Rightarrow> ret (Some (if is_allowed (job_state j) Finalize then Finalize else Add))
      | KeepBoth \<Rightarrow> ret (Some (if is_allowed (job_state j) Finalize then Finalize else Add))
      | Batch \<Rightarrow> ret (Some Add)
      | WaitForSingles \<Rightarrow> ret (Some Search)
      | Pause \<Rightarrow> seq pause_queue (\<lambda>_. ret (Some NeedsInput))
      | ChangeFolder \<Rightarrow> ret None
      | RetryLater \<Rightarrow> ret (Some Search)
      | ManualSearch \<Rightarrow> ret None
      | SkipEpisode \<Rightarrow> ret (Some Failed)
      | Expired \<Rightarrow> ret None)"

definition save_alias_first :: "matcher \<Rightarrow> int option \<Rightarrow> answer \<Rightarrow> unit run" where
  "save_alias_first rx mid a =
     (case (an_always a, an_choice a, mid) of
        (True, Alias name, Some m) \<Rightarrow> names_alias rx m name
      | _ \<Rightarrow> ret ())"

definition answer_options :: "job_state \<Rightarrow> choice \<Rightarrow> move_options" where
  "answer_options next c =
     MoveOptions_default\<lparr>opt_reset_attempts := next = Search,
       opt_clear_torrent := c = PickAnother \<or> c = NoneOfThese\<rparr>"

definition apply_answer ::
  "matcher \<Rightarrow> (string \<Rightarrow> nat option) \<Rightarrow> question \<Rightarrow> answer \<Rightarrow> job_state option run" where
  "apply_answer rx file_len q a =
     (case qu_job_id q of
        None \<Rightarrow> ret None
      | Some i \<Rightarrow>
          seq (gets (the_job i)) (\<lambda>row.
          case row of
            None \<Rightarrow> ret None
          | Some j \<Rightarrow>
              if job_state j \<notin> {NeedsInput, Failed} then ret (Some (job_state j))
              else
                seq (save_alias_first rx (qu_mal_id q) a) (\<lambda>_.
                if an_choice a = RetryLater then
                  seq (transition i Search ''retry later''
                         (MoveOptions_default\<lparr>opt_reset_attempts := True\<rparr>)) (\<lambda>_.
                  ret (Some Search))
                else
                  seq (choice_effect rx file_len j (qu_mal_id q) a) (\<lambda>next.
                  case next of
                    None \<Rightarrow> ret (Some (job_state j))
                  | Some to \<Rightarrow>
                      if to \<noteq> job_state j \<and> \<not> is_allowed (job_state j) to then ret (Some (job_state j))
                      else
                        seq (transition i to (''answered: '' @ answer_label (an_choice a))
                               (answer_options to (an_choice a))) (\<lambda>_.
                        ret (Some to))))))"

definition expected_show :: "int \<Rightarrow> string \<Rightarrow> string option \<Rightarrow> expected_show" where
  "expected_show m title english_title =
     \<lparr> ex_mal_id = m, ex_title = title, ex_english_title = english_title, ex_year = None \<rparr>"

section \<open>Facts\<close>

lemma force_add_evolve [evolve_intros]: "evolves jobs_evolve (modify (force_add i h))"
proof (rule jobs_evo.ev_modify)
  fix w :: world
  have "job_path NeedsInput Add" by (rule job_path_one) (simp add: is_allowed_eval)
  then show "jobs_evolve w (force_add i h w)"
    unfolding force_add_def Let_def jobs_evolve_def
    by (intro moves_by_update) (auto simp: job_path.stay job_ok_def is_active_def)
qed

lemma inbox_evolve [evolve_intros]:
  "evolves jobs_evolve (names_alias rx m name)"
  "evolves jobs_evolve (set_groups_override m g)"
  "evolves jobs_evolve (auto_resolve_show_questions m g)"
  "evolves jobs_evolve (use_this i mid always h)"
  "evolves jobs_evolve (keep_on_disk fl i)"
  "evolves jobs_evolve pause_queue"
  "evolves jobs_evolve (save_alias_first rx mid a)"
proof -
  show na: "evolves jobs_evolve (names_alias rx m name)" for m name
    unfolding names_alias_def by (intro jobs_evo.ev_rules evolve_intros)
  have "evolves jobs_evolve (on_rules a)" for a
    by (rule evolvesI) (simp add: on_rules_def split_beta jobs_evolve_frame)
  then show sg: "evolves jobs_evolve (set_groups_override m g)" for m g
    unfolding set_groups_override_def by (intro jobs_evo.ev_rules)
  have "evolves jobs_evolve (resolve_one gn q)" for gn q
    unfolding resolve_one_def
    by (auto intro!: jobs_evo.ev_rules evolve_intros split: payload.split)
  then show ar: "evolves jobs_evolve (auto_resolve_show_questions m g)" for m g
    unfolding auto_resolve_show_questions_def by (intro jobs_evo.ev_rules)
  show "evolves jobs_evolve (use_this i mid always h)"
    unfolding use_this_def by (intro jobs_evo.ev_rules sg ar evolve_intros)
  show "evolves jobs_evolve (keep_on_disk fl i)"
    unfolding keep_on_disk_def Let_def by (intro jobs_evo.ev_rules evolve_intros)
  show "evolves jobs_evolve pause_queue"
    unfolding pause_queue_def by (rule evolve_frame_modify) simp_all
  show "evolves jobs_evolve (save_alias_first rx mid a)"
    unfolding save_alias_first_def
    by (auto intro!: jobs_evo.ev_ret na split: bool.split choice.split option.split)
qed

lemma choice_effect_evolve [evolve_intros]: "evolves jobs_evolve (choice_effect rx fl j mid a)"
  unfolding choice_effect_def Let_def
  by (cases "an_choice a") (auto intro!: jobs_evo.ev_rules evolve_intros)

lemma apply_answer_evolve [evolve_intros]: "evolves jobs_evolve (apply_answer rx fl q a)"
proof -
  have m: "evolves jobs_evolve (seq (transition i to r (answer_options to c)) (\<lambda>_. ret x))"
    if "to \<noteq> Blocked" for i to r c and x :: "job_state option"
    using that by (intro jobs_evo.ev_rules evolve_intros) (simp add: answer_options_def)
  have "to \<noteq> Blocked" if "s \<in> {NeedsInput, Failed}" "\<not> (to \<noteq> s \<and> \<not> is_allowed s to)" for s to
    using that by (auto simp: is_allowed_eval)
  then show ?thesis
    unfolding apply_answer_def
    by (intro jobs_evo.ev_option jobs_evo.ev_seq jobs_evo.ev_branch jobs_evo.ob_rules m evolve_intros) auto
qed

section \<open>Properties\<close>

text \<open>
  The answer \<open>Wait\<close> does not wait. \<open>apply_answer\<close> first sets the job to run again in 24
  hours, and then moves it to \<open>Search\<close>, which clears that time: the job is due at
  once, at every instant, and nothing of the delay is left.
\<close>

theorem wait_is_not_kept:
  assumes "qu_job_id q = Some i" "the_job i w = Some j" "job_state j \<in> {NeedsInput, Failed}" "an_choice a = Wait"
  shows "\<exists>w' j'. apply_answer rx fl q a w = (Inr (Some Search), w') \<and> the_job i w' = Some j' \<and>
    job_state j' = Search \<and> job_next_run_at j' = None \<and> is_due now [KSearch] j'"
proof -
  have i: "job_id j = i" using assms(2) by (rule find_row_key)
  obtain u where u: "reschedule i (w_now w + 24 * 3600) ''waiting 24 h for seeds'' w = (Inr (), u)"
    "the_job i u = Some (j\<lparr>job_next_run_at := Some (w_now w + 24 * 3600),
        job_last_error := Some ''waiting 24 h for seeds'', job_updated_at := w_now w\<rparr>)"
    using reschedule_ok [OF assms(2), of "w_now w + 24 * 3600" "''waiting 24 h for seeds''"] by auto
  have allowed: "is_allowed (job_state j) Search" "job_state j \<noteq> Done" "job_state j \<noteq> Search"
    using assms(3) by (auto simp: is_allowed_eval)
  let ?opts = "answer_options Search Wait" and ?r = "''answered: '' @ answer_label Wait"
  have t: "transition i Search ?r ?opts u = (Inr (job_state j), after_transition i Search ?r ?opts
      (j\<lparr>job_next_run_at := Some (w_now w + 24 * 3600), job_last_error := Some ''waiting 24 h for seeds'',
         job_updated_at := w_now w\<rparr>) u)"
    using u(2) allowed by (simp add: transition_eq can_move_def)
  have "save_alias_first rx (qu_mal_id q) a = ret ()"
    using assms(4) by (simp add: save_alias_first_def split: bool.split)
  then have "apply_answer rx fl q a w = (Inr (Some Search), snd (transition i Search ?r ?opts u))"
    using assms i u(1) t allowed by (auto simp: apply_answer_def choice_effect_def Let_def seq_def)
  then show ?thesis
    using t u(2) by (simp add: after_transition_job answer_options_def MoveOptions_default_def is_due_def
        kind_for_def kind_of_state_def)
qed

theorem wait_is_not_kept_witness:
  "\<exists>w'. apply_answer no_match (\<lambda>_. None) (new_question 1 (Some 3) None (LowSeeds 0 [] [] False) 0 None)
      \<lparr> an_choice = Wait, an_always = False \<rparr> (sample_store [sample_job 3 KSearch NeedsInput]) = (Inr (Some Search), w')"
proof -
  let ?q = "new_question 1 (Some 3) None (LowSeeds 0 [] [] False) 0 None"
  have "qu_job_id ?q = Some 3" by (simp add: new_question_def)
  moreover have "the_job 3 (sample_store [sample_job 3 KSearch NeedsInput]) = Some (sample_job 3 KSearch NeedsInput)"
    by (simp add: sample_defs)
  moreover have "job_state (sample_job 3 KSearch NeedsInput) \<in> {NeedsInput, Failed}" by (simp add: sample_defs)
  ultimately show ?thesis
    using wait_is_not_kept [where a = "\<lparr> an_choice = Wait, an_always = False \<rparr>" and rx = no_match
        and fl = "\<lambda>_. None"] by fastforce
qed

end
