(* ===== verification/Queue.thy ===== *)
theory Queue
  imports Steps Inbox
begin

text \<open>
  \<open>queue/\<close>: the scheduler's tick and its run to idleness, the sweep of expired
  questions, the status, and the recovery at launch.

  The steps a tick spawns run to their end one after the other in the order they
  were dispatched, which is what the single connection's lock and \<open>settle\<close> make of
  them when no step waits for the network; \<open>in_flight\<close> holds the steps of earlier
  ticks that still run, as counts by kind. \<open>evs\<close> gives each job's step its
  surroundings.
\<close>

named_theorems queue_simps \<open>unfolding rules of the scheduler\<close>

section \<open>Sweep and status\<close>

definition expired_reason :: string where
  "expired_reason = ''question expired; the episode is missing again''"

text \<open>One turn of the loop over the expired questions; whether an episode was released.\<close>

definition release_one :: "question \<Rightarrow> bool run" where
  "release_one q =
     (case qu_job_id q of
        None \<Rightarrow> ret False
      | Some i \<Rightarrow>
          seq (gets (the_job i)) (\<lambda>row.
          case row of
            None \<Rightarrow> ret False
          | Some j \<Rightarrow>
              if job_state j = NeedsInput then
                seq (transition i Failed expired_reason
                       (MoveOptions_default\<lparr>opt_reset_attempts := True\<rparr>)) (\<lambda>_.
                seq (mark_missing (job_episode_id j)) (\<lambda>_. ret True))
              else if job_state j \<noteq> Failed then ret False
              else seq (mark_missing (job_episode_id j)) (\<lambda>_. ret True)))"

fun release_loop :: "question list \<Rightarrow> nat \<Rightarrow> nat run" where
  "release_loop [] released = ret released"
| "release_loop (q # qs) released =
     seq (release_one q) (\<lambda>b. release_loop qs (if b then released + 1 else released))"

definition sweep :: "nat run" where
  "sweep =
     seq (gets w_now) (\<lambda>now.
     seq (QuestionStore_expire now) (\<lambda>expired. release_loop expired 0))"

record queue_status =
  qs_jobs_by_state :: "job_state \<Rightarrow> nat"
  qs_open_questions :: nat
  qs_due :: nat

definition count_state :: "world \<Rightarrow> job_state \<Rightarrow> nat" where
  "count_state w s = length (filter (\<lambda>j. job_state j = s) (w_jobs w))"

definition status :: "world \<Rightarrow> queue_status" where
  "status w =
     \<lparr> qs_jobs_by_state = count_state w,
       qs_open_questions = QuestionStore_open_count (w_now w) w,
       qs_due = length (filter (\<lambda>j. is_active (job_state j))
                  (due_jobs (w_now w) [] usize_MAX w)) \<rparr>"

section \<open>Resuming blocked jobs\<close>

definition metadata_ready :: "job \<Rightarrow> world \<Rightarrow> bool" where
  "metadata_ready j w =
     (case the_episode (job_episode_id j) w of
        None \<Rightarrow> False
      | Some e \<Rightarrow>
          (case find_row sh_mal_id (ep_mal_id e) (w_shows w) of
             None \<Rightarrow> False
           | Some s \<Rightarrow> sh_metadata_status s \<in> {''ready'', ''partial''} \<and> named_show (sh_title s)))"

definition has_cleared :: "env \<Rightarrow> settings \<Rightarrow> job \<Rightarrow> world \<Rightarrow> bool" where
  "has_cleared ev st j w =
     (let reason = text_or_empty (job_last_error j) in
      if starts_with ''Metadata unresolved'' reason then metadata_ready j w
      else if contains ''Nyaa'' reason then en_nyaa_allowed ev
      else if contains ''space'' reason \<or> contains ''folder'' reason then blocking_reason ev st = None
      else True)"

text \<open>A failed transition is logged and skipped.\<close>

definition resume_one :: "env \<Rightarrow> settings \<Rightarrow> job \<Rightarrow> (int \<times> job_state) option run" where
  "resume_one ev st j =
     (case job_blocked_from j of
        None \<Rightarrow> ret None
      | Some from \<Rightarrow>
          seq (gets (has_cleared ev st j)) (\<lambda>cleared.
          if \<not> cleared then ret None
          else
            seq (attempt (transition (job_id j) from
                   (''resumed after: '' @ text_or_empty (job_last_error j)) MoveOptions_default)) (\<lambda>r.
            case r of
              Inr _ \<Rightarrow> ret (Some (job_id j, from))
            | Inl _ \<Rightarrow> ret None)))"

fun resume_loop :: "env \<Rightarrow> settings \<Rightarrow> job list \<Rightarrow> (int \<times> job_state) list run" where
  "resume_loop ev st [] = ret []"
| "resume_loop ev st (j # js) =
     seq (resume_one ev st j) (\<lambda>r.
     seq (resume_loop ev st js) (\<lambda>out.
     ret (case r of Some x \<Rightarrow> x # out | None \<Rightarrow> out)))"

definition resume_blocked :: "env \<Rightarrow> settings \<Rightarrow> (int \<times> job_state) list run" where
  "resume_blocked ev st =
     seq (gets (list_jobs (Some Blocked) 512)) (\<lambda>blocked. resume_loop ev st blocked)"

section \<open>The tick\<close>

definition limit_for :: "job_kind \<Rightarrow> settings \<Rightarrow> nat" where
  "limit_for k st =
     max 1 (case k of
       KSearch \<Rightarrow> s_search_concurrency st
     | KFinalize \<Rightarrow> s_search_concurrency st
     | KAdd \<Rightarrow> s_active_downloads st
     | KMonitor \<Rightarrow> s_active_downloads st)"

text \<open>The spawned task: the step, and a retry in five seconds when it returns an error.\<close>

definition run_dispatched :: "env \<Rightarrow> int \<Rightarrow> unit run" where
  "run_dispatched ev i =
     seq (attempt (step ev i)) (\<lambda>r.
     case r of
       Inr _ \<Rightarrow> ret ()
     | Inl err \<Rightarrow>
         seq (gets w_now) (\<lambda>now.
         seq (attempt (reschedule i (now + int (backoff_delay 1))
                (''step errored: '' @ en_error_text ev err))) (\<lambda>_.
         ret ())))"

definition pick_kind :: "settings \<Rightarrow> (job_kind \<Rightarrow> nat) \<Rightarrow> world \<Rightarrow> job_kind \<Rightarrow> int list" where
  "pick_kind st in_flight w k =
     (let room = limit_for k st - in_flight k in
      if room = 0 then []
      else map job_id (filter (\<lambda>j. is_active (job_state j)) (due_jobs (w_now w) [k] room w)))"

definition tick_kinds :: "job_kind list" where
  "tick_kinds = [KSearch, KAdd, KMonitor, KFinalize]"

record tick_report =
  tr_paused :: bool
  tr_resource_reason :: "string option"
  tr_dispatched :: "(job_kind \<times> int) list"
  tr_resumed :: "(int \<times> job_state) list"

text \<open>The dispatching half reads the store before any of the spawned steps has run.\<close>

definition to_dispatch :: "settings \<Rightarrow> (job_kind \<Rightarrow> nat) \<Rightarrow> world \<Rightarrow> (job_kind \<times> int) list" where
  "to_dispatch st in_flight w =
     concat (map (\<lambda>k. map (\<lambda>i. (k, i)) (pick_kind st in_flight w k)) tick_kinds)"

definition tick :: "env \<Rightarrow> (job_kind \<Rightarrow> nat) \<Rightarrow> tick_report run" where
  "tick ev in_flight =
     seq (gets w_settings) (\<lambda>st.
     if \<not> s_automation_on st
     then ret \<lparr> tr_paused = True, tr_resource_reason = None, tr_dispatched = [], tr_resumed = [] \<rparr>
     else
       case blocking_reason ev st of
         Some reason \<Rightarrow>
           ret \<lparr> tr_paused = False, tr_resource_reason = Some reason, tr_dispatched = [], tr_resumed = [] \<rparr>
       | None \<Rightarrow>
           seq (resume_blocked ev st) (\<lambda>resumed.
           seq (gets (to_dispatch st in_flight)) (\<lambda>dispatched.
           ret \<lparr> tr_paused = False, tr_resource_reason = None, tr_dispatched = dispatched,
                 tr_resumed = resumed \<rparr>)))"

definition settle :: "(int \<Rightarrow> env) \<Rightarrow> (job_kind \<times> int) list \<Rightarrow> unit run" where
  "settle evs dispatched = for_each (\<lambda>x. run_dispatched (evs (snd x)) (snd x)) dispatched"

text \<open>\<open>run_until_idle\<close>: at most \<open>fuel\<close> (128) turns; nothing is in flight between turns.\<close>

fun run_turns :: "nat \<Rightarrow> env \<Rightarrow> (int \<Rightarrow> env) \<Rightarrow> tick_report \<Rightarrow> tick_report run" where
  "run_turns 0 ev evs last_report = ret last_report"
| "run_turns (Suc fuel) ev evs last_report =
     seq (tick ev (\<lambda>_. 0)) (\<lambda>report.
     seq (settle evs (tr_dispatched report)) (\<lambda>_.
     if tr_dispatched report = [] then ret report else run_turns fuel ev evs report))"

definition empty_report :: tick_report where
  "empty_report = \<lparr> tr_paused = False, tr_resource_reason = None, tr_dispatched = [], tr_resumed = [] \<rparr>"

definition run_until_idle :: "env \<Rightarrow> (int \<Rightarrow> env) \<Rightarrow> tick_report run" where
  "run_until_idle ev evs = run_turns 128 ev evs empty_report"

section \<open>Recovery at launch\<close>

record resume_note =
  rn_job_id :: int
  rn_from :: job_state
  rn_to :: job_state
  rn_why :: string

record reconcile_report =
  rr_resumed :: "resume_note list"
  rr_waiting :: "(int \<times> job_state) list"

definition hash_of :: "job \<Rightarrow> string run" where
  "hash_of j =
     (case job_torrent_id j of
        None \<Rightarrow> throw (Other (''job '' @ show_int (job_id j) @ '' has no chosen torrent''))
      | Some t \<Rightarrow>
          seq (gets (the_torrent t)) (\<lambda>row.
          case row of None \<Rightarrow> throw no_rows | Some x \<Rightarrow> ret (to_info_hash x)))"

text \<open>What the comparison decides for one job.\<close>

datatype recovery = Rec_wait | Rec_step | Rec_move job_state string

definition recover_add :: "env \<Rightarrow> job \<Rightarrow> recovery run" where
  "recover_add ev j =
     (case job_torrent_id j of
        Some _ \<Rightarrow>
          seq (hash_of j) (\<lambda>h.
          seq (lift (en_qbit_torrent ev h)) (\<lambda>info.
          ret (case info of
                 Some i \<Rightarrow> if is_complete i
                   then Rec_move Finalize ''the download finished while the app was down''
                   else Rec_move Monitor ''the download is running again''
               | None \<Rightarrow> Rec_step)))
      | None \<Rightarrow> ret (Rec_move Choose ''no candidate was chosen before the kill; choosing again''))"

definition recover_monitor :: "env \<Rightarrow> job \<Rightarrow> recovery run" where
  "recover_monitor ev j =
     (case job_torrent_id j of
        Some _ \<Rightarrow>
          seq (hash_of j) (\<lambda>h.
          seq (lift (en_qbit_torrent ev h)) (\<lambda>info.
          case info of
            Some i \<Rightarrow>
              if is_complete i
              then ret (Rec_move Finalize ''the download finished while the app was down'')
              else seq (restart_stall_timer j) (\<lambda>_.
                   ret (Rec_move Monitor ''still downloading; monitoring resumed''))
          | None \<Rightarrow> ret (Rec_move Search
                ''the torrent left qBittorrent; searching for the next candidate'')))
      | None \<Rightarrow> ret (Rec_move Choose ''no torrent was being watched; choosing again''))"

definition recover :: "env \<Rightarrow> job \<Rightarrow> recovery run" where
  "recover ev j =
     (case job_state j of
        Add \<Rightarrow> recover_add ev j
      | Monitor \<Rightarrow> recover_monitor ev j
      | Finalize \<Rightarrow> ret Rec_step
      | _ \<Rightarrow> ret Rec_wait)"

definition reconcile_one :: "env \<Rightarrow> job \<Rightarrow> reconcile_report \<Rightarrow> reconcile_report run" where
  "reconcile_one ev j report =
     seq (recover ev j) (\<lambda>r.
     case r of
       Rec_wait \<Rightarrow> ret (report\<lparr>rr_waiting := rr_waiting report @ [(job_id j, job_state j)]\<rparr>)
     | Rec_step \<Rightarrow> seq (step ev (job_id j)) (\<lambda>_. ret report)
     | Rec_move to why \<Rightarrow>
         if job_state j \<noteq> to then
           seq (transition (job_id j) to why MoveOptions_default) (\<lambda>_.
           ret (report\<lparr>rr_resumed := rr_resumed report @
             [\<lparr> rn_job_id = job_id j, rn_from = job_state j, rn_to = to, rn_why = why \<rparr>]\<rparr>))
         else ret (report\<lparr>rr_waiting := rr_waiting report @ [(job_id j, to)]\<rparr>))"

fun reconcile_loop :: "env \<Rightarrow> job list \<Rightarrow> reconcile_report \<Rightarrow> reconcile_report run" where
  "reconcile_loop ev [] report = ret report"
| "reconcile_loop ev (j # js) report =
     seq (reconcile_one ev j report) (\<lambda>report'. reconcile_loop ev js report')"

definition reconcile :: "env \<Rightarrow> reconcile_report run" where
  "reconcile ev =
     seq (lift (en_client ev)) (\<lambda>_.
     seq (lift (en_qbit_version ev)) (\<lambda>version.
     seq (gets non_terminal_jobs) (\<lambda>jobs.
     seq (reconcile_loop ev jobs \<lparr> rr_resumed = [], rr_waiting = [] \<rparr>) (\<lambda>report.
     seq (log_info None None
            (''reconcile: '' @ show_nat (length (rr_resumed report)) @ '' resumed, ''
              @ show_nat (length (rr_waiting report)) @ '' waiting (qBittorrent '' @ version @ '')'')) (\<lambda>_.
     ret report)))))"

section \<open>Facts\<close>

lemma release_evolve [evolve_intros]: "evolves jobs_evolve (release_one q)"
  unfolding release_one_def by (intro jobs_evo.ev_rules evolve_intros) simp

lemma release_loop_evolve [evolve_intros]: "evolves jobs_evolve (release_loop qs n)"
  by (induction qs arbitrary: n) (auto intro!: jobs_evo.ev_rules evolve_intros)

lemma sweep_evolve [evolve_intros]: "evolves jobs_evolve sweep"
  unfolding sweep_def by (intro jobs_evo.ev_rules evolve_intros)

lemma resume_one_evolve:
  assumes "job_blocked_from j \<noteq> Some Blocked"
  shows "evolves jobs_evolve (resume_one ev st j)"
proof (cases "job_blocked_from j")
  case None
  then show ?thesis by (simp add: resume_one_def jobs_evo.ev_ret)
next
  case (Some s)
  with assms show ?thesis
    unfolding resume_one_def Some option.case
    by (intro jobs_evo.ev_rules evolve_intros) simp
qed

lemma resume_loop_evolve:
  "\<forall>j\<in>set js. job_blocked_from j \<noteq> Some Blocked \<Longrightarrow> evolves jobs_evolve (resume_loop ev st js)"
proof (induction js)
  case Nil
  show ?case unfolding resume_loop.simps by (rule jobs_evo.ev_ret)
next
  case (Cons j js)
  then show ?case
    unfolding resume_loop.simps by (intro jobs_evo.ev_rules resume_one_evolve) simp_all
qed

text \<open>In a store that is not \<open>jobs_counted\<close> the contract says nothing.\<close>

lemma jobs_evolve_when: "(jobs_counted w \<Longrightarrow> jobs_evolve w w') \<Longrightarrow> jobs_evolve w w'"
  by (auto simp: jobs_evolve_def moves_by_def)

lemma list_jobs_subset: "set (list_jobs st n w) \<subseteq> set (w_jobs w)"
  by (auto simp: list_jobs_def dest!: in_set_takeD split: option.splits)

lemma resume_blocked_evolve [evolve_intros]: "evolves jobs_evolve (resume_blocked ev st)"
proof (rule evolvesI, rule jobs_evolve_when)
  fix w
  assume "jobs_counted w"
  then have "\<forall>j\<in>set (w_jobs w). job_blocked_from j \<noteq> Some Blocked"
    by (auto simp: jobs_counted_def job_ok_def is_active_def)
  then have "\<forall>j\<in>set (list_jobs (Some Blocked) 512 w). job_blocked_from j \<noteq> Some Blocked"
    using list_jobs_subset by blast
  from evolvesD [OF resume_loop_evolve [OF this]]
  show "jobs_evolve w (snd (resume_blocked ev st w))"
    by (simp add: resume_blocked_def)
qed

lemma tick_evolve [evolve_intros]:
  "evolves jobs_evolve (tick ev fl)" "evolves jobs_evolve (run_dispatched ev i)"
  "evolves jobs_evolve (settle evs ds)"
proof -
  show "evolves jobs_evolve (tick ev fl)"
    unfolding tick_def by (intro jobs_evo.ev_rules evolve_intros)
  show r: "evolves jobs_evolve (run_dispatched ev i)" for ev i
    unfolding run_dispatched_def by (intro jobs_evo.ev_rules evolve_intros)
  show "evolves jobs_evolve (settle evs ds)"
    unfolding settle_def by (intro jobs_evo.ev_rules r)
qed

lemma run_turns_evolve [evolve_intros]: "evolves jobs_evolve (run_turns fuel ev evs r)"
  by (induction fuel arbitrary: r) (auto intro!: jobs_evo.ev_rules evolve_intros)

lemma run_until_idle_evolve [evolve_intros]: "evolves jobs_evolve (run_until_idle ev evs)"
  unfolding run_until_idle_def by (rule evolve_intros)

lemma recover_evolve [evolve_intros]: "evolves jobs_evolve (recover ev j)"
proof -
  have h: "evolves jobs_evolve (hash_of j)"
    unfolding hash_of_def by (intro jobs_evo.ev_rules)
  show ?thesis
    unfolding recover_def recover_add_def recover_monitor_def
    by (cases "job_state j") (auto intro!: jobs_evo.ev_rules h evolve_intros)
qed

text \<open>What the recovery of one job can decide.\<close>

lemma recover_moves:
  assumes "recover ev j w = (Inr (Rec_move to why), u)"
  shows "to \<in> {Finalize, Monitor, Choose, Search}"
  using assms unfolding recover_def recover_add_def recover_monitor_def hash_of_def
  by (auto simp: seq_def split: job_state.splits option.splits sum.splits prod.splits if_splits)

lemma reconcile_one_evolve [evolve_intros]: "evolves jobs_evolve (reconcile_one ev j report)"
proof -
  have act: "evolves jobs_evolve (case r of
      Rec_wait \<Rightarrow> ret (report\<lparr>rr_waiting := rr_waiting report @ [(job_id j, job_state j)]\<rparr>)
    | Rec_step \<Rightarrow> seq (step ev (job_id j)) (\<lambda>_. ret report)
    | Rec_move to why \<Rightarrow>
        if job_state j \<noteq> to then
          seq (transition (job_id j) to why MoveOptions_default) (\<lambda>_.
          ret (report\<lparr>rr_resumed := rr_resumed report @
            [\<lparr> rn_job_id = job_id j, rn_from = job_state j, rn_to = to, rn_why = why \<rparr>]\<rparr>))
        else ret (report\<lparr>rr_waiting := rr_waiting report @ [(job_id j, to)]\<rparr>))"
    if "\<forall>to why. r = Rec_move to why \<longrightarrow> to \<noteq> Blocked" for r
    using that by (cases r) (auto intro!: jobs_evo.ev_rules evolve_intros)
  show ?thesis
    unfolding reconcile_one_def
    by (intro jobs_evo.ev_seq_result evolve_intros, rule act) (use recover_moves in fastforce)
qed

lemma reconcile_loop_evolve [evolve_intros]: "evolves jobs_evolve (reconcile_loop ev js report)"
  by (induction js arbitrary: report) (auto intro!: jobs_evo.ev_rules evolve_intros)

lemma reconcile_evolve [evolve_intros]: "evolves jobs_evolve (reconcile ev)"
  unfolding reconcile_def by (intro jobs_evo.ev_rules evolve_intros)

section \<open>Properties\<close>

lemma resume_one_total: "\<exists>x w'. resume_one ev st j w = (Inr x, w')"
  by (auto simp: resume_one_def split: option.split sum.split)

lemma resume_loop_total: "\<exists>x w'. resume_loop ev st js w = (Inr x, w')"
proof (induction js arbitrary: w)
  case (Cons j js)
  obtain x u where "resume_one ev st j w = (Inr x, u)" using resume_one_total by blast
  moreover obtain y v where "resume_loop ev st js u = (Inr y, v)" using Cons by blast
  ultimately show ?case by simp
qed simp

lemma due_in_jobs: "j \<in> set (due_jobs now ks n w) \<Longrightarrow> j \<in> set (w_jobs w) \<and> is_due now ks j"
  by (auto simp: due_jobs_def dest: in_set_takeD)

lemma due_active: "is_due now ks j \<Longrightarrow> is_active (job_state j)"
  by (cases "job_state j") (auto simp: is_due_def is_active_def)

lemma pick_kind_eq:
  "pick_kind st busy w k = map job_id (due_jobs (w_now w) [k] (limit_for k st - busy k) w)"
proof -
  have "filter (\<lambda>j. is_active (job_state j)) (due_jobs now [k] n w) = due_jobs now [k] n w" for now n
    by (auto simp: filter_id_conv dest!: due_in_jobs due_active)
  then show ?thesis by (simp add: pick_kind_def Let_def due_jobs_def)
qed

lemma pick_kind_ids:
  assumes "distinct (map job_id (w_jobs w))"
  shows "distinct (pick_kind st busy w k)"
    "set (pick_kind st busy w k) \<subseteq> {job_id j |j. j \<in> set (w_jobs w) \<and> is_due (w_now w) [k] j}"
proof -
  have "distinct (map job_id (sort_key job_created_at (filter (is_due (w_now w) [k]) (w_jobs w))))"
    using assms by (simp add: distinct_map inj_on_def)
  then show "distinct (pick_kind st busy w k)"
    by (simp add: pick_kind_eq due_jobs_def take_map [symmetric] distinct_take)
  show "set (pick_kind st busy w k) \<subseteq> {job_id j |j. j \<in> set (w_jobs w) \<and> is_due (w_now w) [k] j}"
    by (auto simp: pick_kind_eq dest!: due_in_jobs)
qed



text \<open>
  A download that finished while the application was down stops the recovery. For
  a job in \<open>Add\<close> whose torrent qBittorrent reports complete, \<open>reconcile_one\<close> asks for
  the move to \<open>Finalize\<close>, which the table does not have; the error ends the whole pass, so no
  later job is compared and nothing is reported.
\<close>

theorem finished_download_stops_recovery:
  assumes "the_job (job_id j) w = Some j" "job_state j = Add" "job_torrent_id j = Some t"
    and "the_torrent t w = Some x" "en_qbit_torrent ev (to_info_hash x) = Inr (Some info)" "is_complete info"
  shows "reconcile_loop ev (j # js) report w = (Inl (IllegalTransition Add Finalize (job_id j)), w)"
proof -
  have "recover ev j w = (Inr (Rec_move Finalize ''the download finished while the app was down''), w)"
    using assms by (simp add: recover_def recover_add_def hash_of_def)
  moreover have "transition (job_id j) Finalize ''the download finished while the app was down'' MoveOptions_default w =
      (Inl (IllegalTransition Add Finalize (job_id j)), w)"
    using assms(1,2) by (simp add: transition_eq can_move_def is_allowed_eval)
  ultimately show ?thesis using assms(2) by (simp add: reconcile_one_def)
qed

theorem finished_download_stops_recovery_witness:
  "fst (reconcile_loop (sample_env\<lparr>en_qbit_torrent := \<lambda>h. Inr (Some \<lparr> qt_name = ''x'', qt_progress = 1, qt_num_seeds = 0,
        qt_size = 0, qt_state = ''uploading'', qt_content_path = ''x'' \<rparr>)\<rparr>)
      [(sample_job 3 KAdd Add)\<lparr>job_torrent_id := Some 1\<rparr>] \<lparr> rr_resumed = [], rr_waiting = [] \<rparr>
      (sample_store [(sample_job 3 KAdd Add)\<lparr>job_torrent_id := Some 1\<rparr>])) = Inl (IllegalTransition Add Finalize 3)"
proof -
  let ?j = "(sample_job 3 KAdd Add)\<lparr>job_torrent_id := Some 1\<rparr>"
  have "the_job (job_id ?j) (sample_store [?j]) = Some ?j" "job_state ?j = Add" "job_torrent_id ?j = Some 1"
    "the_torrent 1 (sample_store [?j]) = Some (hd (w_torrents (sample_store [])))" "job_id ?j = 3"
    by (simp_all add: sample_defs)
  with finished_download_stops_recovery [of ?j "sample_store [?j]" 1 "hd (w_torrents (sample_store []))"]
  show ?thesis by (simp add: is_complete_def)
qed

end
