(* ===== verification/System.thy ===== *)
theory System
  imports Queue
begin

text \<open>
  The whole core as one transition system over the store: every operation the
  application can call, in any order and with any surroundings, error returns
  included (the store after a failed call is the store it left behind). What holds
  of \<open>system_step\<close> holds of every run of the program that uses these operations.
\<close>

named_theorems system_simps \<open>unfolding rules of the system\<close>

inductive system_step :: "world \<Rightarrow> world \<Rightarrow> bool" where
  worker: "system_step w (snd (step ev i w))"
| dispatched: "system_step w (snd (run_dispatched ev i w))"
| ticked: "system_step w (snd (tick ev in_flight w))"
| idled: "system_step w (snd (run_until_idle ev evs w))"
| swept: "system_step w (snd (sweep w))"
| recovered: "system_step w (snd (reconcile ev w))"
| answered: "system_step w (snd (QuestionStore_answer q a w))"
| applied: "system_step w (snd (apply_answer rx file_len qu a w))"
| asked: "system_step w (snd (QuestionStore_ask jid mid p now expiry w))"
| question_deleted: "system_step w (snd (QuestionStore_delete q w))"
| planned: "system_step w (snd (plan rx shown entries forced w))"
| confirmed: "system_step w (snd (confirm rx shown entries w))"
| planned_one: "system_step w (snd (plan_single rx shown m ep w))"
| discarded: "system_step w (snd (discard_preview w))"
| enqueued: "system_step w (snd (enqueue_search shown e w))"
| named: "system_step w (snd (NameSet_add rx m name src prio w))"
| names_synced: "system_step w (snd (NameSet_replace_from_sync rx m names w))"
| name_removed: "system_step w (snd (NameSet_remove rx m name w))"
| ruled: "system_step w (snd (on_rules act w))"
| settings_saved: "system_step w (w\<lparr>w_settings := st\<rparr>)"
| logged: "system_step w (snd (record_event lv jid mid msg w))"
| clock: "w_now w \<le> t \<Longrightarrow> system_step w (w\<lparr>w_now := t\<rparr>)"

inductive_cases system_stepE: "system_step w w'"

lemma on_rules_kept [kept_intros]: "evolves states_kept (on_rules a)"
  by (rule evolvesI) (simp add: on_rules_def split_beta states_kept_frame)

text \<open>Every step keeps the contract of the jobs table.\<close>

lemma system_step_evolves: "system_step w w' \<Longrightarrow> jobs_evolve w w'"
proof (induction rule: system_step.induct)
  case (settings_saved w st)
  show ?case by (simp add: jobs_evolve_frame)
next
  case (clock w t)
  show ?case by (simp add: jobs_evolve_frame)
next
  case (ruled w a)
  show ?case by (rule evolvesD [OF on_rules_kept [THEN kept_evolves]])
qed (rule evolvesD, rule evolve_intros)+

text \<open>Runs of the system.\<close>

inductive system_run :: "world \<Rightarrow> world \<Rightarrow> bool" where
  start: "system_run w w"
| continue: "system_run w u \<Longrightarrow> system_step u w' \<Longrightarrow> system_run w w'"

lemma system_run_evolves: "system_run w w' \<Longrightarrow> jobs_evolve w w'"
  by (induction rule: system_run.induct)
    (auto intro: jobs_evo.evo_refl jobs_evo.evo_trans system_step_evolves)

lemma empty_world_counted: "jobs_counted (empty_world t)"
  by (simp add: jobs_counted_def empty_world_def)

lemma moves_by_job:
  assumes "moves_by P w w'" "jobs_counted w" "the_job k w = Some j" "the_job k w' = Some j'"
  shows "P k (job_state j) (job_state j')"
proof -
  have k: "k \<le> w_seq_jobs w" using assms(2,3) by (rule jobs_countedD)
  from assms(1,2) have "if k \<le> w_seq_jobs w
      then \<exists>j. the_job k w = Some j \<and> P k (job_state j) (job_state j') else P k Search (job_state j')"
    unfolding moves_by_def using assms(4) by blast
  with k assms(3) show ?thesis by simp
qed

lemma reachable_counted: "system_run (empty_world t) w \<Longrightarrow> jobs_counted w"
  using system_run_evolves [of "empty_world t" w] empty_world_counted
  by (auto simp: jobs_evolve_def moves_by_def)

end
