(* ===== verification/Breaker.thy ===== *)
theory Breaker
  imports Models
begin

text \<open>
  \<open>http/breaker.rs\<close>: the circuit breaker of one service. An \<open>Instant\<close> is a number
  of milliseconds; \<open>duration_since\<close> saturates at zero, as natural subtraction does.
  The contract of the breaker is a step relation over the calls the gate makes.
\<close>

named_theorems breaker_simps \<open>unfolding rules of the breaker\<close>

type_synonym instant = nat

datatype breaker_state = Closed | Open | HalfOpen

datatype breaker_verdict = Allow | Reject duration

record breaker =
  br_threshold :: nat
  br_cooldown :: duration
  br_failures :: nat
  br_state :: breaker_state
  br_opened_at :: "instant option"
  br_probe_in_flight :: bool

definition u32_MAX :: nat where
  "u32_MAX = 2 ^ 32 - 1"

definition CircuitBreaker_new :: "nat \<Rightarrow> duration \<Rightarrow> breaker" where
  "CircuitBreaker_new threshold cooldown =
     \<lparr> br_threshold = max threshold 1, br_cooldown = cooldown, br_failures = 0, br_state = Closed,
       br_opened_at = None, br_probe_in_flight = False \<rparr>"

definition breaker_check :: "instant \<Rightarrow> breaker \<Rightarrow> breaker_verdict \<times> breaker" where
  "breaker_check now b =
     (case br_state b of
        Closed \<Rightarrow> (Allow, b)
      | Open \<Rightarrow>
          (case br_opened_at b of
             Some t \<Rightarrow>
               if br_cooldown b \<le> now - t
               then (Allow, b\<lparr>br_state := HalfOpen, br_probe_in_flight := True\<rparr>)
               else (Reject (br_cooldown b - (now - t)), b)
           | None \<Rightarrow> (Allow, b))
      | HalfOpen \<Rightarrow>
          if br_probe_in_flight b then (Reject 250, b)
          else (Allow, b\<lparr>br_probe_in_flight := True\<rparr>))"

definition breaker_peek :: "instant \<Rightarrow> breaker \<Rightarrow> bool \<times> breaker" where
  "breaker_peek now b =
     (case br_state b of
        Closed \<Rightarrow> (True, b)
      | Open \<Rightarrow>
          (case br_opened_at b of
             Some t \<Rightarrow> if br_cooldown b \<le> now - t then (True, b\<lparr>br_state := HalfOpen\<rparr>) else (False, b)
           | None \<Rightarrow> (False, b))
      | HalfOpen \<Rightarrow> (\<not> br_probe_in_flight b, b))"

definition on_success :: "breaker \<Rightarrow> breaker" where
  "on_success b =
     b\<lparr>br_failures := 0, br_state := Closed, br_opened_at := None, br_probe_in_flight := False\<rparr>"

definition on_failure :: "instant \<Rightarrow> breaker \<Rightarrow> breaker" where
  "on_failure now b =
     (let b1 = b\<lparr>br_probe_in_flight := False\<rparr> in
      case br_state b of
        HalfOpen \<Rightarrow> b1\<lparr>br_state := Open, br_opened_at := Some now, br_failures := br_threshold b\<rparr>
      | _ \<Rightarrow>
          (let n = min (br_failures b + 1) u32_MAX; b2 = b1\<lparr>br_failures := n\<rparr> in
           if br_threshold b \<le> n then b2\<lparr>br_state := Open, br_opened_at := Some now\<rparr> else b2))"

section \<open>The invariant\<close>

definition breaker_ok :: "breaker \<Rightarrow> bool" where
  "breaker_ok b \<longleftrightarrow>
     1 \<le> br_threshold b \<and> br_threshold b \<le> u32_MAX \<and>
     (case br_state b of
        Closed \<Rightarrow> br_failures b < br_threshold b \<and> \<not> br_probe_in_flight b
      | Open \<Rightarrow> br_opened_at b \<noteq> None \<and> br_threshold b \<le> br_failures b \<and> \<not> br_probe_in_flight b
      | HalfOpen \<Rightarrow> br_opened_at b \<noteq> None)"

text \<open>
  The interface the gate relies on: a verdict, the two reports, and the invariant
  they keep.
\<close>

datatype call = Check instant | Success | Failure instant

locale breaker_contract =
  fixes fresh :: "'b"
    and check :: "instant \<Rightarrow> 'b \<Rightarrow> breaker_verdict \<times> 'b"
    and success :: "'b \<Rightarrow> 'b"
    and failure :: "instant \<Rightarrow> 'b \<Rightarrow> 'b"
    and inv :: "'b \<Rightarrow> bool"
  assumes inv_fresh: "inv fresh"
    and inv_check: "inv b \<Longrightarrow> inv (snd (check now b))"
    and inv_success: "inv b \<Longrightarrow> inv (success b)"
    and inv_failure: "inv b \<Longrightarrow> inv (failure now b)"
    and success_allows: "fst (check now (success b)) = Allow"
begin

fun apply_call :: "call \<Rightarrow> 'b \<Rightarrow> 'b" where
  "apply_call (Check t) b = snd (check t b)"
| "apply_call Success b = success b"
| "apply_call (Failure t) b = failure t b"

lemma inv_apply_call: "inv b \<Longrightarrow> inv (apply_call c b)"
  by (cases c) (simp_all add: inv_check inv_success inv_failure)

lemma inv_calls: "inv b \<Longrightarrow> inv (fold apply_call cs b)"
  by (induction cs arbitrary: b) (simp_all add: inv_apply_call)

end

lemma check_ok: "breaker_ok b \<Longrightarrow> breaker_ok (snd (breaker_check now b))"
  by (auto simp: breaker_ok_def breaker_check_def split: breaker_state.splits option.splits)

lemma peek_ok: "breaker_ok b \<Longrightarrow> breaker_ok (snd (breaker_peek now b))"
  by (auto simp: breaker_ok_def breaker_peek_def split: breaker_state.splits option.splits)

lemma success_ok: "breaker_ok b \<Longrightarrow> breaker_ok (on_success b)"
  by (auto simp: breaker_ok_def on_success_def)

lemma failure_ok: "breaker_ok b \<Longrightarrow> breaker_ok (on_failure now b)"
  by (auto simp: breaker_ok_def on_failure_def Let_def u32_MAX_def split: breaker_state.splits)

lemma new_ok: "threshold \<le> u32_MAX \<Longrightarrow> breaker_ok (CircuitBreaker_new threshold cooldown)"
  by (auto simp: breaker_ok_def CircuitBreaker_new_def u32_MAX_def)

interpretation circuit: breaker_contract "CircuitBreaker_new (min threshold u32_MAX) cooldown"
  breaker_check on_success on_failure breaker_ok
proof
  show "breaker_ok (CircuitBreaker_new (min threshold u32_MAX) cooldown)" by (rule new_ok) simp
  show "breaker_ok b \<Longrightarrow> breaker_ok (snd (breaker_check now b))" for b now by (rule check_ok)
  show "breaker_ok b \<Longrightarrow> breaker_ok (on_success b)" for b by (rule success_ok)
  show "breaker_ok b \<Longrightarrow> breaker_ok (on_failure now b)" for b now by (rule failure_ok)
  show "fst (breaker_check now (on_success b)) = Allow" for b now
    by (simp add: breaker_check_def on_success_def)
qed

section \<open>Facts\<close>

lemma on_failure_closed:
  "br_state b = Closed \<Longrightarrow> br_failures b + 1 < br_threshold b \<Longrightarrow> br_threshold b \<le> u32_MAX \<Longrightarrow>
   on_failure now b = b\<lparr>br_failures := br_failures b + 1, br_probe_in_flight := False\<rparr>"
  by (simp add: on_failure_def Let_def)

lemma on_failure_opens:
  "br_state b = Closed \<Longrightarrow> br_threshold b \<le> u32_MAX \<Longrightarrow> br_threshold b \<le> br_failures b + 1 \<Longrightarrow>
   br_state (on_failure now b) = Open \<and> br_opened_at (on_failure now b) = Some now"
  by (simp add: on_failure_def Let_def)

text \<open>\<open>k\<close> failures in a row on a closed breaker, at the instants of the list.\<close>

lemma failures_in_a_row:
  assumes "br_state b = Closed" "br_threshold b \<le> u32_MAX" "br_failures b + length ts < br_threshold b"
  shows "br_state (fold on_failure ts b) = Closed \<and>
         br_failures (fold on_failure ts b) = br_failures b + length ts \<and>
         br_threshold (fold on_failure ts b) = br_threshold b"
  using assms
proof (induction ts arbitrary: b)
  case (Cons t ts)
  then have "on_failure t b = b\<lparr>br_failures := br_failures b + 1, br_probe_in_flight := False\<rparr>"
    by (intro on_failure_closed) simp_all
  with Cons.prems Cons.IH [of "on_failure t b"] show ?case by simp
qed simp

text \<open>A breaker whose probe is claimed and never reported rejects every later check.\<close>

definition stuck :: "breaker \<Rightarrow> bool" where
  "stuck b \<longleftrightarrow> br_state b = HalfOpen \<and> br_probe_in_flight b"

lemma stuck_rejects: "stuck b \<Longrightarrow> breaker_check now b = (Reject 250, b) \<and> breaker_peek now b = (False, b)"
  by (simp add: stuck_def breaker_check_def breaker_peek_def)

section \<open>The breaker as three states\<close>

text \<open>What the breaker promises, without its counters and flags.\<close>

datatype circuit = Passing nat | Tripped instant | Trial bool

fun spec_check :: "duration \<Rightarrow> instant \<Rightarrow> circuit \<Rightarrow> breaker_verdict \<times> circuit" where
  "spec_check cd now (Passing n) = (Allow, Passing n)"
| "spec_check cd now (Tripped t) =
     (if cd \<le> now - t then (Allow, Trial True) else (Reject (cd - (now - t)), Tripped t))"
| "spec_check cd now (Trial claimed) = (if claimed then (Reject 250, Trial True) else (Allow, Trial True))"

fun spec_failure :: "nat \<Rightarrow> instant \<Rightarrow> circuit \<Rightarrow> circuit" where
  "spec_failure threshold now (Passing n) =
     (if threshold \<le> n + 1 then Tripped now else Passing (n + 1))"
| "spec_failure threshold now _ = Tripped now"

definition abs_breaker :: "breaker \<Rightarrow> circuit" where
  "abs_breaker b =
     (case br_state b of
        Closed \<Rightarrow> Passing (br_failures b)
      | Open \<Rightarrow> Tripped (the (br_opened_at b))
      | HalfOpen \<Rightarrow> Trial (br_probe_in_flight b))"

text \<open>
  C12: the breaker refines a machine of three states: passing with a number of
  failures in a row, tripped since an instant, or on trial with one request.
  \<open>check\<close> gives the verdict of that machine, and \<open>check\<close>, \<open>on_success\<close> and
  \<open>on_failure\<close> move its state as that machine moves; the counters and flags of the code never disagree
  with it, from the fresh breaker on.
\<close>

theorem breaker_refines:
  assumes "breaker_ok b"
  shows "fst (breaker_check now b) = fst (spec_check (br_cooldown b) now (abs_breaker b)) \<and>
    abs_breaker (snd (breaker_check now b)) = snd (spec_check (br_cooldown b) now (abs_breaker b)) \<and>
    abs_breaker (on_success b) = Passing 0 \<and>
    abs_breaker (on_failure now b) = spec_failure (br_threshold b) now (abs_breaker b) \<and>
    breaker_ok (snd (breaker_check now b)) \<and> breaker_ok (on_success b) \<and> breaker_ok (on_failure now b)"
proof -
  have "fst (breaker_check now b) = fst (spec_check (br_cooldown b) now (abs_breaker b)) \<and>
      abs_breaker (snd (breaker_check now b)) = snd (spec_check (br_cooldown b) now (abs_breaker b))"
    using assms
    by (auto simp: breaker_ok_def breaker_check_def abs_breaker_def split: breaker_state.splits option.splits)
  moreover have "abs_breaker (on_success b) = Passing 0" by (simp add: abs_breaker_def on_success_def)
  moreover have "abs_breaker (on_failure now b) = spec_failure (br_threshold b) now (abs_breaker b)"
    using assms by (auto simp: breaker_ok_def on_failure_def abs_breaker_def Let_def split: breaker_state.splits)
  ultimately show ?thesis using check_ok success_ok failure_ok assms by blast
qed

theorem breaker_refines_witness:
  "abs_breaker (on_failure 9 (CircuitBreaker_new 1 5)) = Tripped 9"
proof -
  have "breaker_ok (CircuitBreaker_new 1 5)" by (rule new_ok) (simp add: u32_MAX_def)
  from breaker_refines [OF this, of 9] show ?thesis
    by (simp add: CircuitBreaker_new_def abs_breaker_def)
qed

text \<open>
  A failing service is left alone. After as many failures in a row as the
  threshold the breaker is open; every check before the cooldown has passed since
  the last failure is rejected with the remaining time; the first check after it is let through
  as the trial, and every other one is rejected until the trial reports.
\<close>

theorem breaker_trips:
  assumes "1 \<le> threshold" "threshold \<le> u32_MAX" "length ts + 1 = threshold"
    and "b = on_failure t (fold on_failure ts (CircuitBreaker_new threshold cooldown))"
  shows "br_state b = Open \<and>
    (if now - t < cooldown
     then breaker_check now b = (Reject (cooldown - (now - t)), b)
     else \<exists>b'. breaker_check now b = (Allow, b') \<and> breaker_check later b' = (Reject 250, b'))"
proof -
  let ?n = "CircuitBreaker_new threshold cooldown" and ?b = "fold on_failure ts (CircuitBreaker_new threshold cooldown)"
  have cd: "br_cooldown (fold on_failure xs c) = br_cooldown c" for xs c
    by (induction xs arbitrary: c) (auto simp: on_failure_def Let_def split: breaker_state.split)
  have "br_state ?b = Closed \<and> br_failures ?b = br_failures ?n + length ts \<and> br_threshold ?b = br_threshold ?n"
    using assms by (intro failures_in_a_row) (simp_all add: CircuitBreaker_new_def)
  then have closed: "br_state ?b = Closed" "br_threshold ?b = threshold" "br_failures ?b + 1 = threshold"
    using assms by (simp_all add: CircuitBreaker_new_def)
  then have "br_state b = Open \<and> br_opened_at b = Some t"
    using on_failure_opens [of ?b t] assms by simp
  moreover have "br_cooldown b = cooldown"
    using cd [of "ts @ [t]" ?n] assms(4) by (simp add: CircuitBreaker_new_def)
  ultimately show ?thesis by (auto simp: breaker_check_def)
qed

theorem breaker_trips_witness:
  "br_state (on_failure 7 (fold on_failure [5] (CircuitBreaker_new 2 100))) = Open"
  using breaker_trips [where threshold = 2 and ts = "[5]" and t = 7 and cooldown = 100 and now = 7 and later = 7
    and b = "on_failure 7 (fold on_failure [5] (CircuitBreaker_new 2 100))"]
  by (auto simp: u32_MAX_def simp del: fold_simps fold.simps)

end
