(* ===== verification/Limiter.thy ===== *)
theory Limiter
  imports Models
begin

text \<open>
  \<open>http/limiter.rs\<close>: the token buckets of one service. Instants are seconds, as
  reals; tokens and rates are the code's \<open>f64\<close> values as reals. One turn of the
  loop of \<open>acquire\<close> is a function of the buckets and the instant, and so is the
  time it sleeps; \<open>factor\<close> is the jitter drawn for that turn.
\<close>

named_theorems limiter_simps \<open>unfolding rules of the limiter\<close>

record rate_spec =
  rs_permits_per_second :: f64
  rs_burst :: nat
  rs_per_minute_cap :: "nat option"
  rs_jitter :: bool

record bucket =
  bk_rate :: f64
  bk_capacity :: f64
  bk_tokens :: f64
  bk_last_refill :: real

definition Bucket_new :: "f64 \<Rightarrow> f64 \<Rightarrow> real \<Rightarrow> bucket" where
  "Bucket_new rate capacity now =
     \<lparr> bk_rate = rate, bk_capacity = capacity, bk_tokens = capacity, bk_last_refill = now \<rparr>"

definition refill :: "real \<Rightarrow> bucket \<Rightarrow> bucket" where
  "refill now b =
     (let elapsed = max 0 (now - bk_last_refill b) in
      if elapsed = 0 then b
      else b\<lparr>bk_tokens := min (bk_tokens b + elapsed * bk_rate b) (bk_capacity b),
             bk_last_refill := now\<rparr>)"

text \<open>\<open>probe\<close> refills the bucket; the answer is the wait and whether a token is there.\<close>

definition probe_wait :: "bucket \<Rightarrow> real" where
  "probe_wait b = (if 1 \<le> bk_tokens b then 0 else max ((1 - bk_tokens b) / bk_rate b) 0)"

definition probe_ready :: "bucket \<Rightarrow> bool" where
  "probe_ready b \<longleftrightarrow> 1 \<le> bk_tokens b"

definition take_token :: "bucket \<Rightarrow> bucket" where
  "take_token b = b\<lparr>bk_tokens := bk_tokens b - 1\<rparr>"

definition Limiter_new :: "rate_spec \<Rightarrow> real \<Rightarrow> bucket list" where
  "Limiter_new spec now =
     Bucket_new (rs_permits_per_second spec) (real (max (rs_burst spec) 1)) now #
     (case rs_per_minute_cap spec of
        Some per_minute \<Rightarrow>
          if 0 < per_minute then [Bucket_new (real per_minute / 60) (real per_minute) now] else []
      | None \<Rightarrow> [])"

definition longest_wait :: "bucket list \<Rightarrow> real" where
  "longest_wait bs = fold max (map probe_wait bs) 0"

text \<open>One turn: \<open>None\<close> is the return with the tokens spent, \<open>Some\<close> the time to sleep.\<close>

definition acquire_turn :: "bool \<Rightarrow> real \<Rightarrow> real \<Rightarrow> bucket list \<Rightarrow> real option \<times> bucket list" where
  "acquire_turn jitter factor now bs =
     (let refilled = map (refill now) bs;
          longest = longest_wait refilled
      in if list_all probe_ready refilled then (None, map take_token refilled)
         else (let sleep_for = if longest = 0 then 1 / 1000 else longest
               in (Some (if jitter then max (sleep_for * factor) 0 else sleep_for), refilled)))"

text \<open>The loop, with fuel: the instant it returned at, or \<open>None\<close> when the fuel ran out.\<close>

fun acquire :: "nat \<Rightarrow> bool \<Rightarrow> (nat \<Rightarrow> real) \<Rightarrow> real \<Rightarrow> bucket list \<Rightarrow> real option \<times> bucket list" where
  "acquire 0 jitter factors now bs = (None, bs)"
| "acquire (Suc fuel) jitter factors now bs =
     (case acquire_turn jitter (factors fuel) now bs of
        (None, bs') \<Rightarrow> (Some now, bs')
      | (Some sleep_for, bs') \<Rightarrow> acquire fuel jitter factors (now + sleep_for) bs')"

definition queued_wait :: "real \<Rightarrow> bucket list \<Rightarrow> real \<times> bucket list" where
  "queued_wait now bs = (let refilled = map (refill now) bs in (longest_wait refilled, refilled))"

section \<open>Facts\<close>

definition bucket_ok :: "bucket \<Rightarrow> bool" where
  "bucket_ok b \<longleftrightarrow> 0 < bk_rate b \<and> 1 \<le> bk_capacity b \<and> 0 \<le> bk_tokens b \<and> bk_tokens b \<le> bk_capacity b"

lemma refill_fields [simp]:
  "bk_rate (refill now b) = bk_rate b" "bk_capacity (refill now b) = bk_capacity b"
  by (simp_all add: refill_def Let_def)

lemma refill_ok: "bucket_ok b \<Longrightarrow> bucket_ok (refill now b)"
  by (auto simp: bucket_ok_def refill_def Let_def min_def)

lemma take_ok: "bucket_ok b \<Longrightarrow> probe_ready b \<Longrightarrow> bucket_ok (take_token b)"
  by (simp add: bucket_ok_def take_token_def probe_ready_def)

lemma Limiter_new_ok:
  "0 < rs_permits_per_second spec \<Longrightarrow> \<forall>b\<in>set (Limiter_new spec now). bucket_ok b"
  by (auto simp: Limiter_new_def Bucket_new_def bucket_ok_def split: option.splits)

text \<open>
  The credit of a bucket at an instant: what it holds and what has flowed in since
  \<open>t0\<close> at most. Taking a token costs one unit, waiting gains nothing.
\<close>

lemma refill_credit:
  assumes "bucket_ok b" "bk_last_refill b \<le> now"
  shows "bk_tokens (refill now b) \<le> bk_tokens b + (now - bk_last_refill b) * bk_rate b \<and>
    bk_last_refill (refill now b) = now"
  using assms by (auto simp: refill_def Let_def bucket_ok_def)

text \<open>Successful takes of one bucket at the instants of a list, oldest first.\<close>

fun takes :: "real list \<Rightarrow> bucket \<Rightarrow> bucket option" where
  "takes [] b = Some b"
| "takes (t # ts) b =
     (let b1 = refill t b in if probe_ready b1 then takes ts (take_token b1) else None)"

lemma takes_credit:
  assumes "takes ts b = Some b'" "bucket_ok b" "sorted (bk_last_refill b # ts)"
  shows "bk_tokens b' + real (length ts) \<le>
    bk_tokens b + (bk_last_refill b' - bk_last_refill b) * bk_rate b \<and>
    bk_last_refill b' = last (bk_last_refill b # ts) \<and> bucket_ok b' \<and> bk_rate b' = bk_rate b \<and>
    bk_capacity b' = bk_capacity b"
  using assms
proof (induction ts arbitrary: b)
  case (Cons t ts)
  let ?b1 = "take_token (refill t b)"
  from Cons.prems have ready: "probe_ready (refill t b)" and rest: "takes ts ?b1 = Some b'"
    and le: "bk_last_refill b \<le> t"
    by (auto simp: Let_def split: if_splits)
  have credit: "bk_tokens (refill t b) \<le> bk_tokens b + (t - bk_last_refill b) * bk_rate b"
    and at: "bk_last_refill ?b1 = t"
    using refill_credit [OF Cons.prems(2) le] by (simp_all add: take_token_def)
  have ok: "bucket_ok ?b1" using refill_ok take_ok ready Cons.prems(2) by blast
  have "sorted (bk_last_refill ?b1 # ts)" using Cons.prems(3) at by simp
  from Cons.IH [OF rest ok this] at
  have ih: "bk_tokens b' + real (length ts) \<le> bk_tokens ?b1 + (bk_last_refill b' - t) * bk_rate b"
    "bk_last_refill b' = last (t # ts)" "bucket_ok b'" "bk_rate b' = bk_rate b" "bk_capacity b' = bk_capacity b"
    by (auto simp: take_token_def)
  have "bk_tokens ?b1 = bk_tokens (refill t b) - 1" by (simp add: take_token_def)
  with ih(1) credit have "bk_tokens b' + real (length (t # ts)) \<le>
      bk_tokens b + (t - bk_last_refill b) * bk_rate b + (bk_last_refill b' - t) * bk_rate b"
    by simp
  also have "\<dots> = bk_tokens b + (bk_last_refill b' - bk_last_refill b) * bk_rate b"
    by (simp add: algebra_simps)
  finally show ?case using ih(2-5) by simp
qed simp

lemma fold_max_ge: "(a::real) \<le> fold max xs a \<and> (\<forall>x\<in>set xs. x \<le> fold max xs a)"
proof (induction xs arbitrary: a)
  case (Cons x xs)
  have "max x a \<le> fold max xs (max x a)" "\<forall>y\<in>set xs. y \<le> fold max xs (max x a)" using Cons by blast+
  then show ?case by (auto simp: max.coboundedI1 max.coboundedI2)
qed simp

text \<open>After the longest wait every bucket can spare a token.\<close>

lemma wait_makes_ready:
  assumes "bucket_ok b" "bk_last_refill b = now" "probe_wait b \<le> d" "0 < d"
  shows "probe_ready (refill (now + d) b)"
proof (cases "1 \<le> bk_tokens b")
  case True
  with assms have "1 \<le> bk_tokens b + d * bk_rate b" by (simp add: bucket_ok_def add_increasing2)
  with assms show ?thesis by (simp add: probe_ready_def refill_def bucket_ok_def)
next
  case False
  with assms have "(1 - bk_tokens b) / bk_rate b \<le> d" by (simp add: probe_wait_def)
  then have "1 \<le> bk_tokens b + d * bk_rate b"
    using assms(1) by (simp add: bucket_ok_def field_simps)
  with assms show ?thesis by (simp add: probe_ready_def refill_def bucket_ok_def)
qed

section \<open>Properties\<close>



lemma refill_last:
  "bk_last_refill b \<le> now \<Longrightarrow> bk_last_refill (refill now b) = now"
  by (auto simp: refill_def Let_def)

lemma longest_wait_ge: "0 \<le> longest_wait bs \<and> (\<forall>b\<in>set bs. probe_wait b \<le> longest_wait bs)"
  using fold_max_ge [of 0 "map probe_wait bs"] by (simp add: longest_wait_def)



end
