(* ===== verification/Gate.thy ===== *)
theory Gate
  imports Breaker Limiter Release
begin

text \<open>
  \<open>http/\<close> without the breaker and the limiter: policies, backoff, the response
  cache, link validation and the gate itself. Durations and instants are
  milliseconds; the wall clock follows the instants.

  What the network, the other tasks and the random generator do is an argument:
  \<open>attempt\<close> gives, for one turn of the retry loop, how long the limiter made it
  wait, what the other tasks did to the breaker meanwhile, how long the request
  took, the reply, and the jitter factor. \<open>ga_sent\<close> lists the requests that went
  out.
\<close>

named_theorems gate_simps \<open>unfolding rules of the gate\<close>

section \<open>Policies\<close>

datatype service = SMal | SJikan | SNyaa | SQbit | SImages

fun Service_as_str :: "service \<Rightarrow> string" where
  "Service_as_str SMal = ''mal''"
| "Service_as_str SJikan = ''jikan''"
| "Service_as_str SNyaa = ''nyaa''"
| "Service_as_str SQbit = ''qbit''"
| "Service_as_str SImages = ''images''"

definition Service_parse :: "string \<Rightarrow> service option" where
  "Service_parse s =
     (let t = lower (trim s) in
      if t = ''mal'' then Some SMal
      else if t = ''jikan'' then Some SJikan
      else if t = ''nyaa'' \<or> t = ''nyaa-rss'' then Some SNyaa
      else if t = ''qbit'' \<or> t = ''qbittorrent'' then Some SQbit
      else if t = ''images'' \<or> t = ''image'' \<or> t = ''posters'' then Some SImages
      else None)"

record retry_policy =
  rp_max_attempts :: nat
  rp_schedule :: "duration list"
  rp_max_total_wait :: duration
  rp_max_delay :: duration

definition default_backoff_schedule :: "duration list" where
  "default_backoff_schedule = [5000, 30000, 120000, 600000, 3600000]"

definition RetryPolicy_default :: retry_policy where
  "RetryPolicy_default =
     \<lparr> rp_max_attempts = 5, rp_schedule = default_backoff_schedule, rp_max_total_wait = 60000,
       rp_max_delay = 3600000 \<rparr>"

record service_policy =
  sp_rate :: rate_spec
  sp_cache_ttl :: "duration option"
  sp_max_body_bytes :: nat
  sp_timeout :: duration
  sp_retry :: retry_policy
  sp_breaker_threshold :: nat
  sp_breaker_cooldown :: duration

definition mib :: "nat \<Rightarrow> nat" where
  "mib n = n * 1024 * 1024"

fun ServicePolicy_for :: "service \<Rightarrow> service_policy" where
  "ServicePolicy_for SMal =
     \<lparr> sp_rate = \<lparr> rs_permits_per_second = 1, rs_burst = 3, rs_per_minute_cap = None, rs_jitter = False \<rparr>,
       sp_cache_ttl = Some 1800000, sp_max_body_bytes = mib 5, sp_timeout = 20000,
       sp_retry = RetryPolicy_default, sp_breaker_threshold = 5, sp_breaker_cooldown = 900000 \<rparr>"
| "ServicePolicy_for SJikan =
     \<lparr> sp_rate = \<lparr> rs_permits_per_second = 2, rs_burst = 2, rs_per_minute_cap = Some 50, rs_jitter = False \<rparr>,
       sp_cache_ttl = Some (7 * 24 * 3600 * 1000), sp_max_body_bytes = mib 5, sp_timeout = 20000,
       sp_retry = RetryPolicy_default\<lparr>rp_max_attempts := 1\<rparr>,
       sp_breaker_threshold = 5, sp_breaker_cooldown = 60000 \<rparr>"
| "ServicePolicy_for SNyaa =
     \<lparr> sp_rate = \<lparr> rs_permits_per_second = 1/2, rs_burst = 1, rs_per_minute_cap = None, rs_jitter = True \<rparr>,
       sp_cache_ttl = Some 600000, sp_max_body_bytes = mib 5, sp_timeout = 30000,
       sp_retry = RetryPolicy_default, sp_breaker_threshold = 5, sp_breaker_cooldown = 900000 \<rparr>"
| "ServicePolicy_for SQbit =
     \<lparr> sp_rate = \<lparr> rs_permits_per_second = 5, rs_burst = 10, rs_per_minute_cap = None, rs_jitter = False \<rparr>,
       sp_cache_ttl = None, sp_max_body_bytes = mib 10, sp_timeout = 10000,
       sp_retry = RetryPolicy_default\<lparr>rp_max_attempts := 3, rp_max_total_wait := 35000\<rparr>,
       sp_breaker_threshold = 5, sp_breaker_cooldown = 900000 \<rparr>"
| "ServicePolicy_for SImages =
     \<lparr> sp_rate = \<lparr> rs_permits_per_second = 2, rs_burst = 4, rs_per_minute_cap = None, rs_jitter = False \<rparr>,
       sp_cache_ttl = Some (30 * 24 * 3600 * 1000), sp_max_body_bytes = mib 20, sp_timeout = 30000,
       sp_retry = RetryPolicy_default\<lparr>rp_max_attempts := 2, rp_max_total_wait := 10000\<rparr>,
       sp_breaker_threshold = 5, sp_breaker_cooldown = 900000 \<rparr>"

section \<open>Backoff\<close>

definition delay_for :: "nat \<Rightarrow> duration list \<Rightarrow> duration" where
  "delay_for n schedule =
     (if schedule = [] then 0 else schedule ! min (max n 1 - 1) (length schedule - 1))"

definition jitter_delay :: "real \<Rightarrow> duration \<Rightarrow> duration" where
  "jitter_delay factor d = (if d = 0 then d else nat \<lfloor>real d * factor\<rfloor>)"

text \<open>\<open>str::parse\<close> to an unsigned integer: digits, with a plus sign allowed in front.\<close>

definition parse_unsigned :: "nat \<Rightarrow> string \<Rightarrow> nat option" where
  "parse_unsigned limit s =
     parse_bounded limit (if starts_with ''+'' s then tl s else s)"

definition parse_retry_after :: "string option \<Rightarrow> duration option" where
  "parse_retry_after header =
     Option.bind header (\<lambda>h. map_option (\<lambda>secs. secs * 1000) (parse_unsigned (2 ^ 64) (trim h)))"

section \<open>Link validation\<close>

text \<open>\<open>reqwest::Url::parse\<close> is an argument: the scheme and the host of a link, if it parses.\<close>

definition private_v4 :: "nat \<Rightarrow> nat \<Rightarrow> bool" where
  "private_v4 a b \<longleftrightarrow>
     (if a \<in> {0, 10, 127} then True
      else if a = 100 then 64 \<le> b \<and> b \<le> 127
      else if a = 169 then b = 254
      else if a = 172 then 16 \<le> b \<and> b \<le> 31
      else if a = 192 then b = 168 \<or> b = 0
      else if a = 198 then b = 18 \<or> b = 19
      else 224 \<le> a)"

definition trim_brackets :: "string \<Rightarrow> string" where
  "trim_brackets h =
     rev (dropWhile (\<lambda>c. c = CHR '']'') (rev (dropWhile (\<lambda>c. c = CHR ''['') h)))"

definition host_is_private :: "string option \<Rightarrow> bool" where
  "host_is_private host_str =
     (case host_str of
        None \<Rightarrow> True
      | Some h \<Rightarrow>
          (let host = lower h; octets = split_on CHR ''.'' [] host in
           if host = ''localhost'' \<or> ends_with ''.localhost'' host \<or> ends_with ''.local'' host then True
           else case map (parse_unsigned 256) octets of
             [Some a, Some b, Some _, Some _] \<Rightarrow> private_v4 a b
           | _ \<Rightarrow>
               if starts_with ''['' host \<or> contains '':'' host then
                 (let v6 = trim_brackets host in
                  v6 = ''::1'' \<or> v6 = ''::'' \<or> starts_with ''fe80'' v6 \<or> starts_with ''fc'' v6
                    \<or> starts_with ''fd'' v6)
               else False))"

definition is_acceptable_link :: "(string \<Rightarrow> (string \<times> string option) option) \<Rightarrow> string \<Rightarrow> bool" where
  "is_acceptable_link url_parse link =
     (if starts_with ''magnet:'' link
      then let rest = drop 7 link in
           starts_with ''?xt=urn:btih:'' rest \<or> starts_with ''xt=urn:btih:'' rest
      else case url_parse link of
        Some (scheme, host) \<Rightarrow> \<not> host_is_private host \<and> scheme = ''https''
      | None \<Rightarrow> False)"

section \<open>The cache\<close>

record cache_entry =
  ce_body :: string
  ce_etag :: "string option"
  ce_fetched_at :: time
  ce_ttl :: int

type_synonym cache = "((string \<times> string) \<times> cache_entry) list"

definition is_fresh :: "time \<Rightarrow> cache_entry \<Rightarrow> bool" where
  "is_fresh now e \<longleftrightarrow> now < ce_fetched_at e + ce_ttl e"

definition cache_age :: "time \<Rightarrow> cache_entry \<Rightarrow> int" where
  "cache_age now e = max (now - ce_fetched_at e) 0"

definition cache_get :: "string \<Rightarrow> string \<Rightarrow> cache \<Rightarrow> cache_entry option" where
  "cache_get srv key c = map_of c (srv, key)"

definition cache_put ::
  "time \<Rightarrow> string \<Rightarrow> string \<Rightarrow> string \<Rightarrow> string option \<Rightarrow> nat \<Rightarrow> cache \<Rightarrow> cache" where
  "cache_put now srv key body etag ttl_secs c =
     (let e = \<lparr> ce_body = body, ce_etag = etag, ce_fetched_at = now, ce_ttl = int ttl_secs \<rparr> in
      if map_of c (srv, key) = None then c @ [((srv, key), e)]
      else map (\<lambda>r. if fst r = (srv, key) then (fst r, e) else r) c)"

definition cache_touch :: "time \<Rightarrow> string \<Rightarrow> string \<Rightarrow> nat \<Rightarrow> cache \<Rightarrow> cache" where
  "cache_touch now srv key ttl_secs c =
     map (\<lambda>r. if fst r = (srv, key)
              then (fst r, (snd r)\<lparr> ce_fetched_at := now, ce_ttl := int ttl_secs \<rparr>) else r) c"

text \<open>\<open>ORDER BY fetched_at DESC LIMIT keep\<close>; the order of equal times is left open.\<close>

definition cache_prune :: "nat \<Rightarrow> cache \<Rightarrow> cache \<times> nat" where
  "cache_prune keep c =
     (let newest = take keep (rev (sort_key (\<lambda>r. ce_fetched_at (snd r)) c));
          kept = filter (\<lambda>r. fst r \<in> set (map fst newest)) c
      in (kept, length c - length kept))"

definition cache_purge_expired :: "time \<Rightarrow> cache \<Rightarrow> cache \<times> nat" where
  "cache_purge_expired now c =
     (let kept = filter (\<lambda>r. \<not> ce_fetched_at (snd r) + ce_ttl (snd r) < now) c
      in (kept, length c - length kept))"

section \<open>The wire\<close>

datatype outcome =
    Success nat string "string option" "string option"
  | Rate_limited "duration option"
  | Server_error nat "string option"
  | Client_error nat "string option"

text \<open>A reply: its headers and the chunks of its body, which may end in a failure.\<close>

record response =
  rp_status :: nat
  rp_etag :: "string option"
  rp_set_cookie :: "string option"
  rp_retry_after :: "string option"
  rp_chunks :: "string list"
  rp_broken :: "http_failure option"

definition wire_error :: "string \<Rightarrow> duration \<Rightarrow> http_failure \<Rightarrow> error" where
  "wire_error url timeout f = (if http_timeout f then Timeout url timeout else Http f)"

fun read_chunks ::
  "nat \<Rightarrow> string \<Rightarrow> duration \<Rightarrow> http_failure option \<Rightarrow> string \<Rightarrow> string list \<Rightarrow> error + string" where
  "read_chunks cap url timeout broken body [] =
     (case broken of None \<Rightarrow> Inr body | Some f \<Rightarrow> Inl (wire_error url timeout f))"
| "read_chunks cap url timeout broken body (chunk # chunks) =
     (if cap < length body + length chunk
      then Inl (BodyTooLarge url (length body + length chunk) cap)
      else read_chunks cap url timeout broken (body @ chunk) chunks)"

definition read_body :: "response \<Rightarrow> nat \<Rightarrow> string \<Rightarrow> duration \<Rightarrow> error + string" where
  "read_body resp cap url timeout = read_chunks cap url timeout (rp_broken resp) [] (rp_chunks resp)"

definition ok_or_none :: "'e + 'a \<Rightarrow> 'a option" where
  "ok_or_none r = (case r of Inr x \<Rightarrow> Some x | Inl _ \<Rightarrow> None)"

text \<open>\<open>send\<close>: the classification of one reply. Bodies are taken to be UTF-8.\<close>

definition send :: "string \<Rightarrow> duration \<Rightarrow> nat \<Rightarrow> http_failure + response \<Rightarrow> error + outcome" where
  "send url timeout cap reply =
     (case reply of
        Inl f \<Rightarrow> Inl (wire_error url timeout f)
      | Inr resp \<Rightarrow>
          (let st = rp_status resp; body = read_body resp cap url timeout in
           if 200 \<le> st \<and> st \<le> 299 then
             (case body of
                Inl e \<Rightarrow> Inl e
              | Inr b \<Rightarrow> Inr (Success st b (rp_etag resp) (rp_set_cookie resp)))
           else if st = 304 then Inr (Success st [] (rp_etag resp) (rp_set_cookie resp))
           else if st = 429 then Inr (Rate_limited (parse_retry_after (rp_retry_after resp)))
           else if st = 408 \<or> st = 425 \<or> (500 \<le> st \<and> st \<le> 599)
           then Inr (Server_error st (ok_or_none body))
           else Inr (Client_error st (ok_or_none body))))"

section \<open>The gate\<close>

record gate =
  ga_policy :: "service \<Rightarrow> service_policy"
  ga_breaker :: "service \<Rightarrow> breaker"
  ga_cache :: cache
  ga_now :: instant
  ga_epoch :: time
  ga_sent :: "(service \<times> string) list"

definition now_unix :: "gate \<Rightarrow> time" where
  "now_unix g = ga_epoch g + int (ga_now g div 1000)"

definition Gate_with_policies ::
  "(service \<times> service_policy) list \<Rightarrow> cache \<Rightarrow> instant \<Rightarrow> time \<Rightarrow> gate" where
  "Gate_with_policies overrides c now epoch =
     (let policy = (\<lambda>s. case map_of overrides s of Some p \<Rightarrow> p | None \<Rightarrow> ServicePolicy_for s) in
      \<lparr> ga_policy = policy,
        ga_breaker = (\<lambda>s. CircuitBreaker_new (sp_breaker_threshold (policy s)) (sp_breaker_cooldown (policy s))),
        ga_cache = c, ga_now = now, ga_epoch = epoch, ga_sent = [] \<rparr>)"

text \<open>\<open>Gate::new\<close>: the cooldown of Jikan comes from the settings.\<close>

definition Gate_new :: "nat \<Rightarrow> cache \<Rightarrow> instant \<Rightarrow> time \<Rightarrow> gate" where
  "Gate_new jikan_breaker_cooldown_secs =
     Gate_with_policies
       [(SJikan, (ServicePolicy_for SJikan)\<lparr>sp_breaker_cooldown := max jikan_breaker_cooldown_secs 1 * 1000\<rparr>)]"

definition set_breaker :: "service \<Rightarrow> breaker \<Rightarrow> gate \<Rightarrow> gate" where
  "set_breaker s b g = g\<lparr>ga_breaker := (ga_breaker g)(s := b)\<rparr>"

definition breaker_state_of :: "gate \<Rightarrow> service \<Rightarrow> breaker_state" where
  "breaker_state_of g s = br_state (ga_breaker g s)"

definition would_allow :: "service \<Rightarrow> gate \<Rightarrow> bool \<times> gate" where
  "would_allow s g =
     (case breaker_peek (ga_now g) (ga_breaker g s) of (ok, b) \<Rightarrow> (ok, set_breaker s b g))"

definition gate_allow :: "service \<Rightarrow> (gate, error, unit) act" where
  "gate_allow s =
     (\<lambda>g. case breaker_check (ga_now g) (ga_breaker g s) of
        (Allow, b) \<Rightarrow> (Inr (), set_breaker s b g)
      | (Reject retry_in, b) \<Rightarrow>
          (Inl (BreakerOpen (Service_as_str s) (max (retry_in div 1000) 1)), set_breaker s b g))"

definition record_success :: "service \<Rightarrow> gate \<Rightarrow> gate" where
  "record_success s g = set_breaker s (on_success (ga_breaker g s)) g"

definition record_failure :: "service \<Rightarrow> gate \<Rightarrow> gate" where
  "record_failure s g = set_breaker s (on_failure (ga_now g) (ga_breaker g s)) g"

record get_options =
  go_skip_cache :: bool
  go_ttl :: "duration option"
  go_timeout :: "duration option"
  go_retry :: "retry_policy option"

definition GetOptions_default :: get_options where
  "GetOptions_default = \<lparr> go_skip_cache = False, go_ttl = None, go_timeout = None, go_retry = None \<rparr>"

record fetched =
  fe_url :: string
  fe_status :: nat
  fe_body :: string
  fe_from_cache :: bool
  fe_etag :: "string option"
  fe_set_cookie :: "string option"

record attempt_env =
  at_wait :: duration
  at_others :: "breaker \<Rightarrow> breaker"
  at_took :: duration
  at_reply :: "http_failure + response"
  at_jitter :: real

datatype turn = Return "error + fetched" | Retry error "duration option"

text \<open>A success: the cache is refreshed or written, the reply is handed out.\<close>

definition finish_success ::
  "service \<Rightarrow> string \<Rightarrow> duration option \<Rightarrow> nat \<Rightarrow> string \<Rightarrow> string option \<Rightarrow> string option
     \<Rightarrow> gate \<Rightarrow> turn \<times> gate" where
  "finish_success s key ttl st body etag cookie g =
     (let srv = Service_as_str s;
          plain = \<lparr> fe_url = key, fe_status = st, fe_body = body, fe_from_cache = False,
                    fe_etag = etag, fe_set_cookie = cookie \<rparr>
      in if st = 304 then
           (case ttl of
              Some d \<Rightarrow>
                (let g1 = g\<lparr>ga_cache := cache_touch (now_unix g) srv key (d div 1000) (ga_cache g)\<rparr> in
                 case cache_get srv key (ga_cache g1) of
                   Some e \<Rightarrow> (Return (Inr \<lparr> fe_url = key, fe_status = 304, fe_body = ce_body e,
                               fe_from_cache = True, fe_etag = etag, fe_set_cookie = None \<rparr>), g1)
                 | None \<Rightarrow> (Return (Inr plain), g1))
            | None \<Rightarrow> (Return (Inr plain), g))
         else
           (Return (Inr plain),
            (case ttl of
               Some d \<Rightarrow> g\<lparr>ga_cache := cache_put (now_unix g) srv key body etag (d div 1000) (ga_cache g)\<rparr>
             | None \<Rightarrow> g)))"

text \<open>The \<open>match\<close> on what \<open>send\<close> returned.\<close>

definition handle_outcome ::
  "service \<Rightarrow> string \<Rightarrow> duration option \<Rightarrow> error + outcome \<Rightarrow> gate \<Rightarrow> turn \<times> gate" where
  "handle_outcome s key ttl result g =
     (case result of
        Inr (Success st body etag cookie) \<Rightarrow>
          finish_success s key ttl st body etag cookie (record_success s g)
      | Inr (Rate_limited retry_after) \<Rightarrow>
          (Retry (RateLimited (Service_as_str s) retry_after) retry_after, record_failure s g)
      | Inr (Server_error st body) \<Rightarrow> (Retry (Status st key None body) None, record_failure s g)
      | Inr (Client_error st body) \<Rightarrow> (Return (Inl (Status st key None body)), record_success s g)
      | Inl err \<Rightarrow>
          (case err of
             BodyTooLarge _ _ _ \<Rightarrow> (Return (Inl err), record_success s g)
           | _ \<Rightarrow> (Retry err None, record_failure s g)))"

text \<open>Steps 3 and 4 of one turn: the limiter, the second look at the breaker, the request.\<close>

definition one_attempt ::
  "service \<Rightarrow> string \<Rightarrow> duration \<Rightarrow> duration option \<Rightarrow> attempt_env \<Rightarrow> gate \<Rightarrow> turn \<times> gate" where
  "one_attempt s key timeout ttl ae g =
     (let policy = ga_policy g s;
          g1 = set_breaker s (at_others ae (ga_breaker g s)) (g\<lparr>ga_now := ga_now g + at_wait ae\<rparr>)
      in if breaker_state_of g1 s = Open
         then (Return (Inl (BreakerOpen (Service_as_str s) (sp_breaker_cooldown policy div 1000))), g1)
         else handle_outcome s key ttl (send key timeout (sp_max_body_bytes policy) (at_reply ae))
                (g1\<lparr>ga_now := ga_now g1 + at_took ae, ga_sent := ga_sent g1 @ [(s, key)]\<rparr>))"

definition next_delay :: "retry_policy \<Rightarrow> nat \<Rightarrow> real \<Rightarrow> duration option \<Rightarrow> duration" where
  "next_delay retry n factor retry_after =
     (case retry_after of
        Some d \<Rightarrow> min d (rp_max_delay retry)
      | None \<Rightarrow> min (jitter_delay factor (delay_for n (rp_schedule retry))) (rp_max_delay retry))"

text \<open>
  The loop. \<open>n\<close> is \<open>attempt\<close> before the turn, \<open>ats\<close> gives the surroundings of each
  turn; it goes on only while \<open>n + 1 < max_attempts\<close>.
\<close>

function dispatch_loop ::
  "service \<Rightarrow> string \<Rightarrow> duration \<Rightarrow> retry_policy \<Rightarrow> duration option \<Rightarrow> instant
     \<Rightarrow> (nat \<Rightarrow> attempt_env) \<Rightarrow> nat \<Rightarrow> gate \<Rightarrow> (error + fetched) \<times> gate" where
  "dispatch_loop s key timeout retry ttl started ats n g =
     (case one_attempt s key timeout ttl (ats n) g of
        (Return r, g1) \<Rightarrow> (r, g1)
      | (Retry err retry_after, g1) \<Rightarrow>
          if breaker_state_of g1 s = Open \<or> rp_max_attempts retry \<le> n + 1 then (Inl err, g1)
          else
            (let delay = next_delay retry (n + 1) (at_jitter (ats n)) retry_after in
             if rp_max_total_wait retry < (ga_now g1 - started) + delay then (Inl err, g1)
             else dispatch_loop s key timeout retry ttl started ats (n + 1)
                    (g1\<lparr>ga_now := ga_now g1 + delay\<rparr>)))"
  by pat_completeness auto

termination dispatch_loop
  by (relation "measure (\<lambda>(s, key, timeout, retry, ttl, started, ats, n, g). rp_max_attempts retry - n)") auto

declare dispatch_loop.simps [simp del]

definition or_policy :: "'a option \<Rightarrow> 'a \<Rightarrow> 'a" where
  "or_policy v d = (case v of Some x \<Rightarrow> x | None \<Rightarrow> d)"

definition dispatch ::
  "service \<Rightarrow> string \<Rightarrow> get_options \<Rightarrow> duration option \<Rightarrow> (nat \<Rightarrow> attempt_env)
     \<Rightarrow> (gate, error, fetched) act" where
  "dispatch s key opts ttl ats =
     (\<lambda>g. dispatch_loop s key (or_policy (go_timeout opts) (sp_timeout (ga_policy g s)))
        (or_policy (go_retry opts) (sp_retry (ga_policy g s))) ttl (ga_now g) ats 0 g)"

text \<open>\<open>Url::parse\<close> is an argument: \<open>None\<close> when the text is not a URL, else its canonical form.\<close>

definition get_with ::
  "(string \<Rightarrow> string option) \<Rightarrow> service \<Rightarrow> string \<Rightarrow> get_options \<Rightarrow> (nat \<Rightarrow> attempt_env)
     \<Rightarrow> (gate, error, fetched) act" where
  "get_with canonical s url opts ats =
     (case canonical url of
        None \<Rightarrow> throw (InvalidUrl url)
      | Some key \<Rightarrow>
          seq (gate_allow s) (\<lambda>_.
          seq (gets (\<lambda>g. case go_ttl opts of Some d \<Rightarrow> Some d | None \<Rightarrow> sp_cache_ttl (ga_policy g s))) (\<lambda>ttl.
          seq (gets (\<lambda>g. if ttl \<noteq> None \<and> \<not> go_skip_cache opts
                         then cache_get (Service_as_str s) key (ga_cache g) else None)) (\<lambda>entry.
          seq (gets now_unix) (\<lambda>now.
          case entry of
            Some e \<Rightarrow>
              if is_fresh now e
              then ret \<lparr> fe_url = key, fe_status = 200, fe_body = ce_body e, fe_from_cache = True,
                         fe_etag = ce_etag e, fe_set_cookie = None \<rparr>
              else dispatch s key opts ttl ats
          | None \<Rightarrow> dispatch s key opts ttl ats)))))"

definition gate_get ::
  "(string \<Rightarrow> string option) \<Rightarrow> service \<Rightarrow> string \<Rightarrow> (nat \<Rightarrow> attempt_env) \<Rightarrow> (gate, error, fetched) act" where
  "gate_get canonical s url ats = get_with canonical s url GetOptions_default ats"

definition post_form ::
  "(string \<Rightarrow> string option) \<Rightarrow> service \<Rightarrow> string \<Rightarrow> get_options \<Rightarrow> (nat \<Rightarrow> attempt_env)
     \<Rightarrow> (gate, error, fetched) act" where
  "post_form canonical s url opts ats =
     (case canonical url of
        None \<Rightarrow> throw (InvalidUrl url)
      | Some key \<Rightarrow> seq (gate_allow s) (\<lambda>_. dispatch s key opts None ats))"

section \<open>Facts\<close>

lemma set_breaker_simps [simp]:
  "ga_breaker (set_breaker s b g) = (ga_breaker g)(s := b)"
  "ga_policy (set_breaker s b g) = ga_policy g" "ga_cache (set_breaker s b g) = ga_cache g"
  "ga_now (set_breaker s b g) = ga_now g" "ga_sent (set_breaker s b g) = ga_sent g"
  "ga_epoch (set_breaker s b g) = ga_epoch g"
  by (simp_all add: set_breaker_def)

lemma record_sent [simp]:
  "ga_sent (record_success s g) = ga_sent g" "ga_sent (record_failure s g) = ga_sent g"
  by (simp_all add: record_success_def record_failure_def)

lemma finish_success_sent [simp]:
  "ga_sent (snd (finish_success s key ttl st body etag cookie g)) = ga_sent g"
  by (simp add: finish_success_def Let_def split: option.split)

lemma handle_outcome_sent [simp]: "ga_sent (snd (handle_outcome s key ttl r g)) = ga_sent g"
  by (simp add: handle_outcome_def split: sum.split outcome.split error.split)

lemma one_attempt_sent:
  "\<exists>k\<le>1. ga_sent (snd (one_attempt s key timeout ttl ae g)) = ga_sent g @ replicate k (s, key)"
proof (cases "br_state (at_others ae (ga_breaker g s)) = Open")
  case True
  then show ?thesis by (intro exI [of _ 0]) (simp add: one_attempt_def Let_def breaker_state_of_def)
next
  case False
  then show ?thesis by (intro exI [of _ 1]) (simp add: one_attempt_def Let_def breaker_state_of_def)
qed

lemma dispatch_loop_sent:
  "\<exists>k \<le> max 1 (rp_max_attempts retry - n).
     ga_sent (snd (dispatch_loop s key timeout retry ttl started ats n g)) = ga_sent g @ replicate k (s, key)"
proof (induction s key timeout retry ttl started ats n g rule: dispatch_loop.induct)
  case (1 s key timeout retry ttl started ats n g)
  obtain t g1 where one: "one_attempt s key timeout ttl (ats n) g = (t, g1)" by force
  obtain k where k: "k \<le> 1" "ga_sent g1 = ga_sent g @ replicate k (s, key)"
    using one_attempt_sent [of s key timeout ttl "ats n" g] one by auto
  show ?case
  proof (cases t)
    case (Return r)
    with one k show ?thesis by (subst dispatch_loop.simps) auto
  next
    case (Retry err ra)
    let ?d = "next_delay retry (n + 1) (at_jitter (ats n)) ra"
    show ?thesis
    proof (cases "breaker_state_of g1 s = Open \<or> rp_max_attempts retry \<le> n + 1
        \<or> rp_max_total_wait retry < (ga_now g1 - started) + ?d")
      case True
      then show ?thesis using one k Retry by (subst dispatch_loop.simps) (auto simp: Let_def)
    next
      case False
      then have go: "dispatch_loop s key timeout retry ttl started ats n g =
          dispatch_loop s key timeout retry ttl started ats (n + 1) (g1\<lparr>ga_now := ga_now g1 + ?d\<rparr>)"
        using one Retry by (subst dispatch_loop.simps) (simp add: Let_def)
      from False have "\<not> (breaker_state_of g1 s = Open \<or> rp_max_attempts retry \<le> n + 1)"
        "\<not> rp_max_total_wait retry < (ga_now g1 - started) + ?d" by blast+
      from 1 [OF one [symmetric] Retry this(1) refl this(2)]
      obtain m where m: "m \<le> max 1 (rp_max_attempts retry - (n + 1))"
        "ga_sent (snd (dispatch_loop s key timeout retry ttl started ats (n + 1)
            (g1\<lparr>ga_now := ga_now g1 + ?d\<rparr>))) = ga_sent g1 @ replicate m (s, key)"
        by auto
      have "ga_sent (snd (dispatch_loop s key timeout retry ttl started ats n g)) =
          ga_sent g @ replicate (k + m) (s, key)"
        using go m(2) k(2) by (simp add: replicate_add)
      moreover have "k + m \<le> max 1 (rp_max_attempts retry - n)" using k(1) m(1) False by auto
      ultimately show ?thesis by blast
    qed
  qed
qed

section \<open>Properties\<close>

lemma dispatch_sent:
  "\<exists>k \<le> max 1 (rp_max_attempts (or_policy (go_retry opts) (sp_retry (ga_policy g s)))).
     ga_sent (snd (dispatch s key opts ttl ats g)) = ga_sent g @ replicate k (s, key)"
  using dispatch_loop_sent [of "or_policy (go_retry opts) (sp_retry (ga_policy g s))" 0]
  by (simp add: dispatch_def)

lemma gate_allow_cases:
  obtains (through) b where "breaker_check (ga_now g) (ga_breaker g s) = (Allow, b)"
      "gate_allow s g = (Inr (), set_breaker s b g)"
  | (rejected) d b where "breaker_check (ga_now g) (ga_breaker g s) = (Reject d, b)"
      "gate_allow s g = (Inl (BreakerOpen (Service_as_str s) (max (d div 1000) 1)), set_breaker s b g)"
  by (cases "breaker_check (ga_now g) (ga_breaker g s)"; cases "fst (breaker_check (ga_now g) (ga_breaker g s))")
    (auto simp: gate_allow_def)

lemma now_unix_set_breaker [simp]: "now_unix (set_breaker s b g) = now_unix g"
  by (simp add: now_unix_def)

text \<open>What \<open>get_with\<close> does once the breaker lets it through.\<close>

definition ttl_of :: "service \<Rightarrow> get_options \<Rightarrow> gate \<Rightarrow> duration option" where
  "ttl_of s opts g = (case go_ttl opts of Some d \<Rightarrow> Some d | None \<Rightarrow> sp_cache_ttl (ga_policy g s))"

definition cached :: "service \<Rightarrow> string \<Rightarrow> get_options \<Rightarrow> gate \<Rightarrow> cache_entry option" where
  "cached s key opts g =
     (if ttl_of s opts g = None \<or> go_skip_cache opts then None
      else case cache_get (Service_as_str s) key (ga_cache g) of
        Some e \<Rightarrow> if is_fresh (now_unix g) e then Some e else None
      | None \<Rightarrow> None)"

lemma get_with_through:
  assumes "gate_allow s g = (Inr (), set_breaker s b g)" "canonical url = Some key"
  shows "get_with canonical s url opts ats g =
    (case cached s key opts g of
       Some e \<Rightarrow> (Inr \<lparr> fe_url = key, fe_status = 200, fe_body = ce_body e, fe_from_cache = True,
                  fe_etag = ce_etag e, fe_set_cookie = None \<rparr>, set_breaker s b g)
     | None \<Rightarrow> dispatch s key opts (ttl_of s opts g) ats (set_breaker s b g))"
proof (cases "ttl_of s opts g = None \<or> go_skip_cache opts")
  case True
  then show ?thesis using assms
    by (auto simp: get_with_def cached_def ttl_of_def cong: option.case_cong)
next
  case False
  then obtain d where "(case go_ttl opts of Some d \<Rightarrow> Some d | None \<Rightarrow> sp_cache_ttl (ga_policy g s)) = Some d"
    by (auto simp: ttl_of_def)
  with False show ?thesis using assms
    by (cases "cache_get (Service_as_str s) key (ga_cache g)")
      (simp_all add: get_with_def cached_def ttl_of_def cong: option.case_cong)
qed

text \<open>What \<open>get_with\<close> may send: nothing on an open breaker or a fresh cache entry, else the attempts of the policy.\<close>

definition send_budget :: "service \<Rightarrow> string \<Rightarrow> get_options \<Rightarrow> gate \<Rightarrow> nat" where
  "send_budget s key opts g =
     (if fst (breaker_check (ga_now g) (ga_breaker g s)) \<noteq> Allow \<or> cached s key opts g \<noteq> None then 0
      else max 1 (rp_max_attempts (or_policy (go_retry opts) (sp_retry (ga_policy g s)))))"


text \<open>
  A cached answer can cost the breaker its trial. When the cooldown of an open
  breaker is over, the next call claims the one trial request; if that call is
  answered from the cache, it never reports. From then on, at any time and for any URL, every call
  to the service is rejected, those that a fresh cache entry would answer too,
  as long as no earlier request of the service is still to report.
\<close>

theorem cached_answer_keeps_the_trial:
  assumes "br_state (ga_breaker g s) = Open" "br_opened_at (ga_breaker g s) = Some t"
    and "br_cooldown (ga_breaker g s) \<le> ga_now g - t"
    and "canonical url = Some key" "go_skip_cache opts = False" "sp_cache_ttl (ga_policy g s) = Some d"
    and "cache_get (Service_as_str s) key (ga_cache g) = Some e" "is_fresh (now_unix g) e"
    and "canonical url' = Some key'"
  shows "\<exists>f g'. get_with canonical s url opts ats g = (Inr f, g') \<and> fe_from_cache f \<and>
    get_with canonical s url' opts' ats' (g'\<lparr>ga_now := now, ga_cache := c\<rparr>) =
      (Inl (BreakerOpen (Service_as_str s) 1), g'\<lparr>ga_now := now, ga_cache := c\<rparr>) \<and>
    post_form canonical s url' opts' ats' (g'\<lparr>ga_now := now, ga_cache := c\<rparr>) =
      (Inl (BreakerOpen (Service_as_str s) 1), g'\<lparr>ga_now := now, ga_cache := c\<rparr>)"
proof -
  obtain b where check: "breaker_check (ga_now g) (ga_breaker g s) = (Allow, b)" and stuck: "stuck b"
    using assms(1-3) by (simp add: breaker_check_def stuck_def)
  let ?g = "set_breaker s b g"
  from check have "gate_allow s g = (Inr (), ?g)" by (simp add: gate_allow_def)
  moreover have "cached s key opts g = Some e"
    using assms(5-8) by (simp add: cached_def ttl_of_def split: option.split)
  ultimately obtain f where f: "get_with canonical s url opts ats g = (Inr f, ?g)" "fe_from_cache f"
    using get_with_through [where opts = opts and ats = ats and canonical = canonical and url = url and s = s and g = g
      and b = b and key = key] assms(4) by simp
  have "gate_allow s (?g\<lparr>ga_now := now, ga_cache := c\<rparr>) =
      (Inl (BreakerOpen (Service_as_str s) 1), ?g\<lparr>ga_now := now, ga_cache := c\<rparr>)"
    using stuck_rejects [OF stuck, of now] by (simp add: gate_allow_def set_breaker_def fun_upd_idem)
  then show ?thesis using f assms(9)
    by (intro exI [of _ f] exI [of _ ?g]) (simp add: get_with_def post_form_def)
qed

definition sample_gate :: gate where
  "sample_gate = (Gate_new 60 [((''jikan'', ''u''), \<lparr> ce_body = ''{}'', ce_etag = None, ce_fetched_at = 90, ce_ttl = 600 \<rparr>)] 0 0)
     \<lparr>ga_now := 200000, ga_breaker := (\<lambda>_. (CircuitBreaker_new 5 60000)\<lparr>br_state := Open, br_opened_at := Some 100000\<rparr>)\<rparr>"

theorem cached_answer_keeps_the_trial_witness:
  "\<forall>ats. \<exists>f g'. get_with Some SJikan ''u'' GetOptions_default ats sample_gate = (Inr f, g') \<and> fe_from_cache f \<and>
     fst (get_with Some SJikan ''v'' GetOptions_default ats (g'\<lparr>ga_now := 900000, ga_cache := []\<rparr>)) =
       Inl (BreakerOpen ''jikan'' 1)"
proof
  fix ats
  have "br_state (ga_breaker sample_gate SJikan) = Open" "br_opened_at (ga_breaker sample_gate SJikan) = Some 100000"
    "br_cooldown (ga_breaker sample_gate SJikan) \<le> ga_now sample_gate - 100000"
    "\<exists>d. sp_cache_ttl (ga_policy sample_gate SJikan) = Some d"
    "cache_get (Service_as_str SJikan) ''u'' (ga_cache sample_gate) =
      Some \<lparr> ce_body = ''{}'', ce_etag = None, ce_fetched_at = 90, ce_ttl = 600 \<rparr>"
    "is_fresh (now_unix sample_gate) \<lparr> ce_body = ''{}'', ce_etag = None, ce_fetched_at = 90, ce_ttl = 600 \<rparr>"
    by (simp_all add: sample_gate_def Gate_new_def Gate_with_policies_def cache_get_def is_fresh_def now_unix_def
        CircuitBreaker_new_def Let_def)
  then obtain d where d: "sp_cache_ttl (ga_policy sample_gate SJikan) = Some d" by blast
  have "\<exists>f g'. get_with Some SJikan ''u'' GetOptions_default ats sample_gate = (Inr f, g') \<and> fe_from_cache f \<and>
      get_with Some SJikan ''v'' GetOptions_default ats (g'\<lparr>ga_now := 900000, ga_cache := []\<rparr>) =
        (Inl (BreakerOpen (Service_as_str SJikan) 1), g'\<lparr>ga_now := 900000, ga_cache := []\<rparr>) \<and>
      post_form Some SJikan ''v'' GetOptions_default ats (g'\<lparr>ga_now := 900000, ga_cache := []\<rparr>) =
        (Inl (BreakerOpen (Service_as_str SJikan) 1), g'\<lparr>ga_now := 900000, ga_cache := []\<rparr>)"
    by (rule cached_answer_keeps_the_trial [OF _ _ _ _ _ d]) (fact | simp add: GetOptions_default_def)+
  then show "\<exists>f g'. get_with Some SJikan ''u'' GetOptions_default ats sample_gate = (Inr f, g') \<and> fe_from_cache f \<and>
     fst (get_with Some SJikan ''v'' GetOptions_default ats (g'\<lparr>ga_now := 900000, ga_cache := []\<rparr>)) =
       Inl (BreakerOpen ''jikan'' 1)"
    by force
qed

end
