(* ===== verification/Formatting.thy ===== *)
theory Formatting
  imports Filename Models "HOL-Library.Sublist"
begin

text \<open>
  \<open>library/formatting.rs\<close>: the names and texts that the library step writes to disk.
  A string is the list of its UTF-8 bytes; \<open>chars_of\<close> cuts it into characters, each
  a lead byte with its continuation bytes, as \<open>str::chars\<close> does on valid text.
  White space at the ends is that of ASCII. The printing of \<open>f64\<close> is given by arguments.
\<close>

named_theorems formatting_simps \<open>unfolding rules of the library formats\<close>

section \<open>Characters\<close>

definition is_continuation :: "char \<Rightarrow> bool" where
  "is_continuation c \<longleftrightarrow> 128 \<le> (of_char c :: nat) \<and> (of_char c :: nat) < 192"

function chars_of :: "string \<Rightarrow> string list" where
  "chars_of [] = []"
| "chars_of (c # cs) =
     (if (of_char c :: nat) < 128 then [c] # chars_of cs
      else (c # takeWhile is_continuation cs) # chars_of (dropWhile is_continuation cs))"
  by pat_completeness auto

termination chars_of
  by (relation "measure length") (auto simp: le_imp_less_Suc length_dropWhile_le)

definition MAX_NAME_LENGTH :: nat where
  "MAX_NAME_LENGTH = 120"

text \<open>The characters \<open>/ \ : * ? " < > |\<close> and NUL, by their codes.\<close>

definition unsafe_codes :: "nat list" where
  "unsafe_codes = [47, 92, 58, 42, 63, 34, 60, 62, 124, 0]"

definition is_unsafe :: "string \<Rightarrow> bool" where
  "is_unsafe k = (case map of_char k of [a] \<Rightarrow> a \<in> set unsafe_codes | _ \<Rightarrow> False)"

text \<open>Below the space, and from U+007F to U+009F.\<close>

definition is_control_char :: "string \<Rightarrow> bool" where
  "is_control_char k =
     (case map of_char k :: nat list of
        [a] \<Rightarrow> a < 32 \<or> a = 127
      | [a, b] \<Rightarrow> a = 0xC2 \<and> 128 \<le> b \<and> b < 160
      | _ \<Rightarrow> False)"

text \<open>U+200E, U+200F, U+202A to U+202E and U+2066 to U+2069.\<close>

definition is_bidi :: "string \<Rightarrow> bool" where
  "is_bidi k =
     (case map of_char k :: nat list of
        [a, b, c] \<Rightarrow>
          a = 0xE2 \<and> ((b = 0x80 \<and> (c = 0x8E \<or> c = 0x8F \<or> (0xAA \<le> c \<and> c \<le> 0xAE)))
                      \<or> (b = 0x81 \<and> 0xA6 \<le> c \<and> c \<le> 0xA9))
      | _ \<Rightarrow> False)"

definition clean_char :: "string \<Rightarrow> string" where
  "clean_char k = (if is_unsafe k then ''-'' else if is_control_char k \<or> is_bidi k then [] else k)"

definition dot_or_dash :: "char \<Rightarrow> bool" where
  "dot_or_dash c \<longleftrightarrow> c = CHR ''.'' \<or> c = CHR ''-''"

definition sanitize_component :: "string \<Rightarrow> string" where
  "sanitize_component name =
     (let out = concat (map clean_char (chars_of name));
          trimmed = trim (trim_matches dot_or_dash (trim out))
      in if trimmed = [] then ''Show''
         else if MAX_NAME_LENGTH < length (chars_of trimmed)
         then concat (take MAX_NAME_LENGTH (chars_of trimmed)) else trimmed)"

definition single_line_char :: "char \<Rightarrow> string" where
  "single_line_char c =
     (let n = (of_char c :: nat) in
      if n = 13 \<or> n = 10 then '' '' else if 32 \<le> n \<and> n \<noteq> 127 then [c] else [])"

definition sanitize_single_line :: "string \<Rightarrow> string" where
  "sanitize_single_line s = trim (concat (map single_line_char s))"

section \<open>Files\<close>

definition VIDEO_EXTENSIONS_library :: "string list" where
  "VIDEO_EXTENSIONS_library = [''mkv'', ''mp4'', ''avi'', ''webm'', ''m4v'']"

text \<open>\<open>Path::file_name\<close>: the last component; none for a path that ends in \<open>..\<close>.\<close>

definition components :: "string \<Rightarrow> string list" where
  "components p = filter (\<lambda>c. c \<noteq> [] \<and> c \<noteq> ''.'') (split_on (CHR ''/'') [] p)"

definition path_file_name :: "string \<Rightarrow> string option" where
  "path_file_name p =
     (case rev (components p) of [] \<Rightarrow> None | c # _ \<Rightarrow> if c = ''..'' then None else Some c)"

text \<open>\<open>Path::extension\<close> and \<open>Path::file_stem\<close>: the last dot splits, unless it is the first character.\<close>

definition split_name :: "string \<Rightarrow> string \<times> string option" where
  "split_name n =
     (let ext = rev (takeWhile (\<lambda>c. c \<noteq> CHR ''.'') (rev n));
          stem = take (length n - length ext - 1) n
      in if length ext = length n \<or> stem = [] then (n, None) else (stem, Some ext))"

definition path_extension :: "string \<Rightarrow> string option" where
  "path_extension p = Option.bind (path_file_name p) (\<lambda>n. snd (split_name n))"

definition path_file_stem :: "string \<Rightarrow> string option" where
  "path_file_stem p = map_option (\<lambda>n. fst (split_name n)) (path_file_name p)"

definition is_video_file :: "string \<Rightarrow> bool" where
  "is_video_file p =
     (case path_extension p of Some e \<Rightarrow> lower e \<in> set VIDEO_EXTENSIONS_library | None \<Rightarrow> False)"

section \<open>Texts\<close>

definition is_placeholder_synopsis :: "string \<Rightarrow> bool" where
  "is_placeholder_synopsis content =
     (let t = trim content in
      t = [] \<or> starts_with ''[Synopsis pending'' t \<or> starts_with ''[Synopsis unavailable'' t
      \<or> starts_with ''[Synopsis loading'' t)"

definition nl :: string where "nl = [char_of (10 :: nat)]"

definition quote :: string where "quote = [char_of (34 :: nat)]"

definition header_line :: "string \<Rightarrow> string \<Rightarrow> string" where
  "header_line label value = label @ '': '' @ value @ nl"

definition optional_line :: "string \<Rightarrow> string option \<Rightarrow> string" where
  "optional_line label value =
     (case value of Some v \<Rightarrow> if trim v \<noteq> [] then header_line label (sanitize_single_line v) else [] | None \<Rightarrow> [])"

record synopsis_fields =
  sy_title :: string
  sy_english_title :: "string option"
  sy_japanese_title :: "string option"
  sy_show_type :: string
  sy_episode_count :: "int option"
  sy_airing_status :: "string option"
  sy_airing_dates :: "string option"
  sy_mal_score :: "f64 option"
  sy_genres :: "string list"
  sy_synopsis_text :: "string option"
  sy_mal_id :: int
  sy_date_written :: string

text \<open>\<open>fixed2\<close> is \<open>{:.2}\<close>.\<close>

definition synopsis_header :: "(f64 \<Rightarrow> string) \<Rightarrow> synopsis_fields \<Rightarrow> string" where
  "synopsis_header fixed2 y =
     header_line ''Title'' (sanitize_single_line (sy_title y))
     @ optional_line ''English title'' (sy_english_title y)
     @ optional_line ''Japanese title'' (sy_japanese_title y)
     @ header_line ''Type'' (sanitize_single_line (sy_show_type y))
     @ header_line ''Episodes'' (case sy_episode_count y of Some n \<Rightarrow> show_int n | None \<Rightarrow> ''Unknown'')
     @ (case sy_airing_status y of Some s \<Rightarrow> header_line ''Status'' (sanitize_single_line s) | None \<Rightarrow> [])
     @ (case sy_airing_dates y of Some s \<Rightarrow> header_line ''Aired'' (sanitize_single_line s) | None \<Rightarrow> [])
     @ header_line ''MAL score'' (case sy_mal_score y of Some s \<Rightarrow> fixed2 s | None \<Rightarrow> ''N/A'')
     @ (if sy_genres y \<noteq> [] then header_line ''Genres'' (join_with '', '' (map sanitize_single_line (sy_genres y))) else [])
     @ header_line ''MAL URL'' (''https://myanimelist.net/anime/'' @ show_int (sy_mal_id y))
     @ header_line ''Date written'' (sanitize_single_line (sy_date_written y))"

definition synopsis_body :: "string option \<Rightarrow> string" where
  "synopsis_body text =
     ''Synopsis:'' @ nl
     @ (case text of
          Some t \<Rightarrow>
            if trim t \<noteq> [] then trim t @ nl
            else ''[Synopsis unavailable; will refresh when Jikan is reachable]'' @ nl
        | None \<Rightarrow> ''[Synopsis unavailable; will refresh when Jikan is reachable]'' @ nl)"

definition format_synopsis :: "(f64 \<Rightarrow> string) \<Rightarrow> synopsis_fields \<Rightarrow> string" where
  "format_synopsis fixed2 y = synopsis_header fixed2 y @ nl @ synopsis_body (sy_synopsis_text y)"

definition xml_line :: "string \<Rightarrow> string \<Rightarrow> string" where
  "xml_line tag value = ''  <'' @ tag @ ''>'' @ value @ ''</'' @ tag @ ''>'' @ nl"

definition format_nfo ::
  "(f64 \<Rightarrow> string) \<Rightarrow> string \<Rightarrow> string \<Rightarrow> string option \<Rightarrow> string \<Rightarrow> f64 option \<Rightarrow> int option \<Rightarrow> int \<Rightarrow> string" where
  "format_nfo fixed2 tag title original_title plot rating year mal_id =
     ''<?xml version='' @ quote @ ''1.0'' @ quote @ '' encoding='' @ quote @ ''UTF-8'' @ quote
     @ '' standalone='' @ quote @ ''yes'' @ quote @ ''?>'' @ nl
     @ ''<'' @ tag @ ''>'' @ nl
     @ xml_line ''title'' title
     @ xml_line ''originaltitle'' (case original_title of Some t \<Rightarrow> t | None \<Rightarrow> title)
     @ xml_line ''plot'' plot
     @ xml_line ''rating'' (case rating of Some r \<Rightarrow> fixed2 r | None \<Rightarrow> [])
     @ xml_line ''year'' (case year of Some y \<Rightarrow> show_int y | None \<Rightarrow> [])
     @ ''  <uniqueid type='' @ quote @ ''mal'' @ quote @ '' default='' @ quote @ ''true'' @ quote @ ''>''
     @ show_int mal_id @ ''</uniqueid>'' @ nl
     @ ''</'' @ tag @ ''>'' @ nl"

section \<open>Episode names\<close>

text \<open>\<open>str::replace\<close>: the matches from left to right, each one past the last.\<close>

function replace_all :: "string \<Rightarrow> string \<Rightarrow> string \<Rightarrow> string" where
  "replace_all pat to s =
     (if pat = [] \<or> s = [] then s
      else if starts_with pat s then to @ replace_all pat to (drop (length pat) s)
      else hd s # replace_all pat to (tl s))"
  by pat_completeness auto

termination replace_all
  by (relation "measure (\<lambda>(pat, to, s). length s)") auto

declare replace_all.simps [simp del]

definition pad2 :: "string \<Rightarrow> string" where
  "pad2 s = (if length s < 2 then ''0'' @ s else s)"

text \<open>\<open>shown\<close> is \<open>{}\<close> and \<open>shown41\<close> is \<open>{:04.1}\<close> of a number with a fraction.\<close>

definition format_episode_filename ::
  "(f64 \<Rightarrow> string) \<Rightarrow> (f64 \<Rightarrow> string) \<Rightarrow> string \<Rightarrow> string \<Rightarrow> int \<Rightarrow> f64 \<Rightarrow> int option \<Rightarrow> string \<Rightarrow> string" where
  "format_episode_filename shown shown41 pattern show_title season episode year ext =
     (let clean_title = sanitize_component show_title;
          year_str = (case year of Some y \<Rightarrow> show_int y | None \<Rightarrow> []);
          ext_str = lower (dropWhile (\<lambda>c. c = CHR ''.'') ext);
          whole = (frac episode = 0);
          ep_str = (if whole then show_int \<lfloor>episode\<rfloor> else shown episode);
          ep_pad = (if whole then pad2 (show_int \<lfloor>episode\<rfloor>) else shown41 episode);
          result =
            replace_all ''{ext}'' ext_str
              (replace_all ''{episode}'' ep_str
                (replace_all ''{episode:02}'' ep_pad
                  (replace_all ''{season}'' (show_int season)
                    (replace_all ''{season:02}'' (pad2 (show_int season))
                      (replace_all ''{year}'' year_str
                        (replace_all ''{title}'' clean_title pattern))))));
          expected_suffix = ''.'' @ ext_str
      in if ends_with expected_suffix result then result else result @ expected_suffix)"

section \<open>Facts\<close>

lemma chars_of_take: "chars_of (concat (take n (chars_of s))) = take n (chars_of s)"
proof (induction s arbitrary: n rule: chars_of.induct)
  case (2 c cs)
  show ?case
  proof (cases n)
    case (Suc m)
    show ?thesis
    proof (cases "(of_char c :: nat) < 128")
      case True
      then show ?thesis using 2(1) Suc by simp
    next
      case False
      let ?t = "takeWhile is_continuation cs" and ?d = "dropWhile is_continuation cs"
      let ?X = "concat (take m (chars_of ?d))"
      have "takeWhile is_continuation ?X = [] \<and> dropWhile is_continuation ?X = ?X"
      proof (cases "?d = [] \<or> m = 0")
        case False
        then obtain x xs m' where d: "?d = x # xs" and m: "m = Suc m'"
          by (metis list.exhaust not0_implies_Suc)
        have "\<not> is_continuation x" using hd_dropWhile [of is_continuation cs] d by simp
        then show ?thesis unfolding d m by simp
      next
        case True
        then show ?thesis by (cases m) (auto simp del: dropWhile_eq_Nil_conv)
      qed
      then have X: "takeWhile is_continuation ?X = []" "dropWhile is_continuation ?X = ?X" by simp_all
      have "\<And>x. x \<in> set ?t \<Longrightarrow> is_continuation x" by (blast dest: set_takeWhileD)
      then have "takeWhile is_continuation (?t @ ?X) = ?t" "dropWhile is_continuation (?t @ ?X) = ?X"
        by (simp_all add: takeWhile_append2 dropWhile_append2 X)
      moreover have "chars_of (c # cs) = (c # ?t) # chars_of ?d" using False by simp
      ultimately show ?thesis
        using 2(2) [OF False, of m] Suc False by (simp only: take_Suc_Cons concat.simps append_Cons chars_of.simps if_False)
    qed
  qed simp
qed simp

text \<open>What may stand in a name: no separator, nothing below the space, not the delete character.\<close>

definition safe_char :: "char \<Rightarrow> bool" where
  "safe_char c \<longleftrightarrow> \<not> is_unsafe [c] \<and> 32 \<le> (of_char c :: nat) \<and> (of_char c :: nat) \<noteq> 127"

lemma safe_high: "128 \<le> (of_char c :: nat) \<Longrightarrow> safe_char c"
  by (auto simp: safe_char_def is_unsafe_def unsafe_codes_def)

lemma clean_chars_safe: "c \<in> set (concat (map clean_char (chars_of s))) \<Longrightarrow> safe_char c"
proof (induction s rule: chars_of.induct)
  case (2 a s)
  have dash: "safe_char (CHR ''-'')" by (simp add: safe_char_def is_unsafe_def unsafe_codes_def)
  show ?case
  proof (cases "(of_char a :: nat) < 128")
    case True
    then have "c \<in> set (clean_char [a]) \<or> c \<in> set (concat (map clean_char (chars_of s)))"
      using 2(3) by simp
    moreover have "safe_char c" if "c \<in> set (clean_char [a])"
      using that dash by (auto simp: clean_char_def safe_char_def is_control_char_def split: if_splits)
    ultimately show ?thesis using 2(1) True by blast
  next
    case False
    let ?k = "a # takeWhile is_continuation s"
    have "safe_char x" if "x \<in> set ?k" for x
    proof -
      have "128 \<le> (of_char x :: nat)"
        using that False set_takeWhileD [of x is_continuation s] by (auto simp: is_continuation_def)
      then show ?thesis by (rule safe_high)
    qed
    moreover have "set (clean_char ?k) \<subseteq> {CHR ''-''} \<union> set ?k" by (auto simp: clean_char_def)
    ultimately have "safe_char c" if "c \<in> set (clean_char ?k)" using that dash by blast
    then show ?thesis using 2(2,3) False by auto
  qed
qed simp

lemma sanitize_component_cases:
  obtains (fallback) "sanitize_component name = ''Show''"
  | (cleaned) t n where "t \<noteq> []" "list_all safe_char t" "sanitize_component name = concat (take n (chars_of t))"
      "0 < n" "length (take n (chars_of t)) \<le> MAX_NAME_LENGTH"
proof -
  define t where "t = trim (trim_matches dot_or_dash (trim (concat (map clean_char (chars_of name)))))"
  have "set t \<subseteq> set (concat (map clean_char (chars_of name)))"
    unfolding t_def using set_trim set_trim_matches by (meson order_trans)
  then have safe: "list_all safe_char t" using clean_chars_safe by (auto simp: list_all_iff)
  have all: "concat (chars_of s) = s" for s by (induction s rule: chars_of.induct) simp_all
  show thesis
  proof (cases "t = []")
    case True
    then show thesis using fallback by (simp add: sanitize_component_def Let_def t_def)
  next
    case ne: False
    show thesis
    proof (cases "MAX_NAME_LENGTH < length (chars_of t)")
      case True
      then show thesis using cleaned [of t MAX_NAME_LENGTH] ne safe
        by (simp add: sanitize_component_def Let_def t_def [symmetric] MAX_NAME_LENGTH_def)
    next
      case False
      have "0 < length (chars_of t)" using ne by (cases t) simp_all
      then show thesis using cleaned [of t "length (chars_of t)"] ne safe all False
        by (simp add: sanitize_component_def Let_def t_def [symmetric])
    qed
  qed
qed

lemma set_replace_all: "set (replace_all pat to s) \<subseteq> set to \<union> set s"
proof (induction pat to s rule: replace_all.induct)
  case (1 pat to s)
  show ?case
  proof (cases "pat = [] \<or> s = []")
    case False
    have "set (drop (length pat) s) \<subseteq> set s" "set (tl s) \<subseteq> set s" "hd s \<in> set s"
      using False by (auto dest: in_set_dropD list.set_sel(2))
    then show ?thesis using 1 False by (auto simp: replace_all.simps [of pat to s])
  qed (auto simp: replace_all.simps)
qed

lemma sanitize_component_set: "c \<in> set (sanitize_component name) \<Longrightarrow> safe_char c"
proof (cases rule: sanitize_component_cases [of name])
  case fallback
  assume "c \<in> set (sanitize_component name)"
  with fallback show ?thesis by (auto simp: safe_char_def is_unsafe_def unsafe_codes_def)
next
  case (cleaned t n)
  assume c: "c \<in> set (sanitize_component name)"
  have "concat (chars_of s) = s" for s by (induction s rule: chars_of.induct) simp_all
  then have "set (sanitize_component name) \<subseteq> set t" unfolding cleaned(3)
    by (metis append_take_drop_id concat_append set_append sup_ge1)
  with c cleaned(2) show ?thesis by (auto simp: list_all_iff)
qed

lemma set_show_nat: "c \<in> set (show_nat n) \<Longrightarrow> 48 \<le> (of_char c :: nat) \<and> (of_char c :: nat) < 58"
proof (induction n rule: show_nat.induct)
  case (1 n)
  then show ?case
    by (subst (asm) show_nat.simps) (auto split: if_splits simp: take_bit_nat_eq_self)
qed

section \<open>Properties\<close>

text \<open>
  Names for the disk. \<open>sanitize_component\<close> turns any title into a name that is not
  empty, has at most 120 characters, and contains no character below the space and none of the
  separators, quotes, wildcards and marks \<open>" * / : < > ? \ |\<close> or the delete character (given by their codes).
\<close>

theorem sanitize_component_safe:
  "sanitize_component name \<noteq> [] \<and> length (chars_of (sanitize_component name)) \<le> 120 \<and>
   list_all (\<lambda>c. (of_char c :: nat) \<notin> {34, 42, 47, 58, 60, 62, 63, 92, 124, 127} \<and> 32 \<le> (of_char c :: nat))
     (sanitize_component name)"
proof (cases rule: sanitize_component_cases [of name])
  case fallback
  then show ?thesis by (simp add: MAX_NAME_LENGTH_def)
next
  case (cleaned t n)
  have "sanitize_component name \<noteq> []"
    using cleaned by (cases t; cases n) auto
  moreover have "list_all safe_char (sanitize_component name)"
    using sanitize_component_set [of _ name] by (auto simp: list_all_iff)
  then have "list_all (\<lambda>c. (of_char c :: nat) \<notin> {34, 42, 47, 58, 60, 62, 63, 92, 124, 127} \<and> 32 \<le> (of_char c :: nat))
     (sanitize_component name)"
    by (rule list.pred_mono_strong) (auto simp: safe_char_def is_unsafe_def unsafe_codes_def)
  ultimately show ?thesis
    using cleaned(5) unfolding cleaned(3) chars_of_take by (simp add: MAX_NAME_LENGTH_def)
qed

lemma chars_of_ascii: "list_all (\<lambda>c. (of_char c :: nat) < 128) s \<Longrightarrow> chars_of s = map (\<lambda>c. [c]) s"
  by (induction s) simp_all

definition plain_char :: "char \<Rightarrow> bool" where
  "plain_char c \<longleftrightarrow> 32 \<le> (of_char c :: nat) \<and> (of_char c :: nat) < 127 \<and> of_char c \<notin> set unsafe_codes"

lemma clean_plain: "list_all plain_char s \<Longrightarrow> concat (map clean_char (chars_of s)) = s"
proof -
  assume p: "list_all plain_char s"
  have "clean_char [c] = [c]" if "plain_char c" for c
    using that by (simp add: clean_char_def plain_char_def is_unsafe_def is_control_char_def is_bidi_def)
  then have "concat (map (\<lambda>c. clean_char [c]) s) = s" using p by (induction s) simp_all
  moreover have "chars_of s = map (\<lambda>c. [c]) s"
    by (rule chars_of_ascii, rule list.pred_mono_strong [OF p]) (simp add: plain_char_def)
  ultimately show ?thesis by (simp add: comp_def)
qed

text \<open>
  The trimming of a name can be got around. After the spaces \<open>sanitize_component\<close> strips
  dots and dashes once, and then spaces again; so a name between dashes and spaces
  comes out as it is, with the dots that were to be stripped: the title
  \<open>- .. -\<close> (or \<open>/ .. /\<close>) becomes the folder name \<open>..\<close>, the parent of the
  library, and \<open>- .x -\<close> a hidden folder.
\<close>

theorem sanitize_component_keeps_dots:
  assumes "list_all plain_char name" "name \<noteq> []" "hd name \<noteq> CHR '' ''" "last name \<noteq> CHR '' ''"
    and "length name \<le> 120"
  shows "sanitize_component (''- '' @ name @ '' -'') = name"
proof -
  have sp: "\<not> is_space c" if "plain_char c" "c \<noteq> CHR '' ''" for c
  proof -
    have "c = CHR '' ''" if "(of_char c :: nat) = 32"
    proof -
      have "char_of (32 :: nat) = CHR '' ''" by code_simp
      then show ?thesis using char_of_char [of c, where 'a = nat] that by simp
    qed
    then show ?thesis using that by (auto simp: is_space_def plain_char_def Let_def)
  qed
  obtain a as where n: "name = a # as" using assms(2) by (cases name) auto
  obtain bs b where m: "name = bs @ [b]" using assms(2) by (cases name rule: rev_cases) auto
  have ab: "\<not> is_space a" "\<not> is_space b" "plain_char a" "plain_char b"
  proof -
    have "plain_char (hd name)" "plain_char (last name)" using assms(1,2) by (simp_all add: list_all_iff)
    then show "\<not> is_space a" "\<not> is_space b" "plain_char a" "plain_char b"
      using sp assms(3,4) n m by (metis list.sel(1) last_snoc)+
  qed
  let ?w = "''- '' @ name @ '' -''"
  have w: "list_all plain_char ?w" using assms(1) by (simp add: plain_char_def unsafe_codes_def)
  have "trim ?w = ?w" by (simp add: trim_def is_space_def)
  moreover have "trim_matches dot_or_dash ?w = '' '' @ name @ '' ''"
    by (simp add: trim_matches_def dot_or_dash_def)
  moreover have "trim ('' '' @ name @ '' '') = name"
  proof -
    have "dropWhile is_space ('' '' @ name @ '' '') = name @ '' ''"
      using ab n by (simp add: is_space_def)
    moreover have "dropWhile is_space (rev (name @ '' '')) = rev name"
      using ab by (simp add: m is_space_def)
    ultimately show ?thesis by (simp add: trim_def)
  qed
  moreover have "chars_of name = map (\<lambda>c. [c]) name"
    by (rule chars_of_ascii, rule list.pred_mono_strong [OF assms(1)]) (simp add: plain_char_def)
  ultimately show ?thesis
    using clean_plain [OF w] assms(2,5) by (simp add: sanitize_component_def Let_def MAX_NAME_LENGTH_def)
qed

theorem sanitize_component_keeps_dots_witness: "sanitize_component ''- .. -'' = ''..''"
  using sanitize_component_keeps_dots [of "''..''"] by (simp add: plain_char_def unsafe_codes_def)

lemma ascii_lower_below: "ascii_lower x = c \<Longrightarrow> (of_char c :: nat) < 65 \<Longrightarrow> x = c"
proof (cases "65 \<le> (of_char x :: nat) \<and> (of_char x :: nat) \<le> 90")
  case True
  then have "of_char (ascii_lower x) = (of_char x :: nat) + 32"
    by (simp add: ascii_lower_def Let_def take_bit_nat_eq_self)
  moreover assume "ascii_lower x = c" "(of_char c :: nat) < 65"
  ultimately show ?thesis using True by simp
qed (simp add: ascii_lower_def Let_def)

lemma suffix_not_special:
  assumes "c \<noteq> CHR ''.''" "ends_with (''.'' @ c # cs) r"
  shows "r \<notin> {''.'', ''..''}"
proof -
  have "take (length cs + 2) (rev r) = rev cs @ [c, CHR ''.'']"
    using assms(2) by (simp add: ends_with_def starts_with_def)
  then have "c \<in> set r" by (metis in_set_conv_decomp in_set_takeD set_rev append_Cons)
  with assms(1) show ?thesis by auto
qed

lemma ends_with_suffixed: "ends_with p (if ends_with p r then r else r @ p)"
  by (simp add: ends_with_def)

text \<open>
  An episode's file name is one component. If the pattern, the extension and the
  printed numbers have no separator, then whatever the title of the show is the name has none
  either, it ends in the extension, and it is none of the special names \<open>.\<close>
  and \<open>..\<close>.
\<close>

theorem episode_filename_one_component:
  assumes "CHR ''/'' \<notin> set pattern" "CHR ''/'' \<notin> set ext" "\<forall>x. CHR ''/'' \<notin> set (shown x) \<union> set (shown41 x)"
    and "ext \<noteq> []" "hd ext \<noteq> CHR ''.''"
  shows "CHR ''/'' \<notin> set (format_episode_filename shown shown41 pattern title season episode year ext) \<and>
    ends_with (''.'' @ lower ext) (format_episode_filename shown shown41 pattern title season episode year ext) \<and>
    format_episode_filename shown shown41 pattern title season episode year ext \<notin> {''.'', ''..''}"
proof -
  let ?r = "format_episode_filename shown shown41 pattern title season episode year ext"
  have num: "CHR ''/'' \<notin> set (show_nat n)" for n using set_show_nat [of "CHR ''/''" n] by auto
  have int: "CHR ''/'' \<notin> set (show_int i)" for i using num by (simp add: show_int_def)
  have title: "CHR ''/'' \<notin> set (sanitize_component title)"
    using sanitize_component_set [of "CHR ''/''" title] by (auto simp: safe_char_def is_unsafe_def unsafe_codes_def)
  have low: "CHR ''/'' \<notin> set (lower s)" if "CHR ''/'' \<notin> set s" for s
  proof -
    have "x = CHR ''/''" if "ascii_lower x = CHR ''/''" for x
      using that ascii_lower_below [of x "CHR ''/''"] by simp
    then show ?thesis using that by (force simp: lower_def)
  qed
  have ext: "dropWhile (\<lambda>c. c = CHR ''.'') ext = ext" using assms(4,5) by (cases ext) simp_all
  have pad: "CHR ''/'' \<notin> set (pad2 (show_int i))" for i using int by (simp add: pad2_def)
  have "CHR ''/'' \<notin> set ?r"
    using assms(1,2,3) int pad title low
    by (auto simp: format_episode_filename_def ext Let_def split: option.split
        dest!: set_replace_all [THEN subsetD])
  moreover have e: "ends_with (''.'' @ lower ext) ?r"
    unfolding format_episode_filename_def ext Let_def by (rule ends_with_suffixed)
  moreover have "?r \<notin> {''.'', ''..''}"
  proof -
    obtain x xs where x: "ext = x # xs" "x \<noteq> CHR ''.''" using assms(4,5) by (cases ext) auto
    then have "ascii_lower x \<noteq> CHR ''.''" using ascii_lower_below [of x "CHR ''.''"] by auto
    with e show ?thesis using suffix_not_special [of "ascii_lower x" "lower xs" ?r] x(1) by (auto simp: lower_def)
  qed
  ultimately show ?thesis by blast
qed

theorem episode_filename_one_component_witness:
  "ends_with ''.mkv'' (format_episode_filename (\<lambda>_. ''1.5'') (\<lambda>_. ''01.5'') ''{title}.{ext}'' ''../x'' 1 2 None ''mkv'')"
  using episode_filename_one_component [of "''{title}.{ext}''" "''mkv''" "\<lambda>_. ''1.5''" "\<lambda>_. ''01.5''" "''../x''" 1 2 None]
  by (simp add: lower_def ascii_lower_def Let_def)

lemma single_line_no_newline: "CHR 0x0A \<notin> set (sanitize_single_line s)"
proof -
  have "CHR 0x0A \<notin> set (single_line_char c)" for c
    by (auto simp: single_line_char_def Let_def)
  then have "CHR 0x0A \<notin> set (concat (map single_line_char s))" by simp
  then show ?thesis using set_trim unfolding sanitize_single_line_def by blast
qed

text \<open>
  A header: its lines as pairs of a label and a value without newline, whose labels
  come from a list in its order.
\<close>

definition header_of :: "string list \<Rightarrow> string \<Rightarrow> bool" where
  "header_of labels s \<longleftrightarrow>
     (\<exists>vs. s = concat (map (\<lambda>(l, v). header_line l v) vs) \<and> subseq (map fst vs) labels \<and>
        list_all (\<lambda>(l, v). CHR 0x0A \<notin> set v) vs)"

lemma header_of_skip: "header_of ls s \<Longrightarrow> header_of (l # ls) s"
  unfolding header_of_def by (blast intro: list_emb_Cons)

lemma header_of_line:
  "CHR 0x0A \<notin> set v \<Longrightarrow> header_of ls s \<Longrightarrow> header_of (l # ls) (header_line l v @ s)"
  unfolding header_of_def
proof (elim exE conjE)
  fix vs
  assume "CHR 0x0A \<notin> set v" "s = concat (map (\<lambda>(l, v). header_line l v) vs)" "subseq (map fst vs) ls"
    "list_all (\<lambda>(l, v). CHR 0x0A \<notin> set v) vs"
  then show "\<exists>vs. header_line l v @ s = concat (map (\<lambda>(l, v). header_line l v) vs) \<and> subseq (map fst vs) (l # ls) \<and>
      list_all (\<lambda>(l, v). CHR 0x0A \<notin> set v) vs"
    by (intro exI [of _ "(l, v) # vs"]) simp
qed

lemma header_of_Nil: "header_of [] []"
  unfolding header_of_def by (intro exI [of _ "[]"]) simp

lemma header_of_last: "CHR 0x0A \<notin> set v \<Longrightarrow> header_of [l] (header_line l v)"
  using header_of_line [OF _ header_of_Nil, of v l] by simp

lemma header_of_field:
  assumes "header_of ls s"
  shows "header_of (l # ls) (optional_line l v @ s)"
    "header_of (l # ls) ((case v of Some x \<Rightarrow> header_line l (sanitize_single_line x) | None \<Rightarrow> []) @ s)"
proof -
  have line: "header_of (l # ls) (header_line l (sanitize_single_line x) @ s)" for x
    by (rule header_of_line) (rule single_line_no_newline, rule assms)
  have skip: "header_of (l # ls) s" by (rule header_of_skip) (rule assms)
  show "header_of (l # ls) (optional_line l v @ s)"
    using line skip by (cases v) (simp_all add: optional_line_def)
  show "header_of (l # ls) ((case v of Some x \<Rightarrow> header_line l (sanitize_single_line x) | None \<Rightarrow> []) @ s)"
    using line skip by (cases v) simp_all
qed

lemma header_of_when:
  "CHR 0x0A \<notin> set v \<Longrightarrow> header_of ls s \<Longrightarrow> header_of (l # ls) ((if c then header_line l v else []) @ s)"
  by (simp add: header_of_skip header_of_line)

lemma join_no_newline:
  "CHR 0x0A \<notin> set sep \<Longrightarrow> \<forall>x\<in>set xs. CHR 0x0A \<notin> set x \<Longrightarrow> CHR 0x0A \<notin> set (join_with sep xs)"
  by (induction sep xs rule: join_with.induct) auto

definition header_labels :: "string list" where
  "header_labels = [''Title'', ''English title'', ''Japanese title'', ''Type'', ''Episodes'', ''Status'', ''Aired'',
     ''MAL score'', ''Genres'', ''MAL URL'', ''Date written'']"

text \<open>
  No field forges a line. Whatever the titles, the genres, the status and the dates
  contain (they come from the network), the header of \<open>synopsis.txt\<close> is a row of lines \<open>label: value\<close> with the
  labels of the format, each at most once and in their order, and no value has a
  newline; so a title with newlines in it cannot add or replace a line.
\<close>

theorem synopsis_header_lines:
  assumes "\<forall>x. CHR 0x0A \<notin> set (fixed2 x)"
  shows "\<exists>vs. synopsis_header fixed2 y = concat (map (\<lambda>(l, v). header_line l v) vs) \<and>
    subseq (map fst vs) header_labels \<and> list_all (\<lambda>(l, v). CHR 0x0A \<notin> set v) vs"
proof -
  have nat: "CHR 0x0A \<notin> set (show_nat n)" for n using set_show_nat [of "CHR 0x0A" n] by auto
  then have int: "CHR 0x0A \<notin> set (show_int i)" for i by (simp add: show_int_def)
  have genres: "CHR 0x0A \<notin> set (join_with '', '' (map sanitize_single_line gs))" for gs
    by (rule join_no_newline) (simp_all add: single_line_no_newline)
  have "header_of header_labels (synopsis_header fixed2 y)"
    unfolding header_labels_def synopsis_header_def
    by (intro header_of_line header_of_field header_of_when header_of_last single_line_no_newline genres)
      (use assms int in \<open>simp_all split: option.split\<close>)
  then show ?thesis unfolding header_of_def .
qed

theorem synopsis_header_lines_witness:
  "\<exists>vs. synopsis_header (\<lambda>_. ''9.00'') \<lparr> sy_title = ''A'' @ nl @ ''MAL URL: x'', sy_english_title = None, sy_japanese_title = None,
      sy_show_type = ''tv'', sy_episode_count = None, sy_airing_status = None, sy_airing_dates = None,
      sy_mal_score = None, sy_genres = [], sy_synopsis_text = None, sy_mal_id = 5, sy_date_written = ''today'' \<rparr> =
    concat (map (\<lambda>(l, v). header_line l v) vs) \<and> subseq (map fst vs) header_labels \<and> list_all (\<lambda>(l, v). CHR 0x0A \<notin> set v) vs"
  by (rule synopsis_header_lines) simp

end
