(* ===== verification/Files.thy ===== *)
theory Files
  imports Formatting Engine
begin

text \<open>
  The part of a Unix file system that \<open>library/\<close> and \<open>locations.rs\<close> use: directories,
  and files that share an inode when they are hard links. A path is the string of
  the source; \<open>locate\<close> resolves its \<open>.\<close> and \<open>..\<close> (there are no symbolic links, and
  relative paths start at the root). The nodes are listed in the order in which a
  directory is read. Every call that changes the disk may be refused: \<open>fs_ok\<close> says which are
  not (other device, permission, full disk). Permissions of the files are not modelled.
\<close>

named_theorems files_simps \<open>unfolding rules of the file system\<close>

section \<open>Paths\<close>

type_synonym loc = "string list"

definition climb :: "loc \<Rightarrow> string \<Rightarrow> loc" where
  "climb l c = (if c = ''..'' then butlast l else l @ [c])"

definition locate :: "string \<Rightarrow> loc" where
  "locate p = foldl climb [] (components p)"

text \<open>\<open>Path\<close> compares, and is a prefix, component by component.\<close>

definition same_path :: "string \<Rightarrow> string \<Rightarrow> bool" where
  "same_path a b \<longleftrightarrow> starts_with ''/'' a = starts_with ''/'' b \<and> components a = components b"

definition is_absolute :: "string \<Rightarrow> bool" where
  "is_absolute p \<longleftrightarrow> starts_with ''/'' p"

definition path_starts_with :: "loc \<Rightarrow> loc \<Rightarrow> bool" where
  "path_starts_with p base \<longleftrightarrow> take (length base) p = base"

text \<open>\<open>Path::parent\<close>: the path without its last component, none for the root and the empty path.\<close>

definition path_parent :: "string \<Rightarrow> string option" where
  "path_parent p =
     (case components p of
        [] \<Rightarrow> None
      | cs \<Rightarrow> Some ((if starts_with ''/'' p then ''/'' else []) @ join_with ''/'' (butlast cs)))"

section \<open>The disk\<close>

datatype node = Dir | File nat

record fs =
  fs_nodes :: "(loc \<times> node) list"
  fs_data :: "nat \<Rightarrow> string"
  fs_next :: nat

datatype fs_call =
    Call_mkdir loc
  | Call_write loc
  | Call_link loc loc
  | Call_rename loc loc
  | Call_copy loc loc
  | Call_remove loc
  | Call_rmdir loc

type_synonym disk = "fs_call \<Rightarrow> bool"

type_synonym 'a on_disk = "(fs, error, 'a) act"

definition node_at :: "loc \<Rightarrow> fs \<Rightarrow> node option" where
  "node_at l f = (if l = [] then Some Dir else map_of (fs_nodes f) l)"

definition exists_at :: "string \<Rightarrow> fs \<Rightarrow> bool" where
  "exists_at p f \<longleftrightarrow> node_at (locate p) f \<noteq> None"

definition is_dir_at :: "string \<Rightarrow> fs \<Rightarrow> bool" where
  "is_dir_at p f \<longleftrightarrow> node_at (locate p) f = Some Dir"

definition is_file_at :: "string \<Rightarrow> fs \<Rightarrow> bool" where
  "is_file_at p f = (case node_at (locate p) f of Some (File i) \<Rightarrow> True | _ \<Rightarrow> False)"

definition content_at :: "loc \<Rightarrow> fs \<Rightarrow> string option" where
  "content_at l f = (case node_at l f of Some (File i) \<Rightarrow> Some (fs_data f i) | _ \<Rightarrow> None)"

definition same_inode :: "loc \<Rightarrow> loc \<Rightarrow> fs \<Rightarrow> bool" where
  "same_inode a b f \<longleftrightarrow> node_at a f \<noteq> None \<and> node_at a f = node_at b f \<and> node_at a f \<noteq> Some Dir"

definition children :: "loc \<Rightarrow> fs \<Rightarrow> string list" where
  "children l f = map (last \<circ> fst) (filter (\<lambda>e. fst e \<noteq> [] \<and> butlast (fst e) = l) (fs_nodes f))"

definition put_node :: "loc \<Rightarrow> node \<Rightarrow> fs \<Rightarrow> fs" where
  "put_node l n f =
     f\<lparr>fs_nodes := (if map_of (fs_nodes f) l = None then fs_nodes f @ [(l, n)]
                    else map (\<lambda>e. if fst e = l then (l, n) else e) (fs_nodes f))\<rparr>"

definition drop_node :: "loc \<Rightarrow> fs \<Rightarrow> fs" where
  "drop_node l f = f\<lparr>fs_nodes := filter (\<lambda>e. fst e \<noteq> l) (fs_nodes f)\<rparr>"

definition put_data :: "nat \<Rightarrow> string \<Rightarrow> fs \<Rightarrow> fs" where
  "put_data i s f = f\<lparr>fs_data := (fs_data f)(i := s)\<rparr>"

definition new_file :: "loc \<Rightarrow> string \<Rightarrow> fs \<Rightarrow> fs" where
  "new_file l s f = put_node l (File (fs_next f)) (put_data (fs_next f) s f)\<lparr>fs_next := fs_next f + 1\<rparr>"

section \<open>Calls\<close>

definition refused :: "'a on_disk" where
  "refused = throw (Io ''refused'')"

text \<open>\<open>fs::create_dir_all\<close>\<close>

fun make_dirs :: "disk \<Rightarrow> loc list \<Rightarrow> unit on_disk" where
  "make_dirs d [] = ret ()"
| "make_dirs d (l # ls) =
     (\<lambda>f. case node_at l f of
        Some Dir \<Rightarrow> make_dirs d ls f
      | Some (File i) \<Rightarrow> refused f
      | None \<Rightarrow> if d (Call_mkdir l) then make_dirs d ls (put_node l Dir f) else refused f)"

definition create_dir_all :: "disk \<Rightarrow> string \<Rightarrow> unit on_disk" where
  "create_dir_all d p = make_dirs d (map (\<lambda>n. take n (locate p)) [1..<length (locate p) + 1])"

definition parent_ready :: "loc \<Rightarrow> fs \<Rightarrow> bool" where
  "parent_ready l f \<longleftrightarrow> l \<noteq> [] \<and> node_at (butlast l) f = Some Dir"

text \<open>The write of \<open>s\<close> to an open file: through the inode when the file exists.\<close>

definition write_at :: "loc \<Rightarrow> string \<Rightarrow> unit on_disk" where
  "write_at l s =
     (\<lambda>f. case node_at l f of
        Some Dir \<Rightarrow> refused f
      | Some (File i) \<Rightarrow> (Inr (), put_data i s f)
      | None \<Rightarrow> if parent_ready l f then (Inr (), new_file l s f) else refused f)"

definition fs_write :: "disk \<Rightarrow> string \<Rightarrow> string \<Rightarrow> unit on_disk" where
  "fs_write d p s = (if d (Call_write (locate p)) then write_at (locate p) s else refused)"

definition fs_hard_link :: "disk \<Rightarrow> string \<Rightarrow> string \<Rightarrow> unit on_disk" where
  "fs_hard_link d a b =
     (let l = locate a; m = locate b in
      (\<lambda>f. case node_at l f of
         Some (File i) \<Rightarrow>
           if node_at m f = None \<and> parent_ready m f \<and> d (Call_link l m)
           then (Inr (), put_node m (File i) f) else refused f
       | _ \<Rightarrow> refused f))"

text \<open>\<open>fs::copy\<close> opens the target for writing, which empties it, before it reads.\<close>

definition fs_copy :: "disk \<Rightarrow> string \<Rightarrow> string \<Rightarrow> unit on_disk" where
  "fs_copy d a b =
     (let l = locate a; m = locate b in
      (\<lambda>f. case node_at l f of
         Some (File i) \<Rightarrow>
           if d (Call_copy l m)
           then write_at m (if node_at m f = Some (File i) then [] else fs_data f i) f
           else refused f
       | _ \<Rightarrow> refused f))"

text \<open>\<open>fs::rename\<close> of a file; two links of one inode are left alone, as POSIX has it.\<close>

definition fs_rename :: "disk \<Rightarrow> string \<Rightarrow> string \<Rightarrow> unit on_disk" where
  "fs_rename d a b =
     (let l = locate a; m = locate b in
      (\<lambda>f. case node_at l f of
         Some (File i) \<Rightarrow>
           if node_at m f = Some Dir \<or> \<not> parent_ready m f \<or> \<not> d (Call_rename l m) then refused f
           else if node_at m f = Some (File i) then (Inr (), f)
           else (Inr (), put_node m (File i) (drop_node l f))
       | _ \<Rightarrow> refused f))"

definition fs_remove_file :: "disk \<Rightarrow> string \<Rightarrow> unit on_disk" where
  "fs_remove_file d p =
     (\<lambda>f. case node_at (locate p) f of
        Some (File i) \<Rightarrow> if d (Call_remove (locate p)) then (Inr (), drop_node (locate p) f) else refused f
      | _ \<Rightarrow> refused f)"

text \<open>\<open>fs::remove_dir\<close> of an empty directory.\<close>

definition fs_remove_dir :: "disk \<Rightarrow> string \<Rightarrow> unit on_disk" where
  "fs_remove_dir d p =
     (let l = locate p in
      (\<lambda>f. if node_at l f = Some Dir \<and> l \<noteq> [] \<and> children l f = [] \<and> d (Call_rmdir l)
           then (Inr (), drop_node l f) else refused f))"

text \<open>\<open>let _ = \<dots>\<close>: the error is dropped.\<close>

definition ignore :: "'a on_disk \<Rightarrow> unit on_disk" where
  "ignore m = seq (attempt m) (\<lambda>_. ret ())"

section \<open>Moving a file into the library\<close>

definition create_parent :: "disk \<Rightarrow> string \<Rightarrow> unit on_disk" where
  "create_parent d p = (case path_parent p of Some q \<Rightarrow> create_dir_all d q | None \<Rightarrow> ret ())"

definition transfer_file :: "disk \<Rightarrow> string \<Rightarrow> string \<Rightarrow> move_mode \<Rightarrow> unit on_disk" where
  "transfer_file d source target mode =
     (if same_path source target then ret ()
      else
        seq (create_parent d target) (\<lambda>_.
        case mode of
          Hardlink \<Rightarrow>
            seq (attempt (fs_hard_link d source target)) (\<lambda>r.
            case r of Inr _ \<Rightarrow> ret () | Inl _ \<Rightarrow> fs_copy d source target)
        | Move \<Rightarrow>
            seq (attempt (fs_rename d source target)) (\<lambda>r.
            case r of
              Inr _ \<Rightarrow> ret ()
            | Inl _ \<Rightarrow> seq (fs_copy d source target) (\<lambda>_. ignore (fs_remove_file d source)))
        | Copy \<Rightarrow> fs_copy d source target))"

section \<open>Facts about the disk\<close>

text \<open>The next inode number is new.\<close>

definition well_formed :: "fs \<Rightarrow> bool" where
  "well_formed f \<longleftrightarrow>
     list_all (\<lambda>e. case snd e of Dir \<Rightarrow> True | File i \<Rightarrow> i < fs_next f) (fs_nodes f)"

lemma map_of_replace:
  "map_of (map (\<lambda>e. if fst e = l then (l, n) else e) xs) k =
     (if k = l \<and> map_of xs l \<noteq> None then Some n else map_of xs k)"
  by (induction xs) (auto split: if_splits)

lemma node_at_put_node [simp]:
  "node_at k (put_node l n f) = (if k = l \<and> l \<noteq> [] then Some n else node_at k f)"
  by (auto simp: node_at_def put_node_def map_of_replace map_add_def split: option.splits)

lemma map_of_drop: "map_of (filter (\<lambda>e. fst e \<noteq> l) xs) k = (if k = l then None else map_of xs k)"
  by (induction xs) auto

lemma node_at_drop_node [simp]:
  "node_at k (drop_node l f) = (if k = l \<and> l \<noteq> [] then None else node_at k f)"
  by (auto simp: node_at_def drop_node_def map_of_drop)

lemma node_at_put_data [simp]: "node_at k (put_data i s f) = node_at k f"
  by (simp add: node_at_def put_data_def)

lemma fs_data_simps [simp]:
  "fs_data (put_node l n f) = fs_data f"
  "fs_data (drop_node l f) = fs_data f"
  "fs_data (put_data i s f) = (fs_data f)(i := s)"
  by (simp_all add: put_node_def drop_node_def put_data_def)

lemma fs_next_simps [simp]:
  "fs_next (put_node l n f) = fs_next f"
  "fs_next (drop_node l f) = fs_next f"
  "fs_next (put_data i s f) = fs_next f"
  by (simp_all add: put_node_def drop_node_def put_data_def)

lemma node_at_next [simp]: "node_at k (f\<lparr>fs_next := n\<rparr>) = node_at k f"
  by (simp add: node_at_def)

lemma node_at_new_file [simp]:
  "node_at k (new_file l s f) = (if k = l \<and> l \<noteq> [] then Some (File (fs_next f)) else node_at k f)"
  by (simp add: new_file_def)

lemma fs_data_new_file [simp]: "fs_data (new_file l s f) = (fs_data f)(fs_next f := s)"
  by (simp add: new_file_def)

lemma node_at_Nil [simp]: "node_at [] f = Some Dir"
  by (simp add: node_at_def)

lemma content_at_File: "node_at l f = Some (File i) \<Longrightarrow> content_at l f = Some (fs_data f i)"
  by (simp add: content_at_def)

lemma node_at_fresh: "well_formed f \<Longrightarrow> node_at l f = Some (File i) \<Longrightarrow> i < fs_next f"
  by (auto simp: well_formed_def node_at_def list_all_iff split: if_splits node.splits dest!: map_of_SomeD)

text \<open>Creating directories adds directories and touches nothing else.\<close>

definition only_adds_dirs :: "fs \<Rightarrow> fs \<Rightarrow> bool" where
  "only_adds_dirs f g \<longleftrightarrow>
     (\<forall>k. node_at k g = node_at k f \<or> (node_at k f = None \<and> node_at k g = Some Dir))
     \<and> fs_data g = fs_data f \<and> fs_next g = fs_next f"

interpretation adding: evolution only_adds_dirs
  by unfold_locales (simp_all add: only_adds_dirs_def, metis)

lemma only_adds_dirs_refl [simp]: "only_adds_dirs f f"
  by (rule adding.evo_refl)

lemma make_dirs_adds: "only_adds_dirs f (snd (make_dirs d ls f))"
proof (induction ls arbitrary: f)
  case (Cons l ls)
  show ?case
  proof (cases "node_at l f")
    case None
    have "only_adds_dirs f (put_node l Dir f)"
      using None by (auto simp: only_adds_dirs_def)
    with None Cons.IH [of "put_node l Dir f"] show ?thesis
      by (auto simp: refused_def intro: adding.evo_trans)
  next
    case (Some n)
    with Cons.IH [of f] show ?thesis by (cases n) (auto simp: refused_def)
  qed
qed simp

lemma create_dir_all_adds: "evolves only_adds_dirs (create_dir_all d p)"
  by (simp add: evolves_def create_dir_all_def make_dirs_adds)

lemma create_parent_adds: "evolves only_adds_dirs (create_parent d p)"
  by (auto simp: create_parent_def intro: create_dir_all_adds adding.ev_ret split: option.split)

lemma adds_keeps_file:
  "only_adds_dirs f g \<Longrightarrow> node_at l f = Some (File i) \<Longrightarrow> node_at l g = Some (File i)"
  unfolding only_adds_dirs_def by (metis option.distinct(1))

lemma make_dirs_made:
  "make_dirs d ls f = (Inr (), g) \<Longrightarrow> l \<in> set ls \<Longrightarrow> node_at l g = Some Dir"
proof (induction ls arbitrary: f)
  case (Cons k ls)
  have kept: "node_at k h = Some Dir \<Longrightarrow> make_dirs d ls h = (Inr (), g) \<Longrightarrow> node_at k g = Some Dir" for h
    using make_dirs_adds [of h d ls] unfolding only_adds_dirs_def by (metis option.distinct(1) snd_conv)
  show ?case
  proof (cases "node_at k f")
    case None
    then have run: "make_dirs d ls (put_node k Dir f) = (Inr (), g)"
      using Cons.prems(1) by (auto simp: refused_def split: if_splits)
    moreover have "k \<noteq> []" using None by auto
    ultimately show ?thesis using kept [OF _ run] Cons.IH [OF run] Cons.prems(2) by auto
  next
    case (Some n)
    then have "n = Dir" and run: "make_dirs d ls f = (Inr (), g)"
      using Cons.prems(1) by (auto simp: refused_def split: node.splits)
    with Some show ?thesis using kept [OF _ run] Cons.IH [OF run] Cons.prems(2) by auto
  qed
qed simp

lemma create_dir_all_made: "create_dir_all d p f = (Inr (), g) \<Longrightarrow> is_dir_at p g"
proof (cases "locate p = []")
  case False
  assume run: "create_dir_all d p f = (Inr (), g)"
  from False have "locate p \<in> set (map (\<lambda>n. take n (locate p)) [1..<length (locate p) + 1])"
    by (auto intro!: image_eqI [of _ _ "length (locate p)"] simp: Suc_le_eq)
  with run show ?thesis
    unfolding create_dir_all_def is_dir_at_def by (rule make_dirs_made)
qed (simp add: is_dir_at_def)

section \<open>Paths and their components\<close>

definition is_name :: "string \<Rightarrow> bool" where
  "is_name c \<longleftrightarrow> c \<noteq> [] \<and> c \<noteq> ''.'' \<and> c \<noteq> ''..'' \<and> CHR ''/'' \<notin> set c"

lemma split_on_append: "split_on c acc (a @ c # b) = split_on c acc a @ split_on c [] b"
  by (induction c acc a rule: split_on.induct) auto

lemma split_on_none: "c \<notin> set s \<Longrightarrow> split_on c acc s = [acc @ s]"
  by (induction c acc s rule: split_on.induct) auto

lemma split_on_parts: "c \<notin> set acc \<Longrightarrow> x \<in> set (split_on c acc s) \<Longrightarrow> c \<notin> set x"
  by (induction c acc s rule: split_on.induct) (auto split: if_splits)

lemma components_append: "components (a @ CHR ''/'' # b) = components a @ components b"
  by (simp add: components_def split_on_append)

lemma components_Nil [simp]: "components [] = []"
  by (simp add: components_def)

lemma components_slash [simp]: "components (CHR ''/'' # s) = components s"
  using components_append [of "[]" s] by simp

lemma components_single:
  "c \<noteq> [] \<Longrightarrow> c \<noteq> ''.'' \<Longrightarrow> CHR ''/'' \<notin> set c \<Longrightarrow> components c = [c]"
  by (simp add: components_def split_on_none)

lemma components_name: "is_name c \<Longrightarrow> components c = [c]"
  by (simp add: is_name_def components_single)

lemma components_parts: "c \<in> set (components p) \<Longrightarrow> c \<noteq> [] \<and> c \<noteq> ''.'' \<and> CHR ''/'' \<notin> set c"
  using split_on_parts [of "CHR ''/''" "[]" c p] by (auto simp: components_def)

lemma components_join_with:
  "(\<And>c. c \<in> set cs \<Longrightarrow> c \<noteq> [] \<and> c \<noteq> ''.'' \<and> CHR ''/'' \<notin> set c) \<Longrightarrow>
   components (join_with ''/'' cs) = cs"
proof (induction cs rule: induct_list012)
  case (3 x y zs)
  have "components (x @ CHR ''/'' # join_with ''/'' (y # zs)) = [x] @ (y # zs)"
    using 3 by (simp only: components_append) (simp add: components_single)
  then show ?case by simp
qed (simp_all add: components_single)

lemma components_join_path:
  "\<not> starts_with ''/'' b \<Longrightarrow> components (join_path a b) = components a @ components b"
proof (cases a rule: rev_cases)
  case (snoc a' c)
  assume "\<not> starts_with ''/'' b"
  then show ?thesis
    using snoc components_append [of a' b] components_append [of a' "[]"] components_append [of a b]
    by (simp add: join_path_def)
qed (simp add: join_path_def)

lemma name_not_rooted: "is_name b \<Longrightarrow> \<not> starts_with ''/'' b"
  by (cases b) (auto simp: is_name_def starts_with_def)

lemma locate_join_name: "is_name n \<Longrightarrow> locate (join_path a n) = locate a @ [n]"
  by (simp add: locate_def components_join_path name_not_rooted components_name climb_def is_name_def)

lemma path_parent_components: "path_parent p = Some q \<Longrightarrow> components q = butlast (components p)"
proof -
  assume "path_parent p = Some q"
  then have q: "q = (if starts_with ''/'' p then ''/'' else []) @ join_with ''/'' (butlast (components p))"
    by (auto simp: path_parent_def split: list.splits)
  have "components (join_with ''/'' (butlast (components p))) = butlast (components p)"
    by (rule components_join_with) (meson components_parts in_set_butlastD)
  then show ?thesis by (simp add: q)
qed

lemma locate_parent:
  assumes "path_parent p = Some q" "last (components p) \<noteq> ''..''"
  shows "locate p = locate q @ [last (components p)]"
proof -
  have "components p \<noteq> []" using assms(1) by (auto simp: path_parent_def split: list.splits)
  then have "components p = components q @ [last (components p)]"
    using path_parent_components [OF assms(1)] by simp
  then show ?thesis using assms(2)
    by (metis climb_def foldl_Cons foldl_Nil foldl_append locate_def)
qed

lemma foldl_climb_plain: "''..'' \<notin> set cs \<Longrightarrow> foldl climb l cs = l @ cs"
  by (induction cs arbitrary: l) (auto simp: climb_def)

lemma locate_plain: "''..'' \<notin> set (components p) \<Longrightarrow> locate p = components p"
  by (simp add: locate_def foldl_climb_plain)

section \<open>What a transfer does\<close>

lemma write_at_fresh:
  "node_at m f = None \<Longrightarrow> write_at m s f = (r, g) \<Longrightarrow>
   (r = Inr () \<and> g = new_file m s f \<and> m \<noteq> []) \<or> (\<exists>e. r = Inl e \<and> g = f)"
  by (cases "m = []") (auto simp: write_at_def refused_def split: if_splits)

definition kept_but :: "loc set \<Rightarrow> fs \<Rightarrow> fs \<Rightarrow> bool" where
  "kept_but L f g \<longleftrightarrow>
     (\<forall>k. k \<notin> L \<longrightarrow> node_at k f \<noteq> None \<longrightarrow> node_at k g = node_at k f \<and> content_at k g = content_at k f)"

lemma kept_but_trans: "kept_but L f g \<Longrightarrow> kept_but L g h \<Longrightarrow> kept_but L f h"
  by (simp add: kept_but_def)

lemma kept_but_refl [simp]: "kept_but L f f"
  by (simp add: kept_but_def)

lemma kept_but_mono: "kept_but L f g \<Longrightarrow> L \<subseteq> M \<Longrightarrow> kept_but M f g"
  by (auto simp: kept_but_def)

lemma adds_keeps: "only_adds_dirs f g \<Longrightarrow> kept_but L f g"
  unfolding only_adds_dirs_def kept_but_def content_at_def by (metis option.distinct(1))

lemma below_next: "(\<And>k i. node_at k f = Some (File i) \<Longrightarrow> i < fs_next f) \<Longrightarrow> kept_but {m} f (new_file m s f)"
  unfolding kept_but_def content_at_def
  by (auto split: option.splits node.splits)

lemma adds_below:
  assumes "only_adds_dirs f g" "\<And>k i. node_at k f = Some (File i) \<Longrightarrow> i < fs_next f"
    and "node_at k g = Some (File i)"
  shows "i < fs_next g"
proof -
  have "node_at k g = node_at k f" using assms(1,3) unfolding only_adds_dirs_def by (metis node.distinct(1) option.inject)
  with assms show ?thesis by (simp add: only_adds_dirs_def)
qed

lemma fs_copy_fresh:
  assumes "node_at (locate a) f = Some (File i)" "node_at (locate b) f = None"
    and "fs_copy d a b f = (r, g)"
  shows "(r = Inr () \<and> g = new_file (locate b) (fs_data f i) f \<and> locate b \<noteq> []) \<or> (\<exists>e. r = Inl e \<and> g = f)"
  using assms write_at_fresh [OF assms(2)] by (auto simp: fs_copy_def Let_def refused_def split: if_splits)

lemma fs_copy_blocked:
  assumes "node_at (locate a) f = Some (File i)" "node_at (locate b) f = Some Dir"
    and "fs_copy d a b f = (r, g)"
  shows "\<exists>e. r = Inl e \<and> g = f"
  using assms by (auto simp: fs_copy_def write_at_def Let_def refused_def split: if_splits)

text \<open>The outcomes of a transfer after the parent folder is there.\<close>

definition delivered :: "move_mode \<Rightarrow> loc \<Rightarrow> loc \<Rightarrow> string \<Rightarrow> error + unit \<Rightarrow> fs \<Rightarrow> fs \<Rightarrow> bool" where
  "delivered mode l m s r f g \<longleftrightarrow>
     (r = Inr () \<longrightarrow> content_at m g = Some s)
     \<and> (mode \<noteq> Move \<or> r \<noteq> Inr () \<longrightarrow> content_at l g = Some s)
     \<and> kept_but {l, m} f g"

lemma kept_butI:
  assumes "\<And>k. k \<notin> L \<Longrightarrow> node_at k f \<noteq> None \<Longrightarrow> node_at k g = node_at k f"
    and "\<And>k i. node_at k f = Some (File i) \<Longrightarrow> fs_data g i = fs_data f i"
  shows "kept_but L f g"
  using assms by (auto simp: kept_but_def content_at_def split: option.splits node.splits)

lemma delivered_new_file:
  assumes "node_at l f = Some (File i)" "node_at m f = None" "m \<noteq> []"
    and "\<And>k i. node_at k f = Some (File i) \<Longrightarrow> i < fs_next f"
  shows "delivered mode l m (fs_data f i) (Inr ()) f (new_file m (fs_data f i) f)"
proof -
  have "l \<noteq> m" using assms by auto
  moreover have "node_at k f \<noteq> Some (File (fs_next f))" for k
    using assms(4) less_irrefl by blast
  then have "kept_but {l, m} f (new_file m (fs_data f i) f)"
    by (intro kept_butI) (auto split: if_splits)
  ultimately show ?thesis using assms(1,3) assms(4) [of l i] by (simp add: delivered_def content_at_def)
qed

lemma delivered_error:
  "node_at l f = Some (File i) \<Longrightarrow> delivered mode l m (fs_data f i) (Inl e) f f"
  by (simp add: delivered_def content_at_def)

lemma delivered_link:
  assumes "node_at l f = Some (File i)" "node_at m f = None" "m \<noteq> []"
  shows "delivered mode l m (fs_data f i) (Inr ()) f (put_node m (File i) f)"
    "delivered Move l m (fs_data f i) (Inr ()) f (put_node m (File i) (drop_node l f))"
  using assms by (auto simp: delivered_def content_at_def split: if_splits intro!: kept_butI)

lemma delivered_and_dropped:
  assumes "node_at l f = Some (File i)" "node_at m f = None" "m \<noteq> []"
    and "\<And>k i. node_at k f = Some (File i) \<Longrightarrow> i < fs_next f"
  shows "delivered Move l m (fs_data f i) (Inr ()) f (drop_node l (new_file m (fs_data f i) f))"
proof -
  have "l \<noteq> m" using assms by auto
  moreover have "node_at k f \<noteq> Some (File (fs_next f))" for k
    using assms(4) less_irrefl by blast
  then have "kept_but {l, m} f (drop_node l (new_file m (fs_data f i) f))"
    by (intro kept_butI) (auto split: if_splits)
  ultimately show ?thesis using assms(1,3) by (simp add: delivered_def content_at_def)
qed

lemma delivered_blocked:
  assumes "only_adds_dirs f g" "node_at l f = Some (File i)"
  shows "delivered mode l m (fs_data f i) (Inl e) f g"
  using assms adds_keeps [of f g "{l, m}"] adds_keeps_file [OF assms]
  by (simp add: delivered_def content_at_def only_adds_dirs_def)

lemma delivered_after:
  "only_adds_dirs f g \<Longrightarrow> node_at l f = Some (File i) \<Longrightarrow> delivered mode l m (fs_data g i) r g h \<Longrightarrow>
   delivered mode l m (fs_data f i) r f h"
  using adds_keeps [of f g "{l, m}"] kept_but_trans [of "{l, m}" f g h]
  by (auto simp: delivered_def only_adds_dirs_def)

definition move_into :: "disk \<Rightarrow> string \<Rightarrow> string \<Rightarrow> move_mode \<Rightarrow> unit on_disk" where
  "move_into d source target mode =
     (case mode of
        Hardlink \<Rightarrow>
          seq (attempt (fs_hard_link d source target)) (\<lambda>r.
          case r of Inr _ \<Rightarrow> ret () | Inl _ \<Rightarrow> fs_copy d source target)
      | Move \<Rightarrow>
          seq (attempt (fs_rename d source target)) (\<lambda>r.
          case r of
            Inr _ \<Rightarrow> ret ()
          | Inl _ \<Rightarrow> seq (fs_copy d source target) (\<lambda>_. ignore (fs_remove_file d source)))
      | Copy \<Rightarrow> fs_copy d source target)"

lemma transfer_file_alt:
  "transfer_file d source target mode =
     (if same_path source target then ret ()
      else seq (create_parent d target) (\<lambda>_. move_into d source target mode))"
  by (simp add: transfer_file_def move_into_def)

lemma move_into_fresh:
  assumes "node_at (locate source) f = Some (File i)" "node_at (locate target) f = None"
    and "\<And>k i. node_at k f = Some (File i) \<Longrightarrow> i < fs_next f"
    and "move_into d source target mode f = (r, g)"
  shows "delivered mode (locate source) (locate target) (fs_data f i) r f g"
proof -
  have "delivered mode (locate source) (locate target) (fs_data f i) r f g"
    if "fs_copy d source target f = (r, g)" "mode \<noteq> Move" for r g
    using fs_copy_fresh [OF assms(1,2) that(1)] delivered_new_file [OF assms(1,2) _ assms(3)]
      delivered_error [OF assms(1)] by auto
  moreover have "delivered Move (locate source) (locate target) (fs_data f i) r f g"
    if "seq (fs_copy d source target) (\<lambda>_. ignore (fs_remove_file d source)) f = (r, g)" for r g
  proof -
    obtain q h where c: "fs_copy d source target f = (q, h)" by fastforce
    have ne: "locate source \<noteq> locate target" using assms(1,2) by auto
    from fs_copy_fresh [OF assms(1,2) c] show ?thesis
      using that c ne delivered_error [OF assms(1), where mode = Move]
        delivered_new_file [OF assms(1,2) _ assms(3), where mode = Move] delivered_and_dropped [OF assms(1,2) _ assms(3)]
      by (auto simp: ignore_def fs_remove_file_def assms(1) refused_def split: if_splits)
  qed
  ultimately show ?thesis
    using assms(1,2,4) delivered_link [OF assms(1,2)]
    by (cases mode)
      (auto simp: move_into_def fs_hard_link_def fs_rename_def Let_def refused_def parent_ready_def split: if_splits)
qed

lemma move_into_dir:
  assumes "node_at (locate source) f = Some (File i)" "node_at (locate target) f = Some Dir"
  shows "\<exists>e. move_into d source target mode f = (Inl e, f)"
proof -
  obtain e where "fs_copy d source target f = (Inl e, f)"
    using fs_copy_blocked [OF assms] by (metis surj_pair)
  then show ?thesis using assms
    by (cases mode) (auto simp: move_into_def fs_hard_link_def fs_rename_def Let_def refused_def)
qed

lemma make_dirs_succeeds:
  "(\<And>c. d c) \<Longrightarrow> \<forall>l\<in>set ls. \<forall>i. node_at l f \<noteq> Some (File i) \<Longrightarrow> \<exists>g. make_dirs d ls f = (Inr (), g)"
proof (induction ls arbitrary: f)
  case (Cons l ls)
  then show ?case
  proof (cases "node_at l f")
    case None
    have "\<forall>k\<in>set ls. \<forall>i. node_at k (put_node l Dir f) \<noteq> Some (File i)" using Cons.prems by auto
    with None Cons show ?thesis by simp
  next
    case (Some n)
    with Cons show ?thesis by (cases n) auto
  qed
qed simp

lemma make_dirs_only:
  "make_dirs d ls f = (r, g) \<Longrightarrow> k \<notin> set ls \<Longrightarrow> node_at k g = node_at k f"
proof (induction ls arbitrary: f)
  case (Cons l ls)
  then show ?case by (auto simp: refused_def split: option.splits node.splits if_splits)
qed simp

lemma create_parent_ready:
  assumes "\<And>c. d c" "is_name (last (components p))" "components p \<noteq> []"
    and "\<forall>n<length (locate p). \<forall>i. node_at (take n (locate p)) f \<noteq> Some (File i)"
  shows "\<exists>g. create_parent d p f = (Inr (), g) \<and> parent_ready (locate p) g"
proof -
  obtain q where q: "path_parent p = Some q"
    using assms(3) by (cases "components p") (auto simp: path_parent_def)
  have l: "locate p = locate q @ [last (components p)]"
    using locate_parent [OF q] assms(2) by (simp add: is_name_def)
  have "\<forall>k\<in>set (map (\<lambda>n. take n (locate q)) [1..<length (locate q) + 1]). \<forall>i. node_at k f \<noteq> Some (File i)"
    using assms(4) by (auto simp: l)
  then obtain g where g: "create_dir_all d q f = (Inr (), g)"
    unfolding create_dir_all_def using make_dirs_succeeds [of d, OF assms(1)] by blast
  moreover have "parent_ready (locate p) g"
    using create_dir_all_made [OF g] by (simp add: parent_ready_def is_dir_at_def l)
  ultimately show ?thesis using q by (simp add: create_parent_def)
qed

lemma move_into_succeeds:
  assumes "\<And>c. d c" "node_at (locate source) f = Some (File i)" "node_at (locate target) f = None"
    and "parent_ready (locate target) f"
  shows "fst (move_into d source target mode f) = Inr ()"
proof -
  have "fst (fs_copy d source target f) = Inr ()"
    using assms by (simp add: fs_copy_def write_at_def Let_def)
  then show ?thesis
    using assms by (cases mode) (simp_all add: move_into_def fs_hard_link_def fs_rename_def Let_def)
qed

section \<open>Properties\<close>

text \<open>
  C7: filing loses no data. \<open>transfer_file\<close> of a file to a path that is free: when it
  returns Ok the target holds the bytes of the source; the source keeps them, except when a
  Move succeeded; every other file and folder is as it was, whichever calls the disk refused
  (a refused link or rename falls back to a copy). If nothing is refused, the target ends in a
  name and no file stands in place of one of its folders, it does return Ok.
\<close>

theorem transfer_file_delivers:
  assumes "well_formed f" "node_at (locate source) f = Some (File i)" "node_at (locate target) f = None"
    and "transfer_file d source target mode f = (r, g)"
  shows "(r = Inr () \<longrightarrow> content_at (locate target) g = content_at (locate source) f)
    \<and> (mode \<noteq> Move \<or> r \<noteq> Inr () \<longrightarrow> content_at (locate source) g = content_at (locate source) f)
    \<and> (\<forall>k. k \<noteq> locate source \<longrightarrow> k \<noteq> locate target \<longrightarrow> node_at k f \<noteq> None \<longrightarrow>
         node_at k g = node_at k f \<and> content_at k g = content_at k f)
    \<and> ((\<forall>c. d c) \<and> is_name (last (components target)) \<and> components target \<noteq> []
         \<and> (\<forall>n<length (locate target). \<forall>i. node_at (take n (locate target)) f \<noteq> Some (File i)) \<longrightarrow> r = Inr ())"
proof -
  have "\<not> same_path source target" using assms(2,3) by (auto simp: same_path_def locate_def)
  with assms(4) have run: "seq (create_parent d target) (\<lambda>_. move_into d source target mode) f = (r, g)"
    by (simp add: transfer_file_alt)
  obtain q h where p: "create_parent d target f = (q, h)" by fastforce
  then have adds: "only_adds_dirs f h" using evolvesD [OF create_parent_adds, of f d target] by simp
  have below: "node_at k h = Some (File j) \<Longrightarrow> j < fs_next h" for k j
    using adds_below [OF adds] node_at_fresh [OF assms(1)] by blast
  have src: "node_at (locate source) h = Some (File i)" by (rule adds_keeps_file [OF adds assms(2)])
  have tgt: "node_at (locate target) h = None \<or> node_at (locate target) h = Some Dir"
    using adds assms(3) unfolding only_adds_dirs_def by metis
  have "delivered mode (locate source) (locate target) (fs_data f i) r f g"
  proof (cases q)
    case (Inl e)
    then show ?thesis using run p delivered_blocked [OF adds assms(2)] by auto
  next
    case (Inr u)
    then have m: "move_into d source target mode h = (r, g)" using run p by simp
    from tgt show ?thesis
    proof
      assume "node_at (locate target) h = None"
      from move_into_fresh [OF src this below m] show ?thesis by (rule delivered_after [OF adds assms(2)])
    next
      assume "node_at (locate target) h = Some Dir"
      from move_into_dir [OF src this, of d mode] show ?thesis
        using m delivered_blocked [OF adds assms(2)] by auto
    qed
  qed
  moreover have "r = Inr ()"
    if ok: "\<forall>c. d c" "is_name (last (components target))" "components target \<noteq> []"
      "\<forall>n<length (locate target). \<forall>i. node_at (take n (locate target)) f \<noteq> Some (File i)"
  proof -
    obtain h' where "create_parent d target f = (Inr (), h')" "parent_ready (locate target) h'"
      using create_parent_ready [of d target f] ok by blast
    moreover have "node_at (locate target) h \<noteq> Some Dir"
    proof -
      obtain t where t: "path_parent target = Some t"
        using ok(3) by (cases "components target") (auto simp: path_parent_def)
      have "locate target = locate t @ [last (components target)]"
        using locate_parent [OF t] ok(2) by (simp add: is_name_def)
      then have "locate target \<notin> set (map (\<lambda>n. take n (locate t)) [1..<length (locate t) + 1])"
        by (auto dest: arg_cong [where f = length])
      moreover have "make_dirs d (map (\<lambda>n. take n (locate t)) [1..<length (locate t) + 1]) f = (q, h)"
        using p t by (simp only: create_parent_def create_dir_all_def option.case)
      ultimately have "node_at (locate target) h = node_at (locate target) f" using make_dirs_only by blast
      then show ?thesis using assms(3) by simp
    qed
    ultimately show ?thesis
      using run p tgt move_into_succeeds [OF _ src, of d target mode] ok(1) by (auto split: prod.splits)
  qed
  ultimately show ?thesis
    using assms(2) by (auto simp: delivered_def kept_but_def content_at_def)
qed

definition demo_fs :: fs where
  "demo_fs = \<lparr> fs_nodes = [([''dl''], Dir), ([''dl'', ''x.mkv''], File 0), ([''lib''], Dir)],
     fs_data = (\<lambda>_. ''abc''), fs_next = 1 \<rparr>"

theorem transfer_file_delivers_witness:
  "content_at [''lib'', ''A'', ''1.mkv''] (snd (transfer_file (\<lambda>_. True) ''/dl/x.mkv'' ''/lib/A/1.mkv'' Copy demo_fs)) = Some ''abc''"
proof -
  obtain r g where run: "transfer_file (\<lambda>_. True) ''/dl/x.mkv'' ''/lib/A/1.mkv'' Copy demo_fs = (r, g)" by fastforce
  have l: "components ''/dl/x.mkv'' = [''dl'', ''x.mkv'']" "components ''/lib/A/1.mkv'' = [''lib'', ''A'', ''1.mkv'']"
    "locate ''/dl/x.mkv'' = [''dl'', ''x.mkv'']" "locate ''/lib/A/1.mkv'' = [''lib'', ''A'', ''1.mkv'']"
    by (simp_all add: locate_def components_def climb_def)
  have w: "well_formed demo_fs" by (simp add: well_formed_def demo_fs_def)
  have n: "node_at (locate ''/dl/x.mkv'') demo_fs = Some (File 0)" "node_at (locate ''/lib/A/1.mkv'') demo_fs = None"
    "\<forall>n<length (locate ''/lib/A/1.mkv''). \<forall>i. node_at (take n (locate ''/lib/A/1.mkv'')) demo_fs \<noteq> Some (File i)"
    "content_at (locate ''/dl/x.mkv'') demo_fs = Some ''abc''"
    by (simp_all add: l node_at_def content_at_def demo_fs_def less_Suc_eq numeral_3_eq_3)
  have "is_name (last (components ''/lib/A/1.mkv''))" by (simp only: l) (simp add: is_name_def)
  then have "r = Inr ()" using transfer_file_delivers [OF w n(1,2) run] n(3) l(2) by simp
  then have "content_at (locate ''/lib/A/1.mkv'') g = Some ''abc''"
    using transfer_file_delivers [OF w n(1,2) run] n(4) by simp
  then show ?thesis by (simp only: l run snd_conv)
qed

text \<open>
  C36: filing a second time destroys the file. When the target already is a hard link of the source,
  as after a step that was interrupted behind the transfer, \<open>hard_link\<close> fails because the
  name is taken, and the fallback \<open>fs::copy\<close> opens, and so empties, the one inode behind
  both names: the call returns Ok and neither name holds a byte.
\<close>

theorem transfer_file_twice_empties:
  assumes "node_at (locate source) f = Some (File i)" "node_at (locate target) f = Some (File i)"
    and "\<not> same_path source target" "fst (create_parent d target f) = Inr ()"
    and "d (Call_copy (locate source) (locate target))"
  shows "\<exists>g. transfer_file d source target Hardlink f = (Inr (), g) \<and>
    content_at (locate source) g = Some [] \<and> content_at (locate target) g = Some []"
proof -
  obtain h where p: "create_parent d target f = (Inr (), h)" using assms(4) by (metis prod.collapse)
  then have adds: "only_adds_dirs f h" using evolvesD [OF create_parent_adds, of f d target] by simp
  have n: "node_at (locate source) h = Some (File i)" "node_at (locate target) h = Some (File i)"
    using adds_keeps_file [OF adds] assms(1,2) by blast+
  then have "move_into d source target Hardlink h = (Inr (), put_data i [] h)"
    using assms(5) by (simp add: move_into_def fs_hard_link_def fs_copy_def write_at_def Let_def refused_def)
  then show ?thesis using p n assms(3) by (simp add: transfer_file_alt content_at_def)
qed

theorem transfer_file_twice_empties_witness:
  "content_at [''dl'', ''x.mkv''] (snd (transfer_file (\<lambda>_. True) ''/dl/x.mkv'' ''/lib/1.mkv'' Hardlink
     (snd (transfer_file (\<lambda>_. True) ''/dl/x.mkv'' ''/lib/1.mkv'' Hardlink demo_fs)))) = Some []"
proof -
  have l: "components ''/dl/x.mkv'' = [''dl'', ''x.mkv'']" "components ''/lib/1.mkv'' = [''lib'', ''1.mkv'']"
    "locate ''/dl/x.mkv'' = [''dl'', ''x.mkv'']" "locate ''/lib/1.mkv'' = [''lib'', ''1.mkv'']"
    "components ''lib/1.mkv'' = [''lib'', ''1.mkv'']" "components ''dl/x.mkv'' = [''dl'', ''x.mkv'']" "components ''/lib'' = [''lib'']" "locate ''/lib'' = [''lib'']"
    by (simp_all add: locate_def components_def climb_def)
  let ?f = "snd (transfer_file (\<lambda>_. True) ''/dl/x.mkv'' ''/lib/1.mkv'' Hardlink demo_fs)"
  have pq: "path_parent ''/lib/1.mkv'' = Some ''/lib''" by (simp add: path_parent_def l starts_with_def)
  have ne: "\<not> same_path ''/dl/x.mkv'' ''/lib/1.mkv''" by (simp add: same_path_def l)
  have dir: "node_at [''lib''] f = Some Dir \<Longrightarrow> create_parent (\<lambda>_. True) ''/lib/1.mkv'' f = (Inr (), f)" for f
    by (simp add: create_parent_def pq create_dir_all_def l)
  have n0: "node_at [''lib''] demo_fs = Some Dir" "node_at [''lib'', ''1.mkv''] demo_fs = None"
    "node_at [''dl'', ''x.mkv''] demo_fs = Some (File 0)"
    by (simp_all add: demo_fs_def node_at_def)
  then have f: "?f = put_node [''lib'', ''1.mkv''] (File 0) demo_fs"
    using dir [of demo_fs] by (simp add: transfer_file_alt ne move_into_def fs_hard_link_def l Let_def parent_ready_def)
  have n: "node_at [''dl'', ''x.mkv''] ?f = Some (File 0)" "node_at [''lib'', ''1.mkv''] ?f = Some (File 0)"
    "node_at [''lib''] ?f = Some Dir"
    unfolding f by (simp_all add: n0)
  from transfer_file_twice_empties [of "''/dl/x.mkv''" ?f 0 "''/lib/1.mkv''" "\<lambda>_. True"] n ne dir [of ?f] show ?thesis
    by (auto simp: l)
qed

end
