(* ===== verification/Icons.thy ===== *)
theory Icons
  imports Prelude "HOL-Library.Word"
begin

text \<open>
  \<open>library/icons.rs\<close>: the placeholder picture that is written byte by byte without an
  image library: a PNG file of one colour whose pixel data is a zlib stream of
  stored blocks. Bytes are \<open>8 word\<close>; the checksums are computed on \<open>32 word\<close> as in
  the code. A file is the list of the bytes written to it; what is tried before this
  picture is in theory \<open>Library\<close>.
\<close>

unbundle bit_operations_syntax

named_theorems icon_simps \<open>unfolding rules of the picture writer\<close>

type_synonym byte = "8 word"
type_synonym bytes = "8 word list"

section \<open>The writer\<close>

definition crc_step :: "32 word \<Rightarrow> 32 word" where
  "crc_step crc = (if crc AND 1 \<noteq> 0 then drop_bit 1 crc XOR 0xEDB88320 else drop_bit 1 crc)"

definition crc_byte :: "byte \<Rightarrow> 32 word \<Rightarrow> 32 word" where
  "crc_byte b crc = (crc_step ^^ 8) (crc XOR ucast b)"

definition crc32 :: "bytes \<Rightarrow> 32 word" where
  "crc32 data = NOT (fold crc_byte data 0xFFFFFFFF)"

definition to_be_bytes :: "32 word \<Rightarrow> bytes" where
  "to_be_bytes w = [ucast (drop_bit 24 w), ucast (drop_bit 16 w), ucast (drop_bit 8 w), ucast w]"

definition to_le_bytes :: "16 word \<Rightarrow> bytes" where
  "to_le_bytes w = [ucast w, ucast (drop_bit 8 w)]"

definition write_chunk :: "bytes \<Rightarrow> bytes \<Rightarrow> bytes" where
  "write_chunk tag data = to_be_bytes (of_nat (length data)) @ tag @ data @ to_be_bytes (crc32 (tag @ data))"

definition PNG_signature :: bytes where
  "PNG_signature = [0x89, 0x50, 0x4E, 0x47, 0x0D, 0x0A, 0x1A, 0x0A]"

definition IHDR :: bytes where "IHDR = [0x49, 0x48, 0x44, 0x52]"
definition IDAT :: bytes where "IDAT = [0x49, 0x44, 0x41, 0x54]"
definition IEND :: bytes where "IEND = [0x49, 0x45, 0x4E, 0x44]"

definition ihdr_data :: "32 word \<Rightarrow> 32 word \<Rightarrow> bytes" where
  "ihdr_data width height = to_be_bytes width @ to_be_bytes height @ [8, 2, 0, 0, 0]"

definition scanline :: "32 word \<Rightarrow> byte \<Rightarrow> byte \<Rightarrow> byte \<Rightarrow> bytes" where
  "scanline width r g b = 0 # concat (replicate (unat width) [r, g, b])"

definition raw_image :: "32 word \<Rightarrow> 32 word \<Rightarrow> byte \<Rightarrow> byte \<Rightarrow> byte \<Rightarrow> bytes" where
  "raw_image width height r g b = concat (replicate (unat height) (scanline width r g b))"

text \<open>\<open>slice::chunks\<close>\<close>

function chunks :: "nat \<Rightarrow> 'a list \<Rightarrow> 'a list list" where
  "chunks n xs = (if xs = [] \<or> n = 0 then [] else take n xs # chunks n (drop n xs))"
  by pat_completeness auto

termination chunks
  by (relation "measure (\<lambda>(n, xs). length xs)") auto

declare chunks.simps [simp del]

definition stored_block :: "bool \<Rightarrow> bytes \<Rightarrow> bytes" where
  "stored_block is_last chunk =
     (let len = of_nat (length chunk) :: 16 word; nlen = NOT len in
      (if is_last then 0x01 else 0x00) # to_le_bytes len @ to_le_bytes nlen @ chunk)"

text \<open>The loop over the chunks; the last index is the one where nothing follows.\<close>

fun stored_blocks :: "bytes list \<Rightarrow> bytes" where
  "stored_blocks [] = []"
| "stored_blocks (c # cs) = stored_block (cs = []) c @ stored_blocks cs"

definition adler_step :: "byte \<Rightarrow> 32 word \<times> 32 word \<Rightarrow> 32 word \<times> 32 word" where
  "adler_step b s = (let s1 = (fst s + ucast b) mod 65521 in (s1, (snd s + s1) mod 65521))"

definition adler32 :: "bytes \<Rightarrow> 32 word" where
  "adler32 raw = (case fold adler_step raw (1, 0) of (s1, s2) \<Rightarrow> push_bit 16 s2 OR s1)"

definition zlib_stored :: "bytes \<Rightarrow> bytes" where
  "zlib_stored raw = [0x78, 0x01] @ stored_blocks (chunks 65535 raw) @ to_be_bytes (adler32 raw)"

definition write_solid_png :: "32 word \<Rightarrow> 32 word \<Rightarrow> byte \<Rightarrow> byte \<Rightarrow> byte \<Rightarrow> bytes" where
  "write_solid_png width height r g b =
     PNG_signature @ write_chunk IHDR (ihdr_data width height)
       @ write_chunk IDAT (zlib_stored (raw_image width height r g b))
       @ write_chunk IEND []"

text \<open>What \<open>create_folder_png\<close> writes when nothing else works.\<close>

definition folder_png_fallback :: bytes where
  "folder_png_fallback = write_solid_png 64 64 30 20 50"

section \<open>The checksum as polynomial division\<close>

text \<open>
  The generator of IEEE 802.3 without its leading term, highest power first, and
  the bit-serial division: a register of 32 coefficients takes the bits of each
  byte, lowest first.
\<close>

definition generator :: "bool list" where
  "generator = map (\<lambda>i. i \<in> {26, 23, 22, 16, 12, 11, 10, 8, 7, 5, 4, 2, 1, 0::nat}) (rev [0..<32])"

definition divide_bit :: "bool \<Rightarrow> bool list \<Rightarrow> bool list" where
  "divide_bit m reg =
     (let shifted = tl reg @ [False] in if hd reg \<noteq> m then map2 (\<noteq>) shifted generator else shifted)"

definition bits_of_byte :: "byte \<Rightarrow> bool list" where
  "bits_of_byte b = map (bit b) [0..<8]"

definition remainder :: "bytes \<Rightarrow> bool list" where
  "remainder data = fold divide_bit (concat (map bits_of_byte data)) (replicate 32 True)"

text \<open>The register as a word: bit \<open>i\<close> is the coefficient of \<open>31 - i\<close>.\<close>

definition reg_of :: "32 word \<Rightarrow> bool list" where
  "reg_of w = map (bit w) [0..<32]"

lemma crc_step_alt: "crc_step c = (if bit c 0 then drop_bit 1 c XOR 0xEDB88320 else drop_bit 1 c)"
  by (simp add: crc_step_def and_one_eq bit_0 odd_iff_mod_2_eq_one)

text \<open>One step of the code on a register with a byte mixed in is one step of the division.\<close>

definition bit_step :: "bool \<Rightarrow> 32 word \<Rightarrow> 32 word" where
  "bit_step m c = (if bit c 0 \<noteq> m then drop_bit 1 c XOR 0xEDB88320 else drop_bit 1 c)"

lemma crc_step_mix:
  "crc_step (c XOR ucast (b :: byte)) = bit_step (bit b 0) c XOR ucast (drop_bit 1 b)"
  by (rule bit_word_eqI) (auto simp: crc_step_alt bit_step_def bit_simps dest: bit_imp_le_length)

lemma crc_steps_mix:
  "(crc_step ^^ n) (c XOR ucast (b :: byte)) =
     fold bit_step (map (bit b) [0..<n]) c XOR ucast (drop_bit n b)"
proof (induction n)
  case (Suc n)
  have "(crc_step ^^ Suc n) (c XOR ucast b) =
      crc_step (fold bit_step (map (bit b) [0..<n]) c XOR ucast (drop_bit n b))"
    using Suc by simp
  also have "\<dots> = bit_step (bit b n) (fold bit_step (map (bit b) [0..<n]) c) XOR ucast (drop_bit (Suc n) b)"
    by (subst crc_step_mix) (simp add: bit_simps)
  finally show ?case by simp
qed simp

lemma crc_byte_bits: "crc_byte b c = fold bit_step (bits_of_byte b) c"
proof -
  have "drop_bit 8 b = 0" by (rule bit_word_eqI) (simp add: bit_simps)
  then show ?thesis using crc_steps_mix [of 8 c b] by (simp add: crc_byte_def bits_of_byte_def)
qed

lemma length_generator [simp]: "length generator = 32"
  by (simp add: generator_def)

lemma generator_bits: "generator = map (bit (0xEDB88320 :: 32 word)) [0..<32]"
  by code_simp

lemma generator_nth: "i < 32 \<Longrightarrow> generator ! i = bit (0xEDB88320 :: 32 word) i"
  by (subst generator_bits) simp

lemma reg_bit_step: "reg_of (bit_step m c) = divide_bit m (reg_of c)"
proof (rule nth_equalityI)
  show "length (reg_of (bit_step m c)) = length (divide_bit m (reg_of c))"
    by (simp add: reg_of_def divide_bit_def Let_def)
  fix i assume "i < length (reg_of (bit_step m c))"
  then have i: "i < 32" by (simp add: reg_of_def)
  have hd: "hd (reg_of c) = bit c 0" by (simp add: reg_of_def hd_map)
  have sh: "(tl (reg_of c) @ [False]) ! i = bit c (Suc i)"
  proof (cases "i = 31")
    case True
    have "\<not> bit c 32" by (simp add: bit_word.rep_eq) 
    then show ?thesis using True by (simp add: reg_of_def nth_append)
  next
    case False
    with i show ?thesis by (simp add: reg_of_def nth_append nth_tl)
  qed
  show "reg_of (bit_step m c) ! i = divide_bit m (reg_of c) ! i"
    using i hd sh generator_nth [OF i]
    by (simp add: divide_bit_def Let_def bit_step_def bit_simps reg_of_def)
qed

lemma reg_of_fold: "reg_of (fold bit_step ms c) = fold divide_bit ms (reg_of c)"
  by (induction ms arbitrary: c) (simp_all add: reg_bit_step)

lemma fold_crc_bytes: "fold crc_byte data c = fold bit_step (concat (map bits_of_byte data)) c"
  by (induction data arbitrary: c) (simp_all add: crc_byte_bits)

lemma reg_of_crc32: "reg_of (crc32 data) = map Not (remainder data)"
proof -
  have "reg_of 0xFFFFFFFF = replicate 32 True" by code_simp
  then have "remainder data = reg_of (fold crc_byte data 0xFFFFFFFF)"
    by (simp add: remainder_def fold_crc_bytes reg_of_fold)
  then show ?thesis by (simp add: crc32_def reg_of_def bit_not_iff_eq bit_simps)
qed

section \<open>A reader, as the formats describe it\<close>

text \<open>
  PNG (chunks with length, tag, data and the complement of the remainder), zlib
  (header, blocks, Adler-32) and DEFLATE's stored blocks, restricted to the kind of
  picture at hand: 8-bit RGB, no filter, no interlace.
\<close>

definition from_be :: "bytes \<Rightarrow> nat" where
  "from_be bs = foldl (\<lambda>a b. a * 256 + unat b) 0 bs"

definition read_chunk :: "bytes \<Rightarrow> (bytes \<times> bytes \<times> bytes) option" where
  "read_chunk bs =
     (let len = from_be (take 4 bs); tag = take 4 (drop 4 bs); data = take len (drop 8 bs);
          crc = take 4 (drop (8 + len) bs)
      in if length bs < 12 + len \<or> reg_of (of_nat (from_be crc)) \<noteq> map Not (remainder (tag @ data)) then None
         else Some (tag, data, drop (12 + len) bs))"

fun inflate :: "nat \<Rightarrow> bytes \<Rightarrow> (bytes \<times> bytes) option" where
  "inflate (Suc fuel) (h # l0 # l1 # n0 # n1 # rest) =
     (let len = unat l0 + 256 * unat l1 in
      if h \<notin> {0, 1} \<or> n0 \<noteq> NOT l0 \<or> n1 \<noteq> NOT l1 \<or> length rest < len then None
      else if h = 1 then Some (take len rest, drop len rest)
      else map_option (\<lambda>(d, r). (take len rest @ d, r)) (inflate fuel (drop len rest)))"
| "inflate _ _ = None"

definition adler_a :: "bytes \<Rightarrow> nat" where
  "adler_a data = (1 + (\<Sum>d\<leftarrow>data. unat d)) mod 65521"

definition adler_b :: "bytes \<Rightarrow> nat" where
  "adler_b data = (\<Sum>k\<leftarrow>[1..<length data + 1]. 1 + (\<Sum>d\<leftarrow>take k data. unat d)) mod 65521"

definition read_zlib :: "bytes \<Rightarrow> bytes option" where
  "read_zlib bs =
     (let cmf = unat (bs ! 0); flg = unat (bs ! 1) in
      if length bs < 2 \<or> cmf mod 16 \<noteq> 8 \<or> (cmf * 256 + flg) mod 31 \<noteq> 0 then None
      else case inflate (length bs) (drop 2 bs) of
        Some (data, rest) \<Rightarrow>
          if length rest = 4 \<and> from_be rest = adler_b data * 65536 + adler_a data then Some data else None
      | None \<Rightarrow> None)"

type_synonym pixel = "byte \<times> byte \<times> byte"

fun read_pixels :: "nat \<Rightarrow> bytes \<Rightarrow> (pixel list \<times> bytes) option" where
  "read_pixels 0 bs = Some ([], bs)"
| "read_pixels (Suc n) (r # g # b # bs) = map_option (\<lambda>(ps, rest). ((r, g, b) # ps, rest)) (read_pixels n bs)"
| "read_pixels (Suc n) _ = None"

fun read_rows :: "nat \<Rightarrow> nat \<Rightarrow> bytes \<Rightarrow> pixel list list option" where
  "read_rows width 0 bs = (if bs = [] then Some [] else None)"
| "read_rows width (Suc n) (f # bs) =
     (if f \<noteq> 0 then None
      else Option.bind (read_pixels width bs) (\<lambda>(row, rest). map_option ((#) row) (read_rows width n rest)))"
| "read_rows width (Suc n) [] = None"

definition read_png :: "bytes \<Rightarrow> (nat \<times> nat \<times> pixel list list) option" where
  "read_png bs =
     (if take 8 bs \<noteq> [0x89, 0x50, 0x4E, 0x47, 0x0D, 0x0A, 0x1A, 0x0A] then None
      else case read_chunk (drop 8 bs) of
        Some (t1, d1, r1) \<Rightarrow>
          (case read_chunk r1 of
             Some (t2, d2, r2) \<Rightarrow>
               (case read_chunk r2 of
                  Some (t3, d3, r3) \<Rightarrow>
                    (let width = from_be (take 4 d1); height = from_be (take 4 (drop 4 d1)) in
                     if t1 = IHDR \<and> drop 8 d1 = [8, 2, 0, 0, 0] \<and> t2 = IDAT \<and> t3 = IEND \<and> d3 = [] \<and> r3 = []
                     then map_option (\<lambda>rows. (width, height, rows))
                            (Option.bind (read_zlib d2) (read_rows width height))
                     else None)
                | None \<Rightarrow> None)
           | None \<Rightarrow> None)
      | None \<Rightarrow> None)"

lemma unat_byte_of: "unat (ucast (drop_bit k w) :: byte) = unat w div 2 ^ k mod 256"
  by (simp add: unsigned_ucast_eq unsigned_drop_bit_eq take_bit_eq_mod flip: drop_bit_eq_div)

lemma digit_join: "x div (k * 256) * 256 + x div k mod 256 = (x :: nat) div k"
  by (metis div_mult2_eq div_mult_mod_eq)

lemma from_be_bytes: "from_be (to_be_bytes w) = unat w"
proof -
  have "unat w < 2 ^ 32" using unsigned_less [of w] by simp
  then have top: "unat w div 2 ^ 24 mod 256 = unat w div 2 ^ 24"
    by (simp add: div_less_iff_less_mult)
  have "from_be (to_be_bytes w) =
      ((unat w div 2 ^ 24 * 256 + unat w div 2 ^ 16 mod 256) * 256 + unat w div 2 ^ 8 mod 256) * 256 + unat w mod 256"
    using unat_byte_of [of 0 w] by (simp add: from_be_def to_be_bytes_def unat_byte_of top [simplified])
  also have "\<dots> = unat w"
    using digit_join [of "unat w" "2 ^ 16"] digit_join [of "unat w" "2 ^ 8"] digit_join [of "unat w" 1] by simp
  finally show ?thesis .
qed

lemma length_to_be_bytes [simp]: "length (to_be_bytes w) = 4"
  by (simp add: to_be_bytes_def)

lemma read_chunk_written:
  assumes "length tag = 4" "length data < 2 ^ 32"
  shows "read_chunk (write_chunk tag data @ rest) = Some (tag, data, rest)"
proof -
  let ?l = "to_be_bytes (of_nat (length data))" and ?c = "to_be_bytes (crc32 (tag @ data))"
  let ?bs = "write_chunk tag data @ rest"
  have len: "from_be (take 4 ?bs) = length data"
    using assms(2) by (simp add: write_chunk_def from_be_bytes unat_of_nat take_bit_eq_mod)
  have parts: "take 4 (drop 4 ?bs) = tag" "take (length data) (drop 8 ?bs) = data"
    "take 4 (drop (8 + length data) ?bs) = ?c" "drop (12 + length data) ?bs = rest"
    "length ?bs = 12 + length data + length rest"
    using assms(1) by (simp_all add: write_chunk_def)
  have "reg_of (of_nat (from_be ?c)) = map Not (remainder (tag @ data))"
    by (simp add: from_be_bytes reg_of_crc32)
  then show ?thesis unfolding read_chunk_def Let_def len parts by simp
qed

section \<open>The stored stream\<close>

lemma chunks_Nil [simp]: "chunks n [] = []"
  by (simp add: chunks.simps)

lemma chunks_parts:
  assumes "0 < n"
  shows "concat (chunks n xs) = xs \<and> (\<forall>c\<in>set (chunks n xs). length c \<le> n)"
  using assms
proof (induction n xs rule: chunks.induct)
  case (1 n xs)
  then show ?case by (cases "xs = []") (simp_all add: chunks.simps [of n xs])
qed

lemma chunks_Nil_iff [simp]: "0 < n \<Longrightarrow> chunks n xs = [] \<longleftrightarrow> xs = []"
  by (simp add: chunks.simps [of n xs])

lemma le_bytes_len:
  assumes "n < 65536"
  shows "unat (ucast (of_nat n :: 16 word) :: byte) + 256 * unat (ucast (drop_bit 8 (of_nat n :: 16 word)) :: byte) = n"
proof -
  have u: "unat (of_nat n :: 16 word) = n" using assms by (simp add: unat_of_nat take_bit_eq_mod)
  have "n div 256 < 256" using assms by (simp add: div_less_iff_less_mult)
  moreover have "unat (ucast (drop_bit 8 (of_nat n :: 16 word)) :: byte) = drop_bit 8 n mod 256"
    by (simp add: unsigned_ucast_eq unsigned_drop_bit_eq u take_bit_eq_mod assms)
  moreover have "unat (ucast (of_nat n :: 16 word) :: byte) = n mod 256"
    by (simp add: unsigned_ucast_eq u take_bit_eq_mod)
  ultimately show ?thesis by (simp add: drop_bit_eq_div)
qed

lemma ucast_NOT: "(ucast (NOT (w :: 16 word)) :: byte) = NOT (ucast w)"
  "(ucast (drop_bit 8 (NOT w)) :: byte) = NOT (ucast (drop_bit 8 w))"
  by (rule bit_word_eqI, simp add: bit_simps)+

lemma inflate_block:
  assumes "length c < 65536"
  shows "inflate (Suc fuel) (stored_block is_last c @ rest) =
    (if is_last then Some (c, rest) else map_option (\<lambda>(d, r). (c @ d, r)) (inflate fuel rest))"
proof -
  let ?l = "of_nat (length c) :: 16 word"
  have "unat (ucast ?l :: byte) + 256 * unat (ucast (drop_bit 8 ?l) :: byte) = length c"
    by (rule le_bytes_len) (rule assms)
  then show ?thesis
    by (simp add: stored_block_def to_le_bytes_def ucast_NOT Let_def)
qed

lemma inflate_blocks:
  assumes "cs \<noteq> []" "\<forall>c\<in>set cs. length c < 65536" "length cs \<le> fuel"
  shows "inflate fuel (stored_blocks cs @ rest) = Some (concat cs, rest)"
  using assms
proof (induction cs arbitrary: fuel)
  case (Cons c cs)
  obtain f where f: "fuel = Suc f" using Cons.prems(3) by (cases fuel) auto
  show ?case
  proof (cases "cs = []")
    case True
    then show ?thesis using Cons.prems(2) inflate_block [of c f True rest] f by simp
  next
    case False
    then have "inflate f (stored_blocks cs @ rest) = Some (concat cs, rest)"
      using Cons.IH [of f] Cons.prems f by simp
    then show ?thesis
      using Cons.prems(2) inflate_block [of c f False "stored_blocks cs @ rest"] f False by simp
  qed
qed simp

lemma stored_blocks_length: "length (stored_blocks cs) = 5 * length cs + length (concat cs)"
  by (induction cs) (simp_all add: stored_block_def to_le_bytes_def Let_def)

lemma chunks_length: "0 < n \<Longrightarrow> length (chunks n xs) \<le> length xs div n + 1"
proof (induction n xs rule: chunks.induct)
  case (1 n xs)
  show ?case
  proof (cases "xs = []")
    case False
    with 1 have ih: "length (chunks n (drop n xs)) \<le> (length xs - n) div n + 1" by simp
    have c: "length (chunks n xs) = 1 + length (chunks n (drop n xs))"
      using False 1 by (simp add: chunks.simps [of n xs])
    show ?thesis
    proof (cases "n \<le> length xs")
      case True
      then show ?thesis using ih c 1 by (simp add: le_div_geq)
    next
      case False
      then show ?thesis using c by (simp add: chunks.simps [of n "[]"])
    qed
  qed (simp add: chunks.simps [of n xs])
qed

lemma unat_mod_step:
  "x + y < 2 ^ 32 \<Longrightarrow> unat u = x \<Longrightarrow> unat v = y \<Longrightarrow> unat ((u + v) mod 65521 :: 32 word) = (x + y) mod 65521"
  by (simp add: unat_mod unat_add_lem [THEN iffD1])

lemma adler_a_snoc: "adler_a (xs @ [b]) = (adler_a xs + unat b) mod 65521"
  by (simp add: adler_a_def mod_simps)

lemma adler_b_snoc: "adler_b (xs @ [b]) = (adler_b xs + adler_a (xs @ [b])) mod 65521"
proof -
  let ?f = "\<lambda>ys k. 1 + (\<Sum>d\<leftarrow>take k ys. unat (d :: byte))"
  have "sum_list (map (?f (xs @ [b])) [1..<length xs + 1]) = sum_list (map (?f xs) [1..<length xs + 1])"
    by (rule arg_cong [where f = sum_list], rule map_cong) auto
  moreover have "[1..<length (xs @ [b]) + 1] = [1..<length xs + 1] @ [length xs + 1]" by simp
  ultimately have "sum_list (map (?f (xs @ [b])) [1..<length (xs @ [b]) + 1]) =
      sum_list (map (?f xs) [1..<length xs + 1]) + ?f (xs @ [b]) (length xs + 1)"
    by (simp only: map_append sum_list_append list.map sum_list.Cons sum_list.Nil add_0_right)
  then have "adler_b (xs @ [b]) =
      (sum_list (map (?f xs) [1..<length xs + 1]) + (1 + (\<Sum>d\<leftarrow>xs @ [b]. unat d))) mod 65521"
    by (simp only: adler_b_def) simp
  then show ?thesis unfolding adler_b_def adler_a_def by (simp only: mod_add_eq)
qed

lemma adler_fold:
  "unat (fst (fold adler_step xs (1, 0))) = adler_a xs \<and> unat (snd (fold adler_step xs (1, 0))) = adler_b xs"
proof (induction xs rule: rev_induct)
  case Nil
  show ?case by (simp add: adler_a_def adler_b_def)
next
  case (snoc b xs)
  define s where "s = fold adler_step xs (1, 0)"
  note snoc = snoc [folded s_def]
  have lt: "adler_a xs < 65521" "adler_b xs < 65521" "adler_a (xs @ [b]) < 65521" "unat b < 256"
    using unsigned_less [of b] by (simp_all add: adler_a_def adler_b_def)
  have ub: "unat (ucast b :: 32 word) = unat b"
    using lt(4) by (simp add: unsigned_ucast_eq take_bit_eq_mod)
  have a: "unat ((fst s + ucast b) mod 65521) = adler_a (xs @ [b])"
    unfolding adler_a_snoc using snoc lt ub by (intro unat_mod_step) auto
  have "unat ((snd s + (fst s + ucast b) mod 65521) mod 65521) = adler_b (xs @ [b])"
    unfolding adler_b_snoc using snoc lt a by (intro unat_mod_step) auto
  moreover have "fold adler_step (xs @ [b]) (1, 0) = adler_step b s" by (simp add: s_def)
  ultimately show ?case using a by (simp only:) (simp add: adler_step_def Let_def)
qed

lemma adler32_value: "unat (adler32 xs) = adler_b xs * 65536 + adler_a xs"
proof -
  let ?s1 = "fst (fold adler_step xs (1, 0))" and ?s2 = "snd (fold adler_step xs (1, 0))"
  have lt: "adler_a xs < 65521" "adler_b xs < 65521" by (simp_all add: adler_a_def adler_b_def)
  have t1: "take_bit 16 (unat ?s1) = unat ?s1" using adler_fold [of xs] lt by (simp add: take_bit_nat_eq_self)
  moreover have small: "take_bit 32 (push_bit 16 (unat ?s2)) = push_bit 16 (unat ?s2)"
    using adler_fold [of xs] lt by (simp add: take_bit_nat_eq_self push_bit_eq_mult)
  ultimately have "unat (push_bit 16 ?s2 OR ?s1) = push_bit 16 (unat ?s2) OR unat ?s1"
    using adler_fold [of xs] lt
    by (simp add: unsigned_or_eq unsigned_push_bit_eq small)
  also have "\<dots> = unat ?s2 * 65536 + unat ?s1"
  proof -
    have "push_bit 16 (unat ?s2) OR unat ?s1 = push_bit 16 (unat ?s2) + unat ?s1"
      by (rule disjunctive_add [symmetric])
        (metis t1 bit_push_bit_iff bit_take_bit_iff not_le)
    then show ?thesis by (simp add: push_bit_eq_mult)
  qed
  finally show ?thesis using adler_fold [of xs] by (simp add: adler32_def split_beta)
qed

lemma read_zlib_stored:
  assumes "raw \<noteq> []"
  shows "read_zlib (zlib_stored raw) = Some raw"
proof -
  let ?cs = "chunks 65535 raw" and ?tail = "to_be_bytes (adler32 raw)"
  have cs: "concat ?cs = raw" "\<forall>c\<in>set ?cs. length c < 65536" "?cs \<noteq> []"
    using chunks_parts [of 65535 raw] assms by fastforce+
  have "length ?cs \<le> length (zlib_stored raw)"
    by (simp add: zlib_stored_def stored_blocks_length)
  then have "inflate (length (zlib_stored raw)) (stored_blocks ?cs @ ?tail) = Some (raw, ?tail)"
    using inflate_blocks [OF cs(3) cs(2)] cs(1) by simp
  then show ?thesis
    by (simp add: read_zlib_def zlib_stored_def Let_def from_be_bytes adler32_value)
qed

lemma read_pixels_solid:
  "read_pixels n (concat (replicate n [r, g, b]) @ rest) = Some (replicate n (r, g, b), rest)"
  by (induction n) simp_all

lemma read_rows_solid:
  "read_rows (unat w) n (concat (replicate n (scanline w r g b))) = Some (replicate n (replicate (unat w) (r, g, b)))"
  by (induction n) (simp_all add: scanline_def read_pixels_solid)

lemma length_raw: "length (raw_image w h r g b) = unat h * (1 + 3 * unat w)"
proof -
  have "length (concat (replicate n xs)) = n * length xs" for n and xs :: "byte list"
    by (induction n) simp_all
  then show ?thesis by (simp add: raw_image_def scanline_def)
qed

section \<open>Properties\<close>

text \<open>
  The checksum is the CRC-32 of IEEE 802.3. The table-free loop on a 32-bit word
  computes, read as the coefficients of a polynomial from the lowest bit on, the
  complement of the remainder that bit-serial division of the data by the generator
  leaves.
\<close>

theorem crc32_is_remainder: "reg_of (crc32 data) = map Not (remainder data)"
  by (rule reg_of_crc32)

text \<open>
  C34: the placeholder picture is a picture. Whatever the colour and the size (with at least
  one pixel and at most 2 GiB of pixel data), a reader of the format finds in the
  bytes that \<open>write_solid_png\<close> writes three chunks with correct lengths and
  checksums, a zlib stream whose blocks and Adler-32 sum are right, and in it
  the given number of rows of that colour.
\<close>

theorem solid_png_reads_back:
  assumes "0 < width" "0 < height" "unat height * (1 + 3 * unat width) \<le> 2 ^ 31"
  shows "read_png (write_solid_png width height r g b) =
    Some (unat width, unat height, replicate (unat height) (replicate (unat width) (r, g, b)))"
proof -
  let ?raw = "raw_image width height r g b" and ?d = "zlib_stored (raw_image width height r g b)"
  have "0 < unat height" using assms(2) by (simp add: unat_gt_0 word_neq_0_conv)
  then have raw: "?raw \<noteq> []" using length_raw [of width height r g b] by auto
  have "length (chunks 65535 ?raw) \<le> length ?raw div 65535 + 1" by (rule chunks_length) simp
  moreover have "length ?raw \<le> 2 ^ 31" using assms(3) by (simp add: length_raw)
  moreover have "concat (chunks 65535 ?raw) = ?raw" using chunks_parts [of 65535 ?raw] by simp
  ultimately have d: "length ?d < 2 ^ 32"
    by (simp add: zlib_stored_def stored_blocks_length)
  have c: "read_chunk (write_chunk tag data @ rest) = Some (tag, data, rest)"
    if "tag \<in> {IHDR, IDAT, IEND}" "length data < 2 ^ 32" for tag data rest
    by (rule read_chunk_written) (use that in \<open>auto simp: IHDR_def IDAT_def IEND_def\<close>)
  have hd: "length (ihdr_data width height) = 13" "from_be (take 4 (ihdr_data width height)) = unat width"
    "from_be (take 4 (drop 4 (ihdr_data width height))) = unat height"
    "drop 8 (ihdr_data width height) = [8, 2, 0, 0, 0]"
    by (simp_all add: ihdr_data_def from_be_bytes)
  have "Option.bind (read_zlib ?d) (read_rows (unat width) (unat height)) =
      Some (replicate (unat height) (replicate (unat width) (r, g, b)))"
    by (simp add: read_zlib_stored [OF raw]) (simp add: raw_image_def read_rows_solid)
  then show ?thesis
    using c [of IEND "[]" "[]"] d hd
    by (simp add: read_png_def write_solid_png_def PNG_signature_def c Let_def)
qed

theorem solid_png_reads_back_witness:
  "read_png folder_png_fallback = Some (64, 64, replicate 64 (replicate 64 (30, 20, 50)))"
  unfolding folder_png_fallback_def using solid_png_reads_back [of 64 64 30 20 50] by simp

end
