(* ===== verification/Library.thy ===== *)
theory Library
  imports Files Icons Inbox "HOL-Library.List_Lexorder" "HOL-Library.Char_ord"
begin

text \<open>
  \<open>library/finalizer.rs\<close>, \<open>service.rs\<close>, \<open>folders.rs\<close>, \<open>rescan.rs\<close> and the file writes of
  \<open>icons.rs\<close>: a finished download is filed in the folder of its show. The state is
  the store, the columns of \<open>shows\<close> that only the library uses, and the disk.
  ImageMagick, \<open>gio\<close>, the desktop's name, Jikan and the image server answer through
  the record \<open>studio\<close>.
\<close>

named_theorems library_simps \<open>unfolding rules of the library step\<close>

section \<open>State\<close>

record shelf =
  sl_mal_id :: int
  sl_folder_path :: "string option"
  sl_synopsis :: "string option"
  sl_poster_path :: "string option"
  sl_score :: "f64 option"

record library =
  lb_world :: world
  lb_shelves :: "shelf list"
  lb_fs :: fs

type_synonym 'a shelving = "(library, error, 'a) act"

record jikan_anime =
  ja_title :: "string option"
  ja_title_english :: "string option"
  ja_title_japanese :: "string option"
  ja_type :: "string option"
  ja_episodes :: "int option"
  ja_status :: "string option"
  ja_aired :: "string option"
  ja_score :: "f64 option"
  ja_genres :: "string list"
  ja_synopsis :: "string option"
  ja_jpg :: "(string option \<times> string option) option"
  ja_webp :: "(string option \<times> string option) option"

text \<open>\<open>sd_jikan\<close> and \<open>sd_image\<close> are the replies of the gate, \<open>sd_magick\<close> the picture that a
  successful ImageMagick leaves, \<open>sd_fixed2\<close> and its companions the formats of \<open>f64\<close>.\<close>

record studio =
  sd_disk :: disk
  sd_rx :: matcher
  sd_home :: "string option"
  sd_data_dir :: string
  sd_jikan :: "int \<Rightarrow> jikan_anime option"
  sd_image :: "string \<Rightarrow> string option"
  sd_magick :: "string \<Rightarrow> string option"
  sd_desktop :: string
  sd_gio_ok :: bool
  sd_fixed2 :: "f64 \<Rightarrow> string"
  sd_shown :: "f64 \<Rightarrow> string"
  sd_shown41 :: "f64 \<Rightarrow> string"

definition MARKER_FILE :: string where "MARKER_FILE = ''.mal_id''"
definition SYNOPSIS_FILE :: string where "SYNOPSIS_FILE = ''synopsis.txt''"
definition FOLDER_ICON_FILE :: string where "FOLDER_ICON_FILE = ''folder.png''"
definition DIRECTORY_FILE :: string where "DIRECTORY_FILE = ''.directory''"

definition on_fs :: "'a on_disk \<Rightarrow> 'a shelving" where
  "on_fs a = (\<lambda>s. case a (lb_fs s) of (r, f) \<Rightarrow> (r, s\<lparr>lb_fs := f\<rparr>))"

definition on_store :: "'a run \<Rightarrow> 'a shelving" where
  "on_store a = (\<lambda>s. case a (lb_world s) of (r, w) \<Rightarrow> (r, s\<lparr>lb_world := w\<rparr>))"

definition gets_fs :: "(fs \<Rightarrow> 'a) \<Rightarrow> 'a shelving" where
  "gets_fs g = gets (\<lambda>s. g (lb_fs s))"

definition gets_store :: "(world \<Rightarrow> 'a) \<Rightarrow> 'a shelving" where
  "gets_store g = gets (\<lambda>s. g (lb_world s))"

definition shelf_of :: "int \<Rightarrow> library \<Rightarrow> shelf option" where
  "shelf_of m s = find_row sl_mal_id m (lb_shelves s)"

definition set_folder_path :: "int \<Rightarrow> string \<Rightarrow> unit shelving" where
  "set_folder_path m p =
     modify (\<lambda>s. s\<lparr>lb_shelves := update_rows (\<lambda>x. sl_mal_id x = m) (\<lambda>x. x\<lparr>sl_folder_path := Some p\<rparr>) (lb_shelves s)\<rparr>)"

section \<open>The folder of a show\<close>

definition parse_signed_i64 :: "string \<Rightarrow> int option" where
  "parse_signed_i64 s =
     (if starts_with ''-'' s then map_option (\<lambda>n. - int n) (parse_bounded (2 ^ 63 + 1) (tl s))
      else map_option int (parse_bounded (2 ^ 63) (if starts_with ''+'' s then tl s else s)))"

definition marker_text :: "int \<Rightarrow> string" where
  "marker_text m = show_int m @ nl"

text \<open>The id in a folder's marker file.\<close>

definition marker_id :: "string \<Rightarrow> fs \<Rightarrow> int option" where
  "marker_id dir f = Option.bind (content_at (locate (join_path dir MARKER_FILE)) f) (\<lambda>s. parse_signed_i64 (trim s))"

definition ensure_marker :: "disk \<Rightarrow> string \<Rightarrow> int \<Rightarrow> unit on_disk" where
  "ensure_marker d dir m =
     seq (gets (exists_at (join_path dir MARKER_FILE))) (\<lambda>present.
     if present then ret () else ignore (fs_write d (join_path dir MARKER_FILE) (marker_text m)))"

definition subdirectories :: "string \<Rightarrow> fs \<Rightarrow> string list" where
  "subdirectories dir f =
     filter (\<lambda>p. is_dir_at p f) (map (join_path dir) (if is_dir_at dir f then children (locate dir) f else []))"

definition find_marked :: "string \<Rightarrow> int \<Rightarrow> fs \<Rightarrow> string option" where
  "find_marked dir m f = List.find (\<lambda>p. marker_id p f = Some m) (subdirectories dir f)"

definition show_folder_name :: "string \<Rightarrow> int option \<Rightarrow> string" where
  "show_folder_name title start_year =
     (case start_year of
        Some y \<Rightarrow> sanitize_component title @ '' ('' @ show_int y @ '')''
      | None \<Rightarrow> sanitize_component title)"

definition create_show_folder :: "disk \<Rightarrow> string \<Rightarrow> int \<Rightarrow> string \<Rightarrow> int option \<Rightarrow> string shelving" where
  "create_show_folder d base m title start_year =
     (let dir = join_path base (show_folder_name title start_year) in
      seq (on_fs (create_dir_all d dir)) (\<lambda>_.
      seq (on_fs (fs_write d (join_path dir MARKER_FILE) (marker_text m))) (\<lambda>_.
      seq (set_folder_path m dir) (\<lambda>_. ret dir))))"

definition resolve_show_folder :: "disk \<Rightarrow> string \<Rightarrow> int \<Rightarrow> string \<Rightarrow> int option \<Rightarrow> string shelving" where
  "resolve_show_folder d base m title start_year =
     seq (gets (\<lambda>s. Option.bind (shelf_of m s) sl_folder_path)) (\<lambda>existing.
     seq (gets_fs (\<lambda>f. Option.bind existing (\<lambda>p. if exists_at p f then Some p else None))) (\<lambda>present.
     case present of
       Some p \<Rightarrow> seq (on_fs (ensure_marker d p m)) (\<lambda>_. ret p)
     | None \<Rightarrow>
         seq (gets_fs (find_marked base m)) (\<lambda>marked.
         case marked of
           Some p \<Rightarrow> seq (set_folder_path m p) (\<lambda>_. ret p)
         | None \<Rightarrow>
             (case existing of
                Some p \<Rightarrow>
                  seq (on_fs (create_dir_all d p)) (\<lambda>_.
                  seq (on_fs (ensure_marker d p m)) (\<lambda>_. ret p))
              | None \<Rightarrow> create_show_folder d base m title start_year))))"

definition root_folder :: "studio \<Rightarrow> settings \<Rightarrow> string" where
  "root_folder sd st =
     (if trim (s_library_folder st) = [] then default_library (sd_home sd)
      else resolve_home (sd_home sd) (s_library_folder st))"

section \<open>Pictures\<close>

definition byte_string :: "bytes \<Rightarrow> string" where
  "byte_string bs = map (\<lambda>b. char_of (unat b)) bs"

definition download_poster :: "studio \<Rightarrow> int \<Rightarrow> string \<Rightarrow> string option on_disk" where
  "download_poster sd m url =
     (let dir = join_path (sd_data_dir sd) ''posters''; dst = join_path dir (show_int m @ ''.jpg'') in
      seq (ignore (create_dir_all (sd_disk sd) dir)) (\<lambda>_.
      seq (gets (exists_at dst)) (\<lambda>present.
      if present then ret (Some dst)
      else
        case sd_image sd url of
          None \<Rightarrow> ret None
        | Some body \<Rightarrow>
            seq (attempt (fs_write (sd_disk sd) dst body)) (\<lambda>r.
            ret (case r of Inr _ \<Rightarrow> Some dst | Inl _ \<Rightarrow> None)))))"

definition solid_png :: "string" where
  "solid_png = byte_string folder_png_fallback"

definition create_folder_png :: "studio \<Rightarrow> string \<Rightarrow> string \<Rightarrow> unit on_disk" where
  "create_folder_png sd poster dst =
     (case sd_magick sd poster of
        Some picture \<Rightarrow> fs_write (sd_disk sd) dst picture
      | None \<Rightarrow>
          seq (gets (exists_at poster)) (\<lambda>present.
          seq (attempt (if present then fs_copy (sd_disk sd) poster dst else refused)) (\<lambda>r.
          case r of Inr _ \<Rightarrow> ret () | Inl _ \<Rightarrow> fs_write (sd_disk sd) dst solid_png)))"

definition write_directory_file :: "disk \<Rightarrow> string \<Rightarrow> unit on_disk" where
  "write_directory_file d dir =
     fs_write d (join_path dir DIRECTORY_FILE) (''[Desktop Entry]'' @ nl @ ''Icon=folder.png'' @ nl)"

definition apply_folder_icon :: "studio \<Rightarrow> icon_method \<Rightarrow> string \<Rightarrow> unit on_disk" where
  "apply_folder_icon sd how dir =
     (case how of
        IconOff \<Rightarrow> ret ()
      | IconDirectory \<Rightarrow> write_directory_file (sd_disk sd) dir
      | IconGio \<Rightarrow> if sd_gio_ok sd then ret () else throw (Other ''gio set failed'')
      | IconAuto \<Rightarrow>
          if contains ''gnome'' (lower (sd_desktop sd)) \<and> sd_gio_ok sd then ret ()
          else ignore (write_directory_file (sd_disk sd) dir))"

section \<open>The texts beside the episodes\<close>

record card =
  cd_title :: string
  cd_english_title :: "string option"
  cd_type :: string
  cd_start_year :: "int option"
  cd_season :: int
  cd_synopsis :: "string option"
  cd_poster :: "string option"
  cd_score :: "f64 option"
  cd_episodes :: "int option"
  cd_status :: "string option"

definition load_card :: "int \<Rightarrow> card shelving" where
  "load_card m =
     (\<lambda>s. case find_row sh_mal_id m (w_shows (lb_world s)) of
        None \<Rightarrow> (Inl no_rows, s)
      | Some r \<Rightarrow>
          (let x = shelf_of m s in
           (Inr \<lparr> cd_title = sh_title r, cd_english_title = sh_english_title r, cd_type = sh_type r,
                  cd_start_year = sh_start_year r, cd_season = sh_season r,
                  cd_synopsis = Option.bind x sl_synopsis, cd_poster = Option.bind x sl_poster_path,
                  cd_score = Option.bind x sl_score, cd_episodes = sh_total_episodes r,
                  cd_status = sh_status r \<rparr>, s)))"

definition card_type :: "card \<Rightarrow> show_type" where
  "card_type c = ShowType_parse (cd_type c)"

definition nfo_name :: "card \<Rightarrow> string" where
  "nfo_name c = (if card_type c = Movie then ''movie.nfo'' else ''tvshow.nfo'')"

definition or_else :: "'a option \<Rightarrow> 'a option \<Rightarrow> 'a option" where
  "or_else a b = (case a of Some x \<Rightarrow> Some x | None \<Rightarrow> b)"

definition synopsis_of :: "card \<Rightarrow> jikan_anime option \<Rightarrow> int \<Rightarrow> time \<Rightarrow> synopsis_fields" where
  "synopsis_of c meta m now =
     (let date = ''Unix timestamp '' @ show_int now in
      case meta of
        Some a \<Rightarrow>
          \<lparr> sy_title = (case ja_title a of Some t \<Rightarrow> t | None \<Rightarrow> cd_title c),
            sy_english_title = or_else (ja_title_english a) (cd_english_title c),
            sy_japanese_title = ja_title_japanese a,
            sy_show_type = (case ja_type a of Some t \<Rightarrow> t | None \<Rightarrow> cd_type c),
            sy_episode_count = or_else (ja_episodes a) (cd_episodes c),
            sy_airing_status = or_else (ja_status a) (cd_status c), sy_airing_dates = ja_aired a,
            sy_mal_score = or_else (ja_score a) (cd_score c), sy_genres = ja_genres a,
            sy_synopsis_text = or_else (ja_synopsis a) (cd_synopsis c), sy_mal_id = m,
            sy_date_written = date \<rparr>
      | None \<Rightarrow>
          \<lparr> sy_title = cd_title c, sy_english_title = cd_english_title c, sy_japanese_title = None,
            sy_show_type = cd_type c, sy_episode_count = cd_episodes c, sy_airing_status = cd_status c,
            sy_airing_dates = None, sy_mal_score = cd_score c, sy_genres = [],
            sy_synopsis_text = cd_synopsis c, sy_mal_id = m, sy_date_written = date \<rparr>)"

text \<open>A text is written when its file is missing, or holds only a placeholder that can be replaced.\<close>

definition write_text_if :: "disk \<Rightarrow> string \<Rightarrow> (string \<Rightarrow> bool) \<Rightarrow> string \<Rightarrow> unit on_disk" where
  "write_text_if d p stale text =
     (\<lambda>f. if \<not> exists_at p f \<or> (case content_at (locate p) f of Some s \<Rightarrow> stale s | None \<Rightarrow> False)
          then ignore (fs_write d p text) f else (Inr (), f))"

definition image_url :: "(string option \<times> string option) option \<Rightarrow> string option" where
  "image_url urls = Option.bind urls (\<lambda>(image, large). or_else large image)"

definition poster_url :: "card \<Rightarrow> jikan_anime option \<Rightarrow> string option" where
  "poster_url c meta =
     or_else (Option.bind meta (\<lambda>a. or_else (image_url (ja_jpg a)) (image_url (ja_webp a))))
       (Option.bind (cd_poster c) (\<lambda>p. if starts_with ''http://'' p \<or> starts_with ''https://'' p then Some p else None))"

definition master_poster :: "studio \<Rightarrow> card \<Rightarrow> jikan_anime option \<Rightarrow> int \<Rightarrow> string option on_disk" where
  "master_poster sd c meta m =
     (case poster_url c meta of
        Some url \<Rightarrow> download_poster sd m url
      | None \<Rightarrow> gets (\<lambda>f. Option.bind (cd_poster c) (\<lambda>p. if exists_at p f then Some p else None)))"

definition placeholder_poster :: "studio \<Rightarrow> string on_disk" where
  "placeholder_poster sd =
     (let p = join_path (sd_data_dir sd) ''placeholder_poster.png'' in
      seq (gets (exists_at p)) (\<lambda>present.
      seq (if present then ret () else ignore (fs_write (sd_disk sd) p solid_png)) (\<lambda>_. ret p)))"

definition write_icon :: "studio \<Rightarrow> settings \<Rightarrow> card \<Rightarrow> jikan_anime option \<Rightarrow> int \<Rightarrow> string \<Rightarrow> unit on_disk" where
  "write_icon sd st c meta m dir =
     (let png = join_path dir FOLDER_ICON_FILE in
      seq (gets (exists_at png)) (\<lambda>present.
      if present then ret ()
      else
        seq (master_poster sd c meta m) (\<lambda>found.
        seq (case found of Some p \<Rightarrow> ret p | None \<Rightarrow> placeholder_poster sd) (\<lambda>poster.
        seq (ignore (create_folder_png sd poster png)) (\<lambda>_.
        ignore (apply_folder_icon sd (s_folder_icon_method st) dir))))))"

definition decorate :: "studio \<Rightarrow> settings \<Rightarrow> card \<Rightarrow> int \<Rightarrow> time \<Rightarrow> string \<Rightarrow> unit on_disk" where
  "decorate sd st c m now dir =
     (let syn = join_path dir SYNOPSIS_FILE; nfo = join_path dir (nfo_name c);
          png = join_path dir FOLDER_ICON_FILE
      in seq (gets (\<lambda>f. exists_at syn f \<and> exists_at png f \<and> exists_at nfo f)) (\<lambda>complete.
         if complete then ret ()
         else
           let meta = (if cd_synopsis c = None \<or> cd_poster c = None then sd_jikan sd m else None);
               text = format_synopsis (sd_fixed2 sd) (synopsis_of c meta m now);
               plot = text_or_empty (or_else (Option.bind meta ja_synopsis) (cd_synopsis c));
               tag = (if card_type c = Movie then ''movie'' else ''tvshow'');
               score = or_else (Option.bind meta ja_score) (cd_score c)
           in seq (write_text_if (sd_disk sd) syn
                     (\<lambda>s. is_placeholder_synopsis s \<and> \<not> is_placeholder_synopsis text) text) (\<lambda>_.
              seq (write_text_if (sd_disk sd) nfo
                     (\<lambda>s. (contains ''<plot></plot>'' s \<or> contains ''<plot/>'' s) \<and> trim plot \<noteq> [])
                     (format_nfo (sd_fixed2 sd) tag (cd_title c) (cd_english_title c) plot score
                        (cd_start_year c) m)) (\<lambda>_.
              write_icon sd st c meta m dir))))"

section \<open>Filing one file\<close>

definition target_name :: "studio \<Rightarrow> settings \<Rightarrow> card \<Rightarrow> f64 \<Rightarrow> string \<Rightarrow> string" where
  "target_name sd st c number ext =
     format_episode_filename (sd_shown sd) (sd_shown41 sd)
       (if card_type c = Movie then s_movie_naming_pattern st else s_naming_pattern st)
       (cd_title c) (cd_season c) number (cd_start_year c) ext"

text \<open>
  The containment check. \<open>canonicalize\<close> fails for a target that does not exist, and
  then the path is compared as it is written, its \<open>..\<close> included.
\<close>

definition outside_root :: "string \<Rightarrow> string \<Rightarrow> fs \<Rightarrow> bool" where
  "outside_root target base f \<longleftrightarrow>
     exists_at base f \<and>
     \<not> path_starts_with (if exists_at target f then locate target else components target) (locate base)"

definition file_exists_question :: "int \<Rightarrow> world \<Rightarrow> question option" where
  "file_exists_question i w =
     List.find (\<lambda>q. qu_job_id q = Some i \<and> qu_kind q = QFileExists) (w_questions w)"

definition ask_file_exists :: "settings \<Rightarrow> int \<Rightarrow> int \<Rightarrow> f64 \<Rightarrow> string \<Rightarrow> string \<Rightarrow> finalize_outcome run" where
  "ask_file_exists st i m number target content_path =
     seq (gets w_now) (\<lambda>now.
     seq (QuestionStore_ask (Some i) (Some m) (FileExists number target content_path) now
            (Some (int (s_question_expiry_hours st) * 3600))) (\<lambda>q.
     seq (log_warn (Some i) (Some m) (''destination file exists: asked question #'' @ show_int q)) (\<lambda>_.
     ret (Fin_NeedsInput q))))"

definition alternative_path :: "string \<Rightarrow> string \<Rightarrow> string \<Rightarrow> string" where
  "alternative_path dir target ext =
     join_path dir ((case path_file_stem target of Some s \<Rightarrow> s | None \<Rightarrow> ''episode'') @ '' (v2).'' @ ext)"

text \<open>Steps 4 and 5: the collision check and the transfer.\<close>

definition place_file ::
  "disk \<Rightarrow> settings \<Rightarrow> int \<Rightarrow> int \<Rightarrow> f64 \<Rightarrow> string \<Rightarrow> string \<Rightarrow> string \<Rightarrow> string \<Rightarrow> finalize_outcome shelving" where
  "place_file d st i m number source dir target ext =
     (let transfer_to = (\<lambda>p. seq (on_fs (transfer_file d source p (s_move_mode st))) (\<lambda>_. ret (Fin_Done p))) in
      seq (gets_fs (exists_at target)) (\<lambda>occupied.
      if \<not> occupied then transfer_to target
      else
        seq (gets_fs (same_inode (locate source) (locate target))) (\<lambda>filed.
        if filed then ret (Fin_Done target)
        else
          seq (gets_store (file_exists_question i)) (\<lambda>question.
          case question of
            None \<Rightarrow> on_store (ask_file_exists st i m number target source)
          | Some q \<Rightarrow>
              (case qu_answer q of
                 None \<Rightarrow> ret (Fin_NeedsInput (qu_id q))
               | Some a \<Rightarrow>
                   (case an_choice a of
                      Keep \<Rightarrow> ret (Fin_Done target)
                    | Replace \<Rightarrow>
                        seq (on_fs (ignore (fs_remove_file d target))) (\<lambda>_. transfer_to target)
                    | KeepBoth \<Rightarrow> transfer_to (alternative_path dir target ext)
                    | _ \<Rightarrow> transfer_to target))))))"

section \<open>Filing a batch\<close>

text \<open>\<open>INSERT \<dots> ON CONFLICT (mal_id, number) DO UPDATE\<close>\<close>

definition upsert_done :: "int \<Rightarrow> f64 \<Rightarrow> string \<Rightarrow> int \<Rightarrow> unit run" where
  "upsert_done m n path bytes =
     (\<lambda>w. case find_episode m n w of
        Some e \<Rightarrow>
          (Inr (), w\<lparr>w_episodes := update_rows (\<lambda>x. ep_mal_id x = m \<and> ep_number x = n)
             (\<lambda>x. x\<lparr>ep_state := EDone, ep_file_path := Some path, ep_size := Some bytes\<rparr>) (w_episodes w)\<rparr>)
      | None \<Rightarrow>
          if known_show w (Some m)
          then (Inr (), w\<lparr>w_episodes := w_episodes w @
                  [\<lparr> ep_id = w_seq_episodes w + 1, ep_mal_id = m, ep_number = n, ep_state = EDone,
                     ep_file_path = Some path, ep_size = Some bytes, ep_torrent_id = None,
                     ep_last_checked = None \<rparr>], w_seq_episodes := w_seq_episodes w + 1\<rparr>)
          else (Inl foreign_key_failed, w))"

text \<open>All video files below a directory, in the order of their paths.\<close>

definition video_files :: "string \<Rightarrow> fs \<Rightarrow> string list" where
  "video_files dir f =
     (let base = locate dir;
          found = filter (\<lambda>l. path_starts_with l base \<and> l \<noteq> base \<and> is_video_file (join_with ''/'' l))
                    (map fst (filter (\<lambda>e. snd e \<noteq> Dir) (fs_nodes f)))
      in map (\<lambda>l. join_path dir (join_with ''/'' (drop (length base) l)))
           (sort_key (\<lambda>l. drop (length base) l) found))"

definition ext_or :: "string \<Rightarrow> string \<Rightarrow> string" where
  "ext_or dflt p = lower (case path_extension p of Some e \<Rightarrow> e | None \<Rightarrow> dflt)"

definition file_size :: "string \<Rightarrow> fs \<Rightarrow> int" where
  "file_size p f = (case content_at (locate p) f of Some s \<Rightarrow> wrap_i64 (length s) | None \<Rightarrow> 0)"

text \<open>One turn of the loop; the result of the transfer and of the row are both dropped.\<close>

definition file_in_batch :: "studio \<Rightarrow> settings \<Rightarrow> card \<Rightarrow> int \<Rightarrow> string \<Rightarrow> string \<Rightarrow> string shelving" where
  "file_in_batch sd st c m dir path =
     (let fname = text_or_empty (path_file_name path);
          number = (case re_episode (parse_release (sd_rx sd) fname) of Some n \<Rightarrow> n | None \<Rightarrow> 1);
          target = join_path dir (target_name sd st c number (ext_or ''mkv'' path))
      in seq (gets_fs (file_size path)) (\<lambda>bytes.
         seq (gets_fs (exists_at target)) (\<lambda>occupied.
         seq (on_fs (if occupied then ret ()
                     else ignore (transfer_file (sd_disk sd) path target (s_move_mode st)))) (\<lambda>_.
         seq (attempt (on_store (upsert_done m number target bytes))) (\<lambda>_.
         ret target)))))"

fun batch_loop :: "studio \<Rightarrow> settings \<Rightarrow> card \<Rightarrow> int \<Rightarrow> string \<Rightarrow> string list \<Rightarrow> string \<Rightarrow> string shelving" where
  "batch_loop sd st c m dir [] primary = ret primary"
| "batch_loop sd st c m dir (p # ps) primary =
     seq (file_in_batch sd st c m dir p) (\<lambda>dest.
     batch_loop sd st c m dir ps (if primary = [] then dest else primary))"

definition make_root :: "disk \<Rightarrow> string \<Rightarrow> unit on_disk" where
  "make_root d base =
     seq (gets (exists_at base)) (\<lambda>present. if present then ret () else ignore (create_dir_all d base))"

record filing =
  fl_job_id :: int
  fl_episode_id :: int
  fl_mal_id :: int
  fl_content_path :: string

definition finalize_batch :: "studio \<Rightarrow> settings \<Rightarrow> filing \<Rightarrow> finalize_outcome shelving" where
  "finalize_batch sd st fl =
     (let base = root_folder sd st; m = fl_mal_id fl in
      seq (on_fs (make_root (sd_disk sd) base)) (\<lambda>_.
      seq (load_card m) (\<lambda>c.
      seq (resolve_show_folder (sd_disk sd) base m (cd_title c) (cd_start_year c)) (\<lambda>dir.
      seq (gets_store w_now) (\<lambda>now.
      seq (on_fs (decorate sd st c m now dir)) (\<lambda>_.
      seq (gets_fs (video_files (fl_content_path fl))) (\<lambda>files.
      seq (batch_loop sd st c m dir files []) (\<lambda>primary.
      ret (Fin_Done (if primary = [] then dir else primary))))))))))"

section \<open>The library step\<close>

definition apostrophe :: string where "apostrophe = [char_of (39 :: nat)]"

definition finalize :: "studio \<Rightarrow> filing \<Rightarrow> finalize_outcome shelving" where
  "finalize sd fl =
     (let source = fl_content_path fl; m = fl_mal_id fl; d = sd_disk sd in
      seq (gets_store w_settings) (\<lambda>st.
      seq (gets_fs (\<lambda>f. node_at (locate source) f)) (\<lambda>found.
      case found of
        None \<Rightarrow> throw (Other (''finished content path '' @ source @ '' does not exist on disk''))
      | Some Dir \<Rightarrow> finalize_batch sd st fl
      | Some (File _) \<Rightarrow>
          (let ext = ext_or [] source; base = root_folder sd st in
           if ext \<notin> set VIDEO_EXTENSIONS_library
           then throw (Other (''file extension .'' @ ext @ '' is not an allowed video format''))
           else
             seq (on_fs (make_root d base)) (\<lambda>_.
             seq (load_card m) (\<lambda>c.
             seq (resolve_show_folder d base m (cd_title c) (cd_start_year c)) (\<lambda>dir.
             seq (gets_store w_now) (\<lambda>now.
             seq (on_fs (decorate sd st c m now dir)) (\<lambda>_.
             seq (gets_store (the_episode (fl_episode_id fl))) (\<lambda>row.
             case row of
               None \<Rightarrow> throw no_rows
             | Some e \<Rightarrow>
                 (let target = join_path dir (target_name sd st c (ep_number e) ext) in
                  seq (gets_fs (outside_root target base)) (\<lambda>outside.
                  if outside
                  then throw (Other (''path traversal detected: target '' @ apostrophe @ target @ apostrophe
                         @ '' is outside library root '' @ apostrophe @ base @ apostrophe))
                  else place_file d st (fl_job_id fl) m (ep_number e) source dir target ext))))))))))))"

section \<open>Rescan\<close>

definition match_directory :: "matcher \<Rightarrow> string \<Rightarrow> world \<Rightarrow> int option" where
  "match_directory rx dirname w =
     (let normalized = normalize_alias rx dirname in
      map_option sh_mal_id (List.find (\<lambda>s.
        list_ex (\<lambda>r. nr_mal_id r = sh_mal_id s \<and> nr_normalized r = normalized) (w_names w)
        \<or> lower (sh_title s) = lower dirname) (sort_key sh_mal_id (w_shows w))))"

text \<open>The show a folder belongs to: its marker, or a show of that name, whose marker is then written.\<close>

definition adopt_id :: "studio \<Rightarrow> string \<Rightarrow> int option shelving" where
  "adopt_id sd path =
     seq (gets_fs (marker_id path)) (\<lambda>marked.
     case marked of
       Some i \<Rightarrow> ret (Some i)
     | None \<Rightarrow>
         (case path_file_name path of
            None \<Rightarrow> ret None
          | Some dirname \<Rightarrow>
              seq (gets_store (match_directory (sd_rx sd) dirname)) (\<lambda>matched.
              case matched of
                None \<Rightarrow> ret None
              | Some i \<Rightarrow>
                  seq (on_fs (ignore (fs_write (sd_disk sd) (join_path path MARKER_FILE) (marker_text i)))) (\<lambda>_.
                  ret (Some i)))))"

text \<open>The episode rows that one file fills; it is counted when a row was there.\<close>

definition adopt_file :: "matcher \<Rightarrow> int \<Rightarrow> string \<Rightarrow> nat shelving" where
  "adopt_file rx m path =
     seq (gets_fs (is_file_at path)) (\<lambda>is_file.
     case (if is_file \<and> is_video_file path
           then Option.bind (path_file_name path) (\<lambda>n. re_episode (parse_release rx n)) else None) of
       None \<Rightarrow> ret 0
     | Some n \<Rightarrow>
         seq (gets_fs (file_size path)) (\<lambda>bytes.
         seq (gets_store (\<lambda>w. find_episode m n w \<noteq> None)) (\<lambda>updated.
         seq (on_store (modify (\<lambda>w. w\<lparr>w_episodes := update_rows (\<lambda>x. ep_mal_id x = m \<and> ep_number x = n)
               (\<lambda>x. x\<lparr>ep_state := EDone, ep_file_path := Some path, ep_size := Some bytes\<rparr>)
               (w_episodes w)\<rparr>))) (\<lambda>_.
         ret (if updated then 1 else 0)))))"

fun adopt_files :: "matcher \<Rightarrow> int \<Rightarrow> string list \<Rightarrow> nat \<Rightarrow> nat shelving" where
  "adopt_files rx m [] n = ret n"
| "adopt_files rx m (p # ps) n = seq (adopt_file rx m p) (\<lambda>k. adopt_files rx m ps (n + k))"

definition adopt_folder :: "studio \<Rightarrow> string \<Rightarrow> nat \<times> nat \<Rightarrow> (nat \<times> nat) shelving" where
  "adopt_folder sd path report =
     seq (adopt_id sd path) (\<lambda>found.
     case found of
       None \<Rightarrow> ret report
     | Some i \<Rightarrow>
         seq (set_folder_path i path) (\<lambda>_.
         seq (gets_fs (\<lambda>f. map (join_path path) (children (locate path) f))) (\<lambda>files.
         seq (adopt_files (sd_rx sd) i files (snd report)) (\<lambda>n.
         ret (fst report + 1, n)))))"

fun adopt_folders :: "studio \<Rightarrow> string list \<Rightarrow> nat \<times> nat \<Rightarrow> (nat \<times> nat) shelving" where
  "adopt_folders sd [] report = ret report"
| "adopt_folders sd (p # ps) report = seq (adopt_folder sd p report) (adopt_folders sd ps)"

definition rescan_library :: "studio \<Rightarrow> string \<Rightarrow> (nat \<times> nat) shelving" where
  "rescan_library sd dir =
     seq (gets_fs (\<lambda>f. node_at (locate dir) f)) (\<lambda>found.
     case found of
       None \<Rightarrow> ret (0, 0)
     | Some (File _) \<Rightarrow> on_fs refused
     | Some Dir \<Rightarrow>
         seq (gets_fs (subdirectories dir)) (\<lambda>dirs. adopt_folders sd dirs (0, 0)))"

section \<open>Rewriting the texts of a show\<close>

text \<open>A \<open>HashSet\<close> of paths as a list; its order does not matter to what is written.\<close>

definition insert_path :: "string list \<Rightarrow> string \<Rightarrow> string list" where
  "insert_path ps p = (if list_ex (same_path p) ps then ps else ps @ [p])"

definition episode_parents :: "int \<Rightarrow> world \<Rightarrow> string list" where
  "episode_parents m w =
     List.map_filter (\<lambda>e.
       if ep_mal_id e = m
       then Option.bind (ep_file_path e) (\<lambda>p. if trim p = [] then None else path_parent p)
       else None) (w_episodes w)"

definition metadata_folders :: "string \<Rightarrow> int \<Rightarrow> library \<Rightarrow> string list" where
  "metadata_folders base m s =
     (let f = lb_fs s;
          stored = (case Option.bind (shelf_of m s) sl_folder_path of
                      Some p \<Rightarrow> if is_dir_at p f then [p] else [] | None \<Rightarrow> []);
          parents = filter (\<lambda>p. is_dir_at p f) (episode_parents m (lb_world s));
          marked = filter (\<lambda>p. marker_id p f = Some m) (subdirectories base f)
      in foldl insert_path [] (stored @ parents @ marked))"

definition japanese_title :: "int \<Rightarrow> world \<Rightarrow> string option" where
  "japanese_title m w =
     (case rev (sort_key nr_priority (filter (\<lambda>r. nr_mal_id r = m \<and> nr_source r = Jikan) (w_names w))) of
        [] \<Rightarrow> None | r # _ \<Rightarrow> Some (nr_name r))"

definition nfo_target :: "card \<Rightarrow> string \<Rightarrow> fs \<Rightarrow> string" where
  "nfo_target c dir f =
     (let movie = join_path dir ''movie.nfo''; tvshow = join_path dir ''tvshow.nfo'' in
      if exists_at movie f then movie
      else if exists_at tvshow f then tvshow
      else if card_type c = Movie then movie else tvshow)"

definition rewrite_folder :: "studio \<Rightarrow> card \<Rightarrow> int \<Rightarrow> string \<Rightarrow> string \<Rightarrow> string \<Rightarrow> unit on_disk" where
  "rewrite_folder sd c m synopsis nfo dir =
     (let png = join_path dir FOLDER_ICON_FILE in
      seq (ignore (fs_write (sd_disk sd) (join_path dir SYNOPSIS_FILE) synopsis)) (\<lambda>_.
      seq (gets (nfo_target c dir)) (\<lambda>target.
      seq (ignore (fs_write (sd_disk sd) target nfo)) (\<lambda>_.
      seq (ensure_marker (sd_disk sd) dir m) (\<lambda>_.
      seq (gets (\<lambda>f. if exists_at png f then None
                     else Option.bind (cd_poster c) (\<lambda>p. if is_file_at p f then Some p else None))) (\<lambda>poster.
      case poster of Some p \<Rightarrow> ignore (create_folder_png sd p png) | None \<Rightarrow> ret ()))))))"

definition rewrite_show_folder_metadata :: "studio \<Rightarrow> time \<Rightarrow> int \<Rightarrow> nat shelving" where
  "rewrite_show_folder_metadata sd now m =
     seq (attempt (load_card m)) (\<lambda>loaded.
     case loaded of
       Inl _ \<Rightarrow> ret 0
     | Inr c \<Rightarrow>
         (case cd_synopsis c of
            None \<Rightarrow> ret 0
          | Some syn \<Rightarrow>
              if trim syn = [] \<or> is_placeholder_synopsis syn then ret 0
              else
                seq (gets_store (japanese_title m)) (\<lambda>japanese.
                seq (gets_store w_settings) (\<lambda>st.
                seq (gets (metadata_folders (root_folder sd st) m)) (\<lambda>dirs.
                let text = format_synopsis (sd_fixed2 sd)
                      ((synopsis_of c None m now)\<lparr>sy_japanese_title := japanese\<rparr>);
                    nfo = format_nfo (sd_fixed2 sd) (if card_type c = Movie then ''movie'' else ''tvshow'')
                      (cd_title c) (cd_english_title c) syn (cd_score c) (cd_start_year c) m
                in seq (on_fs (for_each (rewrite_folder sd c m text nfo) dirs)) (\<lambda>_.
                   ret (length dirs)))))))"

section \<open>Facts\<close>

lemma on_fs_run [simp]: "on_fs a s = (fst (a (lb_fs s)), s\<lparr>lb_fs := snd (a (lb_fs s))\<rparr>)"
  by (simp add: on_fs_def split: prod.split)

lemma on_store_run [simp]: "on_store a s = (fst (a (lb_world s)), s\<lparr>lb_world := snd (a (lb_world s))\<rparr>)"
  by (simp add: on_store_def split: prod.split)

lemma seq_on_fs:
  "seq (on_fs a) f s =
     (case a (lb_fs s) of (Inl e, g) \<Rightarrow> (Inl e, s\<lparr>lb_fs := g\<rparr>) | (Inr x, g) \<Rightarrow> f x (s\<lparr>lb_fs := g\<rparr>))"
  by (simp add: seq_def split: prod.split sum.split)

lemma gets_fs_seq [simp]: "seq (gets_fs g) f s = f (g (lb_fs s)) s"
  by (simp add: gets_fs_def)

lemma gets_store_seq [simp]: "seq (gets_store g) f s = f (g (lb_world s)) s"
  by (simp add: gets_store_def)

lemma set_folder_path_run [simp]:
  "set_folder_path m p s = (Inr (), s\<lparr>lb_shelves := update_rows (\<lambda>x. sl_mal_id x = m) (\<lambda>x. x\<lparr>sl_folder_path := Some p\<rparr>) (lb_shelves s)\<rparr>)"
  by (simp add: set_folder_path_def)

lemma shelf_of_set_folder:
  "shelf_of m (s\<lparr>lb_shelves := update_rows (\<lambda>x. sl_mal_id x = m) (\<lambda>x. x\<lparr>sl_folder_path := Some p\<rparr>) (lb_shelves s)\<rparr>) =
     map_option (\<lambda>x. x\<lparr>sl_folder_path := Some p\<rparr>) (shelf_of m s)"
  by (simp add: shelf_of_def find_row_update_same)

lemma shelf_of_fs [simp]: "shelf_of m (s\<lparr>lb_fs := f\<rparr>) = shelf_of m s"
  by (simp add: shelf_of_def)

text \<open>Decimal numbers are read back.\<close>

lemma digits_value_snoc: "digits_value (ds @ [c]) = 10 * digits_value ds + (of_char c - 48)"
  by (simp add: digits_value_def)

lemma show_nat_read: "list_all is_digit (show_nat n) \<and> show_nat n \<noteq> [] \<and> digits_value (show_nat n) = n"
proof (induction n rule: show_nat.induct)
  case (1 n)
  have d: "is_digit (char_of (48 + k))" "of_char (char_of (48 + k) :: char) = 48 + k" if "k < 10" for k :: nat
    using that by (simp_all add: is_digit_def take_bit_nat_eq_self)
  show ?case
  proof (cases "n < 10")
    case True
    then show ?thesis using d [of n] by (subst (1 2 3) show_nat.simps) (simp add: digits_value_def)
  next
    case False
    then have "show_nat n = show_nat (n div 10) @ [char_of (48 + n mod 10)]" by (subst show_nat.simps) simp
    then show ?thesis using 1 False d [of "n mod 10"] by (simp add: digits_value_snoc)
  qed
qed

lemma show_nat_digits: "c \<in> set (show_nat n) \<Longrightarrow> is_digit c"
  using show_nat_read [of n] by (simp add: list_all_iff)

lemma parse_bounded_show: "n < b \<Longrightarrow> parse_bounded b (show_nat n) = Some n"
  using show_nat_read [of n] by (simp add: parse_bounded_def)

lemma trim_solid: "\<forall>c\<in>set s. \<not> is_space c \<Longrightarrow> trim (s @ nl) = s"
proof -
  assume a: "\<forall>c\<in>set s. \<not> is_space c"
  have keep: "dropWhile is_space t = t" if "\<forall>c\<in>set t. \<not> is_space c" for t
    using that by (cases t) auto
  show "trim (s @ nl) = s"
  proof (cases s)
    case Nil
    then show ?thesis by (simp add: trim_def nl_def is_space_def)
  next
    case (Cons c cs)
    then have "dropWhile is_space (s @ nl) = s @ nl" using a by simp
    moreover have "dropWhile is_space (rev (s @ nl)) = rev s"
      using a keep [of "rev s"] by (simp add: nl_def is_space_def)
    ultimately show ?thesis by (simp add: trim_def)
  qed
qed

lemma parse_signed_i64_show:
  assumes "- (2 ^ 63) \<le> m" "m < 2 ^ 63"
  shows "parse_signed_i64 (show_int m) = Some m"
proof (cases "m < 0")
  case True
  then show ?thesis using assms parse_bounded_show [of "nat (- m)" "2 ^ 63 + 1"]
    by (simp add: show_int_def parse_signed_i64_def starts_with_def)
next
  case False
  obtain c cs where c: "show_nat (nat m) = c # cs" using show_nat_read [of "nat m"] by (cases "show_nat (nat m)") auto
  have "is_digit c" using show_nat_digits [of c "nat m"] c by simp
  then have "\<not> starts_with ''-'' (show_nat (nat m))" "\<not> starts_with ''+'' (show_nat (nat m))"
    by (auto simp: starts_with_def c is_digit_def)
  moreover have "parse_bounded (2 ^ 63) (show_nat (nat m)) = Some (nat m)"
    using False assms by (intro parse_bounded_show) (simp add: nat_less_iff)
  ultimately show ?thesis using False by (simp add: show_int_def parse_signed_i64_def)
qed

lemma marker_reads_back:
  assumes "- (2 ^ 63) \<le> m" "m < 2 ^ 63"
  shows "parse_signed_i64 (trim (marker_text m)) = Some m"
proof -
  have ns: "\<not> is_space c" if "c \<in> set (show_nat n)" for c n
    using show_nat_digits [OF that] by (auto simp: is_digit_def is_space_def Let_def)
  then have "trim (marker_text m) = show_int m"
    unfolding marker_text_def by (intro trim_solid) (auto simp: show_int_def is_space_def split: if_splits)
  then show ?thesis using parse_signed_i64_show [OF assms] by simp
qed

section \<open>Properties\<close>


text \<open>A transfer onto another file replaces what that file held.\<close>

lemma move_into_replaces:
  assumes "node_at (locate source) f = Some (File i)" "node_at (locate target) f = Some (File j)" "i \<noteq> j"
    and "\<And>c. d c" "parent_ready (locate target) f"
  shows "\<exists>g. move_into d source target mode f = (Inr (), g) \<and> content_at (locate target) g = Some (fs_data f i)"
proof -
  have "locate source \<noteq> locate target" using assms(1-3) by auto
  moreover have "locate target \<noteq> []" using assms(2) by auto
  ultimately show ?thesis
    using assms by (cases mode)
      (auto simp: move_into_def fs_hard_link_def fs_rename_def fs_copy_def write_at_def Let_def refused_def content_at_def)
qed

text \<open>
  Any other answer overwrites. The answer to the question about the existing file is
  looked up by job only and not checked: whatever it is, apart from \<open>Keep\<close>,
  \<open>Replace\<close> and \<open>KeepBoth\<close> (say \<open>Wait\<close>, after which the job comes back to this step), the file
  that was there is replaced by the new one.
\<close>

theorem other_answer_overwrites:
  assumes "node_at (locate source) (lb_fs s) = Some (File i)" "node_at (locate target) (lb_fs s) = Some (File j)" "i \<noteq> j"
    and "file_exists_question k (lb_world s) = Some q" "qu_answer q = Some a"
    and "an_choice a \<noteq> Keep" "an_choice a \<noteq> Replace" "an_choice a \<noteq> KeepBoth"
    and "\<forall>c. d c" "create_parent d target (lb_fs s) = (Inr (), lb_fs s)" "parent_ready (locate target) (lb_fs s)"
  shows "fst (place_file d st k m n source dir target ext s) = Inr (Fin_Done target) \<and>
    content_at (locate target) (lb_fs (snd (place_file d st k m n source dir target ext s))) =
      content_at (locate source) (lb_fs s)"
proof -
  have ne: "\<not> same_path source target" using assms(1-3) by (auto simp: same_path_def locate_def)
  obtain g where g: "move_into d source target (s_move_mode st) (lb_fs s) = (Inr (), g)"
    "content_at (locate target) g = Some (fs_data (lb_fs s) i)"
    using move_into_replaces [OF assms(1-3) _ assms(11), of d] assms(9) by blast
  have tf: "transfer_file d source target (s_move_mode st) (lb_fs s) = (Inr (), g)"
    using ne g(1) assms(10) by (simp add: transfer_file_alt)
  have "place_file d st k m n source dir target ext s =
      seq (on_fs (transfer_file d source target (s_move_mode st))) (\<lambda>_. ret (Fin_Done target)) s"
    using assms(1-8) by (cases "an_choice a") (simp_all add: place_file_def Let_def exists_at_def same_inode_def)
  then show ?thesis using tf g(2) assms(1) by (simp add: seq_def content_at_def)
qed

text \<open>
  A new show folder can be found again. When \<open>create_show_folder\<close> succeeds, the folder exists, is
  recorded for the show, and its marker file reads back as the show's id; so the scan of the
  library (\<open>find_marked\<close>) finds a folder of that show even if the database has lost the path.
\<close>

theorem created_folder_found:
  assumes "create_show_folder d base m title year s = (Inr dir, t)" "is_name (show_folder_name title year)"
    and "- (2 ^ 63) \<le> m" "m < 2 ^ 63"
  shows "is_dir_at dir (lb_fs t) \<and> marker_id dir (lb_fs t) = Some m \<and>
    shelf_of m t = map_option (\<lambda>x. x\<lparr>sl_folder_path := Some dir\<rparr>) (shelf_of m s) \<and>
    (\<exists>p. find_marked base m (lb_fs t) = Some p \<and> marker_id p (lb_fs t) = Some m)"
proof -
  let ?n = "show_folder_name title year"
  define f where "f = lb_fs s"
  obtain g h where dir: "dir = join_path base ?n" and mk: "create_dir_all d dir f = (Inr (), g)"
    and wr: "fs_write d (join_path dir MARKER_FILE) (marker_text m) g = (Inr (), h)"
    and t: "t = s\<lparr>lb_fs := h, lb_shelves := update_rows (\<lambda>x. sl_mal_id x = m) (\<lambda>x. x\<lparr>sl_folder_path := Some dir\<rparr>) (lb_shelves s)\<rparr>"
    using assms(1) unfolding create_show_folder_def Let_def f_def
    by (auto simp: seq_on_fs seq_def prod_eq_iff split: prod.splits sum.splits)
  have mname: "is_name MARKER_FILE" by (simp add: is_name_def MARKER_FILE_def)
  have ld: "locate dir = locate base @ [?n]" unfolding dir by (rule locate_join_name [OF assms(2)])
  have lm: "locate (join_path dir MARKER_FILE) = locate dir @ [MARKER_FILE]" by (rule locate_join_name [OF mname])
  have gd: "node_at (locate dir) g = Some Dir" using create_dir_all_made [OF mk] by (simp add: is_dir_at_def)
  have gb: "node_at (locate base) g = Some Dir"
  proof (cases "locate base = []")
    case False
    then have "locate base \<in> set (map (\<lambda>n. take n (locate dir)) [1..<length (locate dir) + 1])"
      by (auto intro!: image_eqI [of _ _ "length (locate base)"] simp: Suc_le_eq ld)
    then show ?thesis using mk unfolding create_dir_all_def by (blast intro: make_dirs_made)
  qed simp
  have same: "node_at k h = node_at k g" if "k \<noteq> locate (join_path dir MARKER_FILE)" for k
    using wr that by (auto simp: fs_write_def write_at_def refused_def split: if_splits option.splits node.splits)
  have cont: "content_at (locate (join_path dir MARKER_FILE)) h = Some (marker_text m)"
    using wr by (auto simp: fs_write_def write_at_def refused_def content_at_def lm split: if_splits option.splits node.splits)
  have hd: "node_at (locate dir) h = Some Dir" "node_at (locate base) h = Some Dir"
    using same [of "locate dir"] same [of "locate base"] gd gb by (simp_all add: lm ld)
  have mid: "marker_id dir h = Some m"
    using cont marker_reads_back [OF assms(3,4)] by (simp add: marker_id_def)
  have "(locate dir, Dir) \<in> set (fs_nodes h)"
    using hd(1) ld by (auto simp: node_at_def dest: map_of_SomeD)
  then have "?n \<in> set (children (locate base) h)"
    by (force simp: children_def ld)
  then have sub: "dir \<in> set (subdirectories base h)"
    using hd by (auto simp: subdirectories_def is_dir_at_def dir)
  then have "find_marked base m h \<noteq> None"
    using mid by (auto simp: find_marked_def find_None_iff)
  then obtain p where p: "find_marked base m h = Some p" by blast
  then have "marker_id p h = Some m" by (auto simp: find_marked_def find_Some_iff)
  then show ?thesis
    using p mid hd(1) shelf_of_set_folder [of m dir "s\<lparr>lb_fs := h\<rparr>"]
    by (simp add: t is_dir_at_def)
qed

section \<open>Witnesses\<close>

definition demo_library :: "question list \<Rightarrow> library" where
  "demo_library qs =
     \<lparr> lb_world = (empty_world 0)\<lparr>w_questions := qs\<rparr>,
       lb_shelves = [\<lparr> sl_mal_id = 5, sl_folder_path = None, sl_synopsis = None, sl_poster_path = None, sl_score = None \<rparr>],
       lb_fs = \<lparr> fs_nodes = [([''dl''], Dir), ([''dl'', ''x.mkv''], File 0), ([''lib''], Dir), ([''lib'', ''1.mkv''], File 1)],
         fs_data = (\<lambda>i. if i = 0 then ''new'' else ''old''), fs_next = 2 \<rparr> \<rparr>"

definition demo_question :: "choice \<Rightarrow> question" where
  "demo_question c =
     \<lparr> qu_id = 1, qu_job_id = Some 7, qu_mal_id = Some 5, qu_kind = QFileExists,
       qu_payload = FileExists 1 ''/lib/1.mkv'' ''/dl/x.mkv'', qu_answer = Some \<lparr> an_choice = c, an_always = False \<rparr>,
       qu_created_at = 0,
       qu_expires_at = None \<rparr>"

lemma demo_paths:
  "components ''/dl/x.mkv'' = [''dl'', ''x.mkv'']" "components ''/lib/1.mkv'' = [''lib'', ''1.mkv'']"
  "components ''lib/1.mkv'' = [''lib'', ''1.mkv'']" "components ''/lib'' = [''lib'']" "components ''lib'' = [''lib'']"
  by (simp_all add: components_def)

lemma demo_locations:
  "locate ''/dl/x.mkv'' = [''dl'', ''x.mkv'']" "locate ''/lib/1.mkv'' = [''lib'', ''1.mkv'']" "locate ''/lib'' = [''lib'']"
  by (simp_all add: locate_def demo_paths climb_def del: components_slash)

lemma demo_nodes:
  "node_at [''dl'', ''x.mkv''] (lb_fs (demo_library qs)) = Some (File 0)"
  "node_at [''lib'', ''1.mkv''] (lb_fs (demo_library qs)) = Some (File 1)"
  "node_at [''lib''] (lb_fs (demo_library qs)) = Some Dir"
  by (simp_all add: demo_library_def node_at_def)

lemma demo_parent: "path_parent ''/lib/1.mkv'' = Some ''/lib''"
  by (simp add: path_parent_def demo_paths starts_with_def del: components_slash)

lemma demo_ready: "create_parent d ''/lib/1.mkv'' (lb_fs (demo_library qs)) = (Inr (), lb_fs (demo_library qs))"
  by (simp add: create_parent_def demo_parent create_dir_all_def demo_locations demo_nodes)


theorem other_answer_overwrites_witness:
  "content_at [''lib'', ''1.mkv''] (lb_fs (snd (place_file (\<lambda>_. True) Settings_default 7 5 1 ''/dl/x.mkv'' ''/lib'' ''/lib/1.mkv''
     ''mkv'' (demo_library [demo_question Wait])))) = Some ''new''"
proof -
  let ?s = "demo_library [demo_question Wait]"
  have q: "file_exists_question 7 (lb_world ?s) = Some (demo_question Wait)"
    by (simp add: file_exists_question_def demo_library_def demo_question_def)
  have "content_at [''dl'', ''x.mkv''] (lb_fs ?s) = Some ''new''"
    by (simp add: demo_library_def content_at_def node_at_def)
  moreover have "parent_ready [''lib'', ''1.mkv''] (lb_fs ?s)" by (simp add: parent_ready_def demo_nodes)
  moreover have a: "qu_answer (demo_question Wait) = Some \<lparr> an_choice = Wait, an_always = False \<rparr>"
    by (simp add: demo_question_def)
  ultimately show ?thesis
    using other_answer_overwrites [of "''/dl/x.mkv''" ?s 0 "''/lib/1.mkv''" 1 7 "demo_question Wait", OF _ _ _ q a]
    by (simp add: demo_locations demo_nodes demo_ready)
qed

lemma demo_created:
  "fst (create_show_folder (\<lambda>_. True) ''/lib'' 5 ''Frieren'' None (demo_library [])) = Inr (join_path ''/lib'' ''Frieren'')"
  "show_folder_name ''Frieren'' None = ''Frieren''"
proof -
  show n: "show_folder_name ''Frieren'' None = ''Frieren''" by (simp add: show_folder_name_def) code_simp
  have name: "is_name ''Frieren''" "is_name MARKER_FILE" by (simp_all add: is_name_def MARKER_FILE_def)
  have l: "locate (join_path ''/lib'' ''Frieren'') = [''lib'', ''Frieren'']"
    "locate (join_path (join_path ''/lib'' ''Frieren'') MARKER_FILE) = [''lib'', ''Frieren'', ''.mal_id'']"
    by (simp_all add: locate_join_name name demo_locations) (simp_all add: MARKER_FILE_def)
  have "node_at [''lib'', ''Frieren''] (lb_fs (demo_library [])) = None"
    "node_at [''lib'', ''Frieren'', ''.mal_id''] (lb_fs (demo_library [])) = None"
    by (simp_all add: demo_library_def node_at_def)
  then show "fst (create_show_folder (\<lambda>_. True) ''/lib'' 5 ''Frieren'' None (demo_library [])) = Inr (join_path ''/lib'' ''Frieren'')"
    by (simp add: create_show_folder_def n Let_def seq_on_fs create_dir_all_def l demo_nodes fs_write_def write_at_def parent_ready_def
        numeral_2_eq_2 upt_rec)
qed

theorem created_folder_found_witness:
  "\<exists>p. find_marked ''/lib'' 5 (lb_fs (snd (create_show_folder (\<lambda>_. True) ''/lib'' 5 ''Frieren'' None (demo_library [])))) = Some p"
proof -
  obtain t where t: "create_show_folder (\<lambda>_. True) ''/lib'' 5 ''Frieren'' None (demo_library []) = (Inr (join_path ''/lib'' ''Frieren''), t)"
    using demo_created(1) by (metis prod.collapse)
  have "is_name (show_folder_name ''Frieren'' None)" by (simp add: demo_created is_name_def)
  from created_folder_found [OF t this] t show ?thesis by auto
qed

section \<open>The folder of a show, the library root, batches\<close>

definition grows :: "fs \<Rightarrow> fs \<Rightarrow> bool" where
  "grows f g \<longleftrightarrow> (\<forall>k. node_at k f \<noteq> None \<longrightarrow> node_at k g \<noteq> None)"

interpretation growing: evolution grows
  by unfold_locales (auto simp: grows_def)

lemma write_grows: "evolves grows (fs_write d p s)"
  by (auto simp: evolves_def grows_def fs_write_def write_at_def refused_def split: option.split node.split)

lemma ensure_marker_grows: "evolves grows (ensure_marker d p m)"
  unfolding ensure_marker_def ignore_def
  by (intro growing.ev_rules write_grows)

lemma ensure_marker_ok: "fst (ensure_marker d p m f) = Inr ()"
  by (simp add: ensure_marker_def ignore_def)

lemma exists_grows: "grows f g \<Longrightarrow> exists_at p f \<Longrightarrow> exists_at p g"
  by (simp add: grows_def exists_at_def)

lemma find_marked_dir:
  assumes "find_marked base m f = Some p"
  shows "is_dir_at p f \<and> marker_id p f = Some m"
proof -
  obtain i where i: "i < length (subdirectories base f)" "p = subdirectories base f ! i" "marker_id p f = Some m"
    using assms by (auto simp: find_marked_def find_Some_iff)
  then have "p \<in> set (subdirectories base f)" by simp
  then have "is_dir_at p f" by (simp add: subdirectories_def)
  with i(3) show ?thesis by blast
qed

lemma resolved_again:
  assumes "Option.bind (shelf_of m t) sl_folder_path = Some p" "exists_at p (lb_fs t)"
  shows "fst (resolve_show_folder d base m title year t) = Inr p"
  using assms by (simp add: resolve_show_folder_def gets_fs_def seq_on_fs prod_eq_iff split: prod.split sum.split)
    (metis ensure_marker_ok fst_conv old.sum.distinct(2))

text \<open>
  C26: the folder of a show is stable. Once \<open>resolve_show_folder\<close> has given a folder for a show in the
  database (the recorded one, one that was renamed and found by its marker, or a new one), the folder
  exists and every later call gives the same one, whatever has become of the title, the year or the library
  folder in the settings meanwhile.
\<close>

theorem show_folder_stable:
  assumes "shelf_of m s \<noteq> None" "resolve_show_folder d base m title year s = (Inr p, t)"
  shows "exists_at p (lb_fs t) \<and> fst (resolve_show_folder d' base' m title' year' t) = Inr p"
proof -
  obtain x where x: "shelf_of m s = Some x" using assms(1) by blast
  have made: "exists_at q g" if "create_dir_all d q f = (Inr u, g)" for q f g and u :: unit
    using create_dir_all_made [of d q f g] that by (simp add: is_dir_at_def exists_at_def)
  have marked: "exists_at q (snd (ensure_marker d q m f))" if "exists_at q f" for q f
    using exists_grows [OF evolvesD [OF ensure_marker_grows] that] .
  have "exists_at p (lb_fs t) \<and> Option.bind (shelf_of m t) sl_folder_path = Some p"
  proof (cases "sl_folder_path x")
    case None
    show ?thesis
    proof (cases "find_marked base m (lb_fs s)")
      case None: None
      have run: "create_show_folder d base m title year s = (Inr p, t)"
        using assms(2) x \<open>sl_folder_path x = None\<close> None by (simp add: resolve_show_folder_def gets_fs_def)
      then obtain g where "create_dir_all d p (lb_fs s) = (Inr (), g)" "grows g (lb_fs t)"
        and sh: "shelf_of m t = Some (x\<lparr>sl_folder_path := Some p\<rparr>)"
        using x evolvesD [OF write_grows] unfolding create_show_folder_def Let_def
        by (auto simp: seq_on_fs shelf_of_def find_row_update_same split: prod.splits sum.splits) (metis snd_conv)
      then show ?thesis using made exists_grows by simp
    next
      case (Some q)
      then have "is_dir_at q (lb_fs s)"
        using find_marked_dir by blast
      then show ?thesis using assms(2) x None Some
        by (auto simp: resolve_show_folder_def gets_fs_def is_dir_at_def exists_at_def shelf_of_def find_row_update_same)
    qed
  next
    case (Some q)
    show ?thesis
    proof (cases "exists_at q (lb_fs s)")
      case True
      then show ?thesis using assms(2) x Some marked [OF True]
        by (auto simp: resolve_show_folder_def gets_fs_def seq_on_fs split: prod.splits sum.splits)
    next
      case False
      show ?thesis
      proof (cases "find_marked base m (lb_fs s)")
        case None
        then show ?thesis using assms(2) x Some False made marked
          by (auto simp: resolve_show_folder_def gets_fs_def seq_on_fs split: prod.splits sum.splits) (metis snd_conv)+
      next
        case (Some q')
        then have "is_dir_at q' (lb_fs s)"
          using find_marked_dir by blast
        then show ?thesis using assms(2) x \<open>sl_folder_path x = Some q\<close> False Some
          by (auto simp: resolve_show_folder_def gets_fs_def is_dir_at_def exists_at_def shelf_of_def find_row_update_same)
      qed
    qed
  qed
  then show ?thesis using resolved_again by blast
qed

theorem show_folder_stable_witness:
  "\<exists>p. fst (resolve_show_folder (\<lambda>_. True) ''/other'' 5 ''B'' (Some 2020)
     (snd (resolve_show_folder (\<lambda>_. True) ''/lib'' 5 ''Frieren'' None (demo_library [])))) = Inr p"
proof -
  have sh: "shelf_of 5 (demo_library []) \<noteq> None" "Option.bind (shelf_of 5 (demo_library [])) sl_folder_path = None"
    by (simp_all add: shelf_of_def demo_library_def)
  have "children [''lib''] (lb_fs (demo_library [])) = [''1.mkv'']" by (simp add: demo_library_def children_def)
  moreover have "locate (join_path ''/lib'' ''1.mkv'') = [''lib'', ''1.mkv'']"
    using locate_join_name [of "''1.mkv''" "''/lib''"] by (simp add: is_name_def demo_locations)
  ultimately have "find_marked ''/lib'' 5 (lb_fs (demo_library [])) = None"
    by (simp add: find_marked_def subdirectories_def is_dir_at_def demo_locations demo_nodes)
  then have "resolve_show_folder (\<lambda>_. True) ''/lib'' 5 ''Frieren'' None (demo_library []) =
      create_show_folder (\<lambda>_. True) ''/lib'' 5 ''Frieren'' None (demo_library [])"
    using sh by (simp add: resolve_show_folder_def gets_fs_def)
  then obtain t where t: "resolve_show_folder (\<lambda>_. True) ''/lib'' 5 ''Frieren'' None (demo_library []) = (Inr (join_path ''/lib'' ''Frieren''), t)"
    using demo_created(1) by (metis prod.collapse)
  from show_folder_stable [OF sh(1) t, of "\<lambda>_. True" "''/other''" "''B''" "Some 2020"] t show ?thesis by auto
qed

text \<open>
  A show can be filed outside the library. If the title is reduced to \<open>..\<close> (as \<open>- .. -\<close> is) the show's
  folder is the parent of the library. The containment check does not stop the file: the
  target does not exist yet, so its path is compared as written, \<open>..\<close> included. The check passes and
  the target lies beside the library and not inside it. Without \<open>..\<close> in its path the check is exact.
\<close>

theorem filed_outside_library:
  assumes "sanitize_component title = ''..''" "''..'' \<notin> set (components base)" "components base \<noteq> []"
    and "exists_at base f" "is_name name"
    and "\<not> exists_at (join_path (join_path base (show_folder_name title None)) name) f"
  shows "\<not> outside_root (join_path (join_path base (show_folder_name title None)) name) base f \<and>
    locate (join_path (join_path base (show_folder_name title None)) name) = butlast (locate base) @ [name] \<and>
    \<not> path_starts_with (locate (join_path (join_path base (show_folder_name title None)) name)) (locate base) \<and>
    (\<forall>p. ''..'' \<notin> set (components p) \<longrightarrow> outside_root p base f = (\<not> path_starts_with (locate p) (locate base)))"
proof -
  let ?t = "join_path (join_path base (show_folder_name title None)) name"
  have up: "components (join_path base ''..'') = components base @ [''..'']"
    by (simp add: components_join_path starts_with_def components_single)
  have c: "components ?t = components base @ [''..'', name]"
    using assms(1,5) up by (simp add: show_folder_name_def components_join_path name_not_rooted components_name)
  have b: "locate base = components base" by (rule locate_plain [OF assms(2)])
  have l: "locate ?t = butlast (locate base) @ [name]"
    using assms(5) b locate_plain [OF assms(2)]
    by (simp add: locate_def c climb_def is_name_def)
  have ne: "locate ?t \<noteq> locate base" using assms(4,6) by (auto simp: exists_at_def)
  have len: "length (locate ?t) = length (locate base)" using l b assms(3) by simp
  have "\<not> outside_root ?t base f" using assms(4,6) by (simp add: outside_root_def c path_starts_with_def b)
  moreover have "\<not> path_starts_with (locate ?t) (locate base)" using ne len by (simp add: path_starts_with_def)
  moreover have "outside_root p base f = (\<not> path_starts_with (locate p) (locate base))" if "''..'' \<notin> set (components p)" for p
    using assms(4) locate_plain [OF that] by (simp add: outside_root_def)
  ultimately show ?thesis using l by blast
qed

theorem filed_outside_library_witness:
  "locate (join_path (join_path ''/lib'' (show_folder_name ''- .. -'' None)) ''1.mkv'') = [''1.mkv'']"
proof -
  have t: "sanitize_component ''- .. -'' = ''..''" by code_simp
  have n: "is_name ''1.mkv''" by (simp add: is_name_def)
  have b: "components ''/lib'' = [''lib'']" by (simp only: demo_paths)
  have "exists_at ''/lib'' (lb_fs (demo_library []))" by (simp add: exists_at_def demo_locations demo_nodes)
  moreover have "\<not> exists_at (join_path (join_path ''/lib'' (show_folder_name ''- .. -'' None)) ''1.mkv'') (lb_fs (demo_library []))"
  proof -
    have "components (join_path (join_path ''/lib'' ''..'') ''1.mkv'') = [''lib'', ''..'', ''1.mkv'']"
      by (simp add: components_join_path starts_with_def components_name [OF n] components_single)
    then show ?thesis by (simp add: exists_at_def show_folder_name_def t locate_def climb_def) (simp add: node_at_def demo_library_def)
  qed
  ultimately show ?thesis
    using filed_outside_library [OF t, of "''/lib''" "lb_fs (demo_library [])" "''1.mkv''"] n b
    by (simp add: locate_def climb_def del: components_slash)
qed

lemma nothing_allowed:
  assumes "\<And>c. \<not> d c"
  shows "snd (transfer_file d a b mode f) = f"
proof -
  have mk: "snd (make_dirs d ls f) = f" for ls
    by (induction ls) (auto simp: refused_def assms split: option.split node.split)
  have cp: "snd (fs_copy d a b f) = f" by (auto simp: fs_copy_def Let_def refused_def assms split: option.split node.split)
  have "snd (move_into d a b mode f) = f"
    using cp by (cases mode)
      (auto simp: move_into_def fs_hard_link_def fs_rename_def Let_def refused_def assms ignore_def fs_remove_file_def seq_def
        split: option.split node.split prod.splits sum.splits)
  moreover have "snd (create_parent d b f) = f"
    by (auto simp: create_parent_def create_dir_all_def mk split: option.split)
  ultimately show ?thesis
    by (auto simp: transfer_file_alt seq_def split: prod.splits sum.splits)
qed

lemma find_update:
  "(\<And>x. P x \<Longrightarrow> P (g x)) \<Longrightarrow> List.find P (update_rows P g es) = map_option g (List.find P es)"
  by (induction es) auto

text \<open>
  A batch counts what it did not file. When the disk refuses everything (it is full, say), \<open>file_in_batch\<close> drops the error of the
  transfer and still marks the episode as done, with the path of a file that does not exist; a file whose
  name shows no number is taken for episode 1.
\<close>

theorem batch_counts_missing_file:
  assumes "file_in_batch sd st c m dir path s = (r, t)" "\<forall>x. \<not> sd_disk sd x"
    and "number = (case re_episode (parse_release (sd_rx sd) (text_or_empty (path_file_name path))) of Some n \<Rightarrow> n | None \<Rightarrow> 1)"
    and "target = join_path dir (target_name sd st c number (ext_or ''mkv'' path))"
    and "\<not> exists_at target (lb_fs s)" "known_show (lb_world s) (Some m)"
  shows "r = Inr target \<and> lb_fs t = lb_fs s \<and> \<not> exists_at target (lb_fs t) \<and>
    (\<exists>e. find_episode m number (lb_world t) = Some e \<and> ep_state e = EDone \<and> ep_file_path e = Some target)"
proof -
  have fs: "snd (ignore (transfer_file (sd_disk sd) path target mode) f) = f" for mode f
    using nothing_allowed [of "sd_disk sd" path target mode f] assms(2) by (simp add: ignore_def)
  let ?b = "file_size path (lb_fs s)"
  have run: "r = Inr target \<and> t = s\<lparr>lb_world := snd (upsert_done m number target ?b (lb_world s))\<rparr>"
    using assms(1,5) fs [of "s_move_mode st" "lb_fs s"]
    unfolding file_in_batch_def Let_def assms(3) [symmetric] assms(4) [symmetric]
    by (auto simp: seq_on_fs ignore_def split: prod.splits sum.splits)
  have "\<exists>e. find_episode m number (snd (upsert_done m number target ?b (lb_world s))) = Some e \<and>
      ep_state e = EDone \<and> ep_file_path e = Some target"
  proof (cases "find_episode m number (lb_world s)")
    case (Some e)
    then show ?thesis
      by (simp add: upsert_done_def find_episode_def find_update)
  next
    case None
    have "List.find P (xs @ [y]) = Some y" if "List.find P xs = None" "P y" for P and xs :: "episode list" and y
      using that by (induction xs) (auto split: if_splits)
    then show ?thesis using None assms(6) by (simp add: upsert_done_def find_episode_def)
  qed
  then show ?thesis using run assms(5) by simp
qed

definition demo_studio :: studio where
  "demo_studio =
     \<lparr> sd_disk = (\<lambda>_. False), sd_rx = no_match, sd_home = None, sd_data_dir = ''/data'', sd_jikan = \<lambda>_. None,
       sd_image = \<lambda>_. None, sd_magick = \<lambda>_. None, sd_desktop = [], sd_gio_ok = False,
       sd_fixed2 = \<lambda>_. ''1.00'', sd_shown = \<lambda>_. ''1'', sd_shown41 = \<lambda>_. ''01.0'' \<rparr>"

definition demo_card :: card where
  "demo_card =
     \<lparr> cd_title = ''A'', cd_english_title = None, cd_type = ''tv'', cd_start_year = None, cd_season = 1,
       cd_synopsis = None, cd_poster = None, cd_score = None, cd_episodes = None, cd_status = None \<rparr>"

theorem batch_counts_missing_file_witness:
  "\<exists>e. find_episode 1 1 (lb_world (snd (file_in_batch demo_studio (Settings_default\<lparr>s_naming_pattern := ''e.{ext}''\<rparr>) demo_card 1 ''/lib'' ''/dl/x.mkv''
     ((demo_library [])\<lparr>lb_world := sample_store []\<rparr>)))) = Some e \<and> ep_state e = EDone"
proof -
  let ?s = "(demo_library [])\<lparr>lb_world := sample_store []\<rparr>"
  let ?st = "Settings_default\<lparr>s_naming_pattern := ''e.{ext}''\<rparr>"
  obtain r t where run: "file_in_batch demo_studio ?st demo_card 1 ''/lib'' ''/dl/x.mkv'' ?s = (r, t)" by fastforce
  have n: "1 = (case re_episode (parse_release (sd_rx demo_studio) (text_or_empty (path_file_name ''/dl/x.mkv''))) of Some n \<Rightarrow> n | None \<Rightarrow> 1)"
    by (simp add: demo_studio_def parse_release_def Let_def extract_season_episode_def season_form_def single_forms_def
        extract_metadata_def codec_of_def is_match_def leading_group_def
        no_match_def Release_default_def split: prod.split)
  have x: "ext_or ''mkv'' ''/dl/x.mkv'' = ''mkv''" by code_simp
  have target: "target_name demo_studio ?st demo_card 1 ''mkv'' = ''e.mkv''"
  proof -
    have w: "show_int \<lfloor>1 :: real\<rfloor> = ''1''" by simp code_simp
    have "ShowType_parse (cd_type demo_card) \<noteq> Movie" by code_simp
    then have "card_type demo_card \<noteq> Movie" by (simp add: card_type_def)
    then show ?thesis
      by (simp add: target_name_def format_episode_filename_def w demo_card_def Let_def) code_simp
  qed
  have e: "''/lib/e.mkv'' = join_path ''/lib'' (target_name demo_studio ?st demo_card 1 (ext_or ''mkv'' ''/dl/x.mkv''))"
    by (simp add: x target join_path_def starts_with_def)
  have "components ''lib/e.mkv'' = [''lib'', ''e.mkv'']" by (simp add: components_def)
  then have absent: "\<not> exists_at ''/lib/e.mkv'' (lb_fs ?s)"
    by (simp add: exists_at_def locate_def climb_def) (simp add: node_at_def demo_library_def)
  from batch_counts_missing_file [OF run _ n e absent] run show ?thesis
    by (auto simp: demo_studio_def known_show_def sample_defs)
qed

end
