(* ===== verification/Nyaa.thy ===== *)
theory Nyaa
  imports Gate Matching
begin

text \<open>
  \<open>nyaa.rs\<close>: the query sent to Nyaa, the feed that comes back and the walk over the mirrors.
  The XML reader is third-party code: a document is given to the model as the list of its
  tokens, each with the slice of the text it stands for, so that \<open>read_text\<close> is
  the slice up to the matching end tag, markup included. Dates are \<open>i64\<close>
  and wrap as in a release build.
\<close>

named_theorems nyaa_simps \<open>unfolding rules of the feed reader\<close>

section \<open>Queries\<close>

record full_query = search_query +
  sq_category :: "string option"
  sq_filter :: nat
  sq_sort_by_seeders :: bool

definition DEFAULT_CATEGORY :: string where "DEFAULT_CATEGORY = ''1_2''"

definition SearchQuery_new :: "string \<Rightarrow> full_query" where
  "SearchQuery_new text =
     \<lparr> sq_text = text, sq_min_seeders = 0, sq_limit = 50, sq_category = Some DEFAULT_CATEGORY,
       sq_filter = 0, sq_sort_by_seeders = True \<rparr>"

definition without_category :: "full_query \<Rightarrow> full_query" where
  "without_category q = q\<lparr>sq_category := None\<rparr>"

definition hex_digit :: "nat \<Rightarrow> char" where
  "hex_digit n = (if n < 10 then char_of (48 + n) else char_of (55 + n))"

definition is_unreserved :: "char \<Rightarrow> bool" where
  "is_unreserved c =
     (let n = (of_char c :: nat) in
      (65 \<le> n \<and> n \<le> 90) \<or> (97 \<le> n \<and> n \<le> 122) \<or> (48 \<le> n \<and> n \<le> 57) \<or> n \<in> {45, 95, 46, 126})"

definition encode_byte :: "char \<Rightarrow> string" where
  "encode_byte c =
     (let n = (of_char c :: nat) in
      if is_unreserved c then [c]
      else if n = 32 then ''+''
      else [CHR ''%'', hex_digit (n div 16), hex_digit (n mod 16)])"

definition encode :: "string \<Rightarrow> string" where
  "encode text = concat (map encode_byte text)"

definition trim_end_slashes :: "string \<Rightarrow> string" where
  "trim_end_slashes s = rev (dropWhile (\<lambda>c. c = CHR ''/'') (rev s))"

definition feed_url :: "string \<Rightarrow> full_query \<Rightarrow> string" where
  "feed_url base q =
     trim_end_slashes base @ ''/?page=rss&q='' @ encode (sq_text q) @ ''&f='' @ show_nat (sq_filter q)
     @ (case sq_category q of Some c \<Rightarrow> ''&c='' @ encode c | None \<Rightarrow> [])
     @ (if sq_sort_by_seeders q then ''&s=seeders&o=desc'' else [])"

definition magnet_from :: "string \<Rightarrow> string \<Rightarrow> string" where
  "magnet_from info_hash title = ''magnet:?xt=urn:btih:'' @ trim info_hash @ ''&dn='' @ encode title"

section \<open>Values\<close>

definition is_yes :: "string \<Rightarrow> bool" where
  "is_yes v = eq_ignore_case (trim v) ''yes''"

text \<open>\<open>str::parse::<i64>\<close> and, without infinities and NaN, \<open>str::parse::<f64>\<close>.\<close>

definition signed :: "string \<Rightarrow> bool \<times> string" where
  "signed s = (starts_with ''-'' s, if starts_with ''-'' s \<or> starts_with ''+'' s then tl s else s)"

definition parse_int :: "string \<Rightarrow> int option" where
  "parse_int s =
     (case signed s of
        (True, ds) \<Rightarrow> map_option (\<lambda>n. - int n) (parse_bounded (2 ^ 63 + 1) ds)
      | (False, ds) \<Rightarrow> map_option int (parse_bounded (2 ^ 63) ds))"

definition parse_exponent :: "string \<Rightarrow> int option" where
  "parse_exponent s =
     (case signed s of (neg, ds) \<Rightarrow>
        if ds \<noteq> [] \<and> list_all is_digit ds
        then Some (if neg then - int (digits_value ds) else int (digits_value ds)) else None)"

definition parse_float :: "string \<Rightarrow> f64 option" where
  "parse_float s =
     (case signed s of (neg, t) \<Rightarrow>
        let whole = takeWhile is_digit t; rest = dropWhile is_digit t;
            point = starts_with ''.'' rest;
            decimals = (if point then takeWhile is_digit (tl rest) else []);
            tail = (if point then dropWhile is_digit (tl rest) else rest);
            e = (if tail = [] then Some 0
                 else if hd tail = CHR ''e'' \<or> hd tail = CHR ''E'' then parse_exponent (tl tail) else None)
        in if whole = [] \<and> decimals = [] then None
           else map_option (\<lambda>k.
             let v = real (digits_value (whole @ decimals)) / 10 ^ length decimals;
                 x = (if 0 \<le> k then v * 10 ^ nat k else v / 10 ^ nat (- k))
             in if neg then - x else x) e)"

definition as_u64 :: "f64 \<Rightarrow> nat" where
  "as_u64 x = (if x < 0 then 0 else min (2 ^ 64 - 1) (nat \<lfloor>x\<rfloor>))"

definition size_unit :: "string \<Rightarrow> f64" where
  "size_unit u =
     (let k = lower u in
      if k = ''kib'' \<or> k = ''kb'' then 1024
      else if k = ''mib'' \<or> k = ''mb'' then 1024 ^ 2
      else if k = ''gib'' \<or> k = ''gb'' then 1024 ^ 3
      else if k = ''tib'' \<or> k = ''tb'' then 1024 ^ 4 else 1)"

definition parse_size :: "string \<Rightarrow> nat" where
  "parse_size text =
     (case split_whitespace (trim text) of
        [] \<Rightarrow> 0
      | n # us \<Rightarrow>
          (let number = (case parse_float n of Some x \<Rightarrow> x | None \<Rightarrow> 0) in
           as_u64 (number * size_unit (case us of u # _ \<Rightarrow> u | [] \<Rightarrow> []))))"

section \<open>Dates\<close>

definition MONTHS :: "string list" where
  "MONTHS = [''jan'', ''feb'', ''mar'', ''apr'', ''may'', ''jun'', ''jul'', ''aug'', ''sep'', ''oct'', ''nov'', ''dec'']"

definition month_index :: "string \<Rightarrow> int option" where
  "month_index name = map_option (\<lambda>i. int i + 1) (position (\<lambda>m. starts_with m (lower name)) MONTHS)"

definition parse_offset :: "string option \<Rightarrow> int" where
  "parse_offset field =
     (case field of
        None \<Rightarrow> 0
      | Some raw \<Rightarrow>
          (let digits = filter is_digit raw in
           if length digits < 4 then 0
           else (if starts_with ''-'' (trim raw) then -1 else 1)
             * (int (digits_value (take 2 digits)) * 3600 + int (digits_value (take 2 (drop 2 digits))) * 60)))"

text \<open>The division of Rust truncates.\<close>

definition quot :: "int \<Rightarrow> int \<Rightarrow> int" where
  "quot a b = sgn a * sgn b * (\<bar>a\<bar> div \<bar>b\<bar>)"

definition days_from_civil :: "int \<Rightarrow> int \<Rightarrow> int \<Rightarrow> int" where
  "days_from_civil year month day =
     (let y = (if month \<le> 2 then wrap_int (year - 1) else year);
          era = quot (if 0 \<le> y then y else wrap_int (y - 399)) 400;
          yoe = y - era * 400;
          mp = (if 2 < month then month - 3 else month + 9);
          doy = quot (153 * mp + 2) 5 + day - 1;
          doe = yoe * 365 + quot yoe 4 - quot yoe 100 + doy
      in wrap_int (era * 146097 + doe - 719468))"

definition nth_field :: "string list \<Rightarrow> nat \<Rightarrow> string option" where
  "nth_field fs n = (if n < length fs then Some (fs ! n) else None)"

definition parse_pub_date :: "string \<Rightarrow> int option" where
  "parse_pub_date text =
     (let fields = split_whitespace text;
          start = (case fields of f # _ \<Rightarrow> if ends_with '','' f then 1 else 0 | [] \<Rightarrow> 0)
      in Option.bind (Option.bind (nth_field fields start) parse_int) (\<lambda>day.
         Option.bind (Option.bind (nth_field fields (start + 1)) month_index) (\<lambda>month.
         Option.bind (Option.bind (nth_field fields (start + 2)) parse_int) (\<lambda>year.
         Option.bind (nth_field fields (start + 3)) (\<lambda>time.
         let clock = split_on CHR '':'' [] time;
             part = (\<lambda>k. parse_int (case nth_field clock k of Some t \<Rightarrow> t | None \<Rightarrow> ''0''))
         in Option.bind (part 0) (\<lambda>hour.
            Option.bind (part 1) (\<lambda>minute.
            Option.bind (part 2) (\<lambda>second.
            let offset = parse_offset (nth_field fields (start + 4)); days = days_from_civil year month day in
            Some (wrap_int (days * 86400 + hour * 3600 + minute * 60 + second - offset))))))))))"

section \<open>The feed\<close>

datatype xml_kind = XStart string | XEnd string | XOther | XBad string

record xml_token =
  xt_kind :: xml_kind
  xt_raw :: string

definition malformed :: "string \<Rightarrow> error" where
  "malformed e = Other (''malformed RSS feed: '' @ e)"

text \<open>\<open>Reader::read_text\<close>: the text up to the end tag that matches; \<open>d\<close> counts nested tags of that name.\<close>

fun text_until :: "string \<Rightarrow> string \<Rightarrow> nat \<Rightarrow> string \<Rightarrow> xml_token list \<Rightarrow> error + string \<times> xml_token list" where
  "text_until eof n d acc [] = Inl (malformed eof)"
| "text_until eof n d acc (t # ts) =
     (case xt_kind t of
        XBad e \<Rightarrow> Inl (malformed e)
      | XStart m \<Rightarrow> text_until eof n (if m = n then Suc d else d) (acc @ xt_raw t) ts
      | XEnd m \<Rightarrow>
          if m \<noteq> n then text_until eof n d (acc @ xt_raw t) ts
          else if d = 0 then Inr (acc, ts) else text_until eof n (d - 1) (acc @ xt_raw t) ts
      | XOther \<Rightarrow> text_until eof n d (acc @ xt_raw t) ts)"

definition read_text :: "string \<Rightarrow> string \<Rightarrow> xml_token list \<Rightarrow> error + string \<times> xml_token list" where
  "read_text eof n ts =
     (case text_until eof n 0 [] ts of Inl e \<Rightarrow> Inl e | Inr (text, rest) \<Rightarrow> Inr (trim text, rest))"

record rss_item = feed_item +
  fi_link :: string
  fi_guid :: string
  fi_downloads :: nat
  fi_category :: string
  fi_size_text :: string

definition empty_item :: rss_item where
  "empty_item =
     \<lparr> fi_title = [], fi_published_at = 0, fi_seeders = 0, fi_leechers = 0, fi_info_hash = [], fi_magnet = [],
       fi_category_id = [], fi_size_bytes = 0, fi_trusted = False, fi_remake = False,
       fi_link = [], fi_guid = [], fi_downloads = 0, fi_category = [], fi_size_text = [] \<rparr>"

definition count_or_zero :: "string \<Rightarrow> nat" where
  "count_or_zero s = (case parse_unsigned (2 ^ 32) s of Some n \<Rightarrow> n | None \<Rightarrow> 0)"

datatype item_field =
    ITitle | ILink | IGuid | IPubDate | ISeeders | ILeechers | IDownloads | IInfoHash | ICategoryId
  | ICategory | ISize | ITrusted | IRemake

definition field_tags :: "(string \<times> item_field) list" where
  "field_tags =
     [(''title'', ITitle), (''link'', ILink), (''guid'', IGuid), (''pubDate'', IPubDate),
      (''nyaa:seeders'', ISeeders), (''seeders'', ISeeders), (''nyaa:leechers'', ILeechers), (''leechers'', ILeechers),
      (''nyaa:downloads'', IDownloads), (''downloads'', IDownloads), (''nyaa:infoHash'', IInfoHash),
      (''infoHash'', IInfoHash), (''nyaa:categoryId'', ICategoryId), (''categoryId'', ICategoryId),
      (''nyaa:category'', ICategory), (''category'', ICategory), (''nyaa:size'', ISize), (''size'', ISize),
      (''nyaa:trusted'', ITrusted), (''trusted'', ITrusted), (''nyaa:remake'', IRemake), (''remake'', IRemake)]"

fun set_item_field :: "item_field \<Rightarrow> string \<Rightarrow> rss_item \<Rightarrow> rss_item" where
  "set_item_field ITitle t i = i\<lparr>fi_title := t\<rparr>"
| "set_item_field ILink t i = i\<lparr>fi_link := t\<rparr>"
| "set_item_field IGuid t i = i\<lparr>fi_guid := t\<rparr>"
| "set_item_field IPubDate t i = i\<lparr>fi_published_at := (case parse_pub_date t of Some d \<Rightarrow> d | None \<Rightarrow> 0)\<rparr>"
| "set_item_field ISeeders t i = i\<lparr>fi_seeders := count_or_zero t\<rparr>"
| "set_item_field ILeechers t i = i\<lparr>fi_leechers := count_or_zero t\<rparr>"
| "set_item_field IDownloads t i = i\<lparr>fi_downloads := count_or_zero t\<rparr>"
| "set_item_field IInfoHash t i = i\<lparr>fi_info_hash := lower t\<rparr>"
| "set_item_field ICategoryId t i = i\<lparr>fi_category_id := t\<rparr>"
| "set_item_field ICategory t i = i\<lparr>fi_category := t\<rparr>"
| "set_item_field ISize t i = i\<lparr>fi_size_bytes := parse_size t, fi_size_text := t\<rparr>"
| "set_item_field ITrusted t i = i\<lparr>fi_trusted := is_yes t\<rparr>"
| "set_item_field IRemake t i = i\<lparr>fi_remake := is_yes t\<rparr>"

text \<open>\<open>FeedItem::magnet\<close> is stored in the item, where the scorer's record has it.\<close>

definition with_magnet :: "rss_item \<Rightarrow> rss_item" where
  "with_magnet i = i\<lparr>fi_magnet := magnet_from (fi_info_hash i) (fi_title i)\<rparr>"

definition MAX_ITEMS :: nat where "MAX_ITEMS = 1000"

lemma text_until_length: "text_until eof n d acc ts = Inr (s, rest) \<Longrightarrow> length rest < length ts"
  by (induction eof n d acc ts rule: text_until.induct) (force split: xml_kind.splits if_splits)+

lemma read_text_length: "read_text eof n ts = Inr (s, rest) \<Longrightarrow> length rest < length ts"
  by (auto simp: read_text_def dest: text_until_length split: sum.splits prod.splits)

function feed_loop :: "string \<Rightarrow> rss_item option \<Rightarrow> rss_item list \<Rightarrow> xml_token list \<Rightarrow> error + rss_item list" where
  "feed_loop eof current items [] = Inr items"
| "feed_loop eof current items (t # ts) =
     (case xt_kind t of
        XStart n \<Rightarrow>
          if n = ''item''
          then if MAX_ITEMS \<le> length items then Inr items else feed_loop eof (Some empty_item) items ts
          else (case (current, map_of field_tags n) of
                  (Some i, Some f) \<Rightarrow>
                    (case read_text eof n ts of
                       Inl e \<Rightarrow> Inl e
                     | Inr (text, rest) \<Rightarrow> feed_loop eof (Some (set_item_field f text i)) items rest)
                | _ \<Rightarrow> feed_loop eof current items ts)
      | XEnd n \<Rightarrow>
          if n = ''item''
          then (case current of
                  Some i \<Rightarrow>
                    feed_loop eof None (if fi_title i \<noteq> [] \<and> fi_link i \<noteq> [] then items @ [with_magnet i] else items) ts
                | None \<Rightarrow> feed_loop eof current items ts)
          else feed_loop eof current items ts
      | XOther \<Rightarrow> feed_loop eof current items ts
      | XBad e \<Rightarrow> Inl (malformed e))"
  by pat_completeness auto

termination feed_loop
  by (relation "measure (\<lambda>(eof, c, items, ts). length ts)") (auto dest: read_text_length)

definition parse_feed :: "string \<Rightarrow> xml_token list \<Rightarrow> error + rss_item list" where
  "parse_feed eof ts = feed_loop eof None [] ts"

section \<open>Searching the mirrors\<close>

fun is_utf8 :: "string \<Rightarrow> bool" where
  "is_utf8 [] = True"
| "is_utf8 (a # s) =
     (let n = (of_char a :: nat);
          ranges = (\<lambda>lo hi c. lo \<le> (of_char c :: nat) \<and> (of_char c :: nat) \<le> hi);
          cont = (\<lambda>c. ranges 128 191 c)
      in if n < 128 then is_utf8 s
         else case s of
           [] \<Rightarrow> False
         | b # s1 \<Rightarrow>
             if 194 \<le> n \<and> n \<le> 223 then cont b \<and> is_utf8 s1
             else case s1 of
               [] \<Rightarrow> False
             | c # s2 \<Rightarrow>
                 if 224 \<le> n \<and> n \<le> 239
                 then ranges (if n = 224 then 160 else 128) (if n = 237 then 159 else 191) b \<and> cont c \<and> is_utf8 s2
                 else case s2 of
                   [] \<Rightarrow> False
                 | d # s3 \<Rightarrow>
                     240 \<le> n \<and> n \<le> 244 \<and> ranges (if n = 240 then 144 else 128) (if n = 244 then 143 else 191) b
                     \<and> cont c \<and> cont d \<and> is_utf8 s3)"

definition fetched_text :: "fetched \<Rightarrow> error + string" where
  "fetched_text f = (if is_utf8 (fe_body f) then Inr (fe_body f) else Inl (Other (''non-utf8 response from '' @ fe_url f)))"

definition is_hex :: "char \<Rightarrow> bool" where
  "is_hex c = (let n = (of_char c :: nat) in (48 \<le> n \<and> n \<le> 57) \<or> (65 \<le> n \<and> n \<le> 70) \<or> (97 \<le> n \<and> n \<le> 102))"

definition keep_item :: "full_query \<Rightarrow> rss_item \<Rightarrow> bool" where
  "keep_item q i \<longleftrightarrow>
     sq_min_seeders q \<le> fi_seeders i \<and> length (fi_info_hash i) = 40 \<and> list_all is_hex (fi_info_hash i)
     \<and> (case sq_category q of Some c \<Rightarrow> fi_category_id i = c | None \<Rightarrow> True)"

definition pick_items :: "full_query \<Rightarrow> rss_item list \<Rightarrow> rss_item list" where
  "pick_items q items = take (sq_limit q) (sort_key (\<lambda>i. - int (fi_seeders i)) (filter (keep_item q) items))"

text \<open>The XML reader: the tokens of a text, and the error of a text that ends too soon.\<close>

record xml_reader =
  xr_tokens :: "string \<Rightarrow> xml_token list"
  xr_eof :: string

definition read_reply :: "xml_reader \<Rightarrow> full_query \<Rightarrow> fetched \<Rightarrow> error + rss_item list" where
  "read_reply xr q f =
     (case fetched_text f of
        Inl e \<Rightarrow> Inl e
      | Inr text \<Rightarrow> map_sum id (pick_items q) (parse_feed (xr_eof xr) (xr_tokens xr text)))"

fun search_bases ::
  "xml_reader \<Rightarrow> (string \<Rightarrow> string option) \<Rightarrow> full_query \<Rightarrow> error option \<Rightarrow> (string \<times> (nat \<Rightarrow> attempt_env)) list
     \<Rightarrow> (gate, error, rss_item list) act" where
  "search_bases xr canonical q last_err [] =
     throw (case last_err of Some e \<Rightarrow> e | None \<Rightarrow> Other ''no Nyaa base URL configured'')"
| "search_bases xr canonical q last_err ((base, ats) # mirrors) =
     seq (attempt (get_with canonical SNyaa (feed_url base q) GetOptions_default ats)) (\<lambda>r.
     case (case r of Inl e \<Rightarrow> Inl e | Inr f \<Rightarrow> read_reply xr q f) of
       Inr items \<Rightarrow> ret items
     | Inl e \<Rightarrow> search_bases xr canonical q (Some e) mirrors)"

definition nyaa_search ::
  "xml_reader \<Rightarrow> (string \<Rightarrow> string option) \<Rightarrow> settings \<Rightarrow> full_query \<Rightarrow> (nat \<Rightarrow> nat \<Rightarrow> attempt_env)
     \<Rightarrow> (gate, error, rss_item list) act" where
  "nyaa_search xr canonical st q ats =
     (let bases = s_nyaa_base_url st # s_nyaa_mirrors st in
      search_bases xr canonical q None (map (\<lambda>k. (bases ! k, ats k)) [0..<length bases]))"

section \<open>Facts: escapes\<close>

definition hex_value :: "char \<Rightarrow> nat option" where
  "hex_value c =
     (let n = (of_char c :: nat) in
      if 48 \<le> n \<and> n \<le> 57 then Some (n - 48) else if 65 \<le> n \<and> n \<le> 70 then Some (n - 55) else None)"

text \<open>What a server does with a query: plus signs and escapes are undone, anything else must be unreserved.\<close>

fun decode :: "string \<Rightarrow> string option" where
  "decode [] = Some []"
| "decode (c # s) =
     (if c = CHR ''%'' then
        (case s of
           a # b # r \<Rightarrow>
             (case (hex_value a, hex_value b) of
                (Some x, Some y) \<Rightarrow> map_option (Cons (char_of (16 * x + y))) (decode r)
              | _ \<Rightarrow> None)
         | _ \<Rightarrow> None)
      else if c = CHR ''+'' then map_option (Cons CHR '' '') (decode s)
      else if is_unreserved c then map_option (Cons c) (decode s)
      else None)"

lemma hex_value_digit: "n < 16 \<Longrightarrow> hex_value (hex_digit n) = Some n"
  by (auto simp: hex_value_def hex_digit_def Let_def take_bit_nat_eq_self)

lemma char_code_less: "(of_char c :: nat) < 256"
proof -
  have "(of_char c :: nat) mod 256 = of_char c" by simp
  then show ?thesis by (metis mod_less_divisor zero_less_numeral)
qed

lemma decode_byte: "decode (encode_byte c @ t) = map_option (Cons c) (decode t)"
proof (cases "is_unreserved c")
  case True
  then have "c \<noteq> CHR ''%''" "c \<noteq> CHR ''+''" by (auto simp: is_unreserved_def)
  with True show ?thesis by (simp add: encode_byte_def)
next
  case False
  let ?n = "(of_char c :: nat)"
  have c: "char_of ?n = c" by (rule char_of_char)
  show ?thesis
  proof (cases "?n = 32")
    case True
    moreover have "char_of (32 :: nat) = CHR '' ''" by code_simp
    ultimately have "c = CHR '' ''" using c by simp
    then show ?thesis using False by (simp add: encode_byte_def)
  next
    case n: False
    have "?n div 16 < 16" by (rule less_mult_imp_div_less) (use char_code_less [of c] in simp)
    moreover have "16 * (?n div 16) + ?n mod 16 = ?n" by simp
    ultimately show ?thesis using False n c by (simp add: encode_byte_def Let_def hex_value_digit)
  qed
qed

section \<open>Facts: the calendar\<close>

definition leap_year :: "int \<Rightarrow> bool" where
  "leap_year y \<longleftrightarrow> 4 dvd y \<and> (\<not> 100 dvd y \<or> 400 dvd y)"

definition year_length :: "int \<Rightarrow> int" where
  "year_length y = (if leap_year y then 366 else 365)"

definition month_length :: "int \<Rightarrow> int \<Rightarrow> int" where
  "month_length y m =
     (if m = 2 then if leap_year y then 29 else 28 else if m \<in> {4, 6, 9, 11} then 30 else 31)"

text \<open>Days since 1970-01-01 by counting years, months and days.\<close>

definition days_of_years :: "int \<Rightarrow> int" where
  "days_of_years y =
     (if 1970 \<le> y then \<Sum>k\<in>{1970..<y}. year_length k else - (\<Sum>k\<in>{y..<1970}. year_length k))"

definition calendar_days :: "int \<Rightarrow> int \<Rightarrow> int \<Rightarrow> int" where
  "calendar_days y m d = days_of_years y + (\<Sum>k\<in>{1..<m}. month_length y k) + (d - 1)"

definition march_days :: "int \<Rightarrow> int" where
  "march_days y = 365 * y + y div 4 - y div 100 + y div 400"

lemma div_step:
  assumes "0 < (n :: int)"
  shows "y div n = (y - 1) div n + (if n dvd y then 1 else 0)"
proof -
  define q r where "q = (y - 1) div n" and "r = (y - 1) mod n"
  have y: "y = n * q + (r + 1)" unfolding q_def r_def by (simp add: mult_div_mod_eq)
  have r: "0 \<le> r" "r < n" using assms by (simp_all add: r_def)
  show ?thesis
  proof (cases "r + 1 = n")
    case True
    then have "y = n * (q + 1)" using y by (simp add: algebra_simps)
    then have "y div n = q + 1" "n dvd y" using assms by simp_all
    then show ?thesis unfolding q_def [symmetric] by simp
  next
    case False
    then have "r + 1 < n" using r(2) by simp
    then have "y div n = q" "y mod n = r + 1"
      unfolding y using r assms by (simp_all add: div_pos_pos_trivial mod_pos_pos_trivial)
    then show ?thesis unfolding q_def [symmetric] dvd_eq_mod_eq_0 using r by simp
  qed
qed

lemma leap_count:
  "(Q \<Longrightarrow> P) \<Longrightarrow> (R \<Longrightarrow> Q) \<Longrightarrow>
   365 + (if P then 1 else 0) - (if Q then 1 else 0) + (if R then 1 else 0) = (if P \<and> (\<not> Q \<or> R) then 366 else (365 :: int))"
  by (cases P; cases Q; cases R) simp_all

lemma march_days_step: "march_days y = march_days (y - 1) + year_length y"
proof -
  have dvds: "100 dvd y \<Longrightarrow> 4 dvd y" "400 dvd y \<Longrightarrow> 100 dvd y" by (auto elim!: dvdE)
  have d: "y div n - (y - 1) div n = (if n dvd y then 1 else 0)" if "0 < n" for n
    using div_step [OF that, of y] by (metis add_diff_cancel_left')
  have "march_days y - march_days (y - 1) =
      365 + (y div 4 - (y - 1) div 4) - (y div 100 - (y - 1) div 100) + (y div 400 - (y - 1) div 400)"
    unfolding march_days_def by (rule sym) (simp only: right_diff_distrib mult_1_right diff_add_eq algebra_simps)
  also have "\<dots> = 365 + (if 4 dvd y then 1 else 0) - (if 100 dvd y then 1 else 0) + (if 400 dvd y then 1 else 0)"
    by (simp only: d zero_less_numeral)
  also have "\<dots> = year_length y" unfolding year_length_def leap_year_def by (rule leap_count) (fact dvds)+
  finally show ?thesis by simp
qed

lemma days_of_years: "days_of_years y = march_days (y - 1) - 719162"
proof -
  have up: "(\<Sum>k\<in>{1970..<1970 + int n}. year_length k) = march_days (1969 + int n) - 719162" for n
  proof (induction n)
    case 0
    then show ?case by (simp add: march_days_def)
  next
    case (Suc n)
    have "{1970..<1970 + int (Suc n)} = insert (1970 + int n) {1970..<1970 + int n}" by auto
    then show ?case using Suc march_days_step [of "1970 + int n"] by (simp add: algebra_simps)
  qed
  have down: "- (\<Sum>k\<in>{1970 - int n..<1970}. year_length k) = march_days (1969 - int n) - 719162" for n
  proof (induction n)
    case 0
    then show ?case by (simp add: march_days_def)
  next
    case (Suc n)
    have "{1970 - int (Suc n)..<1970} = insert (1969 - int n) {1970 - int n..<1970}" by auto
    then show ?case using Suc march_days_step [of "1969 - int n"] by (simp add: algebra_simps)
  qed
  show ?thesis
  proof (cases "1970 \<le> y")
    case True
    then show ?thesis using up [of "nat (y - 1970)"] by (simp add: days_of_years_def)
  next
    case False
    then show ?thesis using down [of "nat (1970 - y)"] by (simp add: days_of_years_def)
  qed
qed

lemma quot_era: "quot (if 0 \<le> y then y else y - 399) 400 = y div 400"
proof (cases "0 \<le> y")
  case True
  then show ?thesis by (cases "y = 0") (simp_all add: quot_def)
next
  case False
  define k where "k = 399 - y"
  have k: "0 < k" "y = 399 - k" using False by (simp_all add: k_def)
  have "y div 400 = - (k div 400)"
  proof -
    have "399 - k = 400 * (- (k div 400)) + (399 - k mod 400)" by (simp add: minus_mod_eq_mult_div [symmetric])
    moreover have "0 \<le> 399 - k mod 400" "399 - k mod 400 < 400"
      using pos_mod_bound [of 400 k] pos_mod_sign [of 400 k] by simp_all
    ultimately show ?thesis unfolding k(2) by (metis div_pos_pos_trivial div_mult_self2 add.commute add.left_neutral zero_neq_numeral)
  qed
  moreover have "quot (y - 399) 400 = - (k div 400)" using False by (simp add: quot_def k_def)
  ultimately show ?thesis using False by simp
qed

lemma quot_nonneg: "0 \<le> a \<Longrightarrow> 0 < b \<Longrightarrow> quot a b = a div b"
  by (cases "a = 0") (simp_all add: quot_def)

lemma era_days:
  "y div 400 * 146097 + ((y - y div 400 * 400) * 365 + (y - y div 400 * 400) div 4 - (y - y div 400 * 400) div 100) = march_days y"
proof -
  define e r where "e = y div 400" and "r = y - y div 400 * 400"
  have y: "y = r + 400 * e" by (simp add: e_def r_def)
  have "y div 4 = r div 4 + 100 * e" "y div 100 = r div 100 + 4 * e" unfolding y by simp_all
  then show ?thesis unfolding march_days_def e_def [symmetric] r_def [symmetric] using y by simp
qed

lemma div_bounds: "0 < n \<Longrightarrow> n * (x div n) \<le> x \<and> x < n * (x div n) + n" for n x :: int
  using pos_mod_sign [of n x] pos_mod_bound [of n x] mult_div_mod_eq [of n x] by linarith

lemma march_days_bound: "\<bar>y\<bar> \<le> 1000000000001 \<Longrightarrow> \<bar>march_days y\<bar> \<le> 1000000000000000"
  using div_bounds [of 4 y] div_bounds [of 100 y] div_bounds [of 400 y] unfolding march_days_def by linarith

lemma sum_below:
  "(\<Sum>k\<in>{1..<m + 1}. f k) = (\<Sum>k\<in>{1..<m}. f k) + f m" if "1 \<le> m" for m :: int and f :: "int \<Rightarrow> int"
proof -
  have "{1..<m + 1} = insert m {1..<m}" using that by auto
  then show ?thesis by simp
qed

lemma months_before:
  assumes "1 \<le> m" "m \<le> 12"
  shows "(\<Sum>k\<in>{1..<m}. month_length y k) =
    (if m \<le> 2 then 31 * (m - 1) else (153 * (m - 3) + 2) div 5 + 59 + (if leap_year y then 1 else 0))"
proof -
  let ?S = "\<lambda>m. \<Sum>k\<in>{1..<m}. month_length y k"
  have "?S 1 = 0" by simp
  moreover note sum_below [of 1 "month_length y"] sum_below [of 2 "month_length y"] sum_below [of 3 "month_length y"]
    sum_below [of 4 "month_length y"] sum_below [of 5 "month_length y"] sum_below [of 6 "month_length y"]
    sum_below [of 7 "month_length y"] sum_below [of 8 "month_length y"] sum_below [of 9 "month_length y"]
    sum_below [of 10 "month_length y"] sum_below [of 11 "month_length y"]
  ultimately have s: "?S 2 = 31" "?S 3 = ?S 2 + month_length y 2" "?S 4 = ?S 3 + 31" "?S 5 = ?S 4 + 30" "?S 6 = ?S 5 + 31"
    "?S 7 = ?S 6 + 30" "?S 8 = ?S 7 + 31" "?S 9 = ?S 8 + 31" "?S 10 = ?S 9 + 30" "?S 11 = ?S 10 + 31" "?S 12 = ?S 11 + 30"
    by (simp_all add: month_length_def)
  have "m = 1 \<or> m = 2 \<or> m = 3 \<or> m = 4 \<or> m = 5 \<or> m = 6 \<or> m = 7 \<or> m = 8 \<or> m = 9 \<or> m = 10 \<or> m = 11 \<or> m = 12"
    using assms by presburger
  then show ?thesis using s by (elim disjE) (simp_all add: month_length_def)
qed

lemma calendar_march:
  assumes "1 \<le> month" "month \<le> 12"
  defines "mp \<equiv> (if 2 < month then month - 3 else month + 9)"
  shows "calendar_days year month day =
    march_days (if month \<le> 2 then year - 1 else year) + ((153 * mp + 2) div 5 + day - 1) - 719468"
proof (cases "month \<le> 2")
  case True
  then have "month = 1 \<or> month = 2" using assms(1) by presburger
  then have "(153 * mp + 2) div 5 = 306 + 31 * (month - 1)" unfolding mp_def by (elim disjE) simp_all
  then show ?thesis using True assms(1,2) by (simp add: calendar_days_def days_of_years months_before)
next
  case False
  then show ?thesis using assms(1,2) march_days_step [of year]
    by (simp add: calendar_days_def days_of_years months_before mp_def year_length_def)
qed

section \<open>Properties\<close>

text \<open>
  Query escaping. What \<open>encode\<close> writes has only unreserved characters, plus and percent signs, so
  no title can add a parameter to the query or cut it short, and undoing the escapes gives
  the text back byte for byte.
\<close>

theorem encode_round_trip:
  "decode (encode s) = Some s \<and>
   list_all (\<lambda>c. is_unreserved c \<or> c = CHR ''+'' \<or> c = CHR ''%'') (encode s)"
proof
  have "decode (encode s @ t) = map_option ((@) s) (decode t)" for t
    by (induction s) (simp_all add: encode_def decode_byte option.map_comp comp_def option.map_ident)
  from this [of "[]"] show "decode (encode s) = Some s" by simp
  have hex: "is_unreserved (hex_digit n)" if "n < 16" for n
    using that by (auto simp: is_unreserved_def hex_digit_def Let_def take_bit_nat_eq_self)
  have "list_all (\<lambda>c. is_unreserved c \<or> c = CHR ''+'' \<or> c = CHR ''%'') (encode_byte c)" for c
  proof -
    have "(of_char c :: nat) div 16 < 16" by (rule less_mult_imp_div_less) (use char_code_less [of c] in simp)
    then show ?thesis by (simp add: encode_byte_def Let_def hex)
  qed
  then show "list_all (\<lambda>c. is_unreserved c \<or> c = CHR ''+'' \<or> c = CHR ''%'') (encode s)"
    by (induction s) (simp_all add: encode_def)
qed

text \<open>
  Dates. \<open>days_from_civil\<close> (which works with eras of 400 years that begin in March)
  gives for every date of the proleptic Gregorian calendar the number of days since 1970-01-01,
  counted year by year, month by month and day by day, also before 1970 and before the year 0.
\<close>

theorem days_from_civil_counts:
  assumes "1 \<le> month" "month \<le> 12" "1 \<le> day" "day \<le> month_length year month" "\<bar>year\<bar> \<le> 10 ^ 12"
  shows "days_from_civil year month day = calendar_days year month day"
proof -
  define y where "y = (if month \<le> 2 then year - 1 else year)"
  define mp where "mp = (if 2 < month then month - 3 else month + 9)"
  have mp: "0 \<le> mp" "mp \<le> 11" using assms(1,2) by (auto simp: mp_def)
  have yb: "\<bar>y\<bar> \<le> 10 ^ 12 + 1" using assms(5) by (auto simp: y_def)
  have w: "(if month \<le> 2 then wrap_int (year - 1) else year) = y"
    "(if 0 \<le> y then y else wrap_int (y - 399)) = (if 0 \<le> y then y else y - 399)"
    using assms(5) yb by (auto simp: y_def wrap_int_id)
  have r: "0 \<le> y - y div 400 * 400" by (simp add: minus_div_mult_eq_mod)
  have q: "quot (153 * mp + 2) 5 = (153 * mp + 2) div 5" using mp by (intro quot_nonneg) simp_all
  have "days_from_civil year month day =
      wrap_int (march_days y + ((153 * mp + 2) div 5 + day - 1) - 719468)"
    unfolding days_from_civil_def Let_def w quot_era quot_nonneg [OF r zero_less_numeral] mp_def [symmetric] q
    by (rule arg_cong [where f = wrap_int]) (use era_days [of y] in linarith)
  also have "march_days y + ((153 * mp + 2) div 5 + day - 1) - 719468 = calendar_days year month day"
    using calendar_march [OF assms(1,2), of year day] unfolding y_def mp_def by simp
  also have "wrap_int (calendar_days year month day) = calendar_days year month day"
  proof -
    have d: "day \<le> 31" using assms(4) by (auto simp: month_length_def split: if_splits)
    have m: "0 \<le> (\<Sum>k\<in>{1..<month}. month_length year k) \<and> (\<Sum>k\<in>{1..<month}. month_length year k) \<le> 400"
    proof -
      show ?thesis
      proof (cases "month \<le> 2")
        case True
        then show ?thesis using assms(1,2) by (simp add: months_before)
      next
        case False
        then have "(153 * (month - 3) + 2) div 5 \<le> 276" "0 \<le> (153 * (month - 3) + 2) div 5"
          using zdiv_mono1 [of "153 * (month - 3) + 2" "153 * 9 + 2" 5] assms(2) by simp_all
        then show ?thesis using False assms(1,2) by (simp add: months_before)
      qed
    qed
    have "\<bar>march_days (year - 1)\<bar> \<le> 1000000000000000"
      using assms(5) by (intro march_days_bound) simp
    then show ?thesis using d m assms(3) unfolding abs_le_iff
      by (intro wrap_int_id) (simp_all add: calendar_days_def days_of_years)
  qed
  finally show ?thesis .
qed

theorem days_from_civil_counts_witness: "days_from_civil 1970 1 1 = 0"
proof -
  have "days_from_civil 1970 1 1 = calendar_days 1970 1 1"
    by (rule days_from_civil_counts) (simp_all add: month_length_def)
  then show ?thesis by (simp add: calendar_days_def days_of_years_def)
qed

text \<open>What holds of the item being read and of the items already read.\<close>

definition item_ok :: "rss_item \<Rightarrow> bool" where
  "item_ok i \<longleftrightarrow> fi_seeders i < 2 ^ 32 \<and> fi_leechers i < 2 ^ 32 \<and> lower (fi_info_hash i) = fi_info_hash i"

definition feed_ok :: "rss_item list \<Rightarrow> bool" where
  "feed_ok items \<longleftrightarrow>
     list_all (\<lambda>i. fi_title i \<noteq> [] \<and> fi_link i \<noteq> [] \<and> item_ok i
       \<and> fi_magnet i = magnet_from (fi_info_hash i) (fi_title i)) items"

lemma count_or_zero_less: "count_or_zero s < 2 ^ 32"
  by (simp add: count_or_zero_def parse_unsigned_def parse_bounded_def)

lemma set_item_field_ok: "item_ok i \<Longrightarrow> item_ok (set_item_field f t i)"
  using count_or_zero_less [of t] by (cases f) (simp_all add: item_ok_def)

lemma feed_loop_ok:
  assumes "feed_loop eof current items ts = Inr r" "feed_ok items" "length items \<le> MAX_ITEMS"
    and "\<And>i. current = Some i \<Longrightarrow> item_ok i \<and> length items < MAX_ITEMS"
  shows "feed_ok r \<and> length r \<le> MAX_ITEMS"
  using assms
proof (induction "length ts" arbitrary: current items ts rule: less_induct)
  case less
  show ?case
  proof (cases ts)
    case Nil
    with less.prems show ?thesis by simp
  next
    case (Cons t ts')
    note eq = less.prems(1) [unfolded Cons]
    have next_tokens: ?thesis if "feed_loop eof current' items' rest = Inr r" "length rest \<le> length ts'" "feed_ok items'"
      "length items' \<le> MAX_ITEMS" "\<And>i. current' = Some i \<Longrightarrow> item_ok i \<and> length items' < MAX_ITEMS"
      for current' items' rest
      using less.hyps [OF _ that(1,3,4,5)] that(2) Cons by simp
    show ?thesis
    proof (cases "xt_kind t")
      case (XStart n)
      show ?thesis
      proof (cases "n = ''item''")
        case True
        show ?thesis
        proof (cases "MAX_ITEMS \<le> length items")
          case True
          with eq XStart \<open>n = ''item''\<close> less.prems show ?thesis by simp
        next
          case False
          have "item_ok empty_item" by (simp add: item_ok_def empty_item_def)
          with False eq XStart True less.prems show ?thesis by (intro next_tokens [of "Some empty_item" items ts']) simp_all
        qed
      next
        case False
        show ?thesis
        proof (cases "current = None \<or> map_of field_tags n = None")
          case True
          then have "feed_loop eof current items ts' = Inr r"
            using eq XStart False by (auto split: option.splits)
          with less.prems show ?thesis by (intro next_tokens [of current items ts']) simp_all
        next
          case c: False
          then obtain i f where cur: "current = Some i" "map_of field_tags n = Some f" by auto
          with eq XStart False obtain content rest where rd: "read_text eof n ts' = Inr (content, rest)"
            by (auto split: sum.splits)
          with eq XStart False cur less.prems show ?thesis
            using read_text_length [OF rd] by (intro next_tokens [of "Some (set_item_field f content i)" items rest])
              (auto intro: set_item_field_ok)
        qed
      qed
    next
      case (XEnd n)
      show ?thesis
      proof (cases "n = ''item'' \<and> current \<noteq> None")
        case True
        then obtain i where i: "current = Some i" by blast
        let ?items = "if fi_title i \<noteq> [] \<and> fi_link i \<noteq> [] then items @ [with_magnet i] else items"
        have "feed_ok ?items" "length ?items \<le> MAX_ITEMS"
          using less.prems(2,4) i by (auto simp: feed_ok_def with_magnet_def item_ok_def)
        then show ?thesis using eq XEnd True i less.prems by (intro next_tokens [of None ?items ts']) simp_all
      next
        case False
        then show ?thesis using eq XEnd less.prems
          by (intro next_tokens [of current items ts']) (auto split: if_splits)
      qed
    next
      case XOther
      with eq less.prems show ?thesis by (intro next_tokens [of current items ts']) simp_all
    next
      case (XBad e)
      with eq show ?thesis by simp
    qed
  qed
qed

lemma feed_loop_magnets: "feed_ok items \<Longrightarrow> i \<in> set items \<Longrightarrow> fi_magnet i = magnet_from (fi_info_hash i) (fi_title i)"
  by (simp add: feed_ok_def list_all_iff)

text \<open>
  A hostile feed is bounded. Whatever tokens the XML reader delivers, \<open>parse_feed\<close> returns an error or at most
  1000 items; every item has a title and a link, counts below 2^32, an info hash in lower case, and a magnet built from
  that hash and the escaped title alone.
\<close>

theorem parse_feed_bounded:
  "case parse_feed eof ts of
     Inl e \<Rightarrow> \<exists>m. e = malformed m
   | Inr items \<Rightarrow> length items \<le> 1000 \<and>
       list_all (\<lambda>i. fi_title i \<noteq> [] \<and> fi_link i \<noteq> [] \<and> fi_seeders i < 2 ^ 32 \<and> fi_leechers i < 2 ^ 32
         \<and> lower (fi_info_hash i) = fi_info_hash i \<and> fi_magnet i = magnet_from (fi_info_hash i) (fi_title i)) items"
proof (cases "parse_feed eof ts")
  case (Inl e)
  have until: "text_until eof n d acc ts = Inl e \<Longrightarrow> \<exists>m. e = malformed m" for eof n d acc ts and e :: error
    by (induction eof n d acc ts rule: text_until.induct) (auto split: xml_kind.splits if_splits)
  have "feed_loop eof c items ts = Inl e \<Longrightarrow> \<exists>m. e = malformed m" for c items ts and e :: error
  proof (induction eof c items ts rule: feed_loop.induct)
    case (2 eof c items t ts)
    then show ?case
      by (auto simp: read_text_def dest: until split: xml_kind.splits if_splits option.splits sum.splits prod.splits)
  qed simp
  with Inl show ?thesis by (simp add: parse_feed_def)
next
  case (Inr items)
  then have "feed_ok items \<and> length items \<le> MAX_ITEMS"
    unfolding parse_feed_def by (rule feed_loop_ok) (simp_all add: feed_ok_def)
  with Inr show ?thesis
    by (auto simp: feed_ok_def item_ok_def MAX_ITEMS_def list_all_iff)
qed

section \<open>Properties: searching the mirrors\<close>

lemma search_bases_found:
  assumes "search_bases xr canonical q prev bases g = (Inr items, h)"
  shows "\<exists>base ats g1 f g2. (base, ats) \<in> set bases \<and>
    get_with canonical SNyaa (feed_url base q) GetOptions_default ats g1 = (Inr f, g2) \<and> read_reply xr q f = Inr items"
  using assms
proof (induction bases arbitrary: prev g)
  case (Cons b bases)
  obtain base ats where b: "b = (base, ats)" by (cases b)
  obtain r g1 where r: "get_with canonical SNyaa (feed_url base q) GetOptions_default ats g = (r, g1)" by fastforce
  show ?case
  proof (cases "case r of Inl e \<Rightarrow> Inl e | Inr f \<Rightarrow> read_reply xr q f")
    case (Inl e)
    then have "search_bases xr canonical q (Some e) bases g1 = (Inr items, h)"
      using Cons.prems b r by simp
    from Cons.IH [OF this] show ?thesis by (meson list.set_intros(2))
  next
    case (Inr x)
    then obtain f where "r = Inr f" "read_reply xr q f = Inr x" by (cases r) auto
    with Inr Cons.prems b r have "get_with canonical SNyaa (feed_url base q) GetOptions_default ats g = (Inr f, g1)"
      "read_reply xr q f = Inr items" "(base, ats) \<in> set (b # bases)" by auto
    then show ?thesis by blast
  qed
qed simp


text \<open>At most \<open>n\<close> requests to the service \<open>s\<close>, for keys in \<open>K\<close>; the policies stay.\<close>

definition sends_within :: "service \<Rightarrow> string set \<Rightarrow> nat \<Rightarrow> gate \<Rightarrow> gate \<Rightarrow> bool" where
  "sends_within s K n g h \<longleftrightarrow>
     ga_policy h = ga_policy g
     \<and> (\<exists>xs. ga_sent h = ga_sent g @ xs \<and> length xs \<le> n \<and> list_all (\<lambda>x. fst x = s \<and> snd x \<in> K) xs)"

lemma sends_within_trans:
  assumes "sends_within s K n f g" "sends_within s K m g h"
  shows "sends_within s K (n + m) f h"
proof -
  obtain xs ys where "ga_sent g = ga_sent f @ xs" "length xs \<le> n" "list_all (\<lambda>x. fst x = s \<and> snd x \<in> K) xs"
    "ga_sent h = ga_sent g @ ys" "length ys \<le> m" "list_all (\<lambda>x. fst x = s \<and> snd x \<in> K) ys"
    using assms by (auto simp: sends_within_def)
  then show ?thesis using assms by (auto simp: sends_within_def intro!: exI [of _ "xs @ ys"])
qed

lemma handle_outcome_policy: "ga_policy (snd (handle_outcome s key ttl r g)) = ga_policy g"
  by (simp add: handle_outcome_def finish_success_def record_success_def record_failure_def Let_def
      split: sum.split outcome.split error.split option.split)

lemma one_attempt_policy: "ga_policy (snd (one_attempt s key timeout ttl ae g)) = ga_policy g"
  by (simp add: one_attempt_def Let_def handle_outcome_policy)

lemma dispatch_loop_policy:
  "ga_policy (snd (dispatch_loop s key timeout retry ttl started ats n g)) = ga_policy g"
proof (induction s key timeout retry ttl started ats n g rule: dispatch_loop.induct)
  case (1 s key timeout retry ttl started ats n g)
  obtain t g1 where one: "one_attempt s key timeout ttl (ats n) g = (t, g1)" by force
  have g1: "ga_policy g1 = ga_policy g" using one_attempt_policy [of s key timeout ttl "ats n" g] one by simp
  show ?case
  proof (cases t)
    case (Return r)
    with one g1 show ?thesis by (subst dispatch_loop.simps) simp
  next
    case (Retry err ra)
    with 1 [OF one [symmetric] Retry] one g1 show ?thesis
      by (subst dispatch_loop.simps) (auto simp: Let_def)
  qed
qed

lemma get_with_sends:
  "sends_within s {key. canonical url = Some key}
     (max 1 (rp_max_attempts (or_policy (go_retry opts) (sp_retry (ga_policy g s))))) g
     (snd (get_with canonical s url opts ats g))"
proof (cases "canonical url")
  case None
  then show ?thesis by (simp add: get_with_def sends_within_def)
next
  case (Some key)
  show ?thesis
  proof (cases rule: gate_allow_cases [of g s])
    case (rejected d b)
    then show ?thesis using Some by (simp add: get_with_def seq_def sends_within_def)
  next
    case (through b)
    note run = get_with_through [where opts = opts and ats = ats and canonical = canonical and url = url, OF through(2) Some]
    show ?thesis
    proof (cases "cached s key opts g")
      case None
      obtain k where "k \<le> max 1 (rp_max_attempts (or_policy (go_retry opts) (sp_retry (ga_policy g s))))"
        "ga_sent (snd (dispatch s key opts (ttl_of s opts g) ats (set_breaker s b g))) = ga_sent g @ replicate k (s, key)"
        using dispatch_sent [of opts "set_breaker s b g" s key "ttl_of s opts g" ats] by auto
      moreover have "ga_policy (snd (dispatch s key opts (ttl_of s opts g) ats (set_breaker s b g))) = ga_policy g"
        by (simp add: dispatch_def dispatch_loop_policy)
      ultimately show ?thesis using None Some by (auto simp: run sends_within_def list_all_iff)
    next
      case (Some e)
      then show ?thesis by (simp add: run sends_within_def)
    qed
  qed
qed

lemma sends_within_mono: "sends_within s K n g h \<Longrightarrow> K \<subseteq> L \<Longrightarrow> n \<le> m \<Longrightarrow> sends_within s L m g h"
  unfolding sends_within_def by (fastforce simp: list_all_iff)

lemma search_bases_sends:
  assumes "\<forall>b\<in>set bases. {key. canonical (feed_url (fst b) q) = Some key} \<subseteq> K"
  shows "sends_within SNyaa K (length bases * max 1 (rp_max_attempts (sp_retry (ga_policy g SNyaa)))) g
    (snd (search_bases xr canonical q prev bases g))"
  using assms
proof (induction bases arbitrary: prev g)
  case Nil
  then show ?case by (simp add: sends_within_def)
next
  case (Cons b bases)
  let ?n = "max 1 (rp_max_attempts (sp_retry (ga_policy g SNyaa)))"
  obtain base ats where b: "b = (base, ats)" by (cases b)
  obtain r g1 where r: "get_with canonical SNyaa (feed_url base q) GetOptions_default ats g = (r, g1)" by fastforce
  have first: "sends_within SNyaa K ?n g g1"
    using sends_within_mono [OF get_with_sends [of SNyaa canonical "feed_url base q" GetOptions_default g ats], of K ?n]
      Cons.prems b r by (simp add: GetOptions_default_def or_policy_def)
  then have "ga_policy g1 = ga_policy g" by (simp add: sends_within_def)
  then have "sends_within SNyaa K (?n + length bases * ?n) g (snd (search_bases xr canonical q prev' bases g1))" for prev'
    using sends_within_trans [OF first Cons.IH [of g1 prev']] Cons.prems by simp
  moreover have "sends_within SNyaa K (?n + length bases * ?n) g g1" by (rule sends_within_mono [OF first]) simp_all
  ultimately show ?case using b r
    by (auto simp: algebra_simps split: sum.split)
qed

text \<open>
  The price of a search. One search sends requests to Nyaa only, each to the query's URL at the primary site or one
  of the mirrors, and no more than the attempts of the retry policy for each of them, whatever happens.
\<close>

theorem nyaa_search_requests:
  "\<exists>xs. ga_sent (snd (nyaa_search xr canonical st q ats g)) = ga_sent g @ xs \<and>
     length xs \<le> (1 + length (s_nyaa_mirrors st)) * max 1 (rp_max_attempts (sp_retry (ga_policy g SNyaa))) \<and>
     list_all (\<lambda>x. fst x = SNyaa \<and>
       list_ex (\<lambda>base. canonical (feed_url base q) = Some (snd x)) (s_nyaa_base_url st # s_nyaa_mirrors st)) xs"
proof -
  let ?bases = "s_nyaa_base_url st # s_nyaa_mirrors st"
  let ?K = "{key. list_ex (\<lambda>base. canonical (feed_url base q) = Some key) ?bases}"
  let ?list = "map (\<lambda>k. (?bases ! k, ats k)) [0..<length ?bases]"
  have "\<forall>b\<in>set ?list. {key. canonical (feed_url (fst b) q) = Some key} \<subseteq> ?K"
  proof
    fix b assume "b \<in> set ?list"
    then obtain k where "k < length ?bases" "fst b = ?bases ! k" by (auto simp del: upt_Suc)
    then have "fst b \<in> set ?bases" by (metis nth_mem)
    then show "{key. canonical (feed_url (fst b) q) = Some key} \<subseteq> ?K" by (auto simp: list_ex_iff)
  qed
  from search_bases_sends [OF this, of g xr None] show ?thesis
    by (simp add: nyaa_search_def Let_def sends_within_def del: upt_Suc)
qed

text \<open>A gate whose cache answers the query, and the tokens of a feed with one release.\<close>

definition demo_hash :: string where "demo_hash = replicate 40 (CHR ''a'')"

definition demo_tokens :: "xml_token list" where
  "demo_tokens =
     (let open_tag = (\<lambda>n. \<lparr> xt_kind = XStart n, xt_raw = [] \<rparr>); close_tag = (\<lambda>n. \<lparr> xt_kind = XEnd n, xt_raw = [] \<rparr>);
          field = (\<lambda>n v. [open_tag n, \<lparr> xt_kind = XOther, xt_raw = v \<rparr>, close_tag n])
      in [open_tag ''item''] @ field ''title'' ''A - 01'' @ field ''link'' ''u'' @ field ''nyaa:infoHash'' demo_hash
         @ field ''nyaa:categoryId'' ''1_2'' @ [close_tag ''item''])"

definition demo_reader :: xml_reader where
  "demo_reader = \<lparr> xr_tokens = (\<lambda>_. demo_tokens), xr_eof = ''end of text'' \<rparr>"

definition demo_entry :: cache_entry where
  "demo_entry = \<lparr> ce_body = ''rss'', ce_etag = None, ce_fetched_at = 0, ce_ttl = 600 \<rparr>"

definition demo_gate :: gate where
  "demo_gate = Gate_with_policies []
     [((''nyaa'', feed_url (s_nyaa_base_url Settings_default) (SearchQuery_new ''A'')), demo_entry)] 0 0"

lemma demo_feed:
  "\<exists>i. parse_feed ''end of text'' demo_tokens = Inr [i] \<and> fi_info_hash i = demo_hash \<and> fi_category_id i = ''1_2''"
proof -
  have t: "lower demo_hash = demo_hash" "trim demo_hash = demo_hash"
    "trim ''A - 01'' = ''A - 01''" "trim ''u'' = ''u''" "trim ''1_2'' = ''1_2''"
    by (simp_all add: demo_hash_def string_eval eval_nat_numeral)
  show ?thesis
    by (simp add: parse_feed_def demo_tokens_def Let_def read_text_def field_tags_def empty_item_def MAX_ITEMS_def t
        with_magnet_def)
qed


end
