(* ===== verification/Locations.thy ===== *)
theory Locations
  imports Library
begin

text \<open>
  \<open>locations.rs\<close>: checking and changing the folders of the user, and moving a library. The
  disk is that of theory \<open>Files\<close>; the free space and the device of a path are answers of
  the operating system. \<open>move_dir\<close> calls itself for every folder it meets; it has fuel
  and returns \<open>None\<close> when that does not suffice.
\<close>

named_theorems locations_simps \<open>unfolding rules of the folder checks\<close>

section \<open>Checking a path\<close>

record location_check =
  lc_path :: string
  lc_exists :: bool
  lc_writable :: bool
  lc_free_space_bytes :: "nat option"
  lc_free_space_gb :: "f64 option"
  lc_is_valid :: bool
  lc_error :: "string option"

text \<open>\<open>$HOME\<close>, the file system's refusals, free space and device, and the texts of errors and lists of paths.\<close>

record place =
  pl_home :: "string option"
  pl_disk :: disk
  pl_free :: "string \<Rightarrow> nat option"
  pl_device :: "loc \<Rightarrow> nat"
  pl_error_text :: "error \<Rightarrow> string"
  pl_paths_text :: "string list \<Rightarrow> string"

definition validate_path_safety :: "place \<Rightarrow> string \<Rightarrow> string list option \<Rightarrow> error + string" where
  "validate_path_safety pl path allowed_roots =
     (if trim path = [] then Inl (Other ''path cannot be empty'')
      else if ''..'' \<in> set (components path)
      then Inl (Other (''path traversal ('' @ apostrophe @ ''..'' @ apostrophe
             @ '') is not permitted in location: '' @ path))
      else
        let resolved = resolve_home (pl_home pl) path in
        if \<not> is_absolute resolved then Inl (Other (''location path must be absolute: '' @ path))
        else case allowed_roots of
          None \<Rightarrow> Inr resolved
        | Some roots \<Rightarrow>
            if list_ex (\<lambda>root. let r = resolve_home (pl_home pl) root in
                 is_absolute r \<and> path_starts_with (components resolved) (components r)) roots
            then Inr resolved
            else Inl (Other (''path '' @ apostrophe @ resolved @ apostrophe @ '' is outside allowed roots: ''
                   @ pl_paths_text pl roots)))"

text \<open>The folders above a path, nearest first (\<open>Path::parent\<close> again and again).\<close>

definition parents :: "string \<Rightarrow> string list" where
  "parents p =
     (let cs = components p in
      map (\<lambda>k. (if starts_with ''/'' p then ''/'' else []) @ join_with ''/'' (take k cs)) (rev [0..<length cs]))"

definition WRITE_TEST :: string where "WRITE_TEST = ''.genrl_write_test_tmp''"

definition is_path_writable :: "disk \<Rightarrow> string \<Rightarrow> bool on_disk" where
  "is_path_writable d path =
     (let test_file = join_path path WRITE_TEST in
      seq (attempt (fs_write d test_file ''test'')) (\<lambda>r.
      case r of
        Inr _ \<Rightarrow> seq (ignore (fs_remove_file d test_file)) (\<lambda>_. ret True)
      | Inl _ \<Rightarrow> ret False))"

definition invalid_location :: "string \<Rightarrow> bool \<Rightarrow> string \<Rightarrow> location_check" where
  "invalid_location path present e =
     \<lparr> lc_path = path, lc_exists = present, lc_writable = False, lc_free_space_bytes = None,
       lc_free_space_gb = None, lc_is_valid = False, lc_error = Some e \<rparr>"

definition checked_location :: "place \<Rightarrow> string \<Rightarrow> bool \<Rightarrow> string \<Rightarrow> bool \<Rightarrow> string \<Rightarrow> location_check" where
  "checked_location pl path present probed writable e =
     \<lparr> lc_path = path, lc_exists = present, lc_writable = writable, lc_free_space_bytes = pl_free pl probed,
       lc_free_space_gb = map_option (\<lambda>b. real b / (1024 * 1024 * 1024)) (pl_free pl probed),
       lc_is_valid = writable, lc_error = (if writable then None else Some e) \<rparr>"

definition check_existing :: "place \<Rightarrow> string \<Rightarrow> location_check on_disk" where
  "check_existing pl resolved =
     seq (gets (is_dir_at resolved)) (\<lambda>is_dir.
     if \<not> is_dir then ret (invalid_location resolved True ''path exists but is not a directory'')
     else
       seq (is_path_writable (pl_disk pl) resolved) (\<lambda>writable.
       ret (checked_location pl resolved True resolved writable
              ''directory exists but is not writable (permission denied)'')))"

definition check_missing :: "place \<Rightarrow> string \<Rightarrow> location_check on_disk" where
  "check_missing pl resolved =
     seq (gets (\<lambda>f. List.find (\<lambda>p. exists_at p f) (parents resolved))) (\<lambda>found.
     case found of
       Some p \<Rightarrow>
         seq (is_path_writable (pl_disk pl) p) (\<lambda>writable.
         ret (checked_location pl resolved False p writable ''parent directory is not writable''))
     | None \<Rightarrow> ret (invalid_location resolved False ''directory does not exist''))"

definition check_directory :: "place \<Rightarrow> string \<Rightarrow> bool \<Rightarrow> location_check on_disk" where
  "check_directory pl path_str create_if_missing =
     (let resolved = resolve_home (pl_home pl) path_str in
      case validate_path_safety pl resolved None of
        Inl e \<Rightarrow> ret (invalid_location resolved False (pl_error_text pl e))
      | Inr _ \<Rightarrow>
          seq (gets (exists_at resolved)) (\<lambda>present.
          if present then check_existing pl resolved
          else if create_if_missing then
            seq (attempt (create_dir_all (pl_disk pl) resolved)) (\<lambda>r.
            case r of
              Inl e \<Rightarrow> ret (invalid_location resolved False (''could not create directory: '' @ pl_error_text pl e))
            | Inr _ \<Rightarrow> check_existing pl resolved)
          else check_missing pl resolved))"

section \<open>The folders in use\<close>

text \<open>The device of the nearest existing path.\<close>

definition get_dev_for_path :: "place \<Rightarrow> string \<Rightarrow> fs \<Rightarrow> nat option" where
  "get_dev_for_path pl p f =
     map_option (\<lambda>q. pl_device pl (locate q)) (List.find (\<lambda>q. q \<noteq> [] \<and> exists_at q f) (p # parents p))"

definition are_on_same_filesystem :: "place \<Rightarrow> string \<Rightarrow> string \<Rightarrow> fs \<Rightarrow> bool" where
  "are_on_same_filesystem pl a b f =
     (case (get_dev_for_path pl a f, get_dev_for_path pl b f) of
        (Some x, Some y) \<Rightarrow> x = y
      | _ \<Rightarrow> False)"

record locations_report =
  lr_download_dir :: location_check
  lr_library_dir :: location_check
  lr_same_filesystem :: bool
  lr_note :: string

definition get_locations :: "place \<Rightarrow> locations_report shelving" where
  "get_locations pl =
     seq (gets_store w_settings) (\<lambda>st.
     let dl = (if trim (s_download_folder st) = [] then default_download (pl_home pl) else s_download_folder st);
         lib = (if trim (s_library_folder st) = [] then default_library (pl_home pl) else s_library_folder st)
     in seq (on_fs (check_directory pl dl False)) (\<lambda>download_check.
        seq (on_fs (check_directory pl lib False)) (\<lambda>library_check.
        seq (gets_fs (are_on_same_filesystem pl (resolve_home (pl_home pl) dl) (resolve_home (pl_home pl) lib))) (\<lambda>same_fs.
        ret \<lparr> lr_download_dir = download_check, lr_library_dir = library_check, lr_same_filesystem = same_fs,
              lr_note = (if same_fs
                then ''Download folder and Library folder are on the SAME filesystem. Hardlinking is supported (seeding continues after filing).''
                else ''Download folder and Library folder are on DIFFERENT filesystems. Files will be moved/copied across devices (seeding stops after move).'') \<rparr>))))"

definition set_setting :: "(settings \<Rightarrow> settings) \<Rightarrow> string \<Rightarrow> unit shelving" where
  "set_setting g msg =
     seq (on_store (modify (\<lambda>w. w\<lparr>w_settings := g (w_settings w)\<rparr>))) (\<lambda>_.
     seq (attempt (on_store (log_info None None msg))) (\<lambda>_. ret ()))"

definition store_location :: "string \<Rightarrow> string \<Rightarrow> int option \<Rightarrow> unit shelving" where
  "store_location key path mal_id =
     (let quoted = apostrophe @ path @ apostrophe in
      case mal_id of
        Some i \<Rightarrow>
          seq (set_folder_path i path) (\<lambda>_.
          seq (attempt (on_store (log_info None (Some i) (''Updated show folder override to '' @ quoted)))) (\<lambda>_. ret ()))
      | None \<Rightarrow>
          if key = ''download_dir'' \<or> key = ''download_folder''
          then set_setting (\<lambda>st. st\<lparr>s_download_folder := path\<rparr>) (''Updated download folder to '' @ quoted)
          else if key = ''library_dir'' \<or> key = ''library_folder''
          then set_setting (\<lambda>st. st\<lparr>s_library_folder := path\<rparr>) (''Updated library folder to '' @ quoted)
          else throw (Other (''unknown location key '' @ apostrophe @ key @ apostrophe @ ''; use '' @ apostrophe
                 @ ''download_dir'' @ apostrophe @ '' or '' @ apostrophe @ ''library_dir'' @ apostrophe)))"

definition set_location :: "place \<Rightarrow> string \<Rightarrow> string \<Rightarrow> int option \<Rightarrow> location_check shelving" where
  "set_location pl key val mal_id =
     (let resolved = resolve_home (pl_home pl) val in
      seq (on_fs (check_directory pl resolved True)) (\<lambda>check.
      if \<not> lc_is_valid check
      then throw (Other (''invalid location '' @ apostrophe @ val @ apostrophe @ '': ''
             @ (case lc_error check of Some e \<Rightarrow> e | None \<Rightarrow> ''validation failed'')))
      else seq (store_location key resolved mal_id) (\<lambda>_. ret check)))"

record show_folder_info =
  sf_mal_id :: int
  sf_title :: string
  sf_folder_path :: "string option"
  sf_check :: "location_check option"

definition get_show_folder :: "place \<Rightarrow> int \<Rightarrow> show_folder_info shelving" where
  "get_show_folder pl m =
     seq (gets (\<lambda>s. (find_row sh_mal_id m (w_shows (lb_world s)), Option.bind (shelf_of m s) sl_folder_path))) (\<lambda>(row, folder).
     case row of
       None \<Rightarrow> throw (Other (''show with MAL id '' @ show_int m @ '' not found''))
     | Some r \<Rightarrow>
         seq (case folder of
                Some p \<Rightarrow> seq (on_fs (check_directory pl p False)) (\<lambda>c. ret (Some c))
              | None \<Rightarrow> ret None) (\<lambda>check.
         ret \<lparr> sf_mal_id = m, sf_title = sh_title r, sf_folder_path = folder, sf_check = check \<rparr>))"

section \<open>Moving a library\<close>

record moved =
  mv_shows :: nat
  mv_files :: nat
  mv_bytes :: nat
  mv_errors :: "string list"

definition no_moves :: moved where
  "no_moves = \<lparr> mv_shows = 0, mv_files = 0, mv_bytes = 0, mv_errors = [] \<rparr>"

type_synonym 'a moving = "(moved \<times> fs, error, 'a) act"

definition on_disk_of :: "'a on_disk \<Rightarrow> 'a moving" where
  "on_disk_of a = (\<lambda>(r, f). case a f of (x, g) \<Rightarrow> (x, (r, g)))"

definition move_file :: "disk \<Rightarrow> string \<Rightarrow> string \<Rightarrow> unit moving" where
  "move_file d src dst =
     seq (gets (\<lambda>s. content_at (locate src) (snd s))) (\<lambda>content.
     case content of
       None \<Rightarrow> on_disk_of refused
     | Some text \<Rightarrow>
         seq (attempt (on_disk_of (fs_rename d src dst))) (\<lambda>r.
         seq (case r of
                Inr _ \<Rightarrow> ret ()
              | Inl _ \<Rightarrow> seq (on_disk_of (fs_copy d src dst)) (\<lambda>_. on_disk_of (fs_remove_file d src))) (\<lambda>_.
         modify (\<lambda>(m, f). (m\<lparr>mv_files := mv_files m + 1, mv_bytes := mv_bytes m + length text\<rparr>, f)))))"

text \<open>The loop over the entries of a folder; \<open>sub\<close> is the call for a folder among them.\<close>

fun move_entries ::
  "(string \<Rightarrow> string \<Rightarrow> moved \<times> fs \<Rightarrow> ((error + unit) \<times> moved \<times> fs) option) \<Rightarrow> disk \<Rightarrow> string \<Rightarrow> string
     \<Rightarrow> string list \<Rightarrow> moved \<times> fs \<Rightarrow> ((error + unit) \<times> moved \<times> fs) option" where
  "move_entries sub d src dst [] s = Some (Inr (), s)"
| "move_entries sub d src dst (n # ns) s =
     (let a = join_path src n; b = join_path dst n in
      case (if is_dir_at a (snd s) then sub a b s else Some (move_file d a b s)) of
        None \<Rightarrow> None
      | Some (Inl e, t) \<Rightarrow> Some (Inl e, t)
      | Some (Inr _, t) \<Rightarrow> move_entries sub d src dst ns t)"

primrec move_dir ::
  "nat \<Rightarrow> disk \<Rightarrow> string \<Rightarrow> string \<Rightarrow> moved \<times> fs \<Rightarrow> ((error + unit) \<times> moved \<times> fs) option" where
  "move_dir 0 d src dst s = None"
| "move_dir (Suc n) d src dst s =
     (case on_disk_of (create_dir_all d dst) s of
        (Inl e, t) \<Rightarrow> Some (Inl e, t)
      | (Inr _, t) \<Rightarrow>
          if \<not> is_dir_at src (snd t) then Some (on_disk_of refused t)
          else
            case move_entries (move_dir n d) d src dst (children (locate src) (snd t)) t of
              None \<Rightarrow> None
            | Some (Inl e, u) \<Rightarrow> Some (Inl e, u)
            | Some (Inr _, u) \<Rightarrow> Some (on_disk_of (ignore (fs_remove_dir d src)) u))"

definition repoint_shows :: "string \<Rightarrow> string \<Rightarrow> library \<Rightarrow> library" where
  "repoint_shows old new s =
     s\<lparr>lb_shelves := update_rows (\<lambda>x. sl_folder_path x = Some old) (\<lambda>x. x\<lparr>sl_folder_path := Some new\<rparr>) (lb_shelves s)\<rparr>"

text \<open>One entry of the source: a folder is moved, and the shows filed there follow.\<close>

definition move_show :: "nat \<Rightarrow> place \<Rightarrow> string \<Rightarrow> string \<Rightarrow> moved \<times> library \<Rightarrow> (moved \<times> library) option" where
  "move_show fuel pl path target_dir s =
     (case path_file_name path of
        None \<Rightarrow> Some s
      | Some dir_name \<Rightarrow>
          (let dst = join_path target_dir dir_name in
           case move_dir fuel (pl_disk pl) path dst (fst s, lb_fs (snd s)) of
             None \<Rightarrow> None
           | Some (Inl e, (m, f)) \<Rightarrow>
               Some (m\<lparr>mv_errors := mv_errors m @ [path @ '': '' @ pl_error_text pl e]\<rparr>, (snd s)\<lparr>lb_fs := f\<rparr>)
           | Some (Inr _, (m, f)) \<Rightarrow>
               Some (m\<lparr>mv_shows := mv_shows m + 1\<rparr>, repoint_shows path dst ((snd s)\<lparr>lb_fs := f\<rparr>))))"

fun move_shows :: "nat \<Rightarrow> place \<Rightarrow> string list \<Rightarrow> string \<Rightarrow> moved \<times> library \<Rightarrow> (moved \<times> library) option" where
  "move_shows fuel pl [] target_dir s = Some s"
| "move_shows fuel pl (p # ps) target_dir s =
     Option.bind (if is_dir_at p (lb_fs (snd s)) then move_show fuel pl p target_dir s else Some s)
       (move_shows fuel pl ps target_dir)"

definition move_existing_library ::
  "nat \<Rightarrow> place \<Rightarrow> string \<Rightarrow> string \<Rightarrow> library \<Rightarrow> ((error + moved) \<times> library) option" where
  "move_existing_library fuel pl source_dir target_dir s =
     (if \<not> exists_at source_dir (lb_fs s)
      then Some (Inl (Other (''source directory '' @ apostrophe @ source_dir @ apostrophe @ '' does not exist'')), s)
      else case on_fs (create_dir_all (pl_disk pl) target_dir) s of
        (Inl e, t) \<Rightarrow> Some (Inl e, t)
      | (Inr _, t) \<Rightarrow>
          if \<not> is_dir_at source_dir (lb_fs t) then Some (Inl (Io ''refused''), t)
          else
            case move_shows fuel pl (map (join_path source_dir) (children (locate source_dir) (lb_fs t)))
                   target_dir (no_moves, t) of
              None \<Rightarrow> None
            | Some (m, u) \<Rightarrow>
                Some (Inr m, snd (on_store (log_info None None
                  (''Migrated library from '' @ apostrophe @ source_dir @ apostrophe @ '' to '' @ apostrophe @ target_dir
                   @ apostrophe @ '': '' @ show_nat (mv_shows m) @ '' shows moved, '' @ show_nat (mv_files m)
                   @ '' files, '' @ show_nat (mv_bytes m) @ '' bytes'')) u)))"

section \<open>What moving a folder can change\<close>

definition named :: "fs \<Rightarrow> bool" where
  "named f \<longleftrightarrow> list_all (\<lambda>e. list_all is_name (fst e)) (fs_nodes f)"

text \<open>
  Below \<open>S\<close> and \<open>T\<close> anything may have changed; elsewhere only folders are new, and no
  folder outside \<open>S\<close> is gone. The names stay names.
\<close>

definition moved_within :: "loc \<Rightarrow> loc \<Rightarrow> fs \<Rightarrow> fs \<Rightarrow> bool" where
  "moved_within S T f g \<longleftrightarrow>
     (\<forall>k. \<not> path_starts_with k S \<and> \<not> path_starts_with k T \<longrightarrow>
        node_at k g = node_at k f \<or> (node_at k f = None \<and> node_at k g = Some Dir))
     \<and> (\<forall>k. node_at k f = Some Dir \<and> \<not> path_starts_with k S \<longrightarrow> node_at k g = Some Dir)
     \<and> (named f \<longrightarrow> named g)"

text \<open>A call of a move keeps to its two folders and reports no error itself.\<close>

definition move_step :: "loc \<Rightarrow> loc \<Rightarrow> moved \<times> fs \<Rightarrow> moved \<times> fs \<Rightarrow> bool" where
  "move_step S T s t \<longleftrightarrow> moved_within S T (snd s) (snd t) \<and> mv_errors (fst t) = mv_errors (fst s)"

lemma moved_within_refl [simp]: "moved_within S T f f"
  by (simp add: moved_within_def)

lemma moved_within_trans: "moved_within S T f g \<Longrightarrow> moved_within S T g h \<Longrightarrow> moved_within S T f h"
  unfolding moved_within_def by (metis option.distinct(1))

interpretation moving: evolution "move_step S T" for S T
  by unfold_locales (auto simp: move_step_def intro: moved_within_trans)

lemma path_starts_with_append [simp]: "path_starts_with (a @ b) a"
  by (simp add: path_starts_with_def)

lemma path_starts_with_self [simp]: "path_starts_with a a"
  by (simp add: path_starts_with_def)

lemma path_starts_with_step: "path_starts_with k (a @ [n]) \<Longrightarrow> path_starts_with k a"
  unfolding path_starts_with_def by (metis append_eq_conv_conj append_take_drop_id append.assoc)

lemma moved_within_sub: "moved_within (S @ [m]) (T @ [n]) f g \<Longrightarrow> moved_within S T f g"
  unfolding moved_within_def using path_starts_with_step by blast

lemma move_step_sub: "move_step (S @ [m]) (T @ [n]) s t \<Longrightarrow> move_step S T s t"
  unfolding move_step_def using moved_within_sub by blast

lemma locate_names: "list_all is_name (locate p)"
proof -
  have "list_all is_name l \<Longrightarrow> (\<And>c. c \<in> set cs \<Longrightarrow> c \<noteq> [] \<and> c \<noteq> ''.'' \<and> CHR ''/'' \<notin> set c) \<Longrightarrow>
    list_all is_name (foldl climb l cs)" for l cs
  proof (induction cs arbitrary: l)
    case (Cons c cs)
    have "list_all is_name (climb l c)"
      using Cons.prems by (auto simp: climb_def list_all_iff is_name_def dest: in_set_butlastD)
    then show ?case using Cons by simp
  qed simp
  then show ?thesis using components_parts by (simp add: locate_def)
qed

lemma named_put: "named f \<Longrightarrow> list_all is_name l \<Longrightarrow> named (put_node l n f)"
  by (auto simp: named_def put_node_def list_all_iff)

lemma named_drop: "named f \<Longrightarrow> named (drop_node l f)"
  by (force simp: named_def drop_node_def list_all_iff)

lemma named_data [simp]: "named (put_data i s f) = named f" "named (f\<lparr>fs_next := n\<rparr>) = named f"
  by (simp_all add: named_def put_data_def)

lemma named_new_file: "named f \<Longrightarrow> list_all is_name l \<Longrightarrow> named (new_file l s f)"
  by (simp add: new_file_def named_put)

lemma named_node: "named f \<Longrightarrow> node_at l f = Some n \<Longrightarrow> list_all is_name l"
  by (auto simp: named_def node_at_def list_all_iff split: if_splits dest!: map_of_SomeD)

lemma children_names: "named f \<Longrightarrow> n \<in> set (children l f) \<Longrightarrow> is_name n"
  by (auto simp: named_def children_def list_all_iff)

lemma children_found: "node_at (l @ [n]) f = Some x \<Longrightarrow> n \<in> set (children l f)"
  by (force simp: node_at_def children_def dest!: map_of_SomeD)

lemma make_dirs_within:
  "(\<And>l. l \<in> set ls \<Longrightarrow> list_all is_name l) \<Longrightarrow> moved_within S T f (snd (make_dirs d ls f))"
proof (induction ls arbitrary: f)
  case (Cons l ls)
  have "moved_within S T f (put_node l Dir f)" if "node_at l f = None"
    using that Cons.prems [of l] by (auto simp: moved_within_def named_put)
  with Cons show ?case
    by (auto simp: refused_def intro: moved_within_trans split: option.split node.split)
qed simp

lemma create_dir_all_within: "moved_within S T f (snd (create_dir_all d p f))"
proof -
  have "list_all is_name (take n (locate p))" for n
    using locate_names [of p] by (auto simp: list_all_iff dest: in_set_takeD)
  then show ?thesis unfolding create_dir_all_def by (intro make_dirs_within) auto
qed

lemma fs_rename_within:
  "path_starts_with (locate a) S \<Longrightarrow> path_starts_with (locate b) T \<Longrightarrow> moved_within S T f (snd (fs_rename d a b f))"
  by (auto simp: fs_rename_def Let_def moved_within_def refused_def named_put named_drop locate_names
      split: option.split node.split)

lemma fs_copy_within: "path_starts_with (locate b) T \<Longrightarrow> moved_within S T f (snd (fs_copy d a b f))"
  by (auto simp: fs_copy_def write_at_def Let_def moved_within_def refused_def named_new_file locate_names
      split: option.split node.split)

lemma fs_remove_file_within: "path_starts_with (locate a) S \<Longrightarrow> moved_within S T f (snd (fs_remove_file d a f))"
  by (auto simp: fs_remove_file_def moved_within_def refused_def named_drop split: option.split node.split)

lemma fs_remove_dir_within: "path_starts_with (locate a) S \<Longrightarrow> moved_within S T f (snd (fs_remove_dir d a f))"
  by (auto simp: fs_remove_dir_def Let_def moved_within_def refused_def named_drop)

lemma on_disk_of_step:
  "(\<And>f. moved_within S T f (snd (a f))) \<Longrightarrow> evolves (move_step S T) (on_disk_of a)"
  by (auto simp: evolves_def on_disk_of_def move_step_def split: prod.split) (metis snd_conv)

lemma move_file_step:
  assumes "path_starts_with (locate a) S" "path_starts_with (locate b) T"
  shows "evolves (move_step S T) (move_file d a b)"
proof -
  note ops = on_disk_of_step [OF fs_rename_within [OF assms]] on_disk_of_step [OF fs_copy_within [OF assms(2)]]
    on_disk_of_step [OF fs_remove_file_within [OF assms(1)]]
  have "evolves (move_step S T) (on_disk_of refused)" by (rule on_disk_of_step) (simp add: refused_def)
  then show ?thesis
    unfolding move_file_def
    by (intro moving.ev_rules moving.ev_modify ops) (auto simp: move_step_def)
qed
lemma refused_moving [simp]: "on_disk_of refused s = (Inl (Io ''refused''), s)"
  by (simp add: on_disk_of_def refused_def split: prod.split)

lemma create_step: "evolves (move_step S T) (on_disk_of (create_dir_all d p))"
  by (rule on_disk_of_step) (rule create_dir_all_within)

lemma move_dir_step:
  "move_dir fuel d src dst s = Some (r, t) \<Longrightarrow> named (snd s) \<Longrightarrow> move_step (locate src) (locate dst) s t"
proof (induction fuel arbitrary: src dst s r t)
  case (Suc fuel)
  let ?S = "locate src" and ?T = "locate dst"
  have entries: "move_entries (move_dir fuel d) d src dst ns u = Some (r', v) \<Longrightarrow> list_all is_name ns \<Longrightarrow>
      named (snd u) \<Longrightarrow> move_step ?S ?T u v" for ns u r' v
  proof (induction ns arbitrary: u)
    case (Cons n ns)
    let ?a = "join_path src n" and ?b = "join_path dst n"
    have l: "locate ?a = ?S @ [n]" "locate ?b = ?T @ [n]" using Cons.prems(2) by (simp_all add: locate_join_name)
    obtain q w where one: "(if is_dir_at ?a (snd u) then move_dir fuel d ?a ?b u else Some (move_file d ?a ?b u)) = Some (q, w)"
      using Cons.prems(1) by (auto simp: Let_def split: option.splits prod.splits)
    have step: "move_step ?S ?T u w"
    proof (cases "is_dir_at ?a (snd u)")
      case True
      then have "move_dir fuel d ?a ?b u = Some (q, w)" using one by simp
      from Suc.IH [OF this Cons.prems(3)] show ?thesis unfolding l by (rule move_step_sub)
    next
      case False
      then have "move_file d ?a ?b u = (q, w)" using one by simp
      then show ?thesis using evolvesD [OF move_file_step [of ?a ?S ?b ?T d], of u] by (simp add: l)
    qed
    moreover have "named (snd w)" using step Cons.prems(3) by (simp add: move_step_def moved_within_def)
    ultimately show ?case
      using Cons.prems(1,2) one Cons.IH [of w] by (auto simp: Let_def split: sum.splits intro: moving.evo_trans)
  qed (auto intro: moving.evo_refl)
  obtain q u where c: "on_disk_of (create_dir_all d dst) s = (q, u)" by (cases "on_disk_of (create_dir_all d dst) s")
  then have su: "move_step ?S ?T s u"
    using evolvesD [OF create_step [of ?S ?T d dst], of s] by simp
  then have nu: "named (snd u)" using Suc.prems(2) by (simp add: move_step_def moved_within_def)
  have rm: "evolves (move_step ?S ?T) (on_disk_of (ignore (fs_remove_dir d src)))"
    by (rule on_disk_of_step) (simp add: ignore_def fs_remove_dir_within)
  have names: "list_all is_name (children ?S (snd u))" using children_names [OF nu] by (simp add: list_all_iff)
  consider "t = u"
    | r' v where "move_entries (move_dir fuel d) d src dst (children ?S (snd u)) u = Some (r', v)"
        "t = v \<or> t = snd (on_disk_of (ignore (fs_remove_dir d src)) v)"
    using Suc.prems(1) c
    by (cases q; cases "is_dir_at src (snd u)"; cases "move_entries (move_dir fuel d) d src dst (children ?S (snd u)) u")
      (auto split: sum.splits)
  then show ?case
  proof cases
    case 2
    have "move_step ?S ?T u v" by (rule entries [OF 2(1) names nu])
    then have "move_step ?S ?T s v" using su moving.evo_trans by blast
    then show ?thesis using 2(2) evolvesD [OF rm, of v] moving.evo_trans by blast
  qed (use su in simp)
qed simp

lemma move_step_named: "move_step S T s t \<Longrightarrow> named (snd s) \<Longrightarrow> named (snd t)"
  by (simp add: move_step_def moved_within_def)

lemma move_step_dir:
  "move_step S T s t \<Longrightarrow> is_dir_at p (snd s) \<Longrightarrow> \<not> path_starts_with (locate p) S \<Longrightarrow> is_dir_at p (snd t)"
  by (simp add: move_step_def moved_within_def is_dir_at_def)

lemma other_child: "n \<noteq> m \<Longrightarrow> \<not> path_starts_with (l @ [n]) (l @ [m])"
  by (simp add: path_starts_with_def)

text \<open>Moving the entries before \<open>n\<close> leaves the folder \<open>n\<close> where it is.\<close>

lemma move_entries_reach:
  assumes "move_entries (move_dir fuel d) d src dst (ns @ n # ms) s = Some (Inr x, t)"
    and "list_all is_name (ns @ [n])" "n \<notin> set ns" "named (snd s)" "is_dir_at (join_path src n) (snd s)"
  shows "\<exists>u v. move_dir fuel d (join_path src n) (join_path dst n) u = Some (Inr (), v) \<and> named (snd u)"
  using assms
proof (induction ns arbitrary: s)
  case Nil
  then have "\<exists>v. move_dir fuel d (join_path src n) (join_path dst n) s = Some (Inr (), v)"
    by (auto simp: Let_def split: option.splits sum.splits)
  with Nil.prems(4) show ?case by blast
next
  case (Cons m ns)
  let ?a = "join_path src m" and ?b = "join_path dst m"
  have l: "locate ?a = locate src @ [m]" "locate ?b = locate dst @ [m]" using Cons.prems(2) by (simp_all add: locate_join_name)
  obtain y u where one: "(if is_dir_at ?a (snd s) then move_dir fuel d ?a ?b s else Some (move_file d ?a ?b s)) = Some (Inr y, u)"
    and rest: "move_entries (move_dir fuel d) d src dst (ns @ n # ms) u = Some (Inr x, t)"
    using Cons.prems(1) by (auto simp: Let_def split: option.splits sum.splits)
  have step: "move_step (locate ?a) (locate ?b) s u"
  proof (cases "is_dir_at ?a (snd s)")
    case True
    then show ?thesis using one move_dir_step Cons.prems(4) by simp
  next
    case False
    then show ?thesis using one evolvesD [OF move_file_step [of ?a "locate ?a" ?b "locate ?b" d], of s] by simp
  qed
  have "\<not> path_starts_with (locate (join_path src n)) (locate ?a)"
    using Cons.prems(2,3) by (simp add: l locate_join_name other_child)
  then show ?case
    using Cons.IH [OF rest] Cons.prems(2,3) move_step_named [OF step Cons.prems(4)] move_step_dir [OF step Cons.prems(5)]
    by simp
qed

lemma move_into_itself_fails:
  "is_name n \<Longrightarrow> named (snd s) \<Longrightarrow> move_dir fuel d src (join_path src n) s \<noteq> Some (Inr x, t)"
proof (induction fuel arbitrary: src s x t)
  case (Suc fuel)
  let ?a = "join_path src n"
  show ?case
  proof
    assume "move_dir (Suc fuel) d src ?a s = Some (Inr x, t)"
    then obtain u v where c: "on_disk_of (create_dir_all d ?a) s = (Inr (), u)"
      and e: "move_entries (move_dir fuel d) d src ?a (children (locate src) (snd u)) u = Some (Inr (), v)"
      by (auto split: prod.splits sum.splits if_splits option.splits simp: on_disk_of_def refused_def)
    have dir: "is_dir_at ?a (snd u)"
      using c create_dir_all_made [of d ?a "snd s" "snd u"] by (auto simp: on_disk_of_def split: prod.splits)
    have nu: "named (snd u)"
      using evolvesD [OF create_step [of "[]" "[]" d ?a], of s] c Suc.prems(2)
      by (simp add: move_step_named)
    have "n \<in> set (children (locate src) (snd u))"
      using dir Suc.prems(1) by (auto simp: is_dir_at_def locate_join_name intro: children_found)
    then obtain ns ms where split: "children (locate src) (snd u) = ns @ n # ms" "n \<notin> set ns"
      by (meson split_list_first)
    have "list_all is_name (ns @ [n])"
      using children_names [OF nu, of _ "locate src"] split(1) by (auto simp: list_all_iff)
    from move_entries_reach [OF e [unfolded split(1)] this split(2) nu dir] Suc.IH Suc.prems(1)
    show False by blast
  qed
qed simp
text \<open>The same for the shows of a library: the fold over its entries.\<close>

lemma repoint_fs [simp]: "lb_fs (repoint_shows old new s) = lb_fs s"
  by (simp add: repoint_shows_def)

lemma path_file_name_join: "is_name n \<Longrightarrow> path_file_name (join_path p n) = Some n"
  by (auto simp: path_file_name_def components_join_path name_not_rooted components_name is_name_def)

definition move_kept :: "loc \<Rightarrow> loc \<Rightarrow> moved \<times> library \<Rightarrow> moved \<times> library \<Rightarrow> bool" where
  "move_kept S T s t \<longleftrightarrow> moved_within S T (lb_fs (snd s)) (lb_fs (snd t))
     \<and> (mv_errors (fst s) \<noteq> [] \<longrightarrow> mv_errors (fst t) \<noteq> [])"

lemma move_show_kept:
  assumes "move_show fuel pl (join_path src n) target s = Some t" "is_name n" "named (lb_fs (snd s))"
  shows "move_kept (locate src @ [n]) (locate target @ [n]) s t"
proof -
  obtain r m f where r: "move_dir fuel (pl_disk pl) (join_path src n) (join_path target n) (fst s, lb_fs (snd s)) = Some (r, m, f)"
    using assms(1) by (auto simp: move_show_def path_file_name_join [OF assms(2)] Let_def split: option.splits)
  have "move_step (locate src @ [n]) (locate target @ [n]) (fst s, lb_fs (snd s)) (m, f)"
    using move_dir_step [OF r] assms(2,3) by (simp add: locate_join_name)
  then show ?thesis
    using assms(1) r
    by (auto simp: move_show_def path_file_name_join [OF assms(2)] Let_def move_kept_def move_step_def split: sum.splits)
qed

lemma move_shows_errors:
  "move_shows fuel pl (map (join_path src) ns) target s = Some t \<Longrightarrow> list_all is_name ns \<Longrightarrow> named (lb_fs (snd s)) \<Longrightarrow>
   mv_errors (fst s) \<noteq> [] \<Longrightarrow> mv_errors (fst t) \<noteq> []"
proof (induction ns arbitrary: s)
  case (Cons n ns)
  obtain u where u: "(if is_dir_at (join_path src n) (lb_fs (snd s)) then move_show fuel pl (join_path src n) target s else Some s) = Some u"
    and rest: "move_shows fuel pl (map (join_path src) ns) target u = Some t"
    using Cons.prems(1) by (auto simp: bind_eq_Some_conv)
  have "mv_errors (fst u) \<noteq> [] \<and> named (lb_fs (snd u))"
    using u Cons.prems move_show_kept [of fuel pl src n target s u]
    by (auto simp: move_kept_def moved_within_def split: if_splits)
  with Cons.IH [OF rest] Cons.prems(2) show ?case by simp
qed simp

lemma move_shows_into_itself:
  assumes "move_shows fuel pl (map (join_path src) (ns @ n # ms)) (join_path src n) s = Some t"
    and "list_all is_name (ns @ n # ms)" "n \<notin> set ns" "named (lb_fs (snd s))" "is_dir_at (join_path src n) (lb_fs (snd s))"
  shows "mv_errors (fst t) \<noteq> []"
  using assms
proof (induction ns arbitrary: s)
  case Nil
  let ?p = "join_path src n"
  have n: "is_name n" using Nil.prems(2) by simp
  obtain u where u: "move_show fuel pl ?p ?p s = Some u"
    and rest: "move_shows fuel pl (map (join_path src) ms) ?p u = Some t"
    using Nil.prems(1,5) by (auto simp: bind_eq_Some_conv)
  have never: "move_dir fuel (pl_disk pl) ?p (join_path ?p n) (fst s, lb_fs (snd s)) = Some (Inr x, w) \<Longrightarrow> False" for x w
    using move_into_itself_fails [OF n, of "(fst s, lb_fs (snd s))"] Nil.prems(4) by simp
  have "mv_errors (fst u) \<noteq> []"
    using u by (auto simp: move_show_def path_file_name_join [OF n] Let_def split: option.splits sum.splits dest: never)
  moreover have "named (lb_fs (snd u))"
    using move_show_kept [OF u n Nil.prems(4)] Nil.prems(4) by (simp add: move_kept_def moved_within_def)
  ultimately show ?case using move_shows_errors [OF rest] Nil.prems(2) by simp
next
  case (Cons m ns)
  let ?p = "join_path src m"
  have m: "is_name m" "is_name n" "n \<noteq> m" using Cons.prems(2,3) by auto
  obtain u where u: "(if is_dir_at ?p (lb_fs (snd s)) then move_show fuel pl ?p (join_path src n) s else Some s) = Some u"
    and rest: "move_shows fuel pl (map (join_path src) (ns @ n # ms)) (join_path src n) u = Some t"
    using Cons.prems(1) by (auto simp: bind_eq_Some_conv)
  have k: "move_kept (locate src @ [m]) (locate (join_path src n) @ [m]) s u"
    using u move_show_kept [OF _ m(1) Cons.prems(4)] by (auto simp: move_kept_def split: if_splits)
  then have "is_dir_at (join_path src n) (lb_fs (snd u))" "named (lb_fs (snd u))"
    using Cons.prems(4,5) other_child [OF m(3)] m
    by (auto simp: move_kept_def moved_within_def is_dir_at_def locate_join_name)
  then show ?case using Cons.IH [OF rest] Cons.prems(2,3) by simp
qed

section \<open>Properties\<close>

text \<open>
  Moving a library into a folder of itself never succeeds cleanly. When the target is a
  folder of the source, the walk over the source meets the target, and moves it into
  itself, for ever: whatever the disk allows, a run that returns Ok reports an error, and no
  amount of fuel gives one without (by then the shows before it lie in nested copies of
  the target folder).
\<close>

theorem move_library_into_itself:
  assumes "is_name n" "named (lb_fs s)"
    and "move_existing_library fuel pl src (join_path src n) s = Some (Inr m, t)"
  shows "mv_errors m \<noteq> []"
proof -
  let ?p = "join_path src n"
  from assms(3) obtain g u where c: "create_dir_all (pl_disk pl) ?p (lb_fs s) = (Inr (), g)"
    and run: "move_shows fuel pl (map (join_path src) (children (locate src) g)) ?p (no_moves, s\<lparr>lb_fs := g\<rparr>) = Some (m, u)"
    by (cases "create_dir_all (pl_disk pl) ?p (lb_fs s)")
      (auto simp: move_existing_library_def split: if_splits sum.splits option.splits)
  have dir: "is_dir_at ?p g" using create_dir_all_made [OF c] .
  have named: "named g" using create_dir_all_within [of "[]" "[]" "lb_fs s" "pl_disk pl" ?p] c assms(2) by (simp add: moved_within_def)
  have "n \<in> set (children (locate src) g)"
    using dir assms(1) by (auto simp: is_dir_at_def locate_join_name intro: children_found)
  then obtain ns ms where split: "children (locate src) g = ns @ n # ms" "n \<notin> set ns" by (meson split_list_first)
  have "list_all is_name (ns @ n # ms)"
    using children_names [OF named, of _ "locate src"] split(1) by (auto simp: list_all_iff)
  from move_shows_into_itself [OF run [unfolded split(1)] this split(2)] named dir show ?thesis by simp
qed

section \<open>Home and tidy paths\<close>

definition tidy :: "string \<Rightarrow> bool" where
  "tidy s \<longleftrightarrow> s = [] \<or> (\<not> is_space (hd s) \<and> \<not> is_space (last s))"

lemma dropWhile_keep: "xs = [] \<or> \<not> P (hd xs) \<Longrightarrow> dropWhile P xs = xs"
  by (cases xs) auto

lemma trim_tidy: "tidy s \<Longrightarrow> trim s = s"
  using dropWhile_keep [of s is_space] dropWhile_keep [of "rev s" is_space] by (auto simp: tidy_def trim_def hd_rev)

lemma dropWhile_rev_last: "rev (dropWhile P (rev xs)) \<noteq> [] \<Longrightarrow> \<not> P (last (rev (dropWhile P (rev xs))))"
  by (metis hd_dropWhile last_rev rev_is_Nil_conv)

lemma tidy_trim [simp]: "tidy (trim s)"
proof -
  let ?u = "dropWhile is_space s"
  have "\<not> is_space (hd (rev (dropWhile is_space (rev ?u))))" if ne: "rev (dropWhile is_space (rev ?u)) \<noteq> []"
  proof -
    have "?u = rev (dropWhile is_space (rev ?u)) @ rev (takeWhile is_space (rev ?u))"
      by (metis rev_append rev_rev_ident takeWhile_dropWhile_id)
    then have "hd (rev (dropWhile is_space (rev ?u))) = hd ?u" using ne by (metis hd_append2)
    moreover have "?u \<noteq> []" using ne by (metis dropWhile.simps(1) rev.simps(1))
    ultimately show ?thesis using hd_dropWhile by metis
  qed
  then show ?thesis using dropWhile_rev_last [of is_space ?u] by (auto simp: tidy_def trim_def)
qed

lemma trim_trim [simp]: "trim (trim s) = trim s"
  by (rule trim_tidy) simp

text \<open>\<open>$HOME\<close> is an absolute path without blanks at its ends, or is not set.\<close>

definition plain_home :: "string option \<Rightarrow> bool" where
  "plain_home home = (case home of None \<Rightarrow> True | Some h \<Rightarrow> is_absolute h \<and> tidy h)"

lemma absolute_hd: "is_absolute p \<longleftrightarrow> (\<exists>q. p = CHR ''/'' # q)"
  by (cases p) (auto simp: is_absolute_def starts_with_def)

lemma starts_with_two: "starts_with [a, b] s \<Longrightarrow> \<exists>r. s = a # b # r"
  by (cases s; cases "tl s") (auto simp: starts_with_def)

lemma resolved_tidy: "plain_home home \<Longrightarrow> tidy (resolve_home home p)"
proof -
  assume home: "plain_home home"
  have join: "tidy (join_path h (drop 2 (trim p)))" if h: "home = Some h" and s: "starts_with ''~/'' (trim p)" for h
  proof -
    obtain r where r: "trim p = CHR ''~'' # CHR ''/'' # r"
      using s starts_with_two by blast
    have last: "r \<noteq> [] \<Longrightarrow> \<not> is_space (last r)" using tidy_trim [of p] r by (auto simp: tidy_def)
    obtain q where q: "h = CHR ''/'' # q" using home h by (auto simp: plain_home_def absolute_hd)
    have sl: "\<not> is_space (CHR ''/'')" by (simp add: is_space_def)
    show ?thesis
      using last sl by (cases r) (auto simp: tidy_def r q join_path_def starts_with_def)
  qed
  have "tidy h" if "home = Some h" for h using home that by (simp add: plain_home_def)
  then show ?thesis using join by (auto simp: resolve_home_def Let_def split: option.split)
qed
lemma resolve_home_idem: "plain_home home \<Longrightarrow> resolve_home home (resolve_home home p) = resolve_home home p"
proof -
  assume home: "plain_home home"
  let ?r = "resolve_home home p"
  have t: "trim ?r = ?r" using resolved_tidy [OF home] by (rule trim_tidy)
  show ?thesis
  proof (cases home)
    case None
    then show ?thesis by (simp add: resolve_home_def)
  next
    case (Some h)
    have abs: "is_absolute (join_path h b)" for b
      using home Some by (auto simp: plain_home_def absolute_hd join_path_def starts_with_def; cases b; auto)
    have "?r = trim p \<and> trim p \<noteq> ''~'' \<and> \<not> starts_with ''~/'' (trim p) \<or> is_absolute ?r"
      using home Some abs by (simp add: resolve_home_def Let_def plain_home_def)
    then show ?thesis
    proof
      assume "is_absolute ?r"
      then obtain q where q: "?r = CHR ''/'' # q" by (auto simp: absolute_hd)
      moreover have "trim (CHR ''/'' # q) = CHR ''/'' # q" using t q by simp
    then have "resolve_home (Some h) (CHR ''/'' # q) = CHR ''/'' # q" by (simp add: resolve_home_def starts_with_def)
    ultimately show ?thesis using Some by simp
    qed (simp add: resolve_home_def Some)
  qed
qed

section \<open>Facts about the checks\<close>

lemma is_path_writable_within:
  "moved_within (locate (join_path p WRITE_TEST)) (locate (join_path p WRITE_TEST)) f (snd (is_path_writable d p f))"
  (is "moved_within ?l ?l f _")
proof -
  have w: "moved_within ?l ?l f (snd (fs_write d (join_path p WRITE_TEST) s f))" for s f
    by (auto simp: fs_write_def write_at_def moved_within_def refused_def named_new_file locate_names
        split: option.split node.split)
  have "moved_within ?l ?l f (snd (fs_remove_file d (join_path p WRITE_TEST) f))" for f
    by (rule fs_remove_file_within) simp
  then show ?thesis
    using w [of f "''test''"] by (auto simp: is_path_writable_def Let_def ignore_def split: sum.split intro: moved_within_trans)
qed

lemma check_existing_valid:
  assumes "check_existing pl p f = (Inr c, g)" "lc_is_valid c" "''..'' \<notin> set (components p)"
  shows "is_dir_at p g \<and> lc_path c = p \<and> lc_exists c \<and> lc_writable c"
proof -
  have name: "is_name WRITE_TEST" by (simp add: is_name_def WRITE_TEST_def)
  have dir: "is_dir_at p f" using assms(1,2) by (auto simp: check_existing_def invalid_location_def split: if_splits)
  obtain w where w: "is_path_writable (pl_disk pl) p f = (Inr w, g)" "c = checked_location pl p True p w
      ''directory exists but is not writable (permission denied)''"
    using assms(1) dir by (cases "is_path_writable (pl_disk pl) p f"; cases "fst (is_path_writable (pl_disk pl) p f)")
      (auto simp: check_existing_def)
  have "\<not> path_starts_with (locate p) (locate (join_path p WRITE_TEST))"
    by (simp add: locate_join_name name path_starts_with_def)
  then have "is_dir_at p g"
    using is_path_writable_within [of p f "pl_disk pl"] w(1) dir by (simp add: moved_within_def is_dir_at_def)
  with w(2) assms(2) show ?thesis by (simp add: checked_location_def)
qed

lemma check_directory_created:
  assumes "check_directory pl p True f = (Inr c, g)" "lc_is_valid c"
  defines "q \<equiv> resolve_home (pl_home pl) p"
  shows "''..'' \<notin> set (components q) \<and> is_absolute (resolve_home (pl_home pl) q) \<and> is_dir_at q g \<and> lc_path c = q
    \<and> lc_exists c \<and> lc_writable c"
proof -
  obtain x where v: "validate_path_safety pl q None = Inr x"
    using assms by (cases "validate_path_safety pl q None") (auto simp: check_directory_def invalid_location_def)
  then have safe: "''..'' \<notin> set (components q)" "is_absolute (resolve_home (pl_home pl) q)"
    by (auto simp: validate_path_safety_def Let_def split: if_splits)
  have "\<exists>h. check_existing pl q h = (Inr c, g)"
    using assms v by (auto simp: check_directory_def Let_def invalid_location_def split: if_splits sum.splits prod.splits)
  with check_existing_valid [OF _ assms(2) safe(1)] safe show ?thesis by blast
qed

lemma set_setting_frame:
  "lb_fs (snd (set_setting g msg s)) = lb_fs s"
  "lb_shelves (snd (set_setting g msg s)) = lb_shelves s"
  "w_settings (lb_world (snd (set_setting g msg s))) = g (w_settings (lb_world s))"
  by (simp_all add: set_setting_def seq_def log_info_def)

lemma store_location_ok:
  assumes "store_location key p m s = (Inr (), t)"
  shows "lb_fs t = lb_fs s \<and> (case m of
         Some i \<Rightarrow> w_settings (lb_world t) = w_settings (lb_world s)
           \<and> lb_shelves t = update_rows (\<lambda>x. sl_mal_id x = i) (\<lambda>x. x\<lparr>sl_folder_path := Some p\<rparr>) (lb_shelves s)
       | None \<Rightarrow> lb_shelves t = lb_shelves s
           \<and> (if key \<in> {''download_dir'', ''download_folder''}
              then w_settings (lb_world t) = (w_settings (lb_world s))\<lparr>s_download_folder := p\<rparr>
              else key \<in> {''library_dir'', ''library_folder''}
                \<and> w_settings (lb_world t) = (w_settings (lb_world s))\<lparr>s_library_folder := p\<rparr>))"
proof (cases m)
  case None
  have "t = snd (store_location key p m s)" using assms by simp
  moreover have "store_location key p m s = (Inr (), t)" using assms .
  ultimately show ?thesis
    unfolding store_location_def Let_def None by (auto simp: set_setting_frame simp del: on_store_run split: if_splits)
next
  case (Some i)
  then show ?thesis using assms by (auto simp: store_location_def Let_def seq_def log_info_def)
qed

lemma set_location_ok:
  assumes "set_location pl key val m s = (Inr c, t)"
  shows "\<exists>g. check_directory pl (resolve_home (pl_home pl) val) True (lb_fs s) = (Inr c, g) \<and> lc_is_valid c
    \<and> store_location key (resolve_home (pl_home pl) val) m (s\<lparr>lb_fs := g\<rparr>) = (Inr (), t)"
proof -
  from assms obtain x u where a: "on_fs (check_directory pl (resolve_home (pl_home pl) val) True) s = (Inr x, u)"
    and b: "(if \<not> lc_is_valid x
      then throw (Other (''invalid location '' @ apostrophe @ val @ apostrophe @ '': ''
             @ (case lc_error x of Some e \<Rightarrow> e | None \<Rightarrow> ''validation failed'')))
      else seq (store_location key (resolve_home (pl_home pl) val) m) (\<lambda>_. ret x)) u = (Inr c, t)"
    unfolding set_location_def Let_def by (rule seq_ok_cases)
  from b have "lc_is_valid x" "seq (store_location key (resolve_home (pl_home pl) val) m) (\<lambda>_. ret x) u = (Inr c, t)"
    by (auto split: if_splits)
  moreover from this(2) have "store_location key (resolve_home (pl_home pl) val) m u = (Inr (), t) \<and> x = c"
    by (auto elim!: seq_ok_cases)
  ultimately show ?thesis using a by (cases "check_directory pl (resolve_home (pl_home pl) val) True (lb_fs s)") auto
qed

text \<open>
  Setting a location stores a usable folder and nothing else. When it returns Ok, the
  path is absolute, has no \<open>..\<close>, and is an existing, writable directory (it was created
  if need be); that same path is stored, for a show in the row of that show with no
  setting touched, otherwise in the one setting the key names with no show touched; a key
  that is none of the four names never returns Ok.
\<close>

theorem set_location_stores_directory:
  assumes "plain_home (pl_home pl)" "set_location pl key val m s = (Inr c, t)"
  defines "p \<equiv> resolve_home (pl_home pl) val"
  shows "is_absolute p \<and> ''..'' \<notin> set (components p) \<and> is_dir_at p (lb_fs t) \<and> lc_path c = p \<and> lc_exists c \<and> lc_writable c
    \<and> (case m of
         Some i \<Rightarrow> w_settings (lb_world t) = w_settings (lb_world s)
           \<and> lb_shelves t = update_rows (\<lambda>x. sl_mal_id x = i) (\<lambda>x. x\<lparr>sl_folder_path := Some p\<rparr>) (lb_shelves s)
       | None \<Rightarrow> lb_shelves t = lb_shelves s
           \<and> (if key \<in> {''download_dir'', ''download_folder''}
              then w_settings (lb_world t) = (w_settings (lb_world s))\<lparr>s_download_folder := p\<rparr>
              else key \<in> {''library_dir'', ''library_folder''}
                \<and> w_settings (lb_world t) = (w_settings (lb_world s))\<lparr>s_library_folder := p\<rparr>))"
proof -
  have idem: "resolve_home (pl_home pl) p = p" unfolding p_def by (rule resolve_home_idem [OF assms(1)])
  obtain g where c: "check_directory pl p True (lb_fs s) = (Inr c, g)" "lc_is_valid c"
    and run: "store_location key p m (s\<lparr>lb_fs := g\<rparr>) = (Inr (), t)"
    using set_location_ok [OF assms(2)] unfolding p_def by blast
  from store_location_ok [OF run] check_directory_created [OF c] idem show ?thesis by (cases m) (auto split: if_splits)
qed
lemma absolute_resolves: "tidy p \<Longrightarrow> is_absolute p \<Longrightarrow> resolve_home home p = p"
  by (auto simp: absolute_hd resolve_home_def trim_tidy starts_with_def split: option.split)

text \<open>
  The check for \<open>..\<close> can be passed, and with it the containment check.
  \<open>validate_path_safety\<close> looks for \<open>..\<close> in the path as given and then trims blanks off its
  end: for any allowed root \<open>p\<close> it accepts \<open>p/.. \<close> (with a blank behind) as inside \<open>p\<close>,
  and returns \<open>p/..\<close>, the folder above \<open>p\<close>.
\<close>

theorem validate_path_safety_escaped:
  assumes "is_absolute p" "tidy p" "''..'' \<notin> set (components p)" "p \<in> set roots"
  shows "validate_path_safety pl (p @ ''/.. '') (Some roots) = Inr (p @ ''/..'')
    \<and> locate (p @ ''/..'') = butlast (locate p)"
proof -
  obtain q where q: "p = CHR ''/'' # q" using assms(1) by (auto simp: absolute_hd)
  have dots: "components ''.. '' = [''.. '']" "components ''..'' = [''..'']" by (simp_all add: components_def)
  then have c: "components (p @ ''/.. '') = components p @ [''.. '']" "components (p @ ''/..'') = components p @ [''..'']"
    using components_append [of p "''.. ''"] components_append [of p "''..''"] by simp_all
  have "trim (p @ ''/.. '') = p @ ''/..''" by (simp add: q trim_def is_space_def)
  then have r: "resolve_home home (p @ ''/.. '') = p @ ''/..''" for home
    by (auto simp: resolve_home_def Let_def q starts_with_def split: option.split)
  have inside: "list_ex (\<lambda>root. let r = resolve_home (pl_home pl) root in
      is_absolute r \<and> path_starts_with (components (p @ ''/..'')) (components r)) roots"
    using assms by (auto simp: list_ex_iff absolute_resolves c path_starts_with_def intro!: bexI [of _ p])
  have "is_absolute (p @ ''/..'')" "trim (p @ ''/.. '') \<noteq> []" using q \<open>trim (p @ ''/.. '') = p @ ''/..''\<close>
    by (simp_all add: absolute_hd)
  then have "validate_path_safety pl (p @ ''/.. '') (Some roots) = Inr (p @ ''/..'')"
    using assms(3) inside by (simp add: validate_path_safety_def r c Let_def)
  moreover have "locate (p @ ''/..'') = butlast (locate p)" by (simp add: locate_def c climb_def)
  ultimately show ?thesis by simp
qed

text \<open>
  On a trimmed path the containment check does what it says. With a home folder and
  roots free of \<open>..\<close>, an accepted path is absolute and free of \<open>..\<close>, and the place it
  stands for lies below the place of one of the allowed roots.
\<close>

theorem validate_path_safety_contains:
  assumes "validate_path_safety pl path (Some roots) = Inr p" "tidy path"
    and "\<forall>h. pl_home pl = Some h \<longrightarrow> ''..'' \<notin> set (components h)"
    and "\<forall>r\<in>set roots. ''..'' \<notin> set (components (resolve_home (pl_home pl) r))"
  shows "is_absolute p \<and> ''..'' \<notin> set (components p)
    \<and> (\<exists>r\<in>set roots. path_starts_with (locate p) (locate (resolve_home (pl_home pl) r)))"
proof -
  have v: "''..'' \<notin> set (components path)" "p = resolve_home (pl_home pl) path" "is_absolute p"
    "\<exists>r\<in>set roots. path_starts_with (components p) (components (resolve_home (pl_home pl) r))"
    using assms(1) by (auto simp: validate_path_safety_def Let_def list_ex_iff split: if_splits)
  have "''..'' \<notin> set (components p)"
  proof -
    have tail: "''..'' \<notin> set (components r)" if p: "path = CHR ''~'' # CHR ''/'' # r" for r
      using v(1) components_append [of "''~''" r] by (simp add: p)
    have join: "''..'' \<notin> set (components (join_path h r))" if "pl_home pl = Some h" "path = CHR ''~'' # CHR ''/'' # r" for h r
    proof (cases "starts_with ''/'' r")
      case True
      then show ?thesis using tail [OF that(2)] by (simp add: join_path_def)
    next
      case False
      then show ?thesis using tail [OF that(2)] assms(3) that(1) by (simp add: components_join_path)
    qed
    show ?thesis
      using v(1,2) assms(3) join starts_with_two [of "CHR ''~''" "CHR ''/''" path] trim_tidy [OF assms(2)]
      by (auto simp: resolve_home_def Let_def split: option.splits if_splits)
  qed
  with v(3,4) assms(4) show ?thesis by (auto simp: locate_plain)
qed
section \<open>Witnesses\<close>

definition demo_place :: "disk \<Rightarrow> place" where
  "demo_place d =
     \<lparr> pl_home = Some ''/home'', pl_disk = d, pl_free = (\<lambda>_. Some 1), pl_device = (\<lambda>_. 1), pl_error_text = (\<lambda>_. ''refused''),
       pl_paths_text = (\<lambda>_. []) \<rparr>"

definition demo_folder :: library where
  "demo_folder = (demo_library [])\<lparr>lb_fs := \<lparr> fs_nodes = [([''a''], Dir)], fs_data = (\<lambda>_. []), fs_next = 0 \<rparr>\<rparr>"

lemma demo_folder_names: "is_name ''n''" "named (lb_fs demo_folder)"
  by (simp_all add: named_def is_name_def demo_folder_def)

theorem move_library_into_itself_witness:
  "case move_existing_library 1 (demo_place (\<lambda>c. c \<noteq> Call_mkdir [''a'', ''n'', ''n''])) ''/a'' (join_path ''/a'' ''n'') demo_folder of
     Some (Inr m, t) \<Rightarrow> mv_errors m \<noteq> [] | _ \<Rightarrow> False"
proof -
  let ?pl = "demo_place (\<lambda>c. c \<noteq> Call_mkdir [''a'', ''n'', ''n''])"
  have l: "locate ''/a'' = [''a'']" by (simp add: locate_def components_def climb_def)
  have n: "locate (join_path p ''n'') = locate p @ [''n'']" for p by (rule locate_join_name [OF demo_folder_names(1)])
  have f: "path_file_name (join_path p ''n'') = Some ''n''" for p by (rule path_file_name_join [OF demo_folder_names(1)])
  let ?g = "\<lparr> fs_nodes = [([''a''], Dir), ([''a'', ''n''], Dir)], fs_data = (\<lambda>_. []), fs_next = 0 \<rparr>"
  have "create_dir_all (pl_disk ?pl) (join_path ''/a'' ''n'') (lb_fs demo_folder) = (Inr (), ?g)"
    by (simp add: create_dir_all_def n l upt_rec demo_folder_def node_at_def put_node_def demo_place_def)
  moreover have "children (locate ''/a'') ?g = [''n'']" by (simp add: children_def l)
  moreover have "fst (create_dir_all (pl_disk ?pl) (join_path (join_path ''/a'' ''n'') ''n'') ?g) = Inl (Io ''refused'')"
    by (simp add: create_dir_all_def n l upt_rec node_at_def put_node_def demo_place_def refused_def)
  ultimately have "\<exists>m t. move_existing_library 1 ?pl ''/a'' (join_path ''/a'' ''n'') demo_folder = Some (Inr m, t)"
    by (auto simp: move_existing_library_def exists_at_def is_dir_at_def l n node_at_def demo_folder_def move_show_def f Let_def
        on_disk_of_def split: prod.split)
  then obtain m t where run: "move_existing_library 1 ?pl ''/a'' (join_path ''/a'' ''n'') demo_folder = Some (Inr m, t)" by blast
  from move_library_into_itself [OF demo_folder_names run] run show ?thesis by simp
qed


lemma writable_when_allowed:
  assumes "is_dir_at p f" "node_at (locate p @ [WRITE_TEST]) f = None" "\<And>c. d c"
  shows "\<exists>g. is_path_writable d p f = (Inr True, g)"
proof -
  have l: "locate (join_path p WRITE_TEST) = locate p @ [WRITE_TEST]"
    by (rule locate_join_name) (simp add: is_name_def WRITE_TEST_def)
  have "fs_write d (join_path p WRITE_TEST) ''test'' f = (Inr (), new_file (locate p @ [WRITE_TEST]) ''test'' f)"
    using assms by (simp add: fs_write_def write_at_def l parent_ready_def is_dir_at_def)
  then show ?thesis by (simp add: is_path_writable_def Let_def ignore_def)
qed

theorem set_location_stores_directory_witness:
  "case set_location (demo_place (\<lambda>_. True)) ''library_dir'' ''/new'' None demo_folder of
     (Inr c, t) \<Rightarrow> is_dir_at ''/new'' (lb_fs t) \<and> s_library_folder (w_settings (lb_world t)) = ''/new'' | _ \<Rightarrow> False"
proof -
  let ?pl = "demo_place (\<lambda>_. True)"
  have l: "locate ''/new'' = [''new'']" "components ''/new'' = [''new'']" by (simp_all add: locate_def components_def climb_def)
  have r: "resolve_home (pl_home ?pl) ''/new'' = ''/new''"
    by (rule absolute_resolves) (simp_all add: tidy_def is_space_def is_absolute_def starts_with_def)
  have name: "is_name WRITE_TEST" by (simp add: is_name_def WRITE_TEST_def)
  have "trim ''/new'' \<noteq> []" by (simp add: trim_def is_space_def)
  then have "validate_path_safety ?pl ''/new'' None = Inr ''/new''"
    by (simp add: validate_path_safety_def l r Let_def is_absolute_def starts_with_def del: components_slash)
  moreover have "\<exists>g. check_existing ?pl ''/new'' (put_node [''new''] Dir (lb_fs demo_folder)) =
      (Inr (checked_location ?pl ''/new'' True ''/new'' True ''directory exists but is not writable (permission denied)''), g)"
  proof -
    let ?f = "put_node [''new''] Dir (lb_fs demo_folder)"
    have "node_at (locate ''/new'' @ [WRITE_TEST]) ?f = None" by (simp add: l demo_folder_def node_at_def put_node_def)
    moreover have d: "is_dir_at ''/new'' ?f" by (simp add: is_dir_at_def l)
    ultimately obtain g where "is_path_writable (pl_disk ?pl) ''/new'' ?f = (Inr True, g)"
      using writable_when_allowed by (fastforce simp: demo_place_def)
    then show ?thesis using d by (simp add: check_existing_def)
  qed
  moreover have "create_dir_all (pl_disk ?pl) ''/new'' (lb_fs demo_folder) = (Inr (), put_node [''new''] Dir (lb_fs demo_folder))"
    by (simp add: create_dir_all_def l demo_place_def) (simp add: demo_folder_def node_at_def)
  moreover have "node_at [''new''] (lb_fs demo_folder) = None" by (simp add: demo_folder_def node_at_def)
  ultimately have "\<exists>g. check_directory ?pl ''/new'' True (lb_fs demo_folder) =
      (Inr (checked_location ?pl ''/new'' True ''/new'' True ''directory exists but is not writable (permission denied)''), g)"
    by (simp add: check_directory_def r Let_def exists_at_def l)
  then obtain c t where run: "set_location ?pl ''library_dir'' ''/new'' None demo_folder = (Inr c, t)"
    by (auto simp: set_location_def r Let_def seq_on_fs checked_location_def store_location_def set_setting_def seq_def)
  have "plain_home (pl_home ?pl)"
    by (simp add: plain_home_def demo_place_def is_absolute_def starts_with_def tidy_def is_space_def)
  from set_location_stores_directory [OF this run] run show ?thesis by (simp add: r)
qed

theorem validate_path_safety_escaped_witness:
  "validate_path_safety (demo_place (\<lambda>_. True)) ''/lib/.. '' (Some [''/lib'']) = Inr ''/lib/..'' \<and> locate ''/lib/..'' = []"
proof -
  have l: "components ''/lib'' = [''lib'']" by (simp add: components_def)
  have "is_absolute ''/lib''" "tidy ''/lib''" by (simp_all add: is_absolute_def starts_with_def tidy_def is_space_def)
  from validate_path_safety_escaped [OF this, of "[''/lib'']" "demo_place (\<lambda>_. True)"] show ?thesis
    using l by (simp add: locate_def climb_def del: components_slash)
qed

theorem validate_path_safety_contains_witness:
  "case validate_path_safety (demo_place (\<lambda>_. True)) ''/lib/a'' (Some [''/lib'']) of
     Inr p \<Rightarrow> path_starts_with (locate p) [''lib''] | Inl _ \<Rightarrow> False"
proof -
  let ?pl = "demo_place (\<lambda>_. True)"
  have l: "components ''/lib'' = [''lib'']" "components ''/lib/a'' = [''lib'', ''a'']" "components ''/home'' = [''home'']"
    by (simp_all add: components_def)
  have t: "tidy ''/lib''" "tidy ''/lib/a''" "is_absolute ''/lib''" "is_absolute ''/lib/a''"
    by (simp_all add: is_absolute_def starts_with_def tidy_def is_space_def)
  have r: "resolve_home h ''/lib'' = ''/lib''" "resolve_home h ''/lib/a'' = ''/lib/a''" for h
    using t absolute_resolves by blast+
  have run: "validate_path_safety ?pl ''/lib/a'' (Some [''/lib'']) = Inr ''/lib/a''"
    by (simp add: validate_path_safety_def Let_def r l t trim_tidy path_starts_with_def del: components_slash)
  have "\<forall>h. pl_home ?pl = Some h \<longrightarrow> ''..'' \<notin> set (components h)"
    "\<forall>x\<in>set [''/lib'']. ''..'' \<notin> set (components (resolve_home (pl_home ?pl) x))"
    by (simp_all add: demo_place_def l r del: components_slash)
  from validate_path_safety_contains [OF run t(2) this] run show ?thesis
    by (simp add: r locate_def l climb_def del: components_slash)
qed

end
