(* ===== verification/Chains.thy ===== *)
theory Chains
  imports Planner
begin

text \<open>
  \<open>mal/models.rs\<close>: a row of the user's list as MyAnimeList reports it, and the season chains
  made of the sequel and prequel links between the rows. Hash sets are lists; the order in
  which a hash set is walked is that of a hash key, chosen freely for every set
  (\<open>hashing\<close>).
\<close>

named_theorems chains_simps \<open>unfolding rules of the chains\<close>

section \<open>What MyAnimeList reports\<close>

record alt_titles =
  at_synonyms :: "string list"
  at_en :: "string option"
  at_ja :: "string option"

record mal_node =
  no_id :: int
  no_title :: "string option"
  no_main_title :: "string option"
  no_alternative_titles :: "alt_titles option"
  no_num_episodes :: "int option"
  no_start_season :: "int option option"
  no_media_type :: "string option"
  no_status :: "string option"
  no_main_picture :: "(string option \<times> string option) option"
  no_synopsis :: "string option"

record relation =
  rl_node :: mal_node
  rl_relation_type :: string

record raw_list_status =
  rs_status :: string
  rs_score :: "int option"
  rs_num_episodes_watched :: "int option"
  rs_updated_at :: "string option"

record list_item =
  li_node :: mal_node
  li_list_status :: raw_list_status

record mal_entry =
  me_entry :: list_entry
  me_score :: "int option"
  me_updated_at :: "string option"
  me_media_type :: "string option"
  me_airing_status :: "string option"
  me_source :: string
  me_poster_url :: "string option"
  me_synopsis :: "string option"

abbreviation mal_id :: "mal_entry \<Rightarrow> int" where
  "mal_id m \<equiv> le_mal_id (me_entry m)"

definition nonempty :: "string option \<Rightarrow> string option" where
  "nonempty s = Option.bind s (\<lambda>t. if t = [] then None else Some t)"

definition somes :: "'a option list \<Rightarrow> 'a list" where
  "somes xs = map the (filter (\<lambda>x. x \<noteq> None) xs)"

definition positive :: "int option \<Rightarrow> int option" where
  "positive n = Option.bind n (\<lambda>k. if 0 < k then Some k else None)"

definition add_name :: "string \<Rightarrow> string list \<Rightarrow> string list" where
  "add_name n ns =
     (let t = trim n in if t \<noteq> [] \<and> \<not> list_ex (\<lambda>x. eq_ignore_case x t) ns then ns @ [t] else ns)"

definition number_title :: "int \<Rightarrow> string" where
  "number_title i = ''MAL #'' @ show_int i"

definition to_mal_entry :: "list_item \<Rightarrow> mal_entry" where
  "to_mal_entry item =
     (let node = li_node item; ls = li_list_status item;
          alt = (case no_alternative_titles node of
                   Some a \<Rightarrow> a | None \<Rightarrow> \<lparr> at_synonyms = [], at_en = None, at_ja = None \<rparr>);
          title = (case coalesce (nonempty (no_title node)) (nonempty (no_main_title node)) of
                     Some t \<Rightarrow> t | None \<Rightarrow> number_title (no_id node));
          candidates = somes [Some title, no_main_title node, at_en alt, at_ja alt] @ at_synonyms alt;
          status = ListStatus_parse (rs_status ls)
      in \<lparr> me_entry =
             \<lparr> le_mal_id = no_id node, le_title = title, le_english_title = nonempty (at_en alt),
               le_list_status = status,
               le_watched_count = max 0 (case rs_num_episodes_watched ls of Some n \<Rightarrow> n | None \<Rightarrow> 0),
               le_total_episodes = positive (no_num_episodes node),
               le_start_year = Option.bind (no_start_season node) (\<lambda>y. y),
               le_auto = (status = Watching), le_episode_offset = 0, le_names = fold add_name candidates [],
               le_franchise = no_id node, le_season = 1 \<rparr>,
           me_score = rs_score ls, me_updated_at = rs_updated_at ls, me_media_type = no_media_type node,
           me_airing_status = no_status node, me_source = ''mal'',
           me_poster_url = Option.bind (no_main_picture node) (\<lambda>(medium, large). coalesce large medium),
           me_synopsis = no_synopsis node \<rparr>)"

definition show_type_text :: "string option \<Rightarrow> string" where
  "show_type_text kind =
     (if kind = Some ''movie'' then ''movie''
      else if kind = Some ''ova'' then ''ova''
      else if kind = Some ''ona'' \<or> kind = Some ''music'' then ''ona''
      else if kind = Some ''special'' \<or> kind = Some ''tv_special'' then ''special''
      else ''tv'')"

definition airing_text :: "string option \<Rightarrow> string option" where
  "airing_text s =
     (if s = Some ''currently_airing'' then Some ''airing''
      else if s = Some ''finished_airing'' then Some ''finished''
      else if s = Some ''not_yet_aired'' then Some ''not_yet_aired''
      else None)"

section \<open>The links\<close>

type_synonym hashing = "int list \<Rightarrow> int \<Rightarrow> nat"

definition hash_walk :: "hashing \<Rightarrow> int list \<Rightarrow> int list" where
  "hash_walk h xs = sort_key (h xs) (remdups xs)"

type_synonym relations = "int \<Rightarrow> relation list option"

text \<open>One relation of \<open>from\<close>: the season before and the season after, when both are on the list.\<close>

definition link_of :: "int list \<Rightarrow> int \<Rightarrow> relation \<Rightarrow> (int \<times> int) list" where
  "link_of ids from_id r =
     (let to_id = no_id (rl_node r) in
      if to_id \<notin> set ids \<or> to_id = from_id then []
      else if rl_relation_type r = ''sequel'' then [(from_id, to_id)]
      else if rl_relation_type r = ''prequel'' then [(to_id, from_id)]
      else [])"

text \<open>\<open>precedes\<close>: the pairs (before, after). The hash map of the relations is walked in the order of the list.\<close>

definition precedes :: "int list \<Rightarrow> relations \<Rightarrow> (int \<times> int) list" where
  "precedes ids rels =
     concat (map (\<lambda>f. concat (map (link_of ids f) (case rels f of Some rs \<Rightarrow> rs | None \<Rightarrow> []))) (remdups ids))"

definition linked_to :: "(int \<times> int) list \<Rightarrow> int \<Rightarrow> int list" where
  "linked_to es x = map snd (filter (\<lambda>e. fst e = x) es) @ map fst (filter (\<lambda>e. snd e = x) es)"

section \<open>Components\<close>

text \<open>\<open>seen.insert(next)\<close> and the push on the stack, whose top is the head of the list.\<close>

fun push_new :: "int list \<Rightarrow> int list \<times> int list \<Rightarrow> int list \<times> int list" where
  "push_new [] s = s"
| "push_new (n # ns) (stack, seen) =
     (if n \<in> set seen then push_new ns (stack, seen) else push_new ns (n # stack, n # seen))"

definition unseen :: "(int \<times> int) list \<Rightarrow> int list \<Rightarrow> nat" where
  "unseen es seen = card ((fst ` set es \<union> snd ` set es) - set seen)"

lemma card_Diff_new: "finite V \<Longrightarrow> n \<in> V \<Longrightarrow> n \<notin> S \<Longrightarrow> card (V - S) = Suc (card (V - insert n S))"
  by (metis Diff_insert DiffI card_Suc_Diff1 finite_Diff)

lemma push_new_measure:
  "push_new ns (stack, seen) = (st, sn) \<Longrightarrow> set ns \<subseteq> fst ` set es \<union> snd ` set es \<Longrightarrow>
   2 * unseen es sn + length st \<le> 2 * unseen es seen + length stack"
proof (induction ns arbitrary: stack seen)
  case (Cons n ns)
  show ?case
  proof (cases "n \<in> set seen")
    case False
    let ?V = "fst ` set es \<union> snd ` set es"
    have "n \<in> ?V" using Cons.prems(2) by simp
    then have "unseen es seen = Suc (unseen es (n # seen))"
      unfolding unseen_def using False by (simp only: list.set) (rule card_Diff_new, simp_all)
    with Cons.IH [of "n # stack" "n # seen"] Cons.prems False show ?thesis by simp
  qed (use Cons in simp)
qed simp

lemma linked_to_nodes: "set (linked_to es x) \<subseteq> fst ` set es \<union> snd ` set es"
  by (auto simp: linked_to_def)

lemma set_hash_walk [simp]: "set (hash_walk h xs) = set xs"
  by (simp add: hash_walk_def)

lemma component_turn:
  "(st, sn) = push_new (hash_walk h (linked_to es x)) (stack, seen) \<Longrightarrow>
   2 * unseen es sn + length st < Suc (2 * unseen es seen + length stack)"
  using push_new_measure [of "hash_walk h (linked_to es x)" stack seen st sn es] linked_to_nodes [of es x] by simp

function component_of ::
  "hashing \<Rightarrow> (int \<times> int) list \<Rightarrow> int list \<Rightarrow> int list \<Rightarrow> int list \<Rightarrow> int list \<times> int list" where
  "component_of h es [] seen found = (found, seen)"
| "component_of h es (x # stack) seen found =
     (case push_new (hash_walk h (linked_to es x)) (stack, seen) of
        (stack', seen') \<Rightarrow> component_of h es stack' seen' (found @ [x]))"
  by pat_completeness auto
termination
  by (relation "measure (\<lambda>(h, es, stack, seen, found). 2 * unseen es seen + length stack)")
    (auto dest: component_turn)

fun components_loop :: "hashing \<Rightarrow> (int \<times> int) list \<Rightarrow> int list \<Rightarrow> int list \<Rightarrow> int list list" where
  "components_loop h es [] seen = []"
| "components_loop h es (i # ids) seen =
     (if i \<in> set seen then components_loop h es ids seen
      else case component_of h es [i] (i # seen) [] of
        (found, seen') \<Rightarrow> sort found # components_loop h es ids seen')"

section \<open>The order of a component\<close>

definition has_predecessor :: "(int \<times> int) list \<Rightarrow> int list \<Rightarrow> int \<Rightarrow> bool" where
  "has_predecessor es remaining i \<longleftrightarrow> list_ex (\<lambda>(p, s). s = i \<and> p \<in> set remaining) es"

definition next_pick :: "hashing \<Rightarrow> (int \<times> int) list \<Rightarrow> int list \<Rightarrow> int" where
  "next_pick h es remaining =
     (case List.find (\<lambda>i. \<not> has_predecessor es remaining i) (hash_walk h remaining) of
        Some i \<Rightarrow> i
      | None \<Rightarrow> Min (set remaining))"

lemma next_pick_in: "remaining \<noteq> [] \<Longrightarrow> next_pick h es remaining \<in> set remaining"
proof (cases "List.find (\<lambda>i. \<not> has_predecessor es remaining i) (hash_walk h remaining)")
  case None
  assume "remaining \<noteq> []"
  then show ?thesis using None by (simp add: next_pick_def)
next
  case (Some i)
  then have "i \<in> set (hash_walk h remaining)" by (metis find_Some_iff nth_mem)
  then show ?thesis using Some by (simp add: next_pick_def)
qed

function order_component :: "hashing \<Rightarrow> (int \<times> int) list \<Rightarrow> int list \<Rightarrow> int list" where
  "order_component h es remaining =
     (if remaining = [] then []
      else let i = next_pick h es remaining in i # order_component h es (filter (\<lambda>x. x \<noteq> i) remaining))"
  by pat_completeness auto
termination
proof (relation "measure (\<lambda>(h, es, remaining). length remaining)")
  fix h es remaining i
  assume "remaining \<noteq> []" "i = next_pick h es remaining"
  then have "i \<in> set remaining" using next_pick_in by blast
  then show "((h, es, filter (\<lambda>x. x \<noteq> i) remaining), (h, es, remaining)) \<in> measure (\<lambda>(h, es, remaining). length remaining)"
    by (auto simp: length_filter_less)
qed simp

declare order_component.simps [simp del]

section \<open>The chains\<close>

text \<open>The index of the entries: of two entries with one id the later counts.\<close>

definition index_of :: "mal_entry list \<Rightarrow> int \<Rightarrow> nat option" where
  "index_of entries i = map_of (rev (zip (map mal_id entries) [0..<length entries])) i"

definition place_entry :: "matcher \<Rightarrow> int \<Rightarrow> nat \<Rightarrow> int option \<Rightarrow> mal_entry \<Rightarrow> mal_entry" where
  "place_entry rx franchise pos offset m =
     m\<lparr>me_entry := (me_entry m)
       \<lparr>le_franchise := franchise,
        le_season := (case extract_season_from_title rx (le_title (me_entry m)) of
                        Some n \<Rightarrow> n | None \<Rightarrow> int pos + 1),
        le_episode_offset := (case offset of Some o' \<Rightarrow> o' | None \<Rightarrow> 0)\<rparr>\<rparr>"

fun place_all ::
  "matcher \<Rightarrow> int \<Rightarrow> nat \<Rightarrow> int option \<Rightarrow> int list \<Rightarrow> mal_entry list \<Rightarrow> mal_entry list" where
  "place_all rx franchise pos offset [] entries = entries"
| "place_all rx franchise pos offset (i # ids) entries =
     (case index_of entries i of
        None \<Rightarrow> place_all rx franchise (pos + 1) offset ids entries
      | Some k \<Rightarrow>
          (let total = le_total_episodes (me_entry (entries ! k)) in
           place_all rx franchise (pos + 1) (Option.bind offset (\<lambda>x. map_option (\<lambda>t. wrap_int (x + t)) total)) ids
             (entries[k := place_entry rx franchise pos offset (entries ! k)])))"

definition place_component ::
  "matcher \<Rightarrow> hashing \<Rightarrow> (int \<times> int) list \<Rightarrow> int list \<Rightarrow> mal_entry list \<Rightarrow> mal_entry list" where
  "place_component rx h es found entries =
     place_all rx (case found of [] \<Rightarrow> 0 | f # _ \<Rightarrow> f) 0 (Some 0) (order_component h es found) entries"

definition build_chains :: "matcher \<Rightarrow> hashing \<Rightarrow> relations \<Rightarrow> mal_entry list \<Rightarrow> mal_entry list" where
  "build_chains rx h rels entries =
     (let ids = map mal_id entries; es = precedes ids rels in
      fold (place_component rx h es) (components_loop h es (hash_walk h ids) []) entries)"

section \<open>Components are connected classes\<close>

definition linked :: "(int \<times> int) list \<Rightarrow> (int \<times> int) set" where
  "linked es = {(x, y). (x, y) \<in> set es \<or> (y, x) \<in> set es}"

definition class_of :: "(int \<times> int) list \<Rightarrow> int \<Rightarrow> int set" where
  "class_of es i = (linked es)\<^sup>* `` {i}"

definition closed_under :: "(int \<times> int) list \<Rightarrow> int set \<Rightarrow> bool" where
  "closed_under es S \<longleftrightarrow> (\<forall>x\<in>S. \<forall>y. (x, y) \<in> linked es \<longrightarrow> y \<in> S)"

lemma set_linked_to: "set (linked_to es x) = {y. (x, y) \<in> linked es}"
  by (force simp: linked_to_def linked_def)

lemma linked_sym: "(x, y) \<in> linked es \<Longrightarrow> (y, x) \<in> linked es"
  by (auto simp: linked_def)

lemma push_new_spec:
  "push_new ns (stack, seen) = (st, sn) \<Longrightarrow>
   \<exists>new. st = new @ stack \<and> set new = set ns - set seen \<and> distinct new \<and> set sn = set seen \<union> set ns"
proof (induction ns arbitrary: stack seen)
  case (Cons n ns)
  show ?case
  proof (cases "n \<in> set seen")
    case True
    then show ?thesis using Cons.IH [of stack seen] Cons.prems by (auto simp: insert_absorb)
  next
    case False
    then obtain new where "st = new @ n # stack" "set new = set ns - set (n # seen)" "distinct new"
      "set sn = set (n # seen) \<union> set ns"
      using Cons.IH [of "n # stack" "n # seen"] Cons.prems by auto
    then show ?thesis using False by (intro exI [of _ "new @ [n]"]) auto
  qed
qed simp

text \<open>\<open>S\<close> is what was seen before the search began.\<close>

lemma component_of_spec:
  assumes "component_of h es stack seen found = (c, sn)"
    and "set seen = S \<union> (set stack \<union> set found)" "S \<inter> (set stack \<union> set found) = {}" "distinct (stack @ found)"
    and "\<forall>x\<in>set found. \<forall>y. (x, y) \<in> linked es \<longrightarrow> y \<in> set seen"
  shows "set sn = S \<union> set c \<and> S \<inter> set c = {} \<and> distinct c \<and> set stack \<union> set found \<subseteq> set c
    \<and> (\<forall>x\<in>set c. \<forall>y. (x, y) \<in> linked es \<longrightarrow> y \<in> set sn)
    \<and> (\<forall>x\<in>set c. \<exists>r\<in>set stack \<union> set found. (r, x) \<in> (linked es)\<^sup>*)"
  using assms
proof (induction h es stack seen found rule: component_of.induct)
  case (2 h es x stack seen found)
  obtain st sn' where push: "push_new (hash_walk h (linked_to es x)) (stack, seen) = (st, sn')" by (cases "push_new (hash_walk h (linked_to es x)) (stack, seen)")
  then obtain new where new: "st = new @ stack" "set new = set (linked_to es x) - set seen" "distinct new"
    "set sn' = set seen \<union> set (linked_to es x)"
    using push_new_spec [OF push] by auto
  have run: "component_of h es st sn' (found @ [x]) = (c, sn)" using "2.prems"(1) push by simp
  have a: "set sn' = S \<union> (set st \<union> set (found @ [x]))" "S \<inter> (set st \<union> set (found @ [x])) = {}" "distinct (st @ found @ [x])"
    using new "2.prems"(2-4) by auto
  have b: "\<forall>z\<in>set (found @ [x]). \<forall>y. (z, y) \<in> linked es \<longrightarrow> y \<in> set sn'"
    using new(4) "2.prems"(5) by (auto simp: set_linked_to)
  note ih = "2.IH" [OF push [symmetric] run a b]
  have "\<exists>r\<in>set (x # stack) \<union> set found. (r, y) \<in> (linked es)\<^sup>*" if "y \<in> set c" for y
  proof -
    from bspec [OF ih [THEN conjunct2, THEN conjunct2, THEN conjunct2, THEN conjunct2, THEN conjunct2] that]
    obtain r where r: "r \<in> set st \<union> set (found @ [x])" "(r, y) \<in> (linked es)\<^sup>*" by blast
    show ?thesis
    proof (cases "r \<in> set new")
      case True
      then have "(x, r) \<in> linked es" using new(2) by (simp add: set_linked_to)
      then show ?thesis using r(2) by (meson UnI1 converse_rtrancl_into_rtrancl list.set_intros(1))
    next
      case False
      then have "r \<in> set (x # stack) \<union> set found" using r(1) new(1) by auto
      then show ?thesis using r(2) by blast
    qed
  qed
  moreover have "set (x # stack) \<union> set found \<subseteq> set c"
  proof -
    have "set st \<union> set (found @ [x]) \<subseteq> set c" using ih by blast
    then show ?thesis using new(1) by simp
  qed
  ultimately show ?case using ih by blast
qed auto

lemma component_class:
  assumes "component_of h es [i] (i # seen) [] = (c, sn)" "closed_under es (set seen)" "i \<notin> set seen"
  shows "set c = class_of es i \<and> distinct c \<and> set sn = set seen \<union> set c \<and> closed_under es (set sn) \<and> set c \<inter> set seen = {}"
proof -
  have spec: "set sn = set seen \<union> set c \<and> set seen \<inter> set c = {} \<and> distinct c \<and> {i} \<subseteq> set c
    \<and> (\<forall>x\<in>set c. \<forall>y. (x, y) \<in> linked es \<longrightarrow> y \<in> set sn) \<and> (\<forall>x\<in>set c. (i, x) \<in> (linked es)\<^sup>*)"
    using component_of_spec [OF assms(1), of "set seen"] assms(3) by auto
  have closed: "y \<in> set c" if "x \<in> set c" "(x, y) \<in> linked es" for x y
  proof (rule ccontr)
    assume "y \<notin> set c"
    then have "y \<in> set seen" using spec that by blast
    then have "x \<in> set seen" using assms(2) linked_sym [OF that(2)] by (auto simp: closed_under_def)
    then show False using spec that(1) by blast
  qed
  have "(i, x) \<in> (linked es)\<^sup>* \<Longrightarrow> x \<in> set c" for x
    by (induction rule: rtrancl_induct) (use spec closed in auto)
  then have "set c = class_of es i" using spec by (auto simp: class_of_def)
  moreover have "closed_under es (set sn)" using spec assms(2) by (auto simp: closed_under_def)
  ultimately show ?thesis using spec by blast
qed

lemma components_loop_spec:
  assumes "closed_under es (set seen)"
  shows "(\<forall>c\<in>set (components_loop h es ids seen). \<exists>i\<in>set ids. set c = class_of es i \<and> distinct c \<and> sorted c \<and> set c \<inter> set seen = {})
    \<and> sorted_wrt (\<lambda>a b. set a \<inter> set b = {}) (components_loop h es ids seen)
    \<and> set ids \<subseteq> set seen \<union> \<Union> (set ` set (components_loop h es ids seen))"
  using assms
proof (induction ids arbitrary: seen)
  case (Cons i ids)
  show ?case
  proof (cases "i \<in> set seen")
    case True
    then show ?thesis using Cons.IH [OF Cons.prems] by auto
  next
    case False
    obtain c sn where run: "component_of h es [i] (i # seen) [] = (c, sn)" by (cases "component_of h es [i] (i # seen) []")
    note spec = component_class [OF run Cons.prems False]
    then have cl: "closed_under es (set sn)" by blast
    have "i \<in> class_of es i" by (simp add: class_of_def)
    with Cons.IH [OF cl] spec False run show ?thesis by (auto simp: Int_Un_distrib)
  qed
qed simp

lemma class_sym: "x \<in> class_of es y \<longleftrightarrow> class_of es x = class_of es y"
proof -
  have "sym ((linked es)\<^sup>*)" by (rule sym_rtrancl) (auto intro: symI linked_sym)
  then show ?thesis by (auto simp: class_of_def dest: symD intro: rtrancl_trans)
qed

section \<open>The order respects the links\<close>

lemma order_component_set: "set (order_component h es r) = set r \<and> distinct (order_component h es r)"
proof (induction h es r rule: order_component.induct)
  case (1 h es r)
  show ?case
  proof (cases "r = []")
    case False
    then have "next_pick h es r \<in> set r" by (rule next_pick_in)
    with 1 [OF False refl] False show ?thesis by (subst (1 2) order_component.simps) (auto simp: Let_def)
  qed (simp add: order_component.simps)
qed

lemma ready_exists:
  assumes "acyclic (set es)" "r \<noteq> []"
  shows "\<not> has_predecessor es r (next_pick h es r)"
proof -
  have "wf (set es)" using assms(1) by (simp add: finite_acyclic_wf)
  then obtain z where z: "z \<in> set r" "\<And>y. (y, z) \<in> set es \<Longrightarrow> y \<notin> set r"
    using assms(2) by (metis list.set_intros(1) list.exhaust wfE_min)
  then have "\<not> has_predecessor es r z" by (auto simp: has_predecessor_def list_ex_iff)
  then obtain i where i: "List.find (\<lambda>i. \<not> has_predecessor es r i) (hash_walk h r) = Some i"
    using z(1) by (cases "List.find (\<lambda>i. \<not> has_predecessor es r i) (hash_walk h r)") (auto simp: find_None_iff)
  then have "\<not> has_predecessor es r i" by (auto simp: find_Some_iff)
  then show ?thesis by (simp add: next_pick_def i)
qed

lemma order_component_sorted:
  "acyclic (set es) \<Longrightarrow> sorted_wrt (\<lambda>a b. (b, a) \<notin> set es) (order_component h es r)"
proof (induction h es r rule: order_component.induct)
  case (1 h es r)
  show ?case
  proof (cases "r = []")
    case False
    let ?i = "next_pick h es r"
    have "(b, ?i) \<notin> set es" if "b \<in> set r" for b
      using ready_exists [OF "1.prems" False, of h] that by (auto simp: has_predecessor_def list_ex_iff)
    then show ?thesis
      using 1(1) [OF False refl "1.prems"] False order_component_set [of h es "filter (\<lambda>x. x \<noteq> ?i) r"]
      by (subst order_component.simps) (auto simp: Let_def)
  qed (simp add: order_component.simps)
qed
section \<open>What is written into the entries\<close>

definition distinct_ids :: "mal_entry list \<Rightarrow> bool" where
  "distinct_ids entries \<longleftrightarrow> distinct (map mal_id entries)"

lemma index_of_distinct:
  assumes "distinct_ids entries" "k < length entries"
  shows "index_of entries (mal_id (entries ! k)) = Some k"
proof -
  have "distinct (map fst (rev (zip (map mal_id entries) [0..<length entries])))"
    using assms(1) by (simp add: distinct_ids_def rev_map [symmetric])
  moreover have "(mal_id (entries ! k), k) \<in> set (rev (zip (map mal_id entries) [0..<length entries]))"
    using assms(2) by (auto simp: in_set_zip intro!: exI [of _ k])
  ultimately show ?thesis by (simp add: index_of_def)
qed

lemma index_of_bound: "index_of entries i = Some k \<Longrightarrow> k < length entries \<and> mal_id (entries ! k) = i"
  unfolding index_of_def by (auto simp: in_set_zip dest!: map_of_SomeD)

lemma place_entry_id [simp]: "mal_id (place_entry rx f pos off m) = mal_id m"
  by (simp add: place_entry_def)

text \<open>A column that the placing of one entry keeps is kept by every later stage.\<close>

definition placing_keeps :: "(mal_entry \<Rightarrow> 'b) \<Rightarrow> bool" where
  "placing_keeps g \<longleftrightarrow> (\<forall>rx f pos off m. g (place_entry rx f pos off m) = g m)"

lemma placed_keeps:
  "placing_keeps g \<Longrightarrow> map g (entries[k := place_entry rx f pos off (entries ! k)]) = map g entries"
  by (cases "k < length entries")
    (simp_all add: placing_keeps_def map_update list_update_same_conv not_less list_update_beyond)

lemma place_all_keeps: "placing_keeps g \<Longrightarrow> map g (place_all rx f pos off ids entries) = map g entries"
  by (induction rx f pos off ids entries rule: place_all.induct) (auto simp: placed_keeps Let_def split: option.split)

lemma place_components_keep: "placing_keeps g \<Longrightarrow> map g (fold (place_component rx h es) cs entries) = map g entries"
  by (induction cs arbitrary: entries) (simp_all add: place_component_def place_all_keeps)

lemma build_chains_keeps: "placing_keeps g \<Longrightarrow> map g (build_chains rx h rels entries) = map g entries"
  by (simp add: build_chains_def Let_def place_components_keep)

lemma placing_keeps_id: "placing_keeps mal_id"
  by (simp add: placing_keeps_def)

lemmas placed_ids = placed_keeps [OF placing_keeps_id]

lemmas place_all_ids = place_all_keeps [OF placing_keeps_id]

lemma place_all_length [simp]: "length (place_all rx f pos off ids entries) = length entries"
  using arg_cong [OF place_all_ids, of length] by simp

text \<open>The entry at position \<open>j\<close> of the order is placed once, at that position; the others are left alone.\<close>

lemma place_all_other:
  "k < length entries \<Longrightarrow> mal_id (entries ! k) \<notin> set ids \<Longrightarrow> place_all rx f pos off ids entries ! k = entries ! k"
proof (induction ids arbitrary: pos off entries)
  case (Cons i ids)
  show ?case
  proof (cases "index_of entries i")
    case (Some l)
    then have "l \<noteq> k" using index_of_bound [OF Some] Cons.prems(2) by auto
    then show ?thesis
      using Cons.IH [of "entries[l := place_entry rx f pos off (entries ! l)]"] Cons.prems Some by (simp add: Let_def)
  qed (use Cons in simp)
qed simp

lemma place_all_at:
  "distinct_ids entries \<Longrightarrow> distinct ids \<Longrightarrow> k < length entries \<Longrightarrow> j < length ids \<Longrightarrow> ids ! j = mal_id (entries ! k) \<Longrightarrow>
   \<exists>o'. place_all rx f pos off ids entries ! k = place_entry rx f (pos + j) o' (entries ! k)"
proof (induction ids arbitrary: pos off entries j)
  case (Cons i ids)
  show ?case
  proof (cases j)
    case 0
    then have i: "i = mal_id (entries ! k)" using Cons.prems(5) by simp
    let ?es = "entries[k := place_entry rx f pos off (entries ! k)]"
    have "mal_id (?es ! k) \<notin> set ids" using Cons.prems(2,3) i by simp
    then have "place_all rx f p o' ids ?es ! k = ?es ! k" for p o'
      using Cons.prems(3) by (intro place_all_other) simp_all
    then show ?thesis
      using index_of_distinct [OF Cons.prems(1,3)] Cons.prems(3) i 0 by (auto simp: Let_def)
  next
    case (Suc j')
    then have j: "j' < length ids" "ids ! j' = mal_id (entries ! k)" using Cons.prems(4,5) by auto
    then have ne: "i \<noteq> mal_id (entries ! k)" using Cons.prems(2) by (metis distinct.simps(2) nth_mem)
    have ih: "\<exists>o'. place_all rx f (pos + 1) off' ids es ! k = place_entry rx f (pos + 1 + j') o' (entries ! k)"
      if "distinct_ids es" "length es = length entries" "es ! k = entries ! k" for off' es
      using Cons.IH [of es j' "pos + 1" off'] Cons.prems(2,3) that j by simp
    show ?thesis
    proof (cases "index_of entries i")
      case None
      then show ?thesis using ih [of entries off] Cons.prems(1) Suc by simp
    next
      case (Some l)
      then have "l \<noteq> k" using index_of_bound [OF Some] ne by auto
      then show ?thesis
        using ih [of "entries[l := place_entry rx f pos off (entries ! l)]"] Cons.prems(1) Some Suc
        by (simp add: Let_def distinct_ids_def placed_ids)
    qed
  qed
qed simp

text \<open>The fold over the components.\<close>

lemmas place_components_ids = place_components_keep [OF placing_keeps_id]

lemma place_components_length [simp]: "length (fold (place_component rx h es) cs entries) = length entries"
  using arg_cong [OF place_components_ids, of length] by simp

lemma place_components_other:
  "k < length entries \<Longrightarrow> \<forall>c\<in>set cs. mal_id (entries ! k) \<notin> set c \<Longrightarrow>
   fold (place_component rx h es) cs entries ! k = entries ! k"
proof (induction cs arbitrary: entries)
  case (Cons c cs)
  have "place_component rx h es c entries ! k = entries ! k"
    unfolding place_component_def using Cons.prems order_component_set [of h es c] by (intro place_all_other) auto
  with Cons show ?case by (simp add: place_component_def)
qed simp

lemma place_components_at:
  assumes "distinct_ids entries" "k < length entries" "c \<in> set cs" "mal_id (entries ! k) \<in> set c"
    and "sorted_wrt (\<lambda>a b. set a \<inter> set b = {}) cs"
  shows "\<exists>j o'. j < length (order_component h es c) \<and> order_component h es c ! j = mal_id (entries ! k)
    \<and> fold (place_component rx h es) cs entries ! k = place_entry rx (case c of [] \<Rightarrow> 0 | f # _ \<Rightarrow> f) j o' (entries ! k)"
  using assms
proof (induction cs arbitrary: entries)
  case (Cons d cs)
  show ?case
  proof (cases "mal_id (entries ! k) \<in> set d")
    case True
    then have "c = d" using Cons.prems(3-5) by auto
    obtain j where j: "j < length (order_component h es d)" "order_component h es d ! j = mal_id (entries ! k)"
      using True order_component_set [of h es d] by (metis in_set_conv_nth)
    then obtain o' where o': "place_component rx h es d entries ! k = place_entry rx (case d of [] \<Rightarrow> 0 | f # _ \<Rightarrow> f) j o' (entries ! k)"
      unfolding place_component_def
      using place_all_at [OF Cons.prems(1) _ Cons.prems(2) j, of rx "case d of [] \<Rightarrow> 0 | f # _ \<Rightarrow> f" 0 "Some 0"] order_component_set by auto
    have "fold (place_component rx h es) cs (place_component rx h es d entries) ! k = place_component rx h es d entries ! k"
      by (rule place_components_other) (use Cons.prems(2,5) True o' in \<open>auto simp: place_component_def\<close>)
    then show ?thesis using j o' \<open>c = d\<close> by auto
  next
    case False
    then have same: "place_component rx h es d entries ! k = entries ! k"
      unfolding place_component_def using Cons.prems(2) order_component_set [of h es d] by (intro place_all_other) auto
    have "c \<in> set cs" using Cons.prems(3,4) False by auto
    then show ?thesis
      using Cons.IH [of "place_component rx h es d entries"] Cons.prems same
      by (simp add: distinct_ids_def place_component_def place_all_ids)
  qed
qed simp
section \<open>Properties\<close>

abbreviation links_of :: "relations \<Rightarrow> mal_entry list \<Rightarrow> (int \<times> int) list" where
  "links_of rels entries \<equiv> precedes (map mal_id entries) rels"

lemma component_order:
  assumes "sorted c" "i \<in> set c"
  shows "(case c of [] \<Rightarrow> 0 | f # _ \<Rightarrow> f) = Min (set c)"
  using assms by (cases c) (auto intro!: Min_eqI [symmetric])

text \<open>Every entry is placed once, in the component of its connected class.\<close>

lemma build_chains_at:
  assumes "distinct_ids entries" "k < length entries"
  shows "\<exists>c j o'. set c = class_of (links_of rels entries) (mal_id (entries ! k)) \<and> distinct c
    \<and> j < length (order_component h (links_of rels entries) c)
    \<and> order_component h (links_of rels entries) c ! j = mal_id (entries ! k)
    \<and> c \<in> set (components_loop h (links_of rels entries) (hash_walk h (map mal_id entries)) [])
    \<and> build_chains rx h rels entries ! k = place_entry rx (Min (set c)) j o' (entries ! k)"
proof -
  let ?es = "links_of rels entries" and ?ids = "hash_walk h (map mal_id entries)" and ?i = "mal_id (entries ! k)"
  let ?cs = "components_loop h ?es ?ids []"
  have cl: "closed_under ?es (set [])" by (simp add: closed_under_def)
  note spec = components_loop_spec [OF cl, of h ?ids]
  have "?i \<in> set ?ids" using assms(2) by simp
  then obtain c where c: "c \<in> set ?cs" "?i \<in> set c" using spec by auto
  then obtain i where i: "set c = class_of ?es i" "distinct c" "sorted c" using spec by blast
  then have cls: "set c = class_of ?es ?i" using c(2) class_sym [of ?i ?es i] by simp
  have sw: "sorted_wrt (\<lambda>a b. set a \<inter> set b = {}) ?cs" using spec by blast
  have hd: "(case c of [] \<Rightarrow> 0 | f # _ \<Rightarrow> f) = Min (set c)" by (rule component_order [OF i(3) c(2)])
  from place_components_at [OF assms c(1,2) sw, where rx = rx and h = h and es = ?es] obtain j o' where
    "j < length (order_component h ?es c)" "order_component h ?es c ! j = ?i"
    "build_chains rx h rels entries ! k = place_entry rx (Min (set c)) j o' (entries ! k)"
    by (auto simp: build_chains_def Let_def hd)
  with cls i(2) c(1) show ?thesis by blast
qed

text \<open>
  C21: the franchises are the connected classes of the list. However the hash sets are
  walked, building the chains keeps the entries, their order and everything in them but
  franchise, season and offset; the franchise of an entry is the least id that sequel and
  prequel links connect it to, so two entries share a franchise exactly when they are
  connected.
\<close>

theorem build_chains_franchises:
  assumes "distinct_ids entries"
  shows "length (build_chains rx h rels entries) = length entries
    \<and> (\<forall>k<length entries. \<exists>pos off. build_chains rx h rels entries ! k =
         place_entry rx (Min (class_of (links_of rels entries) (mal_id (entries ! k)))) pos off (entries ! k))
    \<and> (\<forall>k<length entries. \<forall>l<length entries.
         le_franchise (me_entry (build_chains rx h rels entries ! k)) = le_franchise (me_entry (build_chains rx h rels entries ! l))
         \<longleftrightarrow> (mal_id (entries ! k), mal_id (entries ! l)) \<in> (linked (links_of rels entries))\<^sup>*)"
proof -
  let ?cls = "class_of (links_of rels entries)"
  have len: "length (build_chains rx h rels entries) = length entries" by (simp add: build_chains_def Let_def)
  have at: "\<exists>pos off. build_chains rx h rels entries ! k = place_entry rx (Min (?cls (mal_id (entries ! k)))) pos off (entries ! k)
      \<and> finite (?cls (mal_id (entries ! k)))"
    if "k < length entries" for k
    using build_chains_at [OF assms that, of rels h rx] by (metis List.finite_set)
  then have fr: "le_franchise (me_entry (build_chains rx h rels entries ! k)) = Min (?cls (mal_id (entries ! k)))"
      "Min (?cls (mal_id (entries ! k))) \<in> ?cls (mal_id (entries ! k))"
    if "k < length entries" for k
  proof -
    from at [OF that] obtain pos off where
      b: "build_chains rx h rels entries ! k = place_entry rx (Min (?cls (mal_id (entries ! k)))) pos off (entries ! k)"
      and fin: "finite (?cls (mal_id (entries ! k)))" by blast
    show "le_franchise (me_entry (build_chains rx h rels entries ! k)) = Min (?cls (mal_id (entries ! k)))"
      by (simp add: b place_entry_def)
    have "mal_id (entries ! k) \<in> ?cls (mal_id (entries ! k))" by (simp add: class_of_def)
    then show "Min (?cls (mal_id (entries ! k))) \<in> ?cls (mal_id (entries ! k))" using fin by (intro Min_in) auto
  qed
  have "le_franchise (me_entry (build_chains rx h rels entries ! k)) = le_franchise (me_entry (build_chains rx h rels entries ! l))
      \<longleftrightarrow> (mal_id (entries ! k), mal_id (entries ! l)) \<in> (linked (links_of rels entries))\<^sup>*"
    if kl: "k < length entries" "l < length entries" for k l
  proof -
    have "Min (?cls x) = Min (?cls y) \<Longrightarrow> Min (?cls x) \<in> ?cls x \<Longrightarrow> Min (?cls y) \<in> ?cls y \<Longrightarrow> ?cls x = ?cls y" for x y
      by (metis class_sym)
    moreover have "y \<in> ?cls x \<longleftrightarrow> (x, y) \<in> (linked (links_of rels entries))\<^sup>*" for x y by (simp add: class_of_def)
    ultimately show ?thesis using fr [OF kl(1)] fr [OF kl(2)] by (metis class_sym)
  qed
  with len at show ?thesis by blast
qed

text \<open>
  A sequel comes later. When the links have no cycle and one entry precedes another,
  both get the same franchise and, unless their titles name a season, the later one gets
  the greater season number, whatever the order of the hash sets.
\<close>

theorem build_chains_sequel_later:
  assumes "distinct_ids entries" "k < length entries" "l < length entries"
    and "acyclic (set (links_of rels entries))" "(mal_id (entries ! k), mal_id (entries ! l)) \<in> set (links_of rels entries)"
    and "extract_season_from_title rx (le_title (me_entry (entries ! k))) = None"
    and "extract_season_from_title rx (le_title (me_entry (entries ! l))) = None"
  shows "le_season (me_entry (build_chains rx h rels entries ! k)) < le_season (me_entry (build_chains rx h rels entries ! l))
    \<and> le_franchise (me_entry (build_chains rx h rels entries ! k)) = le_franchise (me_entry (build_chains rx h rels entries ! l))"
proof -
  let ?es = "links_of rels entries" and ?cs = "components_loop h (links_of rels entries) (hash_walk h (map mal_id entries)) []"
  let ?a = "mal_id (entries ! k)" and ?b = "mal_id (entries ! l)"
  obtain c i o1 where c: "set c = class_of ?es ?a" "i < length (order_component h ?es c)" "order_component h ?es c ! i = ?a"
    "build_chains rx h rels entries ! k = place_entry rx (Min (set c)) i o1 (entries ! k)" "c \<in> set ?cs"
    using build_chains_at [OF assms(1,2), of rels h rx] by blast
  obtain d j o2 where d: "set d = class_of ?es ?b" "j < length (order_component h ?es d)" "order_component h ?es d ! j = ?b"
    "build_chains rx h rels entries ! l = place_entry rx (Min (set d)) j o2 (entries ! l)" "d \<in> set ?cs"
    using build_chains_at [OF assms(1,3), of rels h rx] by blast
  have "?b \<in> class_of ?es ?a" using assms(5) by (auto simp: class_of_def linked_def)
  then have same: "set d = set c" using c(1) d(1) class_sym by metis
  have "closed_under ?es (set [])" by (simp add: closed_under_def)
  from components_loop_spec [OF this, of h "hash_walk h (map mal_id entries)"] c(5) d(5)
  have "sorted c" "sorted d" "distinct c" "distinct d" by blast+
  then have "c = d" using same by (metis sorted_distinct_set_unique)
  have ne: "?a \<noteq> ?b" using assms(4,5) unfolding acyclic_def by (metis r_into_trancl')
  have "sorted_wrt (\<lambda>x y. (y, x) \<notin> set ?es) (order_component h ?es c)"
    by (rule order_component_sorted [OF assms(4)])
  then have "\<not> j < i" using sorted_wrt_nth_less [of _ "order_component h ?es c" j i] assms(5) c(2,3) d(3) \<open>c = d\<close> by auto
  moreover have "i \<noteq> j" using c(3) d(3) ne \<open>c = d\<close> by auto
  ultimately show ?thesis using assms(6,7) c(4) d(4) same by (simp add: place_entry_def)
qed

section \<open>Witnesses\<close>

definition sample_node :: "int \<Rightarrow> mal_node" where
  "sample_node i =
     \<lparr> no_id = i, no_title = Some ''A'', no_main_title = None, no_alternative_titles = None, no_num_episodes = Some 12,
       no_start_season = None, no_media_type = None, no_status = None, no_main_picture = None, no_synopsis = None \<rparr>"

definition sample_entry :: "int \<Rightarrow> mal_entry" where
  "sample_entry i =
     \<lparr> me_entry = \<lparr> le_mal_id = i, le_title = ''A'', le_english_title = None, le_list_status = Watching, le_watched_count = 0,
         le_total_episodes = Some 12, le_start_year = None, le_auto = True, le_episode_offset = 0, le_names = [''A''],
         le_franchise = i, le_season = 1 \<rparr>,
       me_score = None, me_updated_at = None, me_media_type = None, me_airing_status = None, me_source = ''mal'',
       me_poster_url = None, me_synopsis = None \<rparr>"

text \<open>Entry 1 has the sequels 2 and 3.\<close>

definition sample_relations :: relations where
  "sample_relations i =
     (if i = 1 then Some (map (\<lambda>k. \<lparr> rl_node = sample_node k, rl_relation_type = ''sequel'' \<rparr>) [2, 3]) else None)"

definition sample_list :: "mal_entry list" where
  "sample_list = map sample_entry [1, 2, 3]"

lemma sample_links: "links_of sample_relations sample_list = [(1, 2), (1, 3)]"
  by (simp add: precedes_def sample_relations_def sample_list_def sample_entry_def link_of_def sample_node_def)

lemma sample_ids: "distinct_ids sample_list" "map mal_id sample_list = [1, 2, 3]" "length sample_list = 3"
  by (simp_all add: distinct_ids_def sample_list_def sample_entry_def)

text \<open>
  The season numbers depend on the order of a hash set. When a season has two sequels,
  which of them becomes season two and which season three is left to the order in which the set of the
  remaining ids is walked: two runs on the same list number them differently.
\<close>

theorem build_chains_order_dependent:
  "\<exists>h h'. map (\<lambda>m. le_season (me_entry m)) (build_chains no_match h sample_relations sample_list) = [1, 2, 3]
      \<and> map (\<lambda>m. le_season (me_entry m)) (build_chains no_match h' sample_relations sample_list) = [1, 3, 2]"
proof -
  have "map (\<lambda>m. le_season (me_entry m)) (build_chains no_match (\<lambda>_ i. nat i) sample_relations sample_list) = [1, 2, 3]"
    by code_simp
  moreover have "map (\<lambda>m. le_season (me_entry m)) (build_chains no_match (\<lambda>_ i. nat (9 - i)) sample_relations sample_list) = [1, 3, 2]"
    by code_simp
  ultimately show ?thesis by (intro exI conjI)
qed

theorem build_chains_franchises_witness:
  "le_franchise (me_entry (build_chains no_match (\<lambda>_ _. 0) sample_relations sample_list ! 1))
     = le_franchise (me_entry (build_chains no_match (\<lambda>_ _. 0) sample_relations sample_list ! 2))"
proof -
  have "(2, 1) \<in> linked [(1, 2), (1, 3)]" "(1, 3) \<in> linked [(1, 2), (1, 3)]" by (simp_all add: linked_def)
  then have "(2, 3) \<in> (linked [(1, 2), (1, 3)])\<^sup>*" by (meson converse_rtrancl_into_rtrancl r_into_rtrancl)
  moreover have "mal_id (sample_list ! 1) = 2" "mal_id (sample_list ! 2) = 3" by (simp_all add: sample_list_def sample_entry_def)
  ultimately show ?thesis
    using build_chains_franchises [OF sample_ids(1), of no_match "\<lambda>_ _. 0" sample_relations] sample_ids(3) by (simp add: sample_links)
qed

theorem build_chains_sequel_later_witness:
  "le_season (me_entry (build_chains no_match (\<lambda>_ _. 0) sample_relations sample_list ! 0))
     < le_season (me_entry (build_chains no_match (\<lambda>_ _. 0) sample_relations sample_list ! 2))"
proof -
  have ids: "mal_id (sample_list ! 0) = 1" "mal_id (sample_list ! 2) = 3" by (simp_all add: sample_list_def sample_entry_def)
  have "acyclic (set (links_of sample_relations sample_list))"
    by (rule acyclicI_order [of _ uminus]) (auto simp: sample_links)
  moreover have "(mal_id (sample_list ! 0), mal_id (sample_list ! 2)) \<in> set (links_of sample_relations sample_list)"
    by (simp add: sample_links ids)
  moreover have "extract_season_from_title no_match t = None" for t
    by (simp add: extract_season_from_title_def no_match_def)
  ultimately show ?thesis
    using build_chains_sequel_later [OF sample_ids(1), of 0 2 sample_relations no_match "\<lambda>_ _. 0"] sample_ids(3) by simp
qed

end
