(* ===== verification/Metadata.thy ===== *)
theory Metadata
  imports Library Nyaa "HOL-Library.Product_Lexorder"
begin

text \<open>
  \<open>metadata/\<close>: the description of a show is fetched from Jikan, or else from MyAnimeList, and
  written into its row, its names and its folders; a queue over the rows of \<open>shows\<close> decides which
  show is next. The columns of \<open>shows\<close> that only this module uses are the rows \<open>meta_row\<close>; the state
  keys of the settings table are a map. What the services answer, decoded, is the
  record \<open>metadata_services\<close>.
\<close>

named_theorems metadata_simps \<open>unfolding rules of the metadata queue\<close>

section \<open>State\<close>

record meta_row =
  mt_mal_id :: int
  mt_updated_at :: "time option"
  mt_next_retry_at :: "time option"
  mt_retry_count :: int
  mt_error :: "string option"

text \<open>A cell of an INTEGER column of SQLite: a text that is an integer is stored as one.\<close>

datatype cell = CInt int | CText string

record mal_row =
  mr_mal_id :: int
  mr_list_status :: string
  mr_watched_count :: int
  mr_score :: "int option"
  mr_updated_at :: cell
  mr_source :: string

record catalog =
  ct_library :: library
  ct_meta :: "meta_row list"
  ct_mal :: "mal_row list"
  ct_state :: "string \<Rightarrow> string option"

type_synonym 'a cataloguing = "(catalog, error, 'a) act"

definition on_library :: "'a shelving \<Rightarrow> 'a cataloguing" where
  "on_library a = (\<lambda>s. case a (ct_library s) of (r, l) \<Rightarrow> (r, s\<lparr>ct_library := l\<rparr>))"

abbreviation on_world :: "'a run \<Rightarrow> 'a cataloguing" where
  "on_world a \<equiv> on_library (on_store a)"

abbreviation world_of :: "catalog \<Rightarrow> world" where
  "world_of s \<equiv> lb_world (ct_library s)"

abbreviation show_of :: "int \<Rightarrow> catalog \<Rightarrow> show_row option" where
  "show_of m s \<equiv> find_row sh_mal_id m (w_shows (world_of s))"

abbreviation meta_of :: "int \<Rightarrow> catalog \<Rightarrow> meta_row option" where
  "meta_of m s \<equiv> find_row mt_mal_id m (ct_meta s)"

definition map_shows :: "(show_row \<Rightarrow> bool) \<Rightarrow> (show_row \<Rightarrow> show_row) \<Rightarrow> catalog \<Rightarrow> catalog" where
  "map_shows p f s =
     s\<lparr>ct_library := (ct_library s)\<lparr>lb_world := (world_of s)\<lparr>w_shows := update_rows p f (w_shows (world_of s))\<rparr>\<rparr>\<rparr>"

definition map_shelves :: "(shelf \<Rightarrow> bool) \<Rightarrow> (shelf \<Rightarrow> shelf) \<Rightarrow> catalog \<Rightarrow> catalog" where
  "map_shelves p f s =
     s\<lparr>ct_library := (ct_library s)\<lparr>lb_shelves := update_rows p f (lb_shelves (ct_library s))\<rparr>\<rparr>"

definition map_meta :: "(meta_row \<Rightarrow> bool) \<Rightarrow> (meta_row \<Rightarrow> meta_row) \<Rightarrow> catalog \<Rightarrow> catalog" where
  "map_meta p f s = s\<lparr>ct_meta := update_rows p f (ct_meta s)\<rparr>"

text \<open>One UPDATE of the row of a show, column group by column group.\<close>

definition update_show ::
  "int \<Rightarrow> (show_row \<Rightarrow> show_row) \<Rightarrow> (shelf \<Rightarrow> shelf) \<Rightarrow> (meta_row \<Rightarrow> meta_row) \<Rightarrow> unit cataloguing" where
  "update_show m f g k =
     modify (map_shows (\<lambda>r. sh_mal_id r = m) f \<circ> map_shelves (\<lambda>r. sl_mal_id r = m) g \<circ> map_meta (\<lambda>r. mt_mal_id r = m) k)"

section \<open>Texts\<close>

text \<open>BOM and ZERO WIDTH SPACE are characters of three bytes.\<close>

definition is_invisible :: "string \<Rightarrow> bool" where
  "is_invisible k \<longleftrightarrow> map of_char k \<in> {[0x7F], [0xEF, 0xBB, 0xBF], [0xE2, 0x80, 0x8B :: nat]}"

definition is_low_control :: "string \<Rightarrow> bool" where
  "is_low_control k =
     (case map of_char k :: nat list of [a] \<Rightarrow> a < 32 \<and> a \<noteq> 10 \<and> a \<noteq> 13 \<and> a \<noteq> 9 | _ \<Rightarrow> False)"

definition is_ascii_letter :: "string \<Rightarrow> bool" where
  "is_ascii_letter k =
     (case map of_char k :: nat list of [a] \<Rightarrow> (65 \<le> a \<and> a \<le> 90) \<or> (97 \<le> a \<and> a \<le> 122) | _ \<Rightarrow> False)"

fun clean_loop :: "bool \<Rightarrow> string list \<Rightarrow> string" where
  "clean_loop in_escape [] = []"
| "clean_loop in_escape (k # ks) =
     (if k = [CHR 0x1B] then clean_loop True ks
      else if in_escape then clean_loop (\<not> is_ascii_letter k) ks
      else if is_low_control k \<or> is_invisible k then clean_loop False ks
      else k @ clean_loop False ks)"

definition clean_plain_text :: "string \<Rightarrow> string" where
  "clean_plain_text s = trim (clean_loop False (chars_of s))"

definition clean_single_line :: "string \<Rightarrow> string" where
  "clean_single_line s =
     join_with '' '' (split_whitespace
       (map (\<lambda>c. if c \<in> {CHR 0x0D, CHR 0x0A, CHR 0x09} then CHR '' '' else c) (clean_plain_text s)))"

definition calculate_backoff :: "nat \<Rightarrow> nat" where
  "calculate_backoff n =
     (if n \<le> 1 then 30 else if n = 2 then 60 else if n = 3 then 120 else if n = 4 then 300
      else if n = 5 then 600 else 1800)"

definition normalize_airing_status :: "string option \<Rightarrow> string option" where
  "normalize_airing_status s =
     (case map_option (\<lambda>x. lower (trim x)) s of
        None \<Rightarrow> None
      | Some t \<Rightarrow>
          if t \<in> {''currently airing'', ''currently_airing'', ''airing''} then Some ''airing''
          else if t \<in> {''finished airing'', ''finished_airing'', ''finished''} then Some ''finished''
          else if t \<in> {''not yet aired'', ''not_yet_aired''} then Some ''not_yet_aired''
          else None)"

section \<open>What the services answer\<close>

text \<open>An image set is (large, small).\<close>

type_synonym image_set = "string option \<times> string option"

record jikan_full =
  jf_mal_id :: int
  jf_title :: string
  jf_title_english :: "string option"
  jf_title_japanese :: "string option"
  jf_synopsis :: "string option"
  jf_score :: "f64 option"
  jf_show_type :: "string option"
  jf_episodes :: "int option"
  jf_status :: "string option"
  jf_year :: "int option"
  jf_aired_year :: "int option"
  jf_jpg :: "image_set option"
  jf_webp :: "image_set option"

record mal_detail =
  md_id :: int
  md_start_date :: "string option"
  md_title :: string
  md_titles :: "(string option \<times> string option) option"
  md_main_picture :: "image_set option"
  md_synopsis :: "string option"
  md_mean :: "f64 option"
  md_media_type :: "string option"
  md_num_episodes :: "int option"
  md_status :: "string option"
  md_start_season :: "int option"

text \<open>
  The gate's answer to the request for a show, and what the JSON decoder makes of the body (the left
  is its message); the access token that the MAL session gives, if any.
\<close>

record metadata_services =
  ms_jikan :: "int \<Rightarrow> bool \<Rightarrow> error + (string + jikan_full)"
  ms_mal :: "int \<Rightarrow> bool \<Rightarrow> error + mal_detail option"
  ms_token :: "string option"
  ms_jikan_open :: bool
  ms_error_text :: "error \<Rightarrow> string"

datatype metadata_outcome =
    Updated int string "string option"
  | Cached int
  | PendingRetry int time string
  | Failed_forever int string

section \<open>The queue\<close>

text \<open>\<open>trim\<close> of SQLite removes spaces only; \<open>LIKE 'http%'\<close> ignores the case.\<close>

definition sql_trim :: "string \<Rightarrow> string" where
  "sql_trim s = rev (dropWhile (\<lambda>c. c = CHR '' '') (rev (dropWhile (\<lambda>c. c = CHR '' '') s)))"

definition like_http :: "string \<Rightarrow> bool" where
  "like_http p \<longleftrightarrow> starts_with ''http'' (lower p)"

definition retry_due :: "time \<Rightarrow> meta_row \<Rightarrow> bool" where
  "retry_due now k \<longleftrightarrow> (case mt_next_retry_at k of None \<Rightarrow> True | Some t \<Rightarrow> t \<le> now)"

definition needs_metadata :: "time \<Rightarrow> catalog \<Rightarrow> show_row \<Rightarrow> bool" where
  "needs_metadata now s r =
     (case (meta_of (sh_mal_id r) s, shelf_of (sh_mal_id r) (ct_library s)) of
        (Some k, Some h) \<Rightarrow>
          (sh_metadata_status r \<notin> {''ready'', ''partial''}
           \<or> (case mt_updated_at k of None \<Rightarrow> True | Some t \<Rightarrow> t < now - 7 * 86400)
           \<or> (case sl_synopsis h of None \<Rightarrow> True | Some t \<Rightarrow> sql_trim t = [])
           \<or> (sh_metadata_status r = ''ready'' \<and> (case sl_poster_path h of None \<Rightarrow> False | Some p \<Rightarrow> like_http p)))
          \<and> sh_metadata_status r \<noteq> ''failed'' \<and> retry_due now k
      | _ \<Rightarrow> False)"

definition queue_stale_metadata :: "nat cataloguing" where
  "queue_stale_metadata =
     (\<lambda>s. let now = w_now (world_of s);
            due = map sh_mal_id (filter (needs_metadata now s) (w_shows (world_of s)))
        in (Inr (length due),
            map_shows (\<lambda>r. sh_mal_id r \<in> set due) (\<lambda>r. r\<lparr>sh_metadata_status := ''pending''\<rparr>)
              (map_meta (\<lambda>k. mt_mal_id k \<in> set due) (\<lambda>k. k\<lparr>mt_next_retry_at := Some now\<rparr>) s)))"

definition METADATA_LEASE_SECONDS :: int where
  "METADATA_LEASE_SECONDS = 300"

definition claimable :: "time \<Rightarrow> catalog \<Rightarrow> show_row \<Rightarrow> bool" where
  "claimable now s r =
     (case meta_of (sh_mal_id r) s of
        None \<Rightarrow> False
      | Some k \<Rightarrow>
          (sh_metadata_status r = ''pending''
           \<or> (sh_metadata_status r = ''fetching''
              \<and> (case mt_updated_at k of None \<Rightarrow> True | Some t \<Rightarrow> t < now - METADATA_LEASE_SECONDS)))
          \<and> retry_due now k)"

text \<open>\<open>ORDER BY\<close>: shows being watched first, then the fewest retries, then the least id.\<close>

definition claim_key :: "catalog \<Rightarrow> show_row \<Rightarrow> nat \<times> int \<times> int" where
  "claim_key s r =
     ((case find_row mr_mal_id (sh_mal_id r) (ct_mal s) of
         Some m \<Rightarrow> if lower (mr_list_status m) = ''watching'' then 0 else 1 | None \<Rightarrow> 1),
      (case meta_of (sh_mal_id r) s of Some k \<Rightarrow> mt_retry_count k | None \<Rightarrow> 0),
      sh_mal_id r)"

definition claim_next_metadata_job :: "int option cataloguing" where
  "claim_next_metadata_job =
     (\<lambda>s. let now = w_now (world_of s) in
        case sort_key (claim_key s) (filter (claimable now s) (w_shows (world_of s))) of
          [] \<Rightarrow> (Inr None, s)
        | r # _ \<Rightarrow>
            let m = sh_mal_id r in
            (Inr (Some m),
             map_shows (\<lambda>x. sh_mal_id x = m) (\<lambda>x. x\<lparr>sh_metadata_status := ''fetching''\<rparr>)
               (map_meta (\<lambda>k. mt_mal_id k = m) (\<lambda>k. k\<lparr>mt_updated_at := Some now\<rparr>) s)))"

section \<open>Applying an answer\<close>

definition poster_path_of :: "studio \<Rightarrow> int \<Rightarrow> string" where
  "poster_path_of sd m = join_path (join_path (sd_data_dir sd) ''posters'') (show_int m @ ''.jpg'')"

definition has_bytes :: "string \<Rightarrow> fs \<Rightarrow> bool" where
  "has_bytes p f =
     (case node_at (locate p) f of
        None \<Rightarrow> False | Some Dir \<Rightarrow> True | Some (File i) \<Rightarrow> fs_data f i \<noteq> [])"

definition download_poster_to_file :: "studio \<Rightarrow> int \<Rightarrow> string \<Rightarrow> string option on_disk" where
  "download_poster_to_file sd m url =
     (let dst = poster_path_of sd m in
      seq (ignore (create_dir_all (sd_disk sd) (join_path (sd_data_dir sd) ''posters''))) (\<lambda>_.
      seq (gets (has_bytes dst)) (\<lambda>present.
      if present then ret (Some dst)
      else
        case sd_image sd url of
          None \<Rightarrow> ret None
        | Some body \<Rightarrow>
            if body = [] then ret None
            else
              seq (attempt (fs_write (sd_disk sd) dst body)) (\<lambda>r.
              ret (case r of Inr _ \<Rightarrow> Some dst | Inl _ \<Rightarrow> None)))))"

definition remote_poster :: "string option \<Rightarrow> string option" where
  "remote_poster existing = Option.bind existing (\<lambda>p. if starts_with ''http'' p then Some p else None)"

definition either_size :: "image_set option \<Rightarrow> string option" where
  "either_size img = Option.bind img (\<lambda>(large, small). coalesce large small)"

definition jikan_poster_url :: "jikan_full \<Rightarrow> string option \<Rightarrow> string option" where
  "jikan_poster_url d existing =
     coalesce (coalesce (either_size (jf_jpg d)) (either_size (jf_webp d))) (remote_poster existing)"

definition fetch_poster :: "studio \<Rightarrow> int \<Rightarrow> string option \<Rightarrow> string option cataloguing" where
  "fetch_poster sd m url =
     (case url of
        Some u \<Rightarrow> on_library (on_fs (download_poster_to_file sd m u))
      | None \<Rightarrow> ret None)"

text \<open>The columns that both services fill.\<close>

record filled =
  fd_synopsis :: string
  fd_poster :: "string option"
  fd_score :: "f64 option"
  fd_type :: "string option"
  fd_episodes :: "int option"
  fd_year :: "int option"
  fd_english :: "string option"
  fd_airing :: "string option"
  fd_status :: string
  fd_error :: "string option"

definition filled_show :: "filled \<Rightarrow> show_row \<Rightarrow> show_row" where
  "filled_show d r =
     r\<lparr>sh_type := (case fd_type d of Some t \<Rightarrow> t | None \<Rightarrow> sh_type r),
       sh_total_episodes := coalesce (fd_episodes d) (sh_total_episodes r),
       sh_start_year := coalesce (fd_year d) (sh_start_year r),
       sh_english_title := coalesce (fd_english d) (sh_english_title r),
       sh_status := coalesce (fd_airing d) (sh_status r),
       sh_metadata_status := fd_status d\<rparr>"

definition filled_shelf :: "filled \<Rightarrow> shelf \<Rightarrow> shelf" where
  "filled_shelf d h =
     h\<lparr>sl_synopsis := Some (fd_synopsis d), sl_poster_path := coalesce (fd_poster d) (sl_poster_path h),
       sl_score := coalesce (fd_score d) (sl_score h)\<rparr>"

definition filled_meta :: "filled \<Rightarrow> time \<Rightarrow> meta_row \<Rightarrow> meta_row" where
  "filled_meta d now k =
     k\<lparr>mt_updated_at := Some now, mt_next_retry_at := None, mt_retry_count := 0, mt_error := fd_error d\<rparr>"

definition fill_show :: "int \<Rightarrow> filled \<Rightarrow> unit cataloguing" where
  "fill_show m d =
     seq (gets (\<lambda>s. w_now (world_of s))) (\<lambda>now.
     update_show m (filled_show d) (filled_shelf d) (filled_meta d now))"

definition add_title :: "matcher \<Rightarrow> int \<Rightarrow> string option \<Rightarrow> name_source \<Rightarrow> nat \<Rightarrow> unit cataloguing" where
  "add_title rx m title src prio =
     (case title of
        None \<Rightarrow> ret ()
      | Some t \<Rightarrow>
          if trim t = [] then ret ()
          else seq (attempt (on_world (insert_name m (clean_single_line t) (normalize_alias rx t) src prio))) (\<lambda>_. ret ()))"

definition finish_apply :: "studio \<Rightarrow> int \<Rightarrow> filled \<Rightarrow> string \<Rightarrow> metadata_outcome cataloguing" where
  "finish_apply sd m d msg =
     seq (gets (\<lambda>s. w_now (world_of s))) (\<lambda>now.
     seq (attempt (on_library (rewrite_show_folder_metadata sd now m))) (\<lambda>_.
     seq (attempt (on_world (log_info None (Some m) msg))) (\<lambda>_.
     ret (Updated m (fd_synopsis d) (fd_poster d)))))"

definition quoted_title :: "string \<Rightarrow> int \<Rightarrow> string" where
  "quoted_title t m = [char_of (34 :: nat)] @ t @ [char_of (34 :: nat)] @ '' (mal_id: '' @ show_int m @ '')''"

definition jikan_filled :: "jikan_full \<Rightarrow> string option \<Rightarrow> string option \<Rightarrow> filled" where
  "jikan_filled d english poster =
     \<lparr> fd_synopsis = (case jf_synopsis d of Some t \<Rightarrow> clean_plain_text t | None \<Rightarrow> []), fd_poster = poster,
       fd_score = jf_score d, fd_type = map_option lower (jf_show_type d), fd_episodes = jf_episodes d,
       fd_year = coalesce (jf_year d) (jf_aired_year d), fd_english = coalesce (jf_title_english d) english,
       fd_airing = normalize_airing_status (jf_status d), fd_status = ''ready'', fd_error = None \<rparr>"

definition apply_jikan_metadata ::
  "studio \<Rightarrow> int \<Rightarrow> string option \<Rightarrow> string option \<Rightarrow> jikan_full \<Rightarrow> metadata_outcome cataloguing" where
  "apply_jikan_metadata sd m english existing d =
     seq (fetch_poster sd m (jikan_poster_url d existing)) (\<lambda>poster.
     let row = jikan_filled d english poster in
     seq (fill_show m row) (\<lambda>_.
     seq (add_title (sd_rx sd) m (jf_title_japanese d) Jikan 3) (\<lambda>_.
     seq (add_title (sd_rx sd) m (jf_title_english d) Jikan 2) (\<lambda>_.
     finish_apply sd m row (''Metadata updated for '' @ quoted_title (jf_title d) m)))))"

definition year_of_date :: "string \<Rightarrow> int option" where
  "year_of_date t = (case split_on CHR ''-'' [] t of y # _ \<Rightarrow> parse_signed_i64 y | [] \<Rightarrow> None)"

definition mal_filled :: "mal_detail \<Rightarrow> string option \<Rightarrow> string option \<Rightarrow> filled" where
  "mal_filled d english poster =
     \<lparr> fd_synopsis = (case md_synopsis d of Some t \<Rightarrow> clean_plain_text t | None \<Rightarrow> []), fd_poster = poster,
       fd_score = md_mean d, fd_type = map_option lower (md_media_type d), fd_episodes = md_num_episodes d,
       fd_year = coalesce (md_start_season d) (Option.bind (md_start_date d) year_of_date),
       fd_english = coalesce (Option.bind (md_titles d) fst) english,
       fd_airing = normalize_airing_status (md_status d), fd_status = ''partial'',
       fd_error = Some ''Partial metadata from MAL API; Jikan details unavailable'' \<rparr>"

definition apply_mal_metadata ::
  "studio \<Rightarrow> int \<Rightarrow> string option \<Rightarrow> string option \<Rightarrow> mal_detail \<Rightarrow> metadata_outcome cataloguing" where
  "apply_mal_metadata sd m english existing d =
     seq (fetch_poster sd m (coalesce (either_size (md_main_picture d)) (remote_poster existing))) (\<lambda>poster.
     let row = mal_filled d english poster in
     seq (fill_show m row) (\<lambda>_.
     seq (add_title (sd_rx sd) m (Option.bind (md_titles d) snd) Mal 3) (\<lambda>_.
     seq (add_title (sd_rx sd) m (fd_english row) Mal 2) (\<lambda>_.
     finish_apply sd m row (''Metadata updated from MAL API fallback for '' @ quoted_title (md_title d) m)))))"

section \<open>Fetching\<close>

definition JIKAN_RETRY_KEY :: string where "JIKAN_RETRY_KEY = ''jikan_retry_after_at''"

definition read_state_time :: "string \<Rightarrow> catalog \<Rightarrow> int option" where
  "read_state_time key s = Option.bind (ct_state s key) parse_signed_i64"

definition write_state :: "string \<Rightarrow> string \<Rightarrow> unit cataloguing" where
  "write_state key v = modify (\<lambda>s. s\<lparr>ct_state := (ct_state s)(key \<mapsto> v)\<rparr>)"

text \<open>\<open>CAST(value AS INTEGER)\<close> of a text is its value as a number, 0 when it is none.\<close>

definition raise_retry_at :: "int \<Rightarrow> unit cataloguing" where
  "raise_retry_at t =
     modify (\<lambda>s. s\<lparr>ct_state := (ct_state s)(JIKAN_RETRY_KEY \<mapsto>
       show_int (case ct_state s JIKAN_RETRY_KEY of
                   None \<Rightarrow> t
                 | Some v \<Rightarrow> max (case parse_signed_i64 v of Some n \<Rightarrow> n | None \<Rightarrow> 0) t))\<rparr>)"

definition saturating_plus :: "int \<Rightarrow> int \<Rightarrow> int" where
  "saturating_plus a b = max (- (2 ^ 63)) (min (2 ^ 63 - 1) (a + b))"

definition least_wait :: "error \<Rightarrow> int" where
  "least_wait e =
     (case e of
        RateLimited s (Some d) \<Rightarrow> min (2 ^ 63 - 1) (int (d div 1000))
      | Status st u (Some d) b \<Rightarrow> min (2 ^ 63 - 1) (int (d div 1000))
      | BreakerOpen s n \<Rightarrow> min (2 ^ 63 - 1) (int n)
      | _ \<Rightarrow> 0)"

definition is_missing :: "error \<Rightarrow> bool" where
  "is_missing e = (case e of Status st u d b \<Rightarrow> st = 404 | _ \<Rightarrow> False)"

definition rate_limited :: "error \<Rightarrow> bool" where
  "rate_limited e = (case e of RateLimited s d \<Rightarrow> True | _ \<Rightarrow> False)"

text \<open>What the request to Jikan leaves: the data, the error text, whether it was a 404, the least wait.\<close>

record jikan_result =
  jr_data :: "jikan_full option"
  jr_error :: "string option"
  jr_missing :: bool
  jr_wait :: int

definition has_text :: "string option \<Rightarrow> bool" where
  "has_text t = (case t of Some x \<Rightarrow> trim x \<noteq> [] | None \<Rightarrow> False)"

definition ask_jikan :: "metadata_services \<Rightarrow> int \<Rightarrow> bool \<Rightarrow> jikan_result cataloguing" where
  "ask_jikan ms m force =
     seq (gets (\<lambda>s. (w_now (world_of s), case read_state_time JIKAN_RETRY_KEY s of Some t \<Rightarrow> t | None \<Rightarrow> 0))) (\<lambda>(now, retry_at).
     case (if now < retry_at then Inl (RateLimited ''jikan'' (Some (nat (retry_at - now) * 1000))) else ms_jikan ms m force) of
       Inr (Inr d) \<Rightarrow>
         ret \<lparr> jr_data = (if jf_synopsis d = None \<or> has_text (jf_synopsis d) then Some d else None),
               jr_error = None, jr_missing = False, jr_wait = 0 \<rparr>
     | Inr (Inl e) \<Rightarrow>
         ret \<lparr> jr_data = None, jr_error = Some (''Failed to parse Jikan JSON: '' @ e), jr_missing = False, jr_wait = 0 \<rparr>
     | Inl e \<Rightarrow>
         seq (if rate_limited e \<and> 0 < least_wait e then raise_retry_at (saturating_plus now (least_wait e)) else ret ()) (\<lambda>_.
         ret \<lparr> jr_data = None,
               jr_error = Some (if is_missing e then ''Anime not found on Jikan (404)''
                                else ''Jikan request failed: '' @ ms_error_text ms e),
               jr_missing = is_missing e, jr_wait = least_wait e \<rparr>))"

definition usable_detail :: "int \<Rightarrow> mal_detail \<Rightarrow> bool" where
  "usable_detail m d \<longleftrightarrow>
     md_id d = m \<and> trim (md_title d) \<noteq> [] \<and>
     (md_num_episodes d \<noteq> None \<or> md_status d \<noteq> None \<or> has_text (md_synopsis d))"

text \<open>The fallback: the detail to apply, and whether MyAnimeList answered 404.\<close>

definition ask_mal :: "metadata_services \<Rightarrow> settings \<Rightarrow> int \<Rightarrow> bool \<Rightarrow> mal_detail option \<times> bool" where
  "ask_mal ms st m force =
     (if trim (s_mal_client_id st) = [] \<or> \<not> has_text (ms_token ms) then (None, False)
      else
        case ms_mal ms m force of
          Inl e \<Rightarrow> (None, is_missing e)
        | Inr None \<Rightarrow> (None, False)
        | Inr (Some d) \<Rightarrow> (if usable_detail m d then Some d else None, False))"

definition write_placeholder :: "studio \<Rightarrow> string option \<Rightarrow> string \<Rightarrow> unit cataloguing" where
  "write_placeholder sd folder line =
     (case folder of
        None \<Rightarrow> ret ()
      | Some p \<Rightarrow>
          seq (gets (\<lambda>s. is_dir_at p (lb_fs (ct_library s)))) (\<lambda>there.
          if there then on_library (on_fs (ignore (fs_write (sd_disk sd) (join_path p SYNOPSIS_FILE) (line @ nl)))) else ret ()))"

definition fail_for_good :: "studio \<Rightarrow> int \<Rightarrow> string option \<Rightarrow> nat \<Rightarrow> metadata_outcome cataloguing" where
  "fail_for_good sd m folder retries =
     (let e = ''Anime not found (404)'' in
      seq (update_show m (\<lambda>r. r\<lparr>sh_metadata_status := ''failed''\<rparr>) (\<lambda>h. h\<lparr>sl_synopsis := None\<rparr>)
            (\<lambda>k. k\<lparr>mt_next_retry_at := None, mt_retry_count := int (wrap_u32 (int retries + 1)), mt_error := Some e\<rparr>)) (\<lambda>_.
      seq (write_placeholder sd folder (''[Synopsis unavailable: show #'' @ show_int m @ '' returned 404 Not Found]'')) (\<lambda>_.
      seq (attempt (on_world (log_warn None (Some m)
            (''Metadata fetch failed permanently for show #'' @ show_int m @ '': 404 Not Found'')))) (\<lambda>_.
      ret (Failed_forever m e)))))"

definition retry_later :: "studio \<Rightarrow> int \<Rightarrow> string option \<Rightarrow> nat \<Rightarrow> jikan_result \<Rightarrow> metadata_outcome cataloguing" where
  "retry_later sd m folder retries jr =
     seq (gets (\<lambda>s. w_now (world_of s))) (\<lambda>now.
     let count = wrap_u32 (int retries + 1);
         wait = max (int (calculate_backoff count)) (jr_wait jr);
         next_run = saturating_plus now wait;
         e = (case jr_error jr of Some t \<Rightarrow> t | None \<Rightarrow> ''Failed to fetch metadata from Jikan or MAL'')
     in
      seq (update_show m (\<lambda>r. r\<lparr>sh_metadata_status := ''pending''\<rparr>) (\<lambda>h. h\<lparr>sl_synopsis := None\<rparr>)
            (\<lambda>k. k\<lparr>mt_next_retry_at := Some next_run, mt_retry_count := int count, mt_error := Some e\<rparr>)) (\<lambda>_.
      seq (write_placeholder sd folder (''[Synopsis pending metadata sync for show #'' @ show_int m @ '']'')) (\<lambda>_.
      seq (attempt (on_world (log_warn None (Some m)
            (''Metadata fetch failed for show #'' @ show_int m @ '': '' @ e @ ''. Retrying in '' @ show_int wait @ ''s.'')))) (\<lambda>_.
      ret (PendingRetry m next_run e)))))"

text \<open>The row that the fetch starts from.\<close>

definition is_fresh_metadata :: "time \<Rightarrow> show_row \<Rightarrow> shelf \<Rightarrow> meta_row \<Rightarrow> fs \<Rightarrow> bool" where
  "is_fresh_metadata now r h k f \<longleftrightarrow>
     sh_metadata_status r \<in> {''ready'', ''partial''}
     \<and> (case mt_updated_at k of Some t \<Rightarrow> now - t < 7 * 86400 | None \<Rightarrow> False)
     \<and> has_text (sl_synopsis h)
     \<and> (case sl_poster_path h of
          Some p \<Rightarrow> trim p \<noteq> [] \<and> \<not> starts_with ''http'' p \<and> is_file_at p f
        | None \<Rightarrow> False)"

definition fetch_from_services ::
  "metadata_services \<Rightarrow> studio \<Rightarrow> settings \<Rightarrow> show_row \<Rightarrow> shelf \<Rightarrow> meta_row \<Rightarrow> bool \<Rightarrow> metadata_outcome cataloguing" where
  "fetch_from_services ms sd st r h k force =
     (let m = sh_mal_id r; english = sh_english_title r; poster = sl_poster_path h; folder = sl_folder_path h;
          retries = wrap_u32 (mt_retry_count k)
      in
      seq (update_show m (\<lambda>x. x\<lparr>sh_metadata_status := ''fetching''\<rparr>) (\<lambda>x. x) (\<lambda>x. x)) (\<lambda>_.
      seq (ask_jikan ms m force) (\<lambda>jr.
      case jr_data jr of
        Some d \<Rightarrow>
          if has_text (jf_synopsis d) then apply_jikan_metadata sd m english poster d
          else (case fst (ask_mal ms st m force) of
                  Some x \<Rightarrow> apply_mal_metadata sd m english poster x
                | None \<Rightarrow> apply_jikan_metadata sd m english poster d)
      | None \<Rightarrow>
          (case ask_mal ms st m force of
             (Some x, _) \<Rightarrow> apply_mal_metadata sd m english poster x
           | (None, missing) \<Rightarrow>
               if jr_missing jr \<or> missing then fail_for_good sd m folder retries
               else retry_later sd m folder retries jr))))"

definition fetch_show_metadata ::
  "metadata_services \<Rightarrow> studio \<Rightarrow> int \<Rightarrow> bool \<Rightarrow> metadata_outcome cataloguing" where
  "fetch_show_metadata ms sd m force =
     (\<lambda>s. case (show_of m s, shelf_of m (ct_library s), meta_of m s) of
        (Some r, Some h, Some k) \<Rightarrow>
          (let now = w_now (world_of s) in
           if \<not> force \<and> is_fresh_metadata now r h k (lb_fs (ct_library s)) then (Inr (Cached m), s)
           else
             case (if force then None else mt_next_retry_at k) of
               Some t \<Rightarrow>
                 if now < t then (Inr (PendingRetry m t ''Retry scheduled with backoff''), s)
                 else fetch_from_services ms sd (w_settings (world_of s)) r h k force s
             | None \<Rightarrow> fetch_from_services ms sd (w_settings (world_of s)) r h k force s)
      | _ \<Rightarrow> (Inl no_rows, s))"

section \<open>Working through the queue\<close>

record metadata_report =
  mb_processed :: nat
  mb_updated :: nat
  mb_failed :: nat
  mb_cached :: nat

text \<open>The services answer anew for every job; the clock does not move during a batch.\<close>

fun process_loop ::
  "(nat \<Rightarrow> metadata_services) \<Rightarrow> studio \<Rightarrow> nat \<Rightarrow> metadata_report \<Rightarrow> metadata_report cataloguing" where
  "process_loop ms sd 0 rep = ret rep"
| "process_loop ms sd (Suc n) rep =
     seq claim_next_metadata_job (\<lambda>claimed.
     case claimed of
       None \<Rightarrow> ret rep
     | Some m \<Rightarrow>
         (let rep1 = rep\<lparr>mb_processed := mb_processed rep + 1\<rparr> in
          seq (attempt (fetch_show_metadata (ms n) sd m False)) (\<lambda>r.
          case r of
            Inr (Updated _ _ _) \<Rightarrow> process_loop ms sd n (rep1\<lparr>mb_updated := mb_updated rep1 + 1\<rparr>)
          | Inr (Cached _) \<Rightarrow> process_loop ms sd n (rep1\<lparr>mb_cached := mb_cached rep1 + 1\<rparr>)
          | Inl _ \<Rightarrow> process_loop ms sd n (rep1\<lparr>mb_failed := mb_failed rep1 + 1\<rparr>)
          | Inr _ \<Rightarrow>
              (let rep2 = rep1\<lparr>mb_failed := mb_failed rep1 + 1\<rparr> in
               seq (gets (\<lambda>s. (w_now (world_of s), read_state_time JIKAN_RETRY_KEY s))) (\<lambda>(now, retry_at).
               if \<not> ms_jikan_open (ms n) \<or> now < (case retry_at of Some t \<Rightarrow> t | None \<Rightarrow> 0) then ret rep2
               else process_loop ms sd n rep2)))))"

definition process_metadata_queue ::
  "(nat \<Rightarrow> metadata_services) \<Rightarrow> studio \<Rightarrow> nat option \<Rightarrow> metadata_report cataloguing" where
  "process_metadata_queue ms sd limit =
     process_loop ms sd (case limit of Some n \<Rightarrow> n | None \<Rightarrow> 20)
       \<lparr> mb_processed = 0, mb_updated = 0, mb_failed = 0, mb_cached = 0 \<rparr>"

section \<open>Facts\<close>

lemma on_library_run [simp]:
  "on_library a s = (fst (a (ct_library s)), s\<lparr>ct_library := snd (a (ct_library s))\<rparr>)"
  by (simp add: on_library_def split: prod.split)

lemma map_shows_simps [simp]:
  "w_shows (world_of (map_shows p f s)) = update_rows p f (w_shows (world_of s))"
  "lb_shelves (ct_library (map_shows p f s)) = lb_shelves (ct_library s)"
  "ct_meta (map_shows p f s) = ct_meta s" "ct_mal (map_shows p f s) = ct_mal s"
  "w_now (world_of (map_shows p f s)) = w_now (world_of s)"
  by (simp_all add: map_shows_def)

lemma map_shelves_simps [simp]:
  "lb_world (ct_library (map_shelves p f s)) = world_of s"
  "lb_shelves (ct_library (map_shelves p f s)) = update_rows p f (lb_shelves (ct_library s))"
  "ct_meta (map_shelves p f s) = ct_meta s" "ct_mal (map_shelves p f s) = ct_mal s"
  by (simp_all add: map_shelves_def)

lemma map_meta_simps [simp]:
  "ct_library (map_meta p f s) = ct_library s"
  "ct_meta (map_meta p f s) = update_rows p f (ct_meta s)" "ct_mal (map_meta p f s) = ct_mal s"
  by (simp_all add: map_meta_def)

lemma update_show_run [simp]:
  "update_show m f g k s =
     (Inr (), map_shows (\<lambda>r. sh_mal_id r = m) f (map_shelves (\<lambda>r. sl_mal_id r = m) g (map_meta (\<lambda>r. mt_mal_id r = m) k s)))"
  by (simp add: update_show_def)

text \<open>Steps that leave the rows of the shows, and the clock, as they are.\<close>

definition rows_kept :: "catalog \<Rightarrow> catalog \<Rightarrow> bool" where
  "rows_kept s t \<longleftrightarrow>
     w_shows (world_of t) = w_shows (world_of s) \<and> lb_shelves (ct_library t) = lb_shelves (ct_library s)
     \<and> ct_meta t = ct_meta s \<and> w_now (world_of t) = w_now (world_of s)"

interpretation keeping: evolution rows_kept
  by unfold_locales (auto simp: rows_kept_def)

lemma on_fs_keeps: "evolves rows_kept (on_library (on_fs a))"
  by (simp add: evolves_def rows_kept_def)

lemma log_keeps: "evolves rows_kept (on_world (log_info j m t))" "evolves rows_kept (on_world (log_warn j m t))"
  by (simp_all add: evolves_def rows_kept_def log_info_def log_warn_def)

lemma insert_name_frame [simp]:
  "w_shows (snd (insert_name m n k src p w)) = w_shows w" "w_now (snd (insert_name m n k src p w)) = w_now w"
  by (simp_all add: insert_name_def insert_name_row_def Let_def)

lemma insert_name_keeps: "evolves rows_kept (on_world (insert_name m n k src p))"
  by (simp add: evolves_def rows_kept_def)

lemma state_keeps: "evolves rows_kept (write_state key v)" "evolves rows_kept (raise_retry_at t)"
  by (simp_all add: evolves_def rows_kept_def write_state_def raise_retry_at_def)

definition shelf_rows_kept :: "library \<Rightarrow> library \<Rightarrow> bool" where
  "shelf_rows_kept s t \<longleftrightarrow> lb_world t = lb_world s \<and> lb_shelves t = lb_shelves s"

interpretation shelving: evolution shelf_rows_kept
  by unfold_locales (auto simp: shelf_rows_kept_def)

lemma load_card_keeps: "evolves shelf_rows_kept (load_card m)"
  by (simp add: evolves_def shelf_rows_kept_def load_card_def Let_def split: option.split)

lemma shelving_reads: "evolves shelf_rows_kept (gets_store g)" "evolves shelf_rows_kept (on_fs a)"
  by (simp_all add: evolves_def shelf_rows_kept_def gets_store_def)

lemma rewrite_keeps: "evolves rows_kept (on_library (rewrite_show_folder_metadata sd now m))"
proof -
  have "evolves shelf_rows_kept (rewrite_show_folder_metadata sd now m)"
    unfolding rewrite_show_folder_metadata_def
    by (intro shelving.ev_rules load_card_keeps shelving_reads allI)
  then show ?thesis by (simp add: evolves_def rows_kept_def shelf_rows_kept_def)
qed

lemmas kept_steps = on_fs_keeps log_keeps insert_name_keeps state_keeps rewrite_keeps

lemma add_title_keeps: "evolves rows_kept (add_title rx m t src p)"
  unfolding add_title_def by (intro keeping.ev_rules kept_steps)

lemma fetch_poster_keeps: "evolves rows_kept (fetch_poster sd m u)"
  unfolding fetch_poster_def by (intro keeping.ev_rules kept_steps)

lemma finish_apply_keeps: "evolves rows_kept (finish_apply sd m d t)"
  unfolding finish_apply_def by (intro keeping.ev_rules kept_steps)

lemma write_placeholder_keeps: "evolves rows_kept (write_placeholder sd folder line)"
  unfolding write_placeholder_def by (intro keeping.ev_rules kept_steps)

lemma ask_jikan_keeps: "evolves rows_kept (ask_jikan ms m force)"
  unfolding ask_jikan_def
  by (intro keeping.ev_rules kept_steps) 

text \<open>The three rows of a show, read together.\<close>

definition rows_of :: "int \<Rightarrow> catalog \<Rightarrow> (show_row \<times> shelf \<times> meta_row) option" where
  "rows_of m s =
     (case (show_of m s, shelf_of m (ct_library s), meta_of m s) of
        (Some r, Some h, Some k) \<Rightarrow> Some (r, h, k)
      | _ \<Rightarrow> None)"

lemma rows_of_kept: "rows_kept s t \<Longrightarrow> rows_of m t = rows_of m s"
  by (simp add: rows_kept_def rows_of_def shelf_of_def)

lemma rows_of_update:
  assumes "\<And>r. sh_mal_id (f r) = sh_mal_id r" "\<And>h. sl_mal_id (g h) = sl_mal_id h" "\<And>k. mt_mal_id (e k) = mt_mal_id k"
    and "rows_of m s = Some (r, h, k)"
  shows "rows_of m (snd (update_show m f g e s)) = Some (f r, g h, e k)"
  using assms(4)
  by (auto simp: rows_of_def shelf_of_def find_row_update_same assms(1-3) split: option.splits)

lemma rows_of_some:
  "rows_of m s = Some (r, h, k) \<longleftrightarrow>
     show_of m s = Some r \<and> shelf_of m (ct_library s) = Some h \<and> meta_of m s = Some k"
  by (auto simp: rows_of_def split: option.splits)
section \<open>What a fetch leaves\<close>

text \<open>The row after a successful application, an empty wait and a failure.\<close>

definition settled_as :: "time \<Rightarrow> metadata_outcome \<Rightarrow> show_row \<times> shelf \<times> meta_row \<Rightarrow> bool" where
  "settled_as now out row =
     (case row of (r, h, k) \<Rightarrow>
        (case out of
           Updated m syn p \<Rightarrow> sh_metadata_status r \<in> {''ready'', ''partial''} \<and> sl_synopsis h = Some syn
             \<and> mt_updated_at k = Some now \<and> mt_next_retry_at k = None \<and> mt_retry_count k = 0
         | Failed_forever m e \<Rightarrow> sh_metadata_status r = ''failed'' \<and> sl_synopsis h = None \<and> mt_next_retry_at k = None
         | PendingRetry m t e \<Rightarrow> sh_metadata_status r = ''pending'' \<and> sl_synopsis h = None \<and> mt_next_retry_at k = Some t
             \<and> mt_error k = Some e \<and> saturating_plus now 30 \<le> t
         | Cached m \<Rightarrow> False))"

lemma backoff_bounds: "30 \<le> calculate_backoff n \<and> calculate_backoff n \<le> 1800"
  by (simp add: calculate_backoff_def)

lemma fill_show_rows:
  assumes "rows_of m s = Some (r, h, k)"
  shows "fill_show m d s = (Inr (), snd (fill_show m d s))"
    and "rows_of m (snd (fill_show m d s)) = Some (filled_show d r, filled_shelf d h, filled_meta d (w_now (world_of s)) k)"
proof -
  show "fill_show m d s = (Inr (), snd (fill_show m d s))" by (simp add: fill_show_def)
  show "rows_of m (snd (fill_show m d s)) = Some (filled_show d r, filled_shelf d h, filled_meta d (w_now (world_of s)) k)"
    unfolding fill_show_def
    using rows_of_update [OF _ _ _ assms, of "filled_show d" "filled_shelf d" "filled_meta d (w_now (world_of s))"]
    by (simp add: filled_show_def filled_shelf_def filled_meta_def)
qed

text \<open>What the two applications share: the poster, the row, the names, the folders.\<close>

lemma apply_settles:
  assumes "rows_of m s = Some (r, h, k)" "\<And>p. fd_status (row p) \<in> {''ready'', ''partial''}"
    and "seq (fetch_poster sd m u) (\<lambda>p. seq (fill_show m (row p)) (\<lambda>_. seq (add_title rx m t1 a1 b1) (\<lambda>_.
           seq (add_title rx m (t2 p) a2 b2) (\<lambda>_. finish_apply sd m (row p) msg)))) s = (Inr out, t)"
  shows "\<exists>syn p row'. out = Updated m syn p \<and> rows_of m t = Some row' \<and> settled_as (w_now (world_of s)) out row'"
proof -
  from assms(3) obtain p s1 where s1: "fetch_poster sd m u s = (Inr p, s1)"
    and r1: "seq (fill_show m (row p)) (\<lambda>_. seq (add_title rx m t1 a1 b1) (\<lambda>_.
           seq (add_title rx m (t2 p) a2 b2) (\<lambda>_. finish_apply sd m (row p) msg))) s1 = (Inr out, t)"
    by (rule seq_ok_cases)
  have k1: "rows_kept s s1" using evolvesD [OF fetch_poster_keeps, of s sd m u] s1 by simp
  have rows1: "rows_of m s1 = Some (r, h, k)" using rows_of_kept [OF k1] assms(1) by simp
  have n1: "w_now (world_of s1) = w_now (world_of s)" using k1 by (simp add: rows_kept_def)
  let ?s2 = "snd (fill_show m (row p) s1)"
  from r1 obtain z s2' where "fill_show m (row p) s1 = (Inr z, s2')"
    and "seq (add_title rx m t1 a1 b1) (\<lambda>_. seq (add_title rx m (t2 p) a2 b2) (\<lambda>_. finish_apply sd m (row p) msg)) s2' = (Inr out, t)"
    by (rule seq_ok_cases)
  then have r2: "seq (add_title rx m t1 a1 b1) (\<lambda>_. seq (add_title rx m (t2 p) a2 b2) (\<lambda>_. finish_apply sd m (row p) msg)) ?s2 = (Inr out, t)"
    by simp
  from r2 obtain x s3 where s3: "add_title rx m t1 a1 b1 ?s2 = (Inr x, s3)"
    and r3: "seq (add_title rx m (t2 p) a2 b2) (\<lambda>_. finish_apply sd m (row p) msg) s3 = (Inr out, t)" by (rule seq_ok_cases)
  from r3 obtain y s4 where s4: "add_title rx m (t2 p) a2 b2 s3 = (Inr y, s4)"
    and f: "finish_apply sd m (row p) msg s4 = (Inr out, t)" by (rule seq_ok_cases)
  have "rows_kept ?s2 t"
    using evolvesD [OF add_title_keeps, of ?s2 rx m t1 a1 b1] evolvesD [OF add_title_keeps, of s3 rx m "t2 p" a2 b2]
      evolvesD [OF finish_apply_keeps, of s4 sd m "row p" msg] s3 s4 f by (auto intro: keeping.evo_trans)
  then have "rows_of m t = Some (filled_show (row p) r, filled_shelf (row p) h, filled_meta (row p) (w_now (world_of s)) k)"
    using fill_show_rows(2) [OF rows1, of "row p"] n1 by (simp add: rows_of_kept)
  moreover have "out = Updated m (fd_synopsis (row p)) (fd_poster (row p))"
    using f by (simp add: finish_apply_def)
  ultimately show ?thesis
    using assms(2) [of p] by (auto simp: settled_as_def filled_show_def filled_shelf_def filled_meta_def)
qed

lemma apply_jikan_settles:
  "apply_jikan_metadata sd m e x d s = (Inr out, t) \<Longrightarrow> rows_of m s = Some row \<Longrightarrow>
   \<exists>row'. (\<exists>syn p. out = Updated m syn p) \<and> rows_of m t = Some row' \<and> settled_as (w_now (world_of s)) out row'"
  using apply_settles [of m s "fst row" "fst (snd row)" "snd (snd row)" "jikan_filled d e"]
  unfolding apply_jikan_metadata_def Let_def by (fastforce simp: jikan_filled_def)

lemma apply_mal_settles:
  "apply_mal_metadata sd m e x d s = (Inr out, t) \<Longrightarrow> rows_of m s = Some row \<Longrightarrow>
   \<exists>row'. (\<exists>syn p. out = Updated m syn p) \<and> rows_of m t = Some row' \<and> settled_as (w_now (world_of s)) out row'"
  using apply_settles [of m s "fst row" "fst (snd row)" "snd (snd row)" "mal_filled d e"]
  unfolding apply_mal_metadata_def Let_def by (fastforce simp: mal_filled_def)

lemma failure_settles:
  assumes "rows_of m s = Some (r, h, k)" "seq (update_show m f g e) (\<lambda>_. seq (write_placeholder sd folder line) (\<lambda>_.
      seq (attempt (on_world (log_warn None (Some m) msg))) (\<lambda>_. ret out))) s = (Inr out', t)"
    and "\<And>r. sh_mal_id (f r) = sh_mal_id r" "\<And>h. sl_mal_id (g h) = sl_mal_id h" "\<And>k. mt_mal_id (e k) = mt_mal_id k"
  shows "out' = out \<and> rows_of m t = Some (f r, g h, e k)"
proof -
  let ?u = "snd (update_show m f g e s)"
  have "seq (write_placeholder sd folder line) (\<lambda>_. seq (attempt (on_world (log_warn None (Some m) msg))) (\<lambda>_. ret out)) ?u
      = (Inr out', t)"
    using assms(2) by (subst (asm) seq_Inr [OF update_show_run]) simp
  then obtain x v where v: "write_placeholder sd folder line ?u = (Inr x, v)"
    "seq (attempt (on_world (log_warn None (Some m) msg))) (\<lambda>_. ret out) v = (Inr out', t)" by (rule seq_ok_cases)
  have "rows_kept ?u v" using evolvesD [OF write_placeholder_keeps, of ?u sd folder line] v(1) by simp
  moreover have "rows_kept v t" using v(2) evolvesD [OF log_keeps(2), of v None "Some m" msg] by auto
  ultimately have "rows_of m t = rows_of m ?u" using rows_of_kept keeping.evo_trans by blast
  moreover have "out' = out" using v(2) by auto
  ultimately show ?thesis using rows_of_update [OF assms(3-5,1)] by simp
qed

lemma retry_settles:
  assumes "rows_of m s = Some row" "retry_later sd m folder retries jr s = (Inr out, t)"
  shows "\<exists>row' n e. out = PendingRetry m n e \<and> rows_of m t = Some row' \<and> settled_as (w_now (world_of s)) out row'"
proof -
  obtain r h k where row: "row = (r, h, k)" by (cases row)
  let ?count = "wrap_u32 (int retries + 1)"
  have "(30 :: int) \<le> max (int (calculate_backoff ?count)) (jr_wait jr)"
    using backoff_bounds [of ?count] by (simp add: le_max_iff_disj)
  then have "saturating_plus (w_now (world_of s)) 30 \<le> saturating_plus (w_now (world_of s)) (max (int (calculate_backoff ?count)) (jr_wait jr))"
    by (simp add: saturating_plus_def)
  then show ?thesis
    using failure_settles [OF assms(1) [unfolded row] assms(2) [unfolded retry_later_def seq_gets Let_def]]
    by (auto simp: settled_as_def)
qed

lemma fail_settles:
  assumes "rows_of m s = Some row" "fail_for_good sd m folder retries s = (Inr out, t)"
  shows "\<exists>row' e. out = Failed_forever m e \<and> rows_of m t = Some row' \<and> settled_as (w_now (world_of s)) out row'"
proof -
  obtain r h k where row: "row = (r, h, k)" by (cases row)
  show ?thesis
    using failure_settles [OF assms(1) [unfolded row] assms(2) [unfolded fail_for_good_def Let_def]]
    by (auto simp: settled_as_def)
qed
lemma ask_jikan_ok: "fst (ask_jikan ms m force s) = Inr (the (case fst (ask_jikan ms m force s) of Inr x \<Rightarrow> Some x | Inl e \<Rightarrow> None))"
  unfolding ask_jikan_def
  by (auto simp: raise_retry_at_def split: sum.split prod.split)

lemma fetch_from_services_settles:
  assumes "rows_of m s = Some (r, h, k)" "fetch_from_services ms sd st r h k force s = (Inr out, t)"
  shows "\<exists>row'. rows_of m t = Some row' \<and> settled_as (w_now (world_of s)) out row'
    \<and> out \<noteq> Cached m' \<and> (\<exists>syn p n e. out \<in> {Updated m syn p, PendingRetry m n e, Failed_forever m e})"
proof -
  have m: "sh_mal_id r = m" using assms(1) find_row_key by (fastforce simp: rows_of_some)
  let ?s1 = "snd (update_show m (\<lambda>x. x\<lparr>sh_metadata_status := ''fetching''\<rparr>) (\<lambda>x. x) (\<lambda>x. x) s)"
  have r1: "\<exists>row. rows_of m ?s1 = Some row"
    using rows_of_update [OF _ _ _ assms(1), of "\<lambda>x. x\<lparr>sh_metadata_status := ''fetching''\<rparr>" "\<lambda>x. x" "\<lambda>x. x"] by simp
  have n1: "w_now (world_of ?s1) = w_now (world_of s)" by simp
  from assms(2) [unfolded fetch_from_services_def Let_def m] obtain u jr s2 where
    "update_show m (\<lambda>x. x\<lparr>sh_metadata_status := ''fetching''\<rparr>) (\<lambda>x. x) (\<lambda>x. x) s = (Inr (), u)"
    "ask_jikan ms m force u = (Inr jr, s2)"
    and run: "(case jr_data jr of
        Some d \<Rightarrow>
          if has_text (jf_synopsis d) then apply_jikan_metadata sd m (sh_english_title r) (sl_poster_path h) d
          else (case fst (ask_mal ms st m force) of
                  Some x \<Rightarrow> apply_mal_metadata sd m (sh_english_title r) (sl_poster_path h) x
                | None \<Rightarrow> apply_jikan_metadata sd m (sh_english_title r) (sl_poster_path h) d)
      | None \<Rightarrow>
          (case ask_mal ms st m force of
             (Some x, _) \<Rightarrow> apply_mal_metadata sd m (sh_english_title r) (sl_poster_path h) x
           | (None, missing) \<Rightarrow>
               if jr_missing jr \<or> missing then fail_for_good sd m (sl_folder_path h) (wrap_u32 (mt_retry_count k))
               else retry_later sd m (sl_folder_path h) (wrap_u32 (mt_retry_count k)) jr)) s2 = (Inr out, t)"
    by (elim seq_ok_cases) simp
  then have "u = ?s1" by simp
  then have "rows_kept ?s1 s2" using evolvesD [OF ask_jikan_keeps, of u ms m force] \<open>ask_jikan ms m force u = (Inr jr, s2)\<close> by simp
  then have r2: "\<exists>row. rows_of m s2 = Some row" and n2: "w_now (world_of s2) = w_now (world_of s)"
    using r1 n1 by (simp_all only: rows_of_kept) (simp add: rows_kept_def)
  from r2 obtain row where row: "rows_of m s2 = Some row" by blast
  note parts = apply_jikan_settles [OF _ row] apply_mal_settles [OF _ row] retry_settles [OF row] fail_settles [OF row]
  show ?thesis
    using run parts n2
    by (auto split: option.splits if_splits prod.splits; fastforce)
qed

text \<open>
  C15: a fetch leaves the row in the state its outcome names. When fetching the metadata of
  a show returns Ok, then either nothing was done (the row is fresh, or its wait is not
  over), or the row is settled: ready or partial with the reported synopsis and no retry pending; failed
  for a show that does not exist; or pending with the reported time, at least 30 seconds
  away, as its next attempt. A fetch that asked the services never leaves the show in fetching.
\<close>

theorem fetch_show_metadata_settles:
  assumes "fetch_show_metadata ms sd m force s = (Inr out, t)"
  shows "(t = s \<and> \<not> force \<and> (out = Cached m \<or> (\<exists>n e. out = PendingRetry m n e \<and> w_now (world_of s) < n)))
    \<or> (\<exists>row. rows_of m t = Some row \<and> settled_as (w_now (world_of s)) out row)"
proof -
  obtain r h k where row: "rows_of m s = Some (r, h, k)"
    using assms by (auto simp: fetch_show_metadata_def rows_of_some split: option.splits)
  then have parts: "show_of m s = Some r" "shelf_of m (ct_library s) = Some h" "meta_of m s = Some k" by (simp_all add: rows_of_some)
  have settled: "\<exists>row. rows_of m t = Some row \<and> settled_as (w_now (world_of s)) out row"
    if "fetch_from_services ms sd (w_settings (world_of s)) r h k force s = (Inr out, t)"
    using fetch_from_services_settles [OF row that] by blast
  show ?thesis
    using assms settled by (auto simp: fetch_show_metadata_def parts Let_def split: if_splits option.splits)
qed
lemma claim_cases:
  assumes "claim_next_metadata_job s = (Inr (Some m), t)"
  obtains r where "r \<in> set (w_shows (world_of s))" "sh_mal_id r = m" "claimable (w_now (world_of s)) s r"
    "\<forall>r'\<in>set (w_shows (world_of s)). claimable (w_now (world_of s)) s r' \<longrightarrow> claim_key s r \<le> claim_key s r'"
    "t = map_shows (\<lambda>x. sh_mal_id x = m) (\<lambda>x. x\<lparr>sh_metadata_status := ''fetching''\<rparr>)
           (map_meta (\<lambda>k. mt_mal_id k = m) (\<lambda>k. k\<lparr>mt_updated_at := Some (w_now (world_of s))\<rparr>) s)"
proof -
  let ?now = "w_now (world_of s)" and ?due = "filter (claimable (w_now (world_of s)) s) (w_shows (world_of s))"
  obtain r rs where sorted: "sort_key (claim_key s) ?due = r # rs" and rm: "sh_mal_id r = m"
    and t: "t = map_shows (\<lambda>x. sh_mal_id x = m) (\<lambda>x. x\<lparr>sh_metadata_status := ''fetching''\<rparr>)
           (map_meta (\<lambda>k. mt_mal_id k = m) (\<lambda>k. k\<lparr>mt_updated_at := Some ?now\<rparr>) s)"
  proof (cases "sort_key (claim_key s) ?due")
    case Nil
    then have "fst (claim_next_metadata_job s) = Inr None" unfolding claim_next_metadata_job_def Let_def by simp
    then show ?thesis using assms by simp
  next
    case (Cons q qs)
    then have "claim_next_metadata_job s = (Inr (Some (sh_mal_id q)),
        map_shows (\<lambda>x. sh_mal_id x = sh_mal_id q) (\<lambda>x. x\<lparr>sh_metadata_status := ''fetching''\<rparr>)
           (map_meta (\<lambda>k. mt_mal_id k = sh_mal_id q) (\<lambda>k. k\<lparr>mt_updated_at := Some ?now\<rparr>) s))"
      unfolding claim_next_metadata_job_def Let_def by simp
    then have "sh_mal_id q = m" "t = map_shows (\<lambda>x. sh_mal_id x = m) (\<lambda>x. x\<lparr>sh_metadata_status := ''fetching''\<rparr>)
           (map_meta (\<lambda>k. mt_mal_id k = m) (\<lambda>k. k\<lparr>mt_updated_at := Some ?now\<rparr>) s)"
      using assms by simp_all
    with Cons that show ?thesis by blast
  qed
  have set: "set (r # rs) = set ?due" by (metis sorted set_sort)
  have "sorted (map (claim_key s) (r # rs))" by (metis sorted sorted_sort_key)
  then have "\<forall>x\<in>set ?due. claim_key s r \<le> claim_key s x" using set by (auto simp: set [symmetric])
  moreover have "r \<in> set ?due" using set by auto
  ultimately show ?thesis using that [of r] rm t by auto
qed

lemma claimed_not_claimable:
  assumes "claim_next_metadata_job s = (Inr (Some m), t)" "now \<le> w_now (world_of s) + METADATA_LEASE_SECONDS"
    and "rows_kept (t\<lparr>ct_library := (ct_library t)\<lparr>lb_world := (world_of t)\<lparr>w_now := now\<rparr>\<rparr>\<rparr>) u"
    and "r \<in> set (w_shows (world_of u))" "sh_mal_id r = m"
  shows "\<not> claimable now u r"
proof -
  have q: "t = map_shows (\<lambda>x. sh_mal_id x = m) (\<lambda>x. x\<lparr>sh_metadata_status := ''fetching''\<rparr>)
           (map_meta (\<lambda>k. mt_mal_id k = m) (\<lambda>k. k\<lparr>mt_updated_at := Some (w_now (world_of s))\<rparr>) s)"
    using assms(1) by (rule claim_cases)
  have st: "sh_metadata_status r = ''fetching''"
  proof -
    have "w_shows (world_of u) = update_rows (\<lambda>x. sh_mal_id x = m) (\<lambda>x. x\<lparr>sh_metadata_status := ''fetching''\<rparr>) (w_shows (world_of s))"
      using assms(3) by (simp add: rows_kept_def q)
    then have "r \<in> (\<lambda>x. x\<lparr>sh_metadata_status := ''fetching''\<rparr>) ` {x \<in> set (w_shows (world_of s)). sh_mal_id x = m} \<union>
        {x \<in> set (w_shows (world_of s)). sh_mal_id x \<noteq> m}"
      using assms(4) by (simp add: set_update_rows)
    then show ?thesis
    proof (elim UnE imageE)
      fix x
      assume "r = x\<lparr>sh_metadata_status := ''fetching''\<rparr>"
      then show ?thesis by simp
    qed (use assms(5) in simp)
  qed
  have "meta_of m u = map_option (\<lambda>k. k\<lparr>mt_updated_at := Some (w_now (world_of s))\<rparr>) (meta_of m s)"
    using assms(3) by (simp add: rows_kept_def q find_row_update_same)
  then show ?thesis using st assms(2,5) by (cases "meta_of m s") (auto simp: claimable_def)
qed


lemma claimed_rows:
  assumes "claim_next_metadata_job s = (Inr (Some m), t)" "show_of m t = Some r"
  shows "sh_metadata_status r = ''fetching''"
proof -
  have t: "t = map_shows (\<lambda>x. sh_mal_id x = m) (\<lambda>x. x\<lparr>sh_metadata_status := ''fetching''\<rparr>)
           (map_meta (\<lambda>k. mt_mal_id k = m) (\<lambda>k. k\<lparr>mt_updated_at := Some (w_now (world_of s))\<rparr>) s)"
    using assms(1) by (rule claim_cases)
  have "show_of m t = map_option (\<lambda>x. x\<lparr>sh_metadata_status := ''fetching''\<rparr>) (show_of m s)"
    unfolding t by (simp add: find_row_update_same)
  with assms(2) show ?thesis by auto
qed

text \<open>
  Working through the queue ends. With a limit of \<open>n\<close> (20 without one) at most that
  many shows are processed, whatever the services answer; each counts as
  updated or failed, and none as cached: a claimed show is in the state fetching, so the
  check for fresh metadata never applies in a batch.
\<close>

theorem process_metadata_queue_report:
  assumes "process_metadata_queue ms sd limit s = (Inr rep, t)"
  shows "mb_processed rep \<le> (case limit of Some n \<Rightarrow> n | None \<Rightarrow> 20)
    \<and> mb_cached rep = 0 \<and> mb_processed rep = mb_updated rep + mb_failed rep"
proof -
  have "process_loop ms sd n rep0 s = (Inr rep, t) \<Longrightarrow> mb_cached rep0 = 0 \<Longrightarrow> mb_processed rep0 = mb_updated rep0 + mb_failed rep0 \<Longrightarrow>
    mb_processed rep \<le> mb_processed rep0 + n \<and> mb_cached rep = 0 \<and> mb_processed rep = mb_updated rep + mb_failed rep" for n rep0 s
  proof (induction n arbitrary: rep0 s)
    case (Suc n)
    from Suc.prems(1) obtain claimed u where claim: "claim_next_metadata_job s = (Inr claimed, u)"
      and run: "(case claimed of None \<Rightarrow> ret rep0 | Some m \<Rightarrow>
         (let rep1 = rep0\<lparr>mb_processed := mb_processed rep0 + 1\<rparr> in
          seq (attempt (fetch_show_metadata (ms n) sd m False)) (\<lambda>r.
          case r of
            Inr (Updated _ _ _) \<Rightarrow> process_loop ms sd n (rep1\<lparr>mb_updated := mb_updated rep1 + 1\<rparr>)
          | Inr (Cached _) \<Rightarrow> process_loop ms sd n (rep1\<lparr>mb_cached := mb_cached rep1 + 1\<rparr>)
          | Inl _ \<Rightarrow> process_loop ms sd n (rep1\<lparr>mb_failed := mb_failed rep1 + 1\<rparr>)
          | Inr _ \<Rightarrow>
              (let rep2 = rep1\<lparr>mb_failed := mb_failed rep1 + 1\<rparr> in
               seq (gets (\<lambda>s. (w_now (world_of s), read_state_time JIKAN_RETRY_KEY s))) (\<lambda>(now, retry_at).
               if \<not> ms_jikan_open (ms n) \<or> now < (case retry_at of Some t \<Rightarrow> t | None \<Rightarrow> 0) then ret rep2
               else process_loop ms sd n rep2))))) u = (Inr rep, t)"
      unfolding process_loop.simps by (rule seq_ok_cases)
    show ?case
    proof (cases claimed)
      case None
      then show ?thesis using run Suc.prems(2,3) by simp
    next
      case (Some m)
      let ?v = "snd (fetch_show_metadata (ms n) sd m False u)"
      have fresh: "fst (fetch_show_metadata (ms n) sd m False u) \<noteq> Inr (Cached j)" for j
      proof
        assume c: "fst (fetch_show_metadata (ms n) sd m False u) = Inr (Cached j)"
        then obtain r h k where rows: "show_of m u = Some r" "shelf_of m (ct_library u) = Some h" "meta_of m u = Some k"
          by (auto simp: fetch_show_metadata_def split: option.splits)
        have "sh_metadata_status r = ''fetching''" using claimed_rows claim Some rows(1) by blast
        then have "\<exists>t'. fetch_from_services (ms n) sd (w_settings (world_of u)) r h k False u = (Inr (Cached j), t')"
          using c rows by (auto simp: fetch_show_metadata_def is_fresh_metadata_def Let_def prod_eq_iff split: option.splits if_splits)
        then show False
          using fetch_from_services_settles [of m u r h k] rows by (fastforce simp: rows_of_some)
      qed
      have count: "mb_processed rep \<le> mb_processed rep0 + Suc n \<and> mb_cached rep = 0 \<and> mb_processed rep = mb_updated rep + mb_failed rep"
        if "process_loop ms sd n rep1 w = (Inr rep, t)" "mb_processed rep1 = mb_processed rep0 + 1" "mb_cached rep1 = 0"
          "mb_processed rep1 = mb_updated rep1 + mb_failed rep1" for rep1 w
        using Suc.IH [OF that(1,3,4)] that(2) by simp
      show ?thesis
        using run Some fresh Suc.prems(2,3)
        by (auto simp: Let_def dest!: count split: sum.splits metadata_outcome.splits if_splits)
    qed
  qed simp
  from this [OF assms [unfolded process_metadata_queue_def]] show ?thesis by simp
qed
lemma chars_of_shape:
  "k \<in> set (chars_of s) \<Longrightarrow> (\<exists>c. k = [c] \<and> (of_char c :: nat) < 128) \<or> (\<forall>c\<in>set k. 128 \<le> (of_char c :: nat))"
proof (induction s rule: chars_of.induct)
  case (2 c cs)
  have "\<forall>x\<in>set (takeWhile is_continuation cs). 128 \<le> (of_char x :: nat)"
    by (auto simp: is_continuation_def dest!: set_takeWhileD)
  with 2 show ?case by (auto split: if_splits)
qed simp

definition plain_text_char :: "char \<Rightarrow> bool" where
  "plain_text_char c \<longleftrightarrow> (32 \<le> (of_char c :: nat) \<or> (of_char c :: nat) \<in> {9, 10, 13}) \<and> (of_char c :: nat) \<noteq> 127"

lemma clean_loop_chars:
  "(\<And>k. k \<in> set ks \<Longrightarrow> (\<exists>c. k = [c] \<and> (of_char c :: nat) < 128) \<or> (\<forall>c\<in>set k. 128 \<le> (of_char c :: nat))) \<Longrightarrow>
   c \<in> set (clean_loop e ks) \<Longrightarrow> plain_text_char c"
proof (induction e ks rule: clean_loop.induct)
  case (2 e k ks)
  have here: "plain_text_char c" if "c \<in> set k" "\<not> is_low_control k" "\<not> is_invisible k"
    using "2.prems"(1) [of k] that
    by (auto simp: plain_text_char_def is_low_control_def is_invisible_def split: if_splits)
  show ?case using 2 here by (auto split: if_splits)
qed simp

lemma words_loop_chars: "c \<in> set w' \<Longrightarrow> w' \<in> set (words_loop w s) \<Longrightarrow> c \<in> set w \<or> (c \<in> set s \<and> \<not> is_space c)"
  by (induction w s rule: words_loop.induct) (auto split: if_splits)

lemma join_with_chars: "c \<in> set (join_with sep ws) \<Longrightarrow> c \<in> set sep \<or> (\<exists>w\<in>set ws. c \<in> set w)"
  by (induction sep ws rule: join_with.induct) auto

text \<open>
  Texts of the services are cleaned. Whatever bytes a synopsis has, what is stored has no escape
  character, no other control character than tab, line feed and carriage return, and no delete
  character; a cleaned single line has no control character at all, so it is one line.
\<close>

theorem clean_texts_safe:
  "(\<forall>c\<in>set (clean_plain_text s). plain_text_char c) \<and>
   (\<forall>c\<in>set (clean_single_line s). 32 \<le> (of_char c :: nat) \<and> (of_char c :: nat) \<noteq> 127)"
proof -
  have plain: "plain_text_char c" if "c \<in> set (clean_plain_text s)" for c
    using that set_trim [of "clean_loop False (chars_of s)"] clean_loop_chars [of "chars_of s"] chars_of_shape
    unfolding clean_plain_text_def by blast
  have "32 \<le> (of_char c :: nat) \<and> (of_char c :: nat) \<noteq> 127" if c: "c \<in> set (clean_single_line s)" for c
  proof -
    let ?m = "map (\<lambda>c. if c \<in> {CHR 0x0D, CHR 0x0A, CHR 0x09} then CHR '' '' else c) (clean_plain_text s)"
    have "c = CHR '' '' \<or> (c \<in> set ?m \<and> \<not> is_space c)"
      using c join_with_chars [of c "'' ''" "split_whitespace ?m"] words_loop_chars [of c _ "[]" ?m]
      unfolding clean_single_line_def split_whitespace_def by auto
    then have "c = CHR '' '' \<or> (plain_text_char c \<and> \<not> is_space c)" using plain by (auto split: if_splits)
    then show ?thesis by (auto simp: plain_text_char_def is_space_def)
  qed
  with plain show ?thesis by blast
qed

lemma limited_not_missing [simp]: "\<not> is_missing (RateLimited a b)"
  by (simp add: is_missing_def)

lemma failed_refresh_run:
  assumes "rows_of m s = Some (r, h, k)" "ms_jikan ms m True = Inl e" "\<not> is_missing e"
    and "trim (s_mal_client_id (w_settings (world_of s))) = []" "read_state_time JIKAN_RETRY_KEY s = None"
  shows "\<exists>n msg row t. fetch_show_metadata ms sd m True s = (Inr (PendingRetry m n msg), t)
    \<and> rows_of m t = Some row \<and> sl_synopsis (fst (snd row)) = None"
proof -
  have rows: "show_of m s = Some r" "shelf_of m (ct_library s) = Some h" "meta_of m s = Some k" "sh_mal_id r = m"
    using assms(1) find_row_key by (fastforce simp: rows_of_some)+
  let ?u = "snd (update_show m (\<lambda>x. x\<lparr>sh_metadata_status := ''fetching''\<rparr>) (\<lambda>x. x) (\<lambda>x. x) s)"
  have ru: "\<exists>row. rows_of m ?u = Some row"
    using rows_of_update [OF _ _ _ assms(1), of "\<lambda>x. x\<lparr>sh_metadata_status := ''fetching''\<rparr>" "\<lambda>x. x" "\<lambda>x. x"] by simp
  have "read_state_time JIKAN_RETRY_KEY ?u = None"
    using assms(5) by (simp add: read_state_time_def map_shows_def map_shelves_def map_meta_def)
  then have "\<exists>jr v. ask_jikan ms m True ?u = (Inr jr, v) \<and> jr_data jr = None \<and> \<not> jr_missing jr"
    using assms(2,3) by (auto simp: ask_jikan_def raise_retry_at_def split: prod.split) 
  then obtain jr v where jr: "ask_jikan ms m True ?u = (Inr jr, v)" "jr_data jr = None" "\<not> jr_missing jr" by blast
  have "rows_kept ?u v" using evolvesD [OF ask_jikan_keeps, of ?u ms m True] jr(1) by simp
  then obtain row where row: "rows_of m v = Some row" using ru by (auto simp: rows_of_kept)
  have pl: "\<exists>w. write_placeholder sd f l x = (Inr (), w)" for f l x
    by (cases f) (auto simp: write_placeholder_def ignore_def)
  have "\<exists>out t. retry_later sd m (sl_folder_path h) (wrap_u32 (mt_retry_count k)) jr v = (Inr out, t)"
  proof -
    have "\<exists>out t. seq (update_show m f g e) (\<lambda>_. seq (write_placeholder sd p l) (\<lambda>_.
        seq (attempt (on_world (log_warn None (Some m) msg))) (\<lambda>_. ret out0))) v = (Inr out, t)" for f g e p l msg and out0 :: metadata_outcome
      using pl [of p l "snd (update_show m f g e v)"] by (auto simp: seq_def split: prod.splits)
    then show ?thesis unfolding retry_later_def seq_gets Let_def .
  qed
  then obtain out t where run: "retry_later sd m (sl_folder_path h) (wrap_u32 (mt_retry_count k)) jr v = (Inr out, t)" by blast
  have "fetch_from_services ms sd (w_settings (world_of s)) r h k True s = (Inr out, t)"
    unfolding fetch_from_services_def Let_def rows(4)
    using jr assms(4) run by (simp add: ask_mal_def seq_def)
  then have "fetch_show_metadata ms sd m True s = (Inr out, t)"
    by (simp add: fetch_show_metadata_def rows Let_def)
  moreover obtain row' n msg where "out = PendingRetry m n msg" "rows_of m t = Some row'" "settled_as (w_now (world_of v)) out row'"
    using retry_settles [OF row run] by blast
  ultimately show ?thesis by (cases row') (auto simp: settled_as_def)
qed

text \<open>
  C40: a refresh that fails erases what was known. When a refresh is forced and Jikan
  cannot be reached (any error but a 404) while no MyAnimeList client is set up, the fetch returns Ok with
  a retry, and the synopsis that the row had, however complete, is gone.
\<close>

theorem failed_refresh_erases_synopsis:
  assumes "rows_of m s = Some (r, h, k)" "ms_jikan ms m True = Inl e" "\<not> is_missing e"
    and "trim (s_mal_client_id (w_settings (world_of s))) = []" "read_state_time JIKAN_RETRY_KEY s = None"
  shows "\<exists>n msg r' h' k' t. fetch_show_metadata ms sd m True s = (Inr (PendingRetry m n msg), t)
    \<and> rows_of m t = Some (r', h', k') \<and> sl_synopsis h' = None"
proof -
  obtain n msg row t where run: "fetch_show_metadata ms sd m True s = (Inr (PendingRetry m n msg), t)"
    and row: "rows_of m t = Some row" "sl_synopsis (fst (snd row)) = None"
    using failed_refresh_run [OF assms] by blast
  obtain r' h' k' where "row = (r', h', k')" by (cases row)
  with run row show ?thesis by auto
qed
section \<open>Witnesses\<close>

definition demo_show :: show_row where
  "demo_show =
     \<lparr> sh_mal_id = 5, sh_title = ''A'', sh_english_title = None, sh_type = ''tv'', sh_status = None, sh_total_episodes = None,
       sh_start_year = None, sh_auto = True, sh_episode_offset = 0, sh_season = 1, sh_metadata_status = ''pending'' \<rparr>"

definition demo_shelf :: shelf where
  "demo_shelf =
     \<lparr> sl_mal_id = 5, sl_folder_path = None, sl_synopsis = Some ''known'', sl_poster_path = None, sl_score = None \<rparr>"

definition demo_meta :: meta_row where
  "demo_meta = \<lparr> mt_mal_id = 5, mt_updated_at = None, mt_next_retry_at = None, mt_retry_count = 0, mt_error = None \<rparr>"

definition demo_catalog :: catalog where
  "demo_catalog =
     \<lparr> ct_library = (demo_library [])\<lparr>lb_world := (empty_world 0)\<lparr>w_shows := [demo_show]\<rparr>, lb_shelves := [demo_shelf]\<rparr>,
       ct_meta = [demo_meta], ct_mal = [], ct_state = (\<lambda>_. None) \<rparr>"

definition demo_services :: metadata_services where
  "demo_services =
     \<lparr> ms_jikan = (\<lambda>_ _. Inl (Timeout ''jikan'' 1)), ms_mal = (\<lambda>_ _. Inr None), ms_token = None, ms_jikan_open = True,
       ms_error_text = (\<lambda>_. ''timeout'') \<rparr>"

lemma demo_rows: "rows_of 5 demo_catalog = Some (demo_show, demo_shelf, demo_meta)"
  by (simp add: rows_of_def shelf_of_def demo_catalog_def demo_show_def demo_shelf_def demo_meta_def)

lemma demo_failure:
  "ms_jikan demo_services m True = Inl (Timeout ''jikan'' 1)" "\<not> is_missing (Timeout ''jikan'' 1)"
  "trim (s_mal_client_id (w_settings (world_of demo_catalog))) = []" "read_state_time JIKAN_RETRY_KEY demo_catalog = None"
  by (simp_all add: demo_services_def is_missing_def demo_catalog_def empty_world_def Settings_default_def trim_def read_state_time_def)

theorem failed_refresh_erases_synopsis_witness:
  "\<exists>sd t. snd (fetch_show_metadata demo_services sd 5 True demo_catalog) = t
     \<and> map_option (\<lambda>(r, h, k). sl_synopsis h) (rows_of 5 demo_catalog) = Some (Some ''known'')
     \<and> map_option (\<lambda>(r, h, k). sl_synopsis h) (rows_of 5 t) = Some None"
proof -
  fix sd
  obtain n msg r h k t where "fetch_show_metadata demo_services sd 5 True demo_catalog = (Inr (PendingRetry 5 n msg), t)"
    "rows_of 5 t = Some (r, h, k)" "sl_synopsis h = None"
    using failed_refresh_erases_synopsis [OF demo_rows demo_failure] by blast
  then show ?thesis by (intro exI [of _ sd] exI [of _ t]) (simp add: demo_rows demo_shelf_def)
qed

theorem fetch_show_metadata_settles_witness:
  "\<exists>sd row. rows_of 5 (snd (fetch_show_metadata demo_services sd 5 True demo_catalog)) = Some row
     \<and> sh_metadata_status (fst row) \<noteq> ''fetching''"
proof -
  fix sd
  let ?t = "snd (fetch_show_metadata demo_services sd 5 True demo_catalog)"
  have "\<exists>out. fst (fetch_show_metadata demo_services sd 5 True demo_catalog) = Inr out"
    using failed_refresh_run [OF demo_rows demo_failure, of sd] by (metis fst_conv)
  then obtain out where run: "fetch_show_metadata demo_services sd 5 True demo_catalog = (Inr out, ?t)" by (auto simp: prod_eq_iff)
  from fetch_show_metadata_settles [OF run] obtain row where row: "rows_of 5 ?t = Some row" "settled_as 0 out row"
    by (auto simp: demo_catalog_def empty_world_def)
  then have "sh_metadata_status (fst row) \<noteq> ''fetching''" by (cases out) (auto simp: settled_as_def split: prod.splits)
  with row show ?thesis by blast
qed


theorem process_metadata_queue_report_witness:
  "\<exists>sd rep t. process_metadata_queue (\<lambda>_. demo_services) sd (Some 1) demo_catalog = (Inr rep, t) \<and> mb_processed rep \<le> 1"
proof -
  fix sd
  have "\<exists>c u. claim_next_metadata_job s = (Inr c, u)" for s
    by (simp add: claim_next_metadata_job_def Let_def split: list.split)
  then obtain c u where "claim_next_metadata_job demo_catalog = (Inr c, u)" by blast
  then have "\<exists>rep t. process_metadata_queue (\<lambda>_. demo_services) sd (Some 1) demo_catalog = (Inr rep, t)"
    by (auto simp: process_metadata_queue_def Let_def split: option.split sum.split metadata_outcome.split)
  then obtain rep t where run: "process_metadata_queue (\<lambda>_. demo_services) sd (Some 1) demo_catalog = (Inr rep, t)" by blast
  from process_metadata_queue_report [OF run] run show ?thesis by auto
qed

end
