(* ===== verification/MalSync.thy ===== *)
theory MalSync
  imports Chains Metadata
begin

text \<open>
  \<open>mal/sync.rs\<close>, \<open>mal/jikan_sync.rs\<close>, \<open>mal/jikan_parse.rs\<close> and the list calls of \<open>mal/client.rs\<close>: the
  user's list is fetched, compared with the table \<open>mal_entries\<close> and written to the shows. What
  the gate and the JSON decoder make of a request is given as a function of its page.
\<close>

named_theorems malsync_simps \<open>unfolding rules of the synchronisation\<close>

section \<open>The stored list\<close>

record stored_entry =
  ste_status :: string
  ste_watched :: int
  ste_score :: "int option"
  ste_updated_at :: "string option"
  ste_source :: string

definition stored_changed :: "stored_entry \<Rightarrow> mal_entry \<Rightarrow> bool" where
  "stored_changed x m \<longleftrightarrow>
     ste_status x \<noteq> ListStatus_as_str (le_list_status (me_entry m))
     \<or> ste_watched x \<noteq> le_watched_count (me_entry m)
     \<or> ste_score x \<noteq> me_score m
     \<or> ste_updated_at x \<noteq> me_updated_at m
     \<or> ste_source x \<noteq> me_source m"

text \<open>
  \<open>updated_at\<close> is an INTEGER column: SQLite stores a text that is a number (here: an
  \<open>i64\<close>) as that number, and the driver refuses to read a number as a text. \<open>.ok()\<close> turns the
  refusal into \<open>None\<close>.
\<close>

definition integer_cell :: "string \<Rightarrow> cell" where
  "integer_cell t = (case parse_signed_i64 t of Some n \<Rightarrow> CInt n | None \<Rightarrow> CText t)"

definition load_mal_entry :: "int \<Rightarrow> catalog \<Rightarrow> stored_entry option" where
  "load_mal_entry i s =
     Option.bind (find_row mr_mal_id i (ct_mal s)) (\<lambda>r.
       case mr_updated_at r of
         CInt n \<Rightarrow> None
       | CText t \<Rightarrow>
           Some \<lparr> ste_status = mr_list_status r, ste_watched = mr_watched_count r, ste_score = mr_score r,
                  ste_updated_at = Some t, ste_source = mr_source r \<rparr>)"

definition mal_row_of :: "mal_entry \<Rightarrow> string \<Rightarrow> mal_row" where
  "mal_row_of m t =
     \<lparr> mr_mal_id = mal_id m, mr_list_status = ListStatus_as_str (le_list_status (me_entry m)),
       mr_watched_count = le_watched_count (me_entry m), mr_score = me_score m, mr_updated_at = integer_cell t,
       mr_source = me_source m \<rparr>"

definition not_null_failed :: error where
  "not_null_failed = Db ''NOT NULL constraint failed: mal_entries.updated_at''"

text \<open>The column is NOT NULL: an entry without a date cannot be saved.\<close>

definition save_mal_entry :: "mal_entry \<Rightarrow> unit cataloguing" where
  "save_mal_entry m =
     (case me_updated_at m of
        None \<Rightarrow> throw not_null_failed
      | Some t \<Rightarrow>
          (\<lambda>s. if show_of (mal_id m) s = None then (Inl foreign_key_failed, s)
               else if find_row mr_mal_id (mal_id m) (ct_mal s) = None
               then (Inr (), s\<lparr>ct_mal := ct_mal s @ [mal_row_of m t]\<rparr>)
               else (Inr (), s\<lparr>ct_mal := update_rows (\<lambda>r. mr_mal_id r = mal_id m) (\<lambda>_. mal_row_of m t) (ct_mal s)\<rparr>)))"

section \<open>The shows\<close>

definition new_full_show :: "mal_entry \<Rightarrow> show_row" where
  "new_full_show m =
     (let e = me_entry m in
      \<lparr> sh_mal_id = le_mal_id e, sh_title = le_title e, sh_english_title = le_english_title e,
        sh_type = show_type_text (me_media_type m), sh_status = airing_text (me_airing_status m),
        sh_total_episodes = le_total_episodes e, sh_start_year = le_start_year e, sh_auto = le_auto e,
        sh_episode_offset = le_episode_offset e, sh_season = le_season e, sh_metadata_status = ''pending'' \<rparr>)"

definition refreshed_full_show :: "mal_entry \<Rightarrow> show_row \<Rightarrow> show_row" where
  "refreshed_full_show m r =
     (let e = me_entry m in
      r\<lparr> sh_title := le_title e, sh_english_title := coalesce (le_english_title e) (sh_english_title r),
         sh_type := show_type_text (me_media_type m),
         sh_status := coalesce (airing_text (me_airing_status m)) (sh_status r),
         sh_total_episodes := coalesce (le_total_episodes e) (sh_total_episodes r),
         sh_start_year := coalesce (le_start_year e) (sh_start_year r),
         sh_auto := le_auto e, sh_episode_offset := le_episode_offset e, sh_season := le_season e,
         sh_metadata_status := (if sh_metadata_status r \<in> {''ready'', ''partial''} then sh_metadata_status r else ''pending'') \<rparr>)"

definition refreshed_shelf :: "mal_entry \<Rightarrow> shelf \<Rightarrow> shelf" where
  "refreshed_shelf m h =
     h\<lparr> sl_poster_path := (case sl_poster_path h of
          Some p \<Rightarrow> if like_http p then coalesce (me_poster_url m) (Some p) else Some p
        | None \<Rightarrow> me_poster_url m),
        sl_synopsis := (case sl_synopsis h of
          Some t \<Rightarrow> if sql_trim t \<noteq> [] then Some t else coalesce (me_synopsis m) (Some t)
        | None \<Rightarrow> me_synopsis m) \<rparr>"

definition upsert_show_full :: "mal_entry \<Rightarrow> unit cataloguing" where
  "upsert_show_full m =
     (\<lambda>s. if show_of (mal_id m) s = None
          then (Inr (),
            s\<lparr>ct_library := (ct_library s)
                \<lparr>lb_world := (world_of s)\<lparr>w_shows := w_shows (world_of s) @ [new_full_show m]\<rparr>,
                 lb_shelves := lb_shelves (ct_library s) @
                   [\<lparr> sl_mal_id = mal_id m, sl_folder_path = None, sl_synopsis = me_synopsis m,
                      sl_poster_path = me_poster_url m, sl_score = None \<rparr>]\<rparr>,
              ct_meta := ct_meta s @
                [\<lparr> mt_mal_id = mal_id m, mt_updated_at = None, mt_next_retry_at = None, mt_retry_count = 0, mt_error = None \<rparr>]\<rparr>)
          else update_show (mal_id m) (refreshed_full_show m) (refreshed_shelf m) (\<lambda>k. k) s)"

section \<open>The comparison\<close>

record sync_report =
  sx_added :: nat
  sx_updated :: nat
  sx_unchanged :: nat
  sx_removed :: nat
  sx_total :: nat
  sx_relations_failed :: nat
  sx_metadata_jobs_queued :: nat
  sx_renamed :: "string list"
  sx_entries :: "list_entry list"

definition new_report :: "nat \<Rightarrow> nat \<Rightarrow> sync_report" where
  "new_report n failed =
     \<lparr> sx_added = 0, sx_updated = 0, sx_unchanged = 0, sx_removed = 0, sx_total = n, sx_relations_failed = failed,
       sx_metadata_jobs_queued = 0, sx_renamed = [], sx_entries = [] \<rparr>"

definition SyncReport_summary :: "sync_report \<Rightarrow> string" where
  "SyncReport_summary r =
     ''MAL list: '' @ show_nat (sx_added r) @ '' new, '' @ show_nat (sx_updated r) @ '' updated, ''
     @ show_nat (sx_unchanged r) @ '' unchanged, '' @ show_nat (sx_removed r) @ '' removed, '' @ show_nat (sx_total r) @ '' total''
     @ (if 0 < sx_relations_failed r
        then '' ('' @ show_nat (sx_relations_failed r) @ '' season-relation lookups failed; those stay single-season)'' else [])
     @ (if 0 < sx_metadata_jobs_queued r
        then '', '' @ show_nat (sx_metadata_jobs_queued r) @ '' metadata refresh jobs queued'' else [])"

definition in_quotes :: "string \<Rightarrow> string" where
  "in_quotes t = [char_of (34 :: nat)] @ t @ [char_of (34 :: nat)]"

definition raise_entry_changed :: "int \<Rightarrow> string \<Rightarrow> string \<Rightarrow> int option \<Rightarrow> bool cataloguing" where
  "raise_entry_changed m title detail expires_in =
     seq (gets (\<lambda>s. (w_now (world_of s),
       list_ex (\<lambda>q. qu_mal_id q = Some m) (QuestionStore_of_kind QEntryChanged (w_now (world_of s)) (world_of s))))) (\<lambda>(now, asked).
     if asked then ret False
     else seq (on_world (QuestionStore_ask None (Some m) (EntryChanged m title detail) now expires_in)) (\<lambda>_. ret True))"

text \<open>What is done about a changed title: the question, in the MyAnimeList sync; nothing in the other.\<close>

definition ask_about_rename :: "mal_entry \<Rightarrow> string \<Rightarrow> unit cataloguing" where
  "ask_about_rename m old =
     (let title = le_title (me_entry m) in
      seq (gets (\<lambda>s. int (s_question_expiry_hours (w_settings (world_of s))) * 3600)) (\<lambda>expires.
      seq (raise_entry_changed (mal_id m) title
             (''MAL renamed this entry from '' @ in_quotes old @ '' to '' @ in_quotes title) (Some expires)) (\<lambda>asked.
      if asked
      then seq (attempt (on_world (log_warn None (Some (mal_id m))
             (''MAL sync: renamed '' @ in_quotes old @ '' to '' @ in_quotes title)))) (\<lambda>_. ret ())
      else ret ())))"

definition sync_listed ::
  "matcher \<Rightarrow> string \<Rightarrow> (mal_entry \<Rightarrow> string \<Rightarrow> unit cataloguing) \<Rightarrow> mal_entry \<Rightarrow> sync_report \<Rightarrow> sync_report cataloguing" where
  "sync_listed rx source on_rename m rep =
     seq (upsert_show_full m) (\<lambda>_.
     seq (on_world (upsert_names rx (me_entry m))) (\<lambda>_.
     seq (gets (\<lambda>s. (map_option sh_title (show_of (mal_id m) s), load_mal_entry (mal_id m) s))) (\<lambda>(prev_title, stored).
     case stored of
       None \<Rightarrow>
         seq (save_mal_entry m) (\<lambda>_.
         seq (attempt (on_world (log_info None (Some (mal_id m)) (source @ '' sync: added '' @ in_quotes (le_title (me_entry m)))))) (\<lambda>_.
         ret (rep\<lparr>sx_added := sx_added rep + 1\<rparr>)))
     | Some x \<Rightarrow>
         seq (case prev_title of
                Some old \<Rightarrow>
                  if old \<noteq> le_title (me_entry m)
                  then seq (on_rename m old) (\<lambda>_. ret (rep\<lparr>sx_renamed := sx_renamed rep @ [le_title (me_entry m)]\<rparr>))
                  else ret rep
              | None \<Rightarrow> ret rep) (\<lambda>rep1.
         if stored_changed x m
         then seq (save_mal_entry m) (\<lambda>_. ret (rep1\<lparr>sx_updated := sx_updated rep1 + 1\<rparr>))
         else ret (rep1\<lparr>sx_unchanged := sx_unchanged rep1 + 1\<rparr>)))))"

fun sync_entries ::
  "matcher \<Rightarrow> string \<Rightarrow> (mal_entry \<Rightarrow> string \<Rightarrow> unit cataloguing) \<Rightarrow> mal_entry list \<Rightarrow> sync_report \<Rightarrow> sync_report cataloguing" where
  "sync_entries rx source on_rename [] rep = ret rep"
| "sync_entries rx source on_rename (m # ms) rep =
     seq (sync_listed rx source on_rename m rep) (sync_entries rx source on_rename ms)"

definition remove_entry :: "string \<Rightarrow> int \<Rightarrow> unit cataloguing" where
  "remove_entry line i =
     seq (modify (\<lambda>s. map_shows (\<lambda>r. sh_mal_id r = i) (\<lambda>r. r\<lparr>sh_auto := False\<rparr>)
            (s\<lparr>ct_mal := filter (\<lambda>r. mr_mal_id r \<noteq> i) (ct_mal s)\<rparr>))) (\<lambda>_.
     seq (attempt (on_world (log_info None (Some i) line))) (\<lambda>_. ret ()))"

text \<open>The ids no longer on the list; a table is read in the order of its primary key.\<close>

definition gone_ids :: "(mal_row \<Rightarrow> bool) \<Rightarrow> int list \<Rightarrow> catalog \<Rightarrow> int list" where
  "gone_ids mine fetched s = filter (\<lambda>i. i \<notin> set fetched) (sort (map mr_mal_id (filter mine (ct_mal s))))"

definition SYNC_STATE_KEY :: string where "SYNC_STATE_KEY = ''last_mal_sync_at''"

definition finish_sync ::
  "string \<Rightarrow> string \<Rightarrow> (mal_row \<Rightarrow> bool) \<Rightarrow> mal_entry list \<Rightarrow> sync_report \<Rightarrow> sync_report cataloguing" where
  "finish_sync source gone_line mine entries rep =
     seq (gets (gone_ids mine (map mal_id entries))) (\<lambda>gone.
     seq (for_each (remove_entry gone_line) gone) (\<lambda>_.
     seq queue_stale_metadata (\<lambda>queued.
     seq (gets (\<lambda>s. w_now (world_of s))) (\<lambda>now.
     seq (write_state SYNC_STATE_KEY (show_int now)) (\<lambda>_.
     let rep1 = rep\<lparr>sx_removed := sx_removed rep + length gone, sx_metadata_jobs_queued := queued,
                    sx_entries := map me_entry entries\<rparr>
     in seq (attempt (on_world (log_info None None
          (source @ '' sync: '' @ show_nat (sx_added rep1) @ '' new, '' @ show_nat (sx_updated rep1) @ '' updated, ''
           @ show_nat (sx_unchanged rep1) @ '' unchanged, '' @ show_nat (sx_removed rep1) @ '' removed, ''
           @ show_nat queued @ '' metadata refresh queued'')))) (\<lambda>_.
        ret rep1))))))"

definition sync_list :: "matcher \<Rightarrow> (error + string) \<Rightarrow> (error + mal_entry list \<times> nat) \<Rightarrow> sync_report cataloguing" where
  "sync_list rx account fetched =
     seq (case account of Inr name \<Rightarrow> write_state ''mal_account'' name | Inl _ \<Rightarrow> ret ()) (\<lambda>_.
     seq (lift fetched) (\<lambda>(entries, failed).
     seq (sync_entries rx ''MAL'' ask_about_rename entries (new_report (length entries) failed)) (\<lambda>rep.
     finish_sync ''MAL'' ''MAL sync: no longer on your list'' (\<lambda>_. True) entries rep)))"

section \<open>Fetching the list\<close>

text \<open>One page of the list endpoint: its items, and whether there is a next page.\<close>

definition MAX_PAGES :: nat where "MAX_PAGES = 20"

fun fetch_pages :: "nat \<Rightarrow> (nat \<Rightarrow> error + list_item list \<times> bool) \<Rightarrow> nat \<Rightarrow> mal_entry list \<Rightarrow> error + mal_entry list" where
  "fetch_pages 0 page offset out = Inr out"
| "fetch_pages (Suc n) page offset out =
     (case page offset of
        Inl e \<Rightarrow> Inl e
      | Inr (items, has_next) \<Rightarrow>
          if items = [] then Inr out
          else
            let out1 = out @ map to_mal_entry items in
            if has_next then fetch_pages n page (offset + length items) out1 else Inr out1)"

text \<open>\<open>MalClient::fetch\<close>: a lookup of the relations of every entry; it fails when all of them fail.\<close>

definition fetch_chains ::
  "matcher \<Rightarrow> hashing \<Rightarrow> (nat \<Rightarrow> error + list_item list \<times> bool) \<Rightarrow> (int \<Rightarrow> error + relation list) \<Rightarrow> error + mal_entry list \<times> nat" where
  "fetch_chains rx h page lookup =
     (case fetch_pages MAX_PAGES page 0 [] of
        Inl e \<Rightarrow> Inl e
      | Inr entries \<Rightarrow>
          (let errors = concat (map (\<lambda>m. case lookup (mal_id m) of Inl e \<Rightarrow> [e] | Inr _ \<Rightarrow> []) entries) in
           case errors of
             e # _ \<Rightarrow>
               if length errors = length entries then Inl e
               else Inr (build_chains rx h (\<lambda>i. case lookup i of Inr rs \<Rightarrow> Some rs | Inl _ \<Rightarrow> None) entries, length errors)
           | [] \<Rightarrow> Inr (build_chains rx h (\<lambda>i. case lookup i of Inr rs \<Rightarrow> Some rs | Inl _ \<Rightarrow> None) entries, 0)))"

section \<open>The public list\<close>

record load_item =
  ld_status :: int
  ld_score :: "int option"
  ld_watched :: "int option"
  ld_updated_at :: "json option"
  ld_title :: json
  ld_title_eng :: "json option"
  ld_episodes :: "int option"
  ld_airing :: "int option"
  ld_id :: int
  ld_media :: "string option"
  ld_image :: "string option"
  ld_start_date :: "string option"

text \<open>\<open>shown\<close> is the text of a number that is no integer.\<close>

definition value_to_string :: "(f64 \<Rightarrow> string) \<Rightarrow> json \<Rightarrow> string option" where
  "value_to_string shown v =
     (case v of
        JStr t \<Rightarrow> if trim t = [] then None else Some (trim t)
      | JInt n \<Rightarrow> Some (show_int n)
      | JReal x \<Rightarrow> Some (shown x)
      | _ \<Rightarrow> None)"

definition date_parts :: "string \<Rightarrow> string list" where
  "date_parts t = split_on CHR ''-'' [] (map (\<lambda>c. if c = CHR ''/'' \<or> c = CHR ''.'' then CHR ''-'' else c) t)"

definition long_year :: "string \<Rightarrow> int option" where
  "long_year p =
     (if length p = 4
      then Option.bind (parse_signed_i64 p) (\<lambda>y. if 1950 \<le> y \<and> y \<le> 2050 then Some y else None)
      else None)"

definition short_year :: "string \<Rightarrow> int option" where
  "short_year p =
     (if length p = 2
      then map_option (\<lambda>yy. if yy \<le> 50 then 2000 + yy else 1900 + yy) (parse_signed_i64 p)
      else None)"

definition parse_start_year :: "string \<Rightarrow> int option" where
  "parse_start_year t =
     (case somes (map long_year (date_parts t)) of
        y # _ \<Rightarrow> Some y
      | [] \<Rightarrow> short_year (last (date_parts t)))"

definition load_status :: "int \<Rightarrow> list_status" where
  "load_status n =
     (if n = 1 then Watching else if n = 2 then Completed else if n = 3 then OnHold else if n = 4 then Dropped
      else PlanToWatch)"

definition load_airing :: "int option \<Rightarrow> string option" where
  "load_airing a =
     (if a = Some 1 then Some ''currently_airing'' else if a = Some 2 then Some ''finished_airing''
      else if a = Some 3 then Some ''not_yet_aired'' else None)"

definition push_unique :: "string \<Rightarrow> string list \<Rightarrow> string list" where
  "push_unique n ns = (if n \<in> set ns then ns else ns @ [n])"

definition push_some :: "string option \<Rightarrow> string list \<Rightarrow> string list" where
  "push_some n ns = (case n of Some x \<Rightarrow> push_unique x ns | None \<Rightarrow> ns)"

definition load_entry :: "(f64 \<Rightarrow> string) \<Rightarrow> load_item \<Rightarrow> mal_entry" where
  "load_entry shown it =
     (let status = load_status (ld_status it);
          title = (case value_to_string shown (ld_title it) of Some t \<Rightarrow> t | None \<Rightarrow> number_title (ld_id it));
          eng = Option.bind (ld_title_eng it) (value_to_string shown)
      in \<lparr> me_entry =
             \<lparr> le_mal_id = ld_id it, le_title = title, le_english_title = eng, le_list_status = status,
               le_watched_count = max 0 (case ld_watched it of Some n \<Rightarrow> n | None \<Rightarrow> 0),
               le_total_episodes = positive (ld_episodes it),
               le_start_year = Option.bind (ld_start_date it) parse_start_year,
               le_auto = (status = Watching), le_episode_offset = 0, le_names = push_some eng [title],
               le_franchise = ld_id it, le_season = 1 \<rparr>,
           me_score = ld_score it, me_updated_at = Option.bind (ld_updated_at it) (value_to_string shown),
           me_media_type = ld_media it, me_airing_status = load_airing (ld_airing it), me_source = ''jikan'',
           me_poster_url = ld_image it, me_synopsis = None \<rparr>)"

text \<open>The pages of \<open>load.json\<close>, by their offset.\<close>

function load_pages ::
  "(f64 \<Rightarrow> string) \<Rightarrow> (nat \<Rightarrow> error + load_item list) \<Rightarrow> nat \<Rightarrow> mal_entry list \<Rightarrow> error + mal_entry list" where
  "load_pages shown page offset out =
     (case page offset of
        Inl e \<Rightarrow> Inl e
      | Inr items \<Rightarrow>
          if items = [] then Inr out
          else
            let out1 = out @ map (load_entry shown) items; offset1 = offset + length items in
            if length items < 300 \<or> 10000 \<le> offset1 then Inr out1
            else load_pages shown page offset1 out1)"
  by pat_completeness auto
termination by (relation "measure (\<lambda>(shown, page, offset, out). 10000 - offset)") auto

declare load_pages.simps [simp del]

record jikan_item =
  ji_id :: int
  ji_title :: string
  ji_score :: "int option"
  ji_status :: "string option"
  ji_seen :: "int option"
  ji_updated_at :: "string option"

definition jikan_entry :: "jikan_item \<Rightarrow> mal_entry" where
  "jikan_entry it =
     (let status = ListStatus_parse (case ji_status it of Some t \<Rightarrow> t | None \<Rightarrow> ''plan_to_watch'') in
      \<lparr> me_entry =
          \<lparr> le_mal_id = ji_id it, le_title = ji_title it, le_english_title = None, le_list_status = status,
            le_watched_count = max 0 (case ji_seen it of Some n \<Rightarrow> n | None \<Rightarrow> 0),
            le_total_episodes = None, le_start_year = None, le_auto = (status = Watching), le_episode_offset = 0,
            le_names = [ji_title it], le_franchise = ji_id it, le_season = 1 \<rparr>,
        me_score = ji_score it, me_updated_at = ji_updated_at it, me_media_type = None, me_airing_status = None,
        me_source = ''jikan'', me_poster_url = None, me_synopsis = None \<rparr>)"

function jikan_pages :: "(nat \<Rightarrow> error + jikan_item list \<times> bool) \<Rightarrow> nat \<Rightarrow> mal_entry list \<Rightarrow> error + mal_entry list" where
  "jikan_pages page n out =
     (case page n of
        Inl e \<Rightarrow> Inl e
      | Inr (items, has_next) \<Rightarrow>
          let out1 = out @ map jikan_entry items in
          if \<not> has_next \<or> items = [] \<or> 20 \<le> n then Inr out1 else jikan_pages page (n + 1) out1)"
  by pat_completeness auto
termination by (relation "measure (\<lambda>(page, n, out). 20 - n)") auto

declare jikan_pages.simps [simp del]

section \<open>The details of Jikan\<close>

record jikan_detail =
  jd_title :: string
  jd_title_english :: "string option"
  jd_title_japanese :: "string option"
  jd_titles :: "string list option"
  jd_media_type :: "string option"
  jd_status :: "string option"
  jd_episodes :: "int option"
  jd_year :: "int option"
  jd_relations :: "(string \<times> (int \<times> string \<times> string) list) list option"

definition enrich_entry :: "jikan_detail \<Rightarrow> mal_entry \<Rightarrow> mal_entry" where
  "enrich_entry d m =
     m\<lparr> me_entry := (me_entry m)
          \<lparr> le_english_title := jd_title_english d, le_total_episodes := positive (jd_episodes d), le_start_year := jd_year d,
            le_names := fold push_unique (case jd_titles d of Some ts \<Rightarrow> ts | None \<Rightarrow> [])
                          (push_some (jd_title_japanese d) (push_some (jd_title_english d) [jd_title d])) \<rparr>,
        me_media_type := jd_media_type d, me_airing_status := jd_status d \<rparr>"

definition bare_node :: "int \<Rightarrow> string \<Rightarrow> mal_node" where
  "bare_node i name =
     \<lparr> no_id = i, no_title = Some name, no_main_title = Some name, no_alternative_titles = None, no_num_episodes = None,
       no_start_season = None, no_media_type = None, no_status = None, no_main_picture = None, no_synopsis = None \<rparr>"

definition detail_relations :: "jikan_detail \<Rightarrow> relation list" where
  "detail_relations d =
     concat (map (\<lambda>(kind, subs). map (\<lambda>(i, t, name). \<lparr> rl_node = bare_node i name, rl_relation_type = lower kind \<rparr>)
               (filter (\<lambda>(i, t, name). t = ''anime'') subs))
       (case jd_relations d of Some rs \<Rightarrow> rs | None \<Rightarrow> []))"

text \<open>The answer for an id: an error of the gate, a body that is no detail, or the detail.\<close>

type_synonym details = "int \<Rightarrow> error + jikan_detail option"

definition enrich :: "details \<Rightarrow> mal_entry \<Rightarrow> mal_entry" where
  "enrich details m = (case details (mal_id m) of Inr (Some d) \<Rightarrow> enrich_entry d m | _ \<Rightarrow> m)"

definition jikan_relations :: "details \<Rightarrow> relations" where
  "jikan_relations details i = (case details i of Inr (Some d) \<Rightarrow> Some (detail_relations d) | _ \<Rightarrow> None)"

section \<open>The synchronisations\<close>

definition local_base :: "settings \<Rightarrow> bool" where
  "local_base st \<longleftrightarrow> contains ''127.0.0.1'' (s_mal_base_url st) \<or> contains ''localhost'' (s_mal_base_url st)"

definition public_entries ::
  "settings \<Rightarrow> (error + mal_entry list) \<Rightarrow> (error + mal_entry list) \<Rightarrow> error + mal_entry list \<times> bool" where
  "public_entries st loaded listed =
     (case loaded of
        Inr (m # ms) \<Rightarrow> Inr (m # ms, True)
      | Inr [] \<Rightarrow> map_sum (\<lambda>e. e) (\<lambda>l. (l, False)) listed
      | Inl e \<Rightarrow> if local_base st then Inl e else map_sum (\<lambda>e. e) (\<lambda>l. (l, False)) listed)"

definition sync_jikan ::
  "matcher \<Rightarrow> hashing \<Rightarrow> (error + mal_entry list) \<Rightarrow> (error + mal_entry list) \<Rightarrow> details \<Rightarrow> sync_report cataloguing" where
  "sync_jikan rx h loaded listed details =
     seq (gets (\<lambda>s. w_settings (world_of s))) (\<lambda>st.
     seq (lift (public_entries st loaded listed)) (\<lambda>(found, is_load_json).
     let failed = (if is_load_json then 0
                   else length (filter (\<lambda>m. case details (mal_id m) of Inl _ \<Rightarrow> True | Inr _ \<Rightarrow> False) found));
         entries = (if is_load_json then build_chains rx h (\<lambda>_. None) found
                    else build_chains rx h (jikan_relations details) (map (enrich details) found))
     in
      seq (sync_entries rx ''Jikan'' (\<lambda>_ _. ret ()) entries (new_report (length found) failed)) (\<lambda>rep.
      finish_sync ''Jikan'' ''Jikan sync: no longer on public list'' (\<lambda>r. mr_source r = ''jikan'') entries rep)))"

definition sync_is_due :: "nat \<Rightarrow> catalog \<Rightarrow> bool" where
  "sync_is_due interval_min s =
     (case read_state_time SYNC_STATE_KEY s of
        Some t \<Rightarrow> int interval_min * 60 \<le> w_now (world_of s) - t
      | None \<Rightarrow> True)"

definition sync_if_due ::
  "matcher \<Rightarrow> (error \<Rightarrow> string) \<Rightarrow> bool \<Rightarrow> (error + string) \<Rightarrow> (error + mal_entry list \<times> nat) \<Rightarrow> sync_report option cataloguing" where
  "sync_if_due rx error_text has_tokens account fetched =
     seq (gets (\<lambda>s. (w_settings (world_of s), sync_is_due (s_mal_sync_interval_min (w_settings (world_of s))) s))) (\<lambda>(st, due).
     if trim (s_mal_client_id st) = [] \<or> \<not> due \<or> \<not> has_tokens then ret None
     else
       seq (attempt (sync_list rx account fetched)) (\<lambda>r.
       case r of
         Inr rep \<Rightarrow> ret (Some rep)
       | Inl e \<Rightarrow>
           seq (attempt (on_world (log_warn None None (''MAL sync failed: '' @ error_text e)))) (\<lambda>_.
           seq (gets (\<lambda>s. w_now (world_of s))) (\<lambda>now.
           seq (write_state SYNC_STATE_KEY (show_int now)) (\<lambda>_. ret None)))))"

section \<open>What the synchronisation keeps\<close>

text \<open>Steps that leave the stored list and the rows of the shows as they are.\<close>

definition list_kept :: "catalog \<Rightarrow> catalog \<Rightarrow> bool" where
  "list_kept s t \<longleftrightarrow> ct_mal t = ct_mal s \<and> w_shows (world_of t) = w_shows (world_of s)"

interpretation listing: evolution list_kept
  by unfold_locales (auto simp: list_kept_def)

definition shows_same :: "world \<Rightarrow> world \<Rightarrow> bool" where
  "shows_same v w \<longleftrightarrow> w_shows w = w_shows v"

interpretation showing: evolution shows_same
  by unfold_locales (auto simp: shows_same_def)

lemma on_world_keeps_list: "evolves shows_same a \<Longrightarrow> evolves list_kept (on_world a)"
  by (simp add: evolves_def shows_same_def list_kept_def)

lemma log_same: "evolves shows_same (log_info j m t)" "evolves shows_same (log_warn j m t)"
  by (simp_all add: evolves_def shows_same_def log_info_def log_warn_def)

lemma insert_name_same: "evolves shows_same (insert_name m n k src p)"
  by (simp add: evolves_def shows_same_def)

lemma sync_one_same: "evolves shows_same (sync_one rx m item)"
  unfolding sync_one_def Let_def by (intro showing.ev_rules insert_name_same)

lemma upsert_names_same: "evolves shows_same (upsert_names rx e)"
  unfolding upsert_names_def NameSet_replace_from_sync_def
  by (intro showing.ev_rules showing.ev_modify sync_one_same) (simp add: shows_same_def)

lemma write_state_keeps_list: "evolves list_kept (write_state key v)"
  by (simp add: evolves_def list_kept_def write_state_def)

lemmas list_kept_steps = on_world_keeps_list [OF log_same(1)] on_world_keeps_list [OF log_same(2)]
  on_world_keeps_list [OF upsert_names_same] write_state_keeps_list

lemma refreshed_title [simp]:
  "sh_title (refreshed_full_show m r) = le_title (me_entry m)" "sh_mal_id (refreshed_full_show m r) = sh_mal_id r"
  by (simp_all add: refreshed_full_show_def Let_def)

lemma upsert_show_full_run:
  "ct_mal (snd (upsert_show_full m s)) = ct_mal s"
  "map_option sh_title (show_of (mal_id m) (snd (upsert_show_full m s))) = Some (le_title (me_entry m))"
  "\<exists>t. upsert_show_full m s = (Inr (), t)"
  by (auto simp: upsert_show_full_def new_full_show_def Let_def find_row_append find_row_update_same)

lemma save_mal_entry_ok:
  assumes "save_mal_entry m s = (Inr x, t)"
  obtains d where "me_updated_at m = Some d" "show_of (mal_id m) s \<noteq> None"
    "t = s\<lparr>ct_mal := (if find_row mr_mal_id (mal_id m) (ct_mal s) = None then ct_mal s @ [mal_row_of m d]
            else update_rows (\<lambda>r. mr_mal_id r = mal_id m) (\<lambda>_. mal_row_of m d) (ct_mal s))\<rparr>"
  using assms by (auto simp: save_mal_entry_def throw_def split: option.splits if_splits)

lemma find_row_put:
  assumes "mr_mal_id r = i"
  shows "find_row mr_mal_id j (if find_row mr_mal_id i rs = None then rs @ [r] else update_rows (\<lambda>x. mr_mal_id x = i) (\<lambda>_. r) rs)
    = (if j = i then Some r else find_row mr_mal_id j rs)"
proof -
  have "find_row mr_mal_id j (update_rows (\<lambda>x. mr_mal_id x = i) (\<lambda>_. r) rs)
      = map_option (\<lambda>x. if mr_mal_id x = i then r else x) (find_row mr_mal_id j rs)"
    by (rule find_row_update_rows) (simp add: assms)
  then show ?thesis using assms
    by (auto simp: find_row_append option.map_id0 map_option_case dest: find_row_key split: option.split)
qed

lemma ids_put:
  assumes "mr_mal_id r = i"
  shows "mr_mal_id ` set (if find_row mr_mal_id i rs = None then rs @ [r] else update_rows (\<lambda>x. mr_mal_id x = i) (\<lambda>_. r) rs)
    = insert i (mr_mal_id ` set rs)"
proof (cases "find_row mr_mal_id i rs = None")
  case True
  then show ?thesis using assms by simp
next
  case False
  then have "i \<in> mr_mal_id ` set rs" by (simp add: find_row_None_iff)
  moreover have "map mr_mal_id (update_rows (\<lambda>x. mr_mal_id x = i) (\<lambda>_. r) rs) = map mr_mal_id rs"
    by (rule map_key_update_rows) (simp add: assms)
  then have "mr_mal_id ` set (update_rows (\<lambda>x. mr_mal_id x = i) (\<lambda>_. r) rs) = mr_mal_id ` set rs"
    by (metis list.set_map)
  ultimately show ?thesis using False by (auto simp: insert_absorb)
qed

text \<open>
  By the time the previous title is read it has been overwritten, so the branch of the renamed
  title is never taken.
\<close>

definition sync_plain :: "string \<Rightarrow> mal_entry \<Rightarrow> sync_report \<Rightarrow> sync_report cataloguing" where
  "sync_plain source m rep =
     seq (gets (load_mal_entry (mal_id m))) (\<lambda>stored.
     case stored of
       None \<Rightarrow>
         seq (save_mal_entry m) (\<lambda>_.
         seq (attempt (on_world (log_info None (Some (mal_id m)) (source @ '' sync: added '' @ in_quotes (le_title (me_entry m)))))) (\<lambda>_.
         ret (rep\<lparr>sx_added := sx_added rep + 1\<rparr>)))
     | Some x \<Rightarrow>
         if stored_changed x m
         then seq (save_mal_entry m) (\<lambda>_. ret (rep\<lparr>sx_updated := sx_updated rep + 1\<rparr>))
         else ret (rep\<lparr>sx_unchanged := sx_unchanged rep + 1\<rparr>))"

lemma sync_listed_plain:
  "sync_listed rx source f m rep s =
     seq (on_world (upsert_names rx (me_entry m))) (\<lambda>_. sync_plain source m rep) (snd (upsert_show_full m s))"
proof -
  obtain u where u: "upsert_show_full m s = (Inr (), u)" using upsert_show_full_run(3) by blast
  obtain r v where v: "on_world (upsert_names rx (me_entry m)) u = (r, v)" by (cases "on_world (upsert_names rx (me_entry m)) u")
  have "list_kept u (snd (on_world (upsert_names rx (me_entry m)) u))"
    by (rule evolvesD, rule on_world_keeps_list, rule upsert_names_same)
  then have old: "map_option sh_title (show_of (mal_id m) v) = Some (le_title (me_entry m))"
    using upsert_show_full_run(2) [of m s] by (simp only: list_kept_def u v snd_conv)
  show ?thesis
  proof (cases r)
    case (Inl e)
    then show ?thesis using v unfolding sync_listed_def seq_Inr [where m = "upsert_show_full m" and s = s, OF u] u snd_conv by (simp only: seq_Inl)
  next
    case (Inr x)
    have v1: "on_world (upsert_names rx (me_entry m)) u = (Inr x, v)" using v Inr by simp
    show ?thesis
      unfolding sync_listed_def seq_Inr [where m = "upsert_show_full m" and s = s, OF u] u snd_conv seq_Inr [where m = "on_world (upsert_names rx (me_entry m))" and s = u, OF v1] sync_plain_def seq_gets prod.case old
      by (cases "load_mal_entry (mal_id m) v") (simp_all only: option.case seq_ret not_True_eq_False if_False simp_thms)
  qed
qed

definition stored_of :: "mal_entry \<Rightarrow> stored_entry" where
  "stored_of m =
     \<lparr> ste_status = ListStatus_as_str (le_list_status (me_entry m)), ste_watched = le_watched_count (me_entry m),
       ste_score = me_score m, ste_updated_at = me_updated_at m, ste_source = me_source m \<rparr>"

lemma stored_changed_iff: "stored_changed x m \<longleftrightarrow> x \<noteq> stored_of m"
  by (cases x) (auto simp: stored_changed_def stored_of_def)

text \<open>A date that SQLite keeps as a text.\<close>

definition textual_date :: "mal_entry \<Rightarrow> bool" where
  "textual_date m \<longleftrightarrow> (case me_updated_at m of Some d \<Rightarrow> parse_signed_i64 d = None | None \<Rightarrow> False)"

definition counted :: "sync_report \<Rightarrow> nat" where
  "counted rep = sx_added rep + sx_updated rep + sx_unchanged rep"

definition mirrored :: "int \<Rightarrow> catalog \<Rightarrow> catalog \<Rightarrow> bool" where
  "mirrored i s t \<longleftrightarrow>
     mr_mal_id ` set (ct_mal t) = insert i (mr_mal_id ` set (ct_mal s))
     \<and> (\<forall>j. j \<noteq> i \<longrightarrow> find_row mr_mal_id j (ct_mal t) = find_row mr_mal_id j (ct_mal s))"

lemma mirrored_refl: "find_row mr_mal_id i (ct_mal s) \<noteq> None \<Longrightarrow> ct_mal t = ct_mal s \<Longrightarrow> mirrored i s t"
  by (auto simp: mirrored_def find_row_None_iff insert_absorb)

lemma save_mirrors:
  assumes "save_mal_entry m s = (Inr x, t)"
  shows "mirrored (mal_id m) s t" "textual_date m \<Longrightarrow> load_mal_entry (mal_id m) t = Some (stored_of m)"
proof -
  obtain d where d: "me_updated_at m = Some d" and t: "ct_mal t =
      (if find_row mr_mal_id (mal_id m) (ct_mal s) = None then ct_mal s @ [mal_row_of m d]
            else update_rows (\<lambda>r. mr_mal_id r = mal_id m) (\<lambda>_. mal_row_of m d) (ct_mal s))"
    using assms by (elim save_mal_entry_ok) simp
  have id: "mr_mal_id (mal_row_of m d) = mal_id m" by (simp add: mal_row_of_def)
  show "mirrored (mal_id m) s t"
    unfolding mirrored_def t using ids_put [OF id] find_row_put [OF id] by simp
  show "load_mal_entry (mal_id m) t = Some (stored_of m)" if "textual_date m"
    unfolding load_mal_entry_def t find_row_put [OF id]
    using that d by (simp add: textual_date_def mal_row_of_def integer_cell_def stored_of_def)
qed

lemma mirrored_kept: "mirrored i s t \<Longrightarrow> list_kept t u \<Longrightarrow> mirrored i s u"
  by (simp add: mirrored_def list_kept_def)

lemma load_kept: "list_kept t u \<Longrightarrow> load_mal_entry i u = load_mal_entry i t"
  by (simp add: load_mal_entry_def list_kept_def)

lemma load_some_row: "load_mal_entry i s = Some x \<Longrightarrow> find_row mr_mal_id i (ct_mal s) \<noteq> None"
  by (cases "find_row mr_mal_id i (ct_mal s)") (simp_all add: load_mal_entry_def)

lemma sync_plain_ok:
  assumes "sync_plain src m rep s = (Inr rep', t)"
  shows "mirrored (mal_id m) s t" "textual_date m \<Longrightarrow> load_mal_entry (mal_id m) t = Some (stored_of m)"
    "sx_renamed rep' = sx_renamed rep" "counted rep' = counted rep + 1" "sx_total rep' = sx_total rep"
    "sx_removed rep' = sx_removed rep"
    "load_mal_entry (mal_id m) s = None \<Longrightarrow> sx_added rep' = sx_added rep + 1"
    "load_mal_entry (mal_id m) s = Some (stored_of m) \<Longrightarrow> sx_unchanged rep' = sx_unchanged rep + 1"
    "load_mal_entry (mal_id m) s = None \<Longrightarrow> me_updated_at m \<noteq> None"
proof -
  have "mirrored (mal_id m) s t \<and> (textual_date m \<longrightarrow> load_mal_entry (mal_id m) t = Some (stored_of m))
      \<and> sx_renamed rep' = sx_renamed rep \<and> counted rep' = counted rep + 1 \<and> sx_total rep' = sx_total rep
      \<and> sx_removed rep' = sx_removed rep
      \<and> (load_mal_entry (mal_id m) s = None \<longrightarrow> sx_added rep' = sx_added rep + 1 \<and> me_updated_at m \<noteq> None)
      \<and> (load_mal_entry (mal_id m) s = Some (stored_of m) \<longrightarrow> sx_unchanged rep' = sx_unchanged rep + 1)"
  proof (cases "load_mal_entry (mal_id m) s")
    case None
    let ?log = "on_world (log_info None (Some (mal_id m)) (src @ '' sync: added '' @ in_quotes (le_title (me_entry m))))"
    have "seq (save_mal_entry m) (\<lambda>_. seq (attempt ?log) (\<lambda>_. ret (rep\<lparr>sx_added := sx_added rep + 1\<rparr>))) s = (Inr rep', t)"
      using assms None by (simp only: sync_plain_def seq_gets option.case)
    then obtain v where v: "save_mal_entry m s = (Inr (), v)"
      and rest: "seq (attempt ?log) (\<lambda>_. ret (rep\<lparr>sx_added := sx_added rep + 1\<rparr>)) v = (Inr rep', t)"
      by (elim seq_ok_cases) simp
    have rep': "rep' = rep\<lparr>sx_added := sx_added rep + 1\<rparr>" and t: "t = snd (?log v)"
      using rest unfolding seq_attempt by (simp_all add: ret_def)
    have kept: "list_kept v t" unfolding t by (rule evolvesD, rule list_kept_steps)
    have "me_updated_at m \<noteq> None" using v by (auto elim: save_mal_entry_ok)
    then show ?thesis
      using None save_mirrors [OF v] mirrored_kept [OF _ kept] load_kept [OF kept] by (simp add: rep' counted_def)
  next
    case (Some x)
    show ?thesis
    proof (cases "stored_changed x m")
      case True
      then have "seq (save_mal_entry m) (\<lambda>_. ret (rep\<lparr>sx_updated := sx_updated rep + 1\<rparr>)) s = (Inr rep', t)"
        using assms Some by (simp only: sync_plain_def seq_gets option.case if_True)
      then have v: "save_mal_entry m s = (Inr (), t)" and rep': "rep' = rep\<lparr>sx_updated := sx_updated rep + 1\<rparr>"
        by (auto elim!: seq_ok_cases simp: ret_def)
      show ?thesis using True Some save_mirrors [OF v] by (simp add: rep' counted_def stored_changed_iff)
    next
      case False
      then have "rep' = rep\<lparr>sx_unchanged := sx_unchanged rep + 1\<rparr>" "t = s"
        using assms Some by (simp_all add: sync_plain_def ret_def)
      then show ?thesis using False Some load_some_row [OF Some]
        by (simp add: counted_def stored_changed_iff mirrored_refl)
    qed
  qed
  then show "mirrored (mal_id m) s t" "textual_date m \<Longrightarrow> load_mal_entry (mal_id m) t = Some (stored_of m)"
    "sx_renamed rep' = sx_renamed rep" "counted rep' = counted rep + 1" "sx_total rep' = sx_total rep"
    "sx_removed rep' = sx_removed rep"
    "load_mal_entry (mal_id m) s = None \<Longrightarrow> sx_added rep' = sx_added rep + 1"
    "load_mal_entry (mal_id m) s = Some (stored_of m) \<Longrightarrow> sx_unchanged rep' = sx_unchanged rep + 1"
    "load_mal_entry (mal_id m) s = None \<Longrightarrow> me_updated_at m \<noteq> None" by simp_all
qed

text \<open>A step of the loop: the rows of the other entries, and what is loaded, are those before it.\<close>

lemma sync_listed_ok:
  assumes "sync_listed rx src f m rep s = (Inr rep', t)"
  obtains v where "ct_mal v = ct_mal s" "sync_plain src m rep v = (Inr rep', t)"
proof -
  let ?u = "snd (upsert_show_full m s)"
  obtain v where v: "on_world (upsert_names rx (me_entry m)) ?u = (Inr (), v)" "sync_plain src m rep v = (Inr rep', t)"
    using assms unfolding sync_listed_plain by (elim seq_ok_cases) simp
  have "list_kept ?u (snd (on_world (upsert_names rx (me_entry m)) ?u))"
    by (rule evolvesD, rule list_kept_steps)
  then have "ct_mal v = ct_mal s" by (simp only: v(1) snd_conv list_kept_def upsert_show_full_run(1))
  then show thesis using that v(2) by blast
qed

lemma load_ct: "ct_mal v = ct_mal s \<Longrightarrow> load_mal_entry i v = load_mal_entry i s"
  by (simp add: load_mal_entry_def)

lemma mirrored_load: "mirrored i s t \<Longrightarrow> j \<noteq> i \<Longrightarrow> load_mal_entry j t = load_mal_entry j s"
  by (simp add: mirrored_def load_mal_entry_def)

lemma sync_entries_Cons_ok:
  assumes "sync_entries rx src f (m # ms) rep s = (Inr rep', t)"
  obtains v rep1 u where "ct_mal v = ct_mal s" "sync_plain src m rep v = (Inr rep1, u)"
    "sync_entries rx src f ms rep1 u = (Inr rep', t)"
proof -
  obtain rep1 u where a: "sync_listed rx src f m rep s = (Inr rep1, u)"
    "sync_entries rx src f ms rep1 u = (Inr rep', t)"
    using assms by (auto elim: seq_ok_cases)
  obtain v where "ct_mal v = ct_mal s" "sync_plain src m rep v = (Inr rep1, u)"
    using a(1) by (rule sync_listed_ok)
  then show thesis using that a(2) by blast
qed

lemma sync_entries_report:
  "sync_entries rx src f ms rep s = (Inr rep', t) \<Longrightarrow>
     sx_renamed rep' = sx_renamed rep \<and> counted rep' = counted rep + length ms \<and> sx_total rep' = sx_total rep
     \<and> sx_removed rep' = sx_removed rep
     \<and> mr_mal_id ` set (ct_mal t) = mal_id ` set ms \<union> mr_mal_id ` set (ct_mal s)"
proof (induction ms arbitrary: rep s)
  case (Cons m ms)
  from Cons.prems obtain v rep1 u where step: "ct_mal v = ct_mal s" "sync_plain src m rep v = (Inr rep1, u)"
    and rest: "sync_entries rx src f ms rep1 u = (Inr rep', t)" by (rule sync_entries_Cons_ok)
  note one = sync_plain_ok [OF step(2)]
  have ids: "mr_mal_id ` set (ct_mal u) = insert (mal_id m) (mr_mal_id ` set (ct_mal s))"
    using one(1) step(1) by (simp add: mirrored_def)
  show ?case using Cons.IH [OF rest] one(3-6) ids by auto
qed (simp add: ret_def)

lemma sync_entries_others:
  "sync_entries rx src f ms rep s = (Inr rep', t) \<Longrightarrow> j \<notin> mal_id ` set ms \<Longrightarrow>
     find_row mr_mal_id j (ct_mal t) = find_row mr_mal_id j (ct_mal s)"
proof (induction ms arbitrary: rep s)
  case (Cons m ms)
  from Cons.prems(1) obtain v rep1 u where step: "ct_mal v = ct_mal s" "sync_plain src m rep v = (Inr rep1, u)"
    and rest: "sync_entries rx src f ms rep1 u = (Inr rep', t)" by (rule sync_entries_Cons_ok)
  show ?case using Cons.IH [OF rest] Cons.prems(2) sync_plain_ok(1) [OF step(2)] step(1) by (simp add: mirrored_def)
qed (simp add: ret_def)

text \<open>What the table holds for an entry after the loop.\<close>

lemma sync_entries_stored:
  "sync_entries rx src f ms rep s = (Inr rep', t) \<Longrightarrow> distinct (map mal_id ms) \<Longrightarrow> m \<in> set ms \<Longrightarrow> textual_date m \<Longrightarrow>
     load_mal_entry (mal_id m) t = Some (stored_of m)"
proof (induction ms arbitrary: rep s)
  case (Cons m1 ms)
  from Cons.prems(1) obtain v rep1 u where step: "ct_mal v = ct_mal s" "sync_plain src m1 rep v = (Inr rep1, u)"
    and rest: "sync_entries rx src f ms rep1 u = (Inr rep', t)" by (rule sync_entries_Cons_ok)
  show ?case
  proof (cases "m = m1")
    case True
    then have "mal_id m \<notin> mal_id ` set ms" using Cons.prems(2) by simp
    then have "load_mal_entry (mal_id m) t = load_mal_entry (mal_id m) u"
      using sync_entries_others [OF rest] by (simp add: load_mal_entry_def)
    then show ?thesis using sync_plain_ok(2) [OF step(2)] Cons.prems(4) True by simp
  next
    case False
    then show ?thesis using Cons.IH [OF rest] Cons.prems by simp
  qed
qed simp

lemma sync_entries_unchanged:
  "sync_entries rx src f ms rep s = (Inr rep', t) \<Longrightarrow> distinct (map mal_id ms) \<Longrightarrow>
     (\<forall>m\<in>set ms. load_mal_entry (mal_id m) s = Some (stored_of m)) \<Longrightarrow> sx_unchanged rep' = sx_unchanged rep + length ms"
proof (induction ms arbitrary: rep s)
  case (Cons m ms)
  from Cons.prems(1) obtain v rep1 u where step: "ct_mal v = ct_mal s" "sync_plain src m rep v = (Inr rep1, u)"
    and rest: "sync_entries rx src f ms rep1 u = (Inr rep', t)" by (rule sync_entries_Cons_ok)
  note one = sync_plain_ok [OF step(2)]
  have "load_mal_entry (mal_id m) v = Some (stored_of m)" using Cons.prems(3) by (simp add: load_ct [OF step(1)])
  then have n: "sx_unchanged rep1 = sx_unchanged rep + 1" by (rule one(8))
  have "\<forall>m'\<in>set ms. load_mal_entry (mal_id m') u = Some (stored_of m')"
  proof
    fix m' assume m': "m' \<in> set ms"
    then have "mal_id m' \<in> mal_id ` set ms" by simp
    then have "mal_id m' \<noteq> mal_id m" using Cons.prems(2) by auto
    then show "load_mal_entry (mal_id m') u = Some (stored_of m')"
      using mirrored_load [OF one(1)] Cons.prems(3) m' by (simp add: load_ct [OF step(1)])
  qed
  then show ?case using Cons.IH [OF rest] Cons.prems(2) n by simp
qed (simp add: ret_def)

text \<open>An entry whose date is a number is not found again.\<close>

lemma sync_entries_added:
  "sync_entries rx src f ms rep s = (Inr rep', t) \<Longrightarrow> distinct (map mal_id ms) \<Longrightarrow>
     (\<forall>m\<in>set ms. load_mal_entry (mal_id m) s = None) \<Longrightarrow> sx_added rep' = sx_added rep + length ms"
proof (induction ms arbitrary: rep s)
  case (Cons m ms)
  from Cons.prems(1) obtain v rep1 u where step: "ct_mal v = ct_mal s" "sync_plain src m rep v = (Inr rep1, u)"
    and rest: "sync_entries rx src f ms rep1 u = (Inr rep', t)" by (rule sync_entries_Cons_ok)
  note one = sync_plain_ok [OF step(2)]
  have "load_mal_entry (mal_id m) v = None" using Cons.prems(3) by (simp add: load_ct [OF step(1)])
  then have n: "sx_added rep1 = sx_added rep + 1" by (rule one(7))
  have "\<forall>m'\<in>set ms. load_mal_entry (mal_id m') u = None"
  proof
    fix m' assume m': "m' \<in> set ms"
    then have "mal_id m' \<in> mal_id ` set ms" by simp
    then have "mal_id m' \<noteq> mal_id m" using Cons.prems(2) by auto
    then show "load_mal_entry (mal_id m') u = None"
      using mirrored_load [OF one(1)] Cons.prems(3) m' by (simp add: load_ct [OF step(1)])
  qed
  then show ?case using Cons.IH [OF rest] Cons.prems(2) n by simp
qed (simp add: ret_def)

lemma remove_entry_run:
  obtains t where "remove_entry line i s = (Inr (), t)" "ct_mal t = filter (\<lambda>r. mr_mal_id r \<noteq> i) (ct_mal s)"
    "w_shows (world_of t) = update_rows (\<lambda>r. sh_mal_id r = i) (\<lambda>r. r\<lparr>sh_auto := False\<rparr>) (w_shows (world_of s))"
proof -
  let ?u = "map_shows (\<lambda>r. sh_mal_id r = i) (\<lambda>r. r\<lparr>sh_auto := False\<rparr>) (s\<lparr>ct_mal := filter (\<lambda>r. mr_mal_id r \<noteq> i) (ct_mal s)\<rparr>)"
  let ?t = "snd (on_world (log_info None (Some i) line) ?u)"
  have run: "remove_entry line i s = (Inr (), ?t)"
    unfolding remove_entry_def seq_modify seq_attempt by (simp only: ret_def)
  have "list_kept ?u ?t" by (rule evolvesD, rule list_kept_steps)
  then show thesis using that [OF run] by (simp only: list_kept_def) simp
qed

lemma remove_all_run:
  "\<exists>t. for_each (remove_entry line) is s = (Inr (), t)
     \<and> ct_mal t = filter (\<lambda>r. mr_mal_id r \<notin> set is) (ct_mal s)
     \<and> w_shows (world_of t) = update_rows (\<lambda>r. sh_mal_id r \<in> set is) (\<lambda>r. r\<lparr>sh_auto := False\<rparr>) (w_shows (world_of s))"
proof (induction "is" arbitrary: s)
  case (Cons i "is")
  obtain u where u: "remove_entry line i s = (Inr (), u)" "ct_mal u = filter (\<lambda>r. mr_mal_id r \<noteq> i) (ct_mal s)"
    "w_shows (world_of u) = update_rows (\<lambda>r. sh_mal_id r = i) (\<lambda>r. r\<lparr>sh_auto := False\<rparr>) (w_shows (world_of s))"
    by (rule remove_entry_run)
  obtain t where t: "for_each (remove_entry line) is u = (Inr (), t)"
    "ct_mal t = filter (\<lambda>r. mr_mal_id r \<notin> set is) (ct_mal u)"
    "w_shows (world_of t) = update_rows (\<lambda>r. sh_mal_id r \<in> set is) (\<lambda>r. r\<lparr>sh_auto := False\<rparr>) (w_shows (world_of u))"
    using Cons.IH by blast
  have "for_each (remove_entry line) (i # is) s = (Inr (), t)" using t(1) by (simp only: for_each.simps seq_Inr [where m = "remove_entry line i" and s = s, OF u(1)])
  moreover have "ct_mal t = filter (\<lambda>r. mr_mal_id r \<notin> set (i # is)) (ct_mal s)"
    unfolding t(2) u(2) filter_filter by (rule filter_cong) auto
  moreover have "w_shows (world_of t) = update_rows (\<lambda>r. sh_mal_id r \<in> set (i # is)) (\<lambda>r. r\<lparr>sh_auto := False\<rparr>) (w_shows (world_of s))"
    unfolding t(3) u(3) update_rows_def map_map by (rule map_cong) auto
  ultimately show ?case by blast
qed (simp add: ret_def update_rows_none)

lemma queue_run:
  "\<exists>n t. queue_stale_metadata s = (Inr n, t) \<and> ct_mal t = ct_mal s
     \<and> map (\<lambda>r. (sh_mal_id r, sh_auto r)) (w_shows (world_of t)) = map (\<lambda>r. (sh_mal_id r, sh_auto r)) (w_shows (world_of s))"
proof -
  have "map (\<lambda>r. (sh_mal_id r, sh_auto r)) (update_rows p (\<lambda>r. r\<lparr>sh_metadata_status := ''pending''\<rparr>) rs)
      = map (\<lambda>r. (sh_mal_id r, sh_auto r)) rs" for p and rs :: "show_row list"
    by (rule map_key_update_rows) simp
  then show ?thesis unfolding queue_stale_metadata_def Let_def
    by (intro exI conjI) (rule refl, simp_all)
qed

lemma finish_sync_ok:
  assumes "finish_sync src line mine entries rep s = (Inr rep', t)"
  shows "ct_mal t = filter (\<lambda>r. mr_mal_id r \<notin> set (gone_ids mine (map mal_id entries) s)) (ct_mal s)"
    and "map (\<lambda>r. (sh_mal_id r, sh_auto r)) (w_shows (world_of t)) =
      map (\<lambda>r. (sh_mal_id r, sh_auto r \<and> sh_mal_id r \<notin> set (gone_ids mine (map mal_id entries) s))) (w_shows (world_of s))"
    and "rep' = rep\<lparr>sx_removed := sx_removed rep + length (gone_ids mine (map mal_id entries) s),
        sx_metadata_jobs_queued := sx_metadata_jobs_queued rep', sx_entries := map me_entry entries\<rparr>"
proof -
  let ?gone = "gone_ids mine (map mal_id entries) s"
  obtain u where u: "for_each (remove_entry line) ?gone s = (Inr (), u)"
    "ct_mal u = filter (\<lambda>r. mr_mal_id r \<notin> set ?gone) (ct_mal s)"
    "w_shows (world_of u) = update_rows (\<lambda>r. sh_mal_id r \<in> set ?gone) (\<lambda>r. r\<lparr>sh_auto := False\<rparr>) (w_shows (world_of s))"
    using remove_all_run by blast
  obtain n v where v: "queue_stale_metadata u = (Inr n, v)" "ct_mal v = ct_mal u"
    "map (\<lambda>r. (sh_mal_id r, sh_auto r)) (w_shows (world_of v)) = map (\<lambda>r. (sh_mal_id r, sh_auto r)) (w_shows (world_of u))"
    using queue_run [of u] by blast
  let ?w = "snd (write_state SYNC_STATE_KEY (show_int (w_now (world_of v))) v)"
  have w: "write_state SYNC_STATE_KEY (show_int (w_now (world_of v))) v = (Inr (), ?w)" by (simp add: write_state_def)
  let ?rep = "rep\<lparr>sx_removed := sx_removed rep + length ?gone, sx_metadata_jobs_queued := n, sx_entries := map me_entry entries\<rparr>"
  obtain msg where fin: "rep' = ?rep" "t = snd (on_world (log_info None None msg) ?w)"
    using assms unfolding finish_sync_def seq_gets
    by (subst (asm) seq_Inr [where m = "for_each (remove_entry line) ?gone" and s = s, OF u(1)], subst (asm) seq_Inr [where m = queue_stale_metadata and s = u, OF v(1)], simp only: seq_gets, subst (asm) seq_Inr [where m = "write_state SYNC_STATE_KEY (show_int (w_now (world_of v)))" and s = v, OF w])
      (simp only: Let_def seq_attempt ret_def prod.inject sum.inject, blast)
  have "list_kept v ?w" by (rule evolvesD, rule list_kept_steps)
  moreover have "list_kept ?w t" unfolding fin(2) by (rule evolvesD, rule list_kept_steps)
  ultimately have k: "ct_mal t = ct_mal v" "w_shows (world_of t) = w_shows (world_of v)" by (simp_all only: list_kept_def)
  show "ct_mal t = filter (\<lambda>r. mr_mal_id r \<notin> set ?gone) (ct_mal s)" using k u v by simp
  show "map (\<lambda>r. (sh_mal_id r, sh_auto r)) (w_shows (world_of t)) =
      map (\<lambda>r. (sh_mal_id r, sh_auto r \<and> sh_mal_id r \<notin> set ?gone)) (w_shows (world_of s))"
    unfolding k(2) v(3) u(3) update_rows_def map_map by (rule map_cong) auto
  show "rep' = rep\<lparr>sx_removed := sx_removed rep + length ?gone,
      sx_metadata_jobs_queued := sx_metadata_jobs_queued rep', sx_entries := map me_entry entries\<rparr>"
    using fin(1) by simp
qed

section \<open>The synchronisation succeeds\<close>

lemma sync_one_known:
  assumes "known_show w (Some m)"
  obtains t where "sync_one rx m item w = (Inr (), t)" "known_show t (Some m)" "w_shows t = w_shows w"
proof -
  obtain name src prio where item: "item = (name, src, prio)" by (cases item)
  have "w_shows (snd (sync_one rx m item w)) = w_shows w"
    using evolvesD [OF sync_one_same] by (simp add: shows_same_def)
  moreover have "fst (sync_one rx m item w) = Inr ()"
    using assms by (auto simp: sync_one_def item Let_def insert_name_eq seq_def ret_def)
  ultimately show thesis using that [of "snd (sync_one rx m item w)"] assms by (simp add: known_show_def prod_eq_iff)
qed

lemma sync_all_known:
  "known_show w (Some m) \<Longrightarrow> \<exists>t. for_each (sync_one rx m) items w = (Inr (), t)"
proof (induction items arbitrary: w)
  case (Cons item items)
  obtain t where t: "sync_one rx m item w = (Inr (), t)" "known_show t (Some m)"
    using Cons.prems by (rule sync_one_known)
  then show ?case using Cons.IH [OF t(2)] by (simp add: seq_def)
qed (simp add: ret_def)

lemma upsert_names_known:
  assumes "known_show w (Some (le_mal_id e))"
  shows "fst (upsert_names rx e w) = Inr ()"
proof -
  let ?w = "w\<lparr>w_names := filter (\<lambda>r. \<not> (nr_mal_id r = le_mal_id e \<and> nr_source r \<noteq> User)) (w_names w)\<rparr>"
  have "known_show ?w (Some (le_mal_id e))" using assms by (simp add: known_show_def)
  then obtain t where "for_each (sync_one rx (le_mal_id e))
      (if le_names e = [] then [(le_title e, Mal, PRIORITY_MAIN)] else enumerate_names 0 (le_names e)) ?w = (Inr (), t)"
    using sync_all_known by blast
  then show ?thesis by (simp add: upsert_names_def NameSet_replace_from_sync_def transact_def)
qed

lemma known_of: "known_show (world_of s) (Some i) \<longleftrightarrow> show_of i s \<noteq> None"
  by (auto simp: known_show_def find_row_None_iff)

lemma sync_plain_succeeds:
  assumes "me_updated_at m \<noteq> None" "show_of (mal_id m) s \<noteq> None"
  shows "\<exists>rep' t. sync_plain src m rep s = (Inr rep', t)"
proof -
  have saved: "fst (save_mal_entry m s) = Inr ()" using assms by (auto simp: save_mal_entry_def)
  then obtain u where u: "save_mal_entry m s = (Inr (), u)" by (metis prod.collapse)
  show ?thesis
  proof (cases "load_mal_entry (mal_id m) s")
    case None
    then show ?thesis unfolding sync_plain_def seq_gets
      by (simp only: option.case seq_Inr [where m = "save_mal_entry m" and s = s, OF u] seq_attempt) (simp add: ret_def)
  next
    case (Some x)
    then show ?thesis unfolding sync_plain_def seq_gets
      by (cases "stored_changed x m")
        (simp_all only: option.case if_True if_False seq_Inr [where m = "save_mal_entry m" and s = s, OF u] ret_def, simp_all)
  qed
qed

lemma sync_listed_succeeds:
  assumes "me_updated_at m \<noteq> None"
  shows "\<exists>rep' t. sync_listed rx src f m rep s = (Inr rep', t)"
proof -
  let ?u = "snd (upsert_show_full m s)"
  have known: "show_of (mal_id m) ?u \<noteq> None" using upsert_show_full_run(2) [of m s] by auto
  have "fst (on_world (upsert_names rx (me_entry m)) ?u) = Inr ()"
    using upsert_names_known [of "world_of ?u" "me_entry m" rx] known by (simp add: known_of)
  then obtain v where v: "on_world (upsert_names rx (me_entry m)) ?u = (Inr (), v)" by (metis prod.collapse)
  have "list_kept ?u (snd (on_world (upsert_names rx (me_entry m)) ?u))"
    by (rule evolvesD, rule list_kept_steps)
  then have "w_shows (world_of v) = w_shows (world_of ?u)" by (simp only: v snd_conv list_kept_def)
  then have "show_of (mal_id m) v \<noteq> None" using known by (simp only: not_False_eq_True)
  then show ?thesis
    unfolding sync_listed_plain seq_Inr [where m = "on_world (upsert_names rx (me_entry m))" and s = ?u, OF v]
    using sync_plain_succeeds assms by blast
qed

lemma sync_entries_succeed:
  "\<forall>m\<in>set ms. me_updated_at m \<noteq> None \<Longrightarrow> \<exists>rep' t. sync_entries rx src f ms rep s = (Inr rep', t)"
proof (induction ms arbitrary: rep s)
  case (Cons m ms)
  obtain rep1 u where u: "sync_listed rx src f m rep s = (Inr rep1, u)"
    using sync_listed_succeeds Cons.prems by (metis list.set_intros(1))
  show ?case unfolding sync_entries.simps seq_Inr [where m = "sync_listed rx src f m rep" and s = s, OF u]
    using Cons.IH Cons.prems by simp
qed (simp add: ret_def)

lemma finish_sync_succeeds: "\<exists>rep' t. finish_sync src line mine entries rep s = (Inr rep', t)"
proof -
  obtain u where u: "for_each (remove_entry line) (gone_ids mine (map mal_id entries) s) s = (Inr (), u)"
    using remove_all_run by blast
  obtain n v where v: "queue_stale_metadata u = (Inr n, v)" using queue_run by blast
  obtain w where w: "write_state SYNC_STATE_KEY (show_int (w_now (world_of v))) v = (Inr (), w)" by (simp add: write_state_def)
  show ?thesis
    unfolding finish_sync_def seq_gets
      seq_Inr [where m = "for_each (remove_entry line) (gone_ids mine (map mal_id entries) s)" and s = s, OF u]
      seq_Inr [where m = queue_stale_metadata and s = u, OF v]
      seq_Inr [where m = "write_state SYNC_STATE_KEY (show_int (w_now (world_of v)))" and s = v, OF w] Let_def seq_attempt
    by (simp add: ret_def)
qed

lemma sync_list_succeeds:
  assumes "\<forall>m\<in>set entries. me_updated_at m \<noteq> None"
  shows "\<exists>rep t. sync_list rx account (Inr (entries, failed)) s = (Inr rep, t)"
proof -
  let ?a = "(case account of Inr name \<Rightarrow> write_state ''mal_account'' name | Inl _ \<Rightarrow> ret ()) :: unit cataloguing"
  obtain u where u: "?a s = (Inr (), u)" by (cases account) (simp_all add: ret_def write_state_def)
  obtain rep1 v where v: "sync_entries rx ''MAL'' ask_about_rename entries (new_report (length entries) failed) u = (Inr rep1, v)"
    using sync_entries_succeed [OF assms] by blast
  show ?thesis
    unfolding sync_list_def seq_Inr [where m = ?a and s = s, OF u] seq_lift_Inr prod.case
      seq_Inr [where m = "sync_entries rx ''MAL'' ask_about_rename entries (new_report (length entries) failed)" and s = u, OF v]
    by (rule finish_sync_succeeds)
qed

section \<open>Properties of the synchronisation\<close>

lemma sync_list_ok:
  assumes "sync_list rx account (Inr (entries, failed)) s = (Inr rep, t)"
  obtains u rep1 v where "ct_mal u = ct_mal s"
    "sync_entries rx ''MAL'' ask_about_rename entries (new_report (length entries) failed) u = (Inr rep1, v)"
    "finish_sync ''MAL'' ''MAL sync: no longer on your list'' (\<lambda>_. True) entries rep1 v = (Inr rep, t)"
proof -
  let ?a = "(case account of Inr name \<Rightarrow> write_state ''mal_account'' name | Inl _ \<Rightarrow> ret ()) :: unit cataloguing"
  obtain x u where u: "?a s = (Inr x, u)"
    and rest: "seq (sync_entries rx ''MAL'' ask_about_rename entries (new_report (length entries) failed))
      (finish_sync ''MAL'' ''MAL sync: no longer on your list'' (\<lambda>_. True) entries) u = (Inr rep, t)"
    using assms unfolding sync_list_def by (elim seq_ok_cases) (auto simp only: prod.case lift_run sum.inject prod.inject)
  have "list_kept s u"
    using u by (cases account) (auto simp: ret_def write_state_def list_kept_def)
  moreover obtain rep1 v where "sync_entries rx ''MAL'' ask_about_rename entries (new_report (length entries) failed) u = (Inr rep1, v)"
    "finish_sync ''MAL'' ''MAL sync: no longer on your list'' (\<lambda>_. True) entries rep1 v = (Inr rep, t)"
    using rest by (rule seq_ok_cases)
  ultimately show thesis by (intro that) (simp_all only: list_kept_def)
qed

lemma find_row_filter_key: "(\<And>r. key r = k \<Longrightarrow> P r) \<Longrightarrow> find_row key k (filter P rs) = find_row key k rs"
  by (induction rs) auto

lemma gone_all: "set (gone_ids (\<lambda>_. True) fetched s) = mr_mal_id ` set (ct_mal s) - set fetched"
  by (auto simp: gone_ids_def)


text \<open>
  C27: The synchronisation is idempotent: after a sync of a list of distinct entries whose dates are
  texts, a second sync of the same list succeeds, counts every entry as unchanged, and removes
  nothing.
\<close>

theorem sync_again_unchanged:
  assumes "sync_list rx account (Inr (entries, failed)) s = (Inr rep, t)"
    and "distinct_ids entries" "\<forall>m\<in>set entries. textual_date m"
  shows "\<exists>rep' t'. sync_list rx account' (Inr (entries, failed')) t = (Inr rep', t')
    \<and> sx_unchanged rep' = length entries \<and> sx_added rep' = 0 \<and> sx_updated rep' = 0 \<and> sx_removed rep' = 0"
proof -
  have "\<forall>m\<in>set entries. me_updated_at m \<noteq> None" using assms(3) by (auto simp: textual_date_def split: option.splits)
  then obtain rep' t' where again: "sync_list rx account' (Inr (entries, failed')) t = (Inr rep', t')"
    using sync_list_succeeds by blast
  obtain u rep1 v where loop: "sync_entries rx ''MAL'' ask_about_rename entries (new_report (length entries) failed) u = (Inr rep1, v)"
    and fin: "finish_sync ''MAL'' ''MAL sync: no longer on your list'' (\<lambda>_. True) entries rep1 v = (Inr rep, t)"
    using assms(1) by (rule sync_list_ok)
  obtain u' rep1' v' where u': "ct_mal u' = ct_mal t"
    and loop': "sync_entries rx ''MAL'' ask_about_rename entries (new_report (length entries) failed') u' = (Inr rep1', v')"
    and fin': "finish_sync ''MAL'' ''MAL sync: no longer on your list'' (\<lambda>_. True) entries rep1' v' = (Inr rep', t')"
    using again by (rule sync_list_ok)
  have d: "distinct (map mal_id entries)" using assms(2) by (simp add: distinct_ids_def)
  have "load_mal_entry (mal_id m) u' = Some (stored_of m)" if "m \<in> set entries" for m
  proof -
    have "load_mal_entry (mal_id m) v = Some (stored_of m)"
      using sync_entries_stored [OF loop d] that assms(3) by blast
    moreover have "find_row mr_mal_id (mal_id m) (ct_mal t) = find_row mr_mal_id (mal_id m) (ct_mal v)"
      unfolding finish_sync_ok(1) [OF fin] gone_all by (rule find_row_filter_key) (use that in auto)
    ultimately show ?thesis by (simp add: load_mal_entry_def u')
  qed
  then have "sx_unchanged rep1' = length entries"
    using sync_entries_unchanged [OF loop' d] by (simp add: new_report_def)
  moreover have "counted rep1' = length entries" "sx_removed rep1' = 0"
    using sync_entries_report [OF loop'] by (simp_all add: new_report_def counted_def)
  moreover have "gone_ids (\<lambda>_. True) (map mal_id entries) v' = []"
  proof -
    have ids: "mr_mal_id ` set (ct_mal t) \<subseteq> mal_id ` set entries"
      unfolding finish_sync_ok(1) [OF fin] gone_all by auto
    have "mr_mal_id ` set (ct_mal v') = mal_id ` set entries"
      using sync_entries_report [OF loop'] ids u' by auto
    then have "set (gone_ids (\<lambda>_. True) (map mal_id entries) v') = {}" unfolding gone_all by simp
    then show ?thesis by simp
  qed
  moreover have "sx_unchanged rep' = sx_unchanged rep1'" "sx_added rep' = sx_added rep1'" "sx_updated rep' = sx_updated rep1'"
    "sx_removed rep' = sx_removed rep1' + length (gone_ids (\<lambda>_. True) (map mal_id entries) v')"
    using finish_sync_ok(3) [OF fin'] by (cases rep', simp)+
  ultimately show ?thesis by (intro exI [of _ rep'] exI [of _ t'] conjI) (use again in \<open>simp_all add: counted_def\<close>)
qed

text \<open>
  A renamed show is never noticed: the title read as the previous one is the one the
  upsert has just written, so whatever is to be done about a rename is not done, and no
  report names a renamed title.
\<close>

theorem rename_never_noticed:
  "sync_entries rx source ask_about_rename ms rep s = sync_entries rx source (\<lambda>_ _. ret ()) ms rep s
   \<and> (case fst (sync_list rx account fetched s) of Inr rep' \<Rightarrow> sx_renamed rep' = [] | Inl _ \<Rightarrow> True)"
proof -
  have "sync_listed rx source f = sync_listed rx source g" for f g
    by (intro ext) (simp add: sync_listed_plain)
  then have "sync_entries rx source f ms rep = sync_entries rx source g ms rep" for f g
  proof (induction ms arbitrary: rep)
    case (Cons m ms)
    have "sync_entries rx source f ms = sync_entries rx source g ms" by (rule ext) (rule Cons.IH [OF Cons.prems])
    then show ?case using Cons.prems [of f g] by simp
  qed simp
  moreover have named: "sx_renamed rep' = []" if run: "sync_list rx account fetched s = (Inr rep', t)" for rep' t
  proof (cases fetched)
    case (Inl e)
    then show ?thesis using run by (auto simp: sync_list_def elim!: seq_ok_cases)
  next
    case (Inr p)
    then obtain entries failed where p: "fetched = Inr (entries, failed)" by (cases p) simp
    obtain u rep1 v where l: "sync_entries rx ''MAL'' ask_about_rename entries (new_report (length entries) failed) u = (Inr rep1, v)"
      and f: "finish_sync ''MAL'' ''MAL sync: no longer on your list'' (\<lambda>_. True) entries rep1 v = (Inr rep', t)"
      using run unfolding p by (rule sync_list_ok)
    have "sx_renamed rep' = sx_renamed rep1" using finish_sync_ok(3) [OF f] by (cases rep') simp
    then show ?thesis using sync_entries_report [OF l] by (simp add: new_report_def)
  qed
  moreover have "case fst (sync_list rx account fetched s) of Inr rep' \<Rightarrow> sx_renamed rep' = [] | Inl _ \<Rightarrow> True"
    using named by (cases "sync_list rx account fetched s") (simp split: sum.split)
  ultimately show ?thesis by (intro conjI) (metis, assumption)
qed

section \<open>Numeric dates\<close>

text \<open>What the affinity of the column makes true of every stored cell.\<close>

definition affine_cells :: "mal_row list \<Rightarrow> bool" where
  "affine_cells rs \<longleftrightarrow> (\<forall>r\<in>set rs. case mr_updated_at r of CText d \<Rightarrow> parse_signed_i64 d = None | CInt n \<Rightarrow> True)"

definition numeric_date :: "mal_entry \<Rightarrow> bool" where
  "numeric_date m \<longleftrightarrow> (case me_updated_at m of Some d \<Rightarrow> parse_signed_i64 d \<noteq> None | None \<Rightarrow> False)"

lemma affine_row: "case mr_updated_at (mal_row_of m d) of CText d \<Rightarrow> parse_signed_i64 d = None | CInt n \<Rightarrow> True"
  by (simp add: mal_row_of_def integer_cell_def split: option.split)

lemma save_affine:
  assumes "save_mal_entry m s = (Inr x, t)" "affine_cells (ct_mal s)"
  shows "affine_cells (ct_mal t)" "numeric_date m \<Longrightarrow> load_mal_entry (mal_id m) t = None"
proof -
  obtain d where d: "me_updated_at m = Some d" and t: "ct_mal t =
      (if find_row mr_mal_id (mal_id m) (ct_mal s) = None then ct_mal s @ [mal_row_of m d]
            else update_rows (\<lambda>r. mr_mal_id r = mal_id m) (\<lambda>_. mal_row_of m d) (ct_mal s))"
    using assms(1) by (elim save_mal_entry_ok) simp
  have id: "mr_mal_id (mal_row_of m d) = mal_id m" by (simp add: mal_row_of_def)
  show "affine_cells (ct_mal t)"
    unfolding t affine_cells_def using assms(2) affine_row [of m d]
    by (auto simp: affine_cells_def set_update_rows simp del: update_rows_def)
  show "load_mal_entry (mal_id m) t = None" if "numeric_date m"
    unfolding load_mal_entry_def t find_row_put [OF id]
    using that d by (auto simp: numeric_date_def mal_row_of_def integer_cell_def split: option.splits)
qed

lemma sync_plain_numeric:
  assumes "sync_plain src m rep s = (Inr rep', t)" "affine_cells (ct_mal s)" "numeric_date m"
  shows "affine_cells (ct_mal t)" "load_mal_entry (mal_id m) t = None"
proof -
  obtain u where u: "save_mal_entry m s = (Inr (), u)" and kept: "list_kept u t"
  proof (cases "load_mal_entry (mal_id m) s")
    case None
    let ?log = "on_world (log_info None (Some (mal_id m)) (src @ '' sync: added '' @ in_quotes (le_title (me_entry m))))"
    have "seq (save_mal_entry m) (\<lambda>_. seq (attempt ?log) (\<lambda>_. ret (rep\<lparr>sx_added := sx_added rep + 1\<rparr>))) s = (Inr rep', t)"
      using assms(1) None by (simp only: sync_plain_def seq_gets option.case)
    then obtain v where v: "save_mal_entry m s = (Inr (), v)"
      and rest: "seq (attempt ?log) (\<lambda>_. ret (rep\<lparr>sx_added := sx_added rep + 1\<rparr>)) v = (Inr rep', t)"
      by (elim seq_ok_cases) simp
    have t: "t = snd (?log v)" using rest unfolding seq_attempt by (simp add: ret_def)
    have "list_kept v t" unfolding t by (rule evolvesD, rule list_kept_steps)
    with v that show ?thesis by blast
  next
    case (Some x)
    obtain r d where r: "find_row mr_mal_id (mal_id m) (ct_mal s) = Some r" "mr_updated_at r = CText d" "ste_updated_at x = Some d"
      using Some by (cases "find_row mr_mal_id (mal_id m) (ct_mal s)") (auto simp: load_mal_entry_def split: cell.splits)
    then have "parse_signed_i64 d = None"
      using assms(2) by (auto simp: affine_cells_def dest!: find_row_Some_iff_in)
    then have "ste_updated_at x \<noteq> me_updated_at m" using r(3) assms(3) by (cases "me_updated_at m") (auto simp: numeric_date_def)
    then have "seq (save_mal_entry m) (\<lambda>_. ret (rep\<lparr>sx_updated := sx_updated rep + 1\<rparr>)) s = (Inr rep', t)"
      using assms(1) Some by (simp add: sync_plain_def stored_changed_def)
    then have "save_mal_entry m s = (Inr (), t)" by (auto elim!: seq_ok_cases simp: ret_def)
    with that show ?thesis using listing.evo_refl by blast
  qed
  show "affine_cells (ct_mal t)" using save_affine(1) [OF u assms(2)] kept by (simp add: list_kept_def)
  show "load_mal_entry (mal_id m) t = None" using save_affine(2) [OF u assms(2,3)] load_kept [OF kept] by simp
qed

lemma sync_entries_numeric:
  "sync_entries rx src f ms rep s = (Inr rep', t) \<Longrightarrow> distinct (map mal_id ms) \<Longrightarrow> \<forall>m\<in>set ms. numeric_date m \<Longrightarrow>
     affine_cells (ct_mal s) \<Longrightarrow> affine_cells (ct_mal t) \<and> (\<forall>m\<in>set ms. load_mal_entry (mal_id m) t = None)"
proof (induction ms arbitrary: rep s)
  case (Cons m ms)
  from Cons.prems(1) obtain v rep1 u where step: "ct_mal v = ct_mal s" "sync_plain src m rep v = (Inr rep1, u)"
    and rest: "sync_entries rx src f ms rep1 u = (Inr rep', t)" by (rule sync_entries_Cons_ok)
  have num: "numeric_date m" and aff: "affine_cells (ct_mal v)" using Cons.prems(3,4) step(1) by simp_all
  note one = sync_plain_numeric [OF step(2) aff num]
  have "mal_id m \<notin> mal_id ` set ms" using Cons.prems(2) by simp
  then have "load_mal_entry (mal_id m) t = None"
    using sync_entries_others [OF rest] one(2) by (simp add: load_mal_entry_def)
  then show ?case using Cons.IH [OF rest] Cons.prems(2,3) one(1) by simp
qed (simp add: ret_def)

lemma sync_jikan_loaded:
  assumes "found \<noteq> []"
  shows "sync_jikan rx h (Inr found) listed details s =
    seq (sync_entries rx ''Jikan'' (\<lambda>_ _. ret ()) (build_chains rx h (\<lambda>_. None) found) (new_report (length found) 0))
      (finish_sync ''Jikan'' ''Jikan sync: no longer on public list'' (\<lambda>r. mr_source r = ''jikan'') (build_chains rx h (\<lambda>_. None) found)) s"
  using assms by (cases found) (simp_all add: sync_jikan_def public_entries_def Let_def)

lemma load_entry_numeric:
  assumes "ld_updated_at it = Some (JInt n)" "- (2 ^ 63) \<le> n" "n < 2 ^ 63"
  shows "numeric_date (load_entry shown it)"
  using parse_signed_i64_show [OF assms(2,3)]
  by (simp add: numeric_date_def load_entry_def Let_def assms(1) value_to_string_def)

lemma load_entry_id [simp]: "mal_id (load_entry shown it) = ld_id it"
  by (simp add: load_entry_def Let_def)

text \<open>An item of \<open>load.json\<close>, as the endpoint sends it: its date is a Unix time.\<close>

definition dated_item :: "load_item \<Rightarrow> bool" where
  "dated_item it \<longleftrightarrow> (case ld_updated_at it of Some (JInt n) \<Rightarrow> - (2 ^ 63) \<le> n \<and> n < 2 ^ 63 | _ \<Rightarrow> False)"

lemma dated_entry: "dated_item it \<Longrightarrow> numeric_date (load_entry shown it)"
  by (auto simp: dated_item_def split: option.splits json.splits intro: load_entry_numeric)

text \<open>
  C39: The dates of the public list are numbers, which the INTEGER column keeps as numbers and
  which are then unreadable as texts: although the first sync stored every entry, a
  second sync of the same public list counts all of them as new again.
\<close>

theorem public_list_always_new:
  assumes "items \<noteq> []" "distinct (map ld_id items)" "\<forall>it\<in>set items. dated_item it" "affine_cells (ct_mal s)"
  shows "\<exists>rep t rep' t'. sync_jikan rx h (Inr (map (load_entry shown) items)) listed details s = (Inr rep, t)
    \<and> sync_jikan rx h (Inr (map (load_entry shown) items)) listed' details' t = (Inr rep', t')
    \<and> ld_id ` set items \<subseteq> mr_mal_id ` set (ct_mal t) \<and> sx_added rep' = length items"
proof -
  let ?found = "map (load_entry shown) items" and ?mine = "\<lambda>r. mr_source r = ''jikan''"
  let ?ms = "build_chains rx h (\<lambda>_. None) ?found"
  have keep: "placing_keeps me_updated_at" by (simp add: placing_keeps_def place_entry_def)
  have ids: "map mal_id ?ms = map ld_id items" using build_chains_keeps [OF placing_keeps_id] by simp
  have d: "distinct (map mal_id ?ms)" unfolding ids by (rule assms(2))
  have "set (map me_updated_at ?ms) = set (map me_updated_at ?found)" using build_chains_keeps [OF keep] by simp
  moreover have "\<forall>x\<in>set (map me_updated_at ?found). case x of Some d \<Rightarrow> parse_signed_i64 d \<noteq> None | None \<Rightarrow> False"
    using assms(3) dated_entry by (auto simp: numeric_date_def)
  ultimately have num: "\<forall>m\<in>set ?ms. numeric_date m" unfolding numeric_date_def by (metis (no_types, lifting) image_eqI list.set_map)
  have dated: "\<forall>m\<in>set ?ms. me_updated_at m \<noteq> None" using num by (auto simp: numeric_date_def split: option.splits)
  have run: "\<exists>rep1 v rep t. sync_entries rx ''Jikan'' (\<lambda>_ _. ret ()) ?ms (new_report (length ?found) 0) u = (Inr rep1, v)
      \<and> finish_sync ''Jikan'' ''Jikan sync: no longer on public list'' ?mine ?ms rep1 v = (Inr rep, t)
      \<and> sync_jikan rx h (Inr ?found) ls ds u = (Inr rep, t)" for u ls ds
  proof -
    obtain rep1 v where v: "sync_entries rx ''Jikan'' (\<lambda>_ _. ret ()) ?ms (new_report (length ?found) 0) u = (Inr rep1, v)"
      using sync_entries_succeed [OF dated] by blast
    obtain rep t where t: "finish_sync ''Jikan'' ''Jikan sync: no longer on public list'' ?mine ?ms rep1 v = (Inr rep, t)"
      using finish_sync_succeeds by blast
    have "sync_jikan rx h (Inr ?found) ls ds u = (Inr rep, t)"
      using assms(1) t by (subst sync_jikan_loaded) (simp_all only: map_is_Nil_conv not_False_eq_True
        seq_Inr [where m = "sync_entries rx ''Jikan'' (\<lambda>_ _. ret ()) ?ms (new_report (length ?found) 0)" and s = u, OF v])
    then show ?thesis using v t by blast
  qed
  obtain rep1 v rep t where loop: "sync_entries rx ''Jikan'' (\<lambda>_ _. ret ()) ?ms (new_report (length ?found) 0) s = (Inr rep1, v)"
    and fin: "finish_sync ''Jikan'' ''Jikan sync: no longer on public list'' ?mine ?ms rep1 v = (Inr rep, t)"
    and first: "sync_jikan rx h (Inr ?found) listed details s = (Inr rep, t)"
    using run by blast
  obtain rep2 v' rep' t' where loop': "sync_entries rx ''Jikan'' (\<lambda>_ _. ret ()) ?ms (new_report (length ?found) 0) t = (Inr rep2, v')"
    and fin': "finish_sync ''Jikan'' ''Jikan sync: no longer on public list'' ?mine ?ms rep2 v' = (Inr rep', t')"
    and second: "sync_jikan rx h (Inr ?found) listed' details' t = (Inr rep', t')"
    using run by blast
  let ?gone = "gone_ids ?mine (map mal_id ?ms) v"
  have gone: "set ?gone \<inter> mal_id ` set ?ms = {}" by (auto simp: gone_ids_def)
  have same: "find_row mr_mal_id (mal_id m) (ct_mal t) = find_row mr_mal_id (mal_id m) (ct_mal v)" if "m \<in> set ?ms" for m
    unfolding finish_sync_ok(1) [OF fin] by (rule find_row_filter_key) (use that gone in auto)
  have none: "\<forall>m\<in>set ?ms. load_mal_entry (mal_id m) v = None" using sync_entries_numeric [OF loop d num assms(4)] by blast
  then have "\<forall>m\<in>set ?ms. load_mal_entry (mal_id m) t = None" using same by (simp add: load_mal_entry_def)
  then have "sx_added rep2 = length ?ms" using sync_entries_added [OF loop' d] by (simp add: new_report_def)
  moreover have "length ?ms = length items" using arg_cong [OF ids, of length] by simp
  moreover have "sx_added rep' = sx_added rep2" using finish_sync_ok(3) [OF fin'] by (cases rep') simp
  moreover have "ld_id ` set items \<subseteq> mr_mal_id ` set (ct_mal t)"
  proof
    fix i assume "i \<in> ld_id ` set items"
    then have i: "i \<in> mal_id ` set ?ms" using arg_cong [OF ids, of set] by simp
    then have "i \<in> mr_mal_id ` set (ct_mal v)" using sync_entries_report [OF loop] by simp
    then have "find_row mr_mal_id i (ct_mal v) \<noteq> None" by (simp add: find_row_None_iff)
    moreover obtain m where "m \<in> set ?ms" "i = mal_id m" using i by blast
    ultimately have "find_row mr_mal_id i (ct_mal t) \<noteq> None" using same by simp
    then show "i \<in> mr_mal_id ` set (ct_mal t)" by (simp add: find_row_None_iff)
  qed
  ultimately have "sx_added rep' = length items" "ld_id ` set items \<subseteq> mr_mal_id ` set (ct_mal t)" by simp_all
  then show ?thesis using first second by blast
qed

section \<open>Paging\<close>

lemma fetch_pages_take:
  assumes page: "\<And>o'. page o' = Inr (take k (drop o' whole), o' + k < length whole)"
  shows "fetch_pages n page off out = Inr (out @ map to_mal_entry (take (n * k) (drop off whole)))"
proof (induction n arbitrary: off out)
  case (Suc n)
  let ?items = "take k (drop off whole)"
  have sp: "take (k + n * k) (drop off whole) = ?items @ take (n * k) (drop (off + k) whole)"
    by (simp add: take_add add.commute)
  show ?case
  proof (cases "?items = []")
    case True
    then have "k = 0 \<or> drop off whole = []" by simp
    then have "take (k + n * k) (drop off whole) = []" by auto
    then show ?thesis using True by (simp add: page)
  next
    case False
    show ?thesis
    proof (cases "off + k < length whole")
      case True
      then have "length ?items = k" by simp
      then show ?thesis using True False Suc.IH [of "off + k"] by (simp add: page Let_def sp)
    next
      case stop: False
      then have "drop (off + k) whole = []" by simp
      then show ?thesis using False stop by (simp add: page Let_def sp del: drop_eq_Nil)
    qed
  qed
qed simp

lemma load_pages_take:
  assumes page: "\<And>o'. page o' = Inr (take 300 (drop o' whole))" and "d \<le> 33"
  shows "load_pages shown page (300 * (33 - d)) out
    = Inr (out @ map (load_entry shown) (take (300 * (d + 1)) (drop (300 * (33 - d)) whole)))"
  using assms(2)
proof (induction d arbitrary: out)
  case 0
  show ?case by (subst load_pages.simps) (auto simp: page Let_def min_def)
next
  case (Suc d)
  let ?off = "300 * (33 - Suc d)" and ?rest = "drop (300 * (33 - Suc d)) whole"
  have off: "?off + 300 = 300 * (33 - d)" using Suc.prems by simp
  have small: "\<not> 10000 \<le> ?off + 300" by simp
  have sp: "take (300 * (Suc d + 1)) ?rest = take 300 ?rest @ take (300 * (d + 1)) (drop 300 ?rest)"
    unfolding take_add [symmetric] by (rule arg_cong [where f = "\<lambda>n. take n ?rest"]) simp
  show ?case
  proof (cases "length ?rest < 300")
    case True
    then have "take 300 ?rest = ?rest" "take (300 * (Suc d + 1)) ?rest = ?rest" by simp_all
    then show ?thesis using True by (subst load_pages.simps) (simp add: page Let_def)
  next
    case False
    then have len: "length (take 300 ?rest) = 300" by simp
    have "load_pages shown page ?off out = load_pages shown page (300 * (33 - d)) (out @ map (load_entry shown) (take 300 ?rest))"
      using len small off by (subst load_pages.simps) (simp only: page sum.case Let_def list.size(3) if_False, auto)
    also have "\<dots> = Inr (out @ map (load_entry shown) (take 300 ?rest) @
        map (load_entry shown) (take (300 * (d + 1)) (drop (300 * (33 - d)) whole)))"
      using Suc.IH [of "out @ map (load_entry shown) (take 300 ?rest)"] Suc.prems by simp
    also have "drop (300 * (33 - d)) whole = drop 300 ?rest" using off by (simp add: add.commute)
    finally show ?thesis unfolding sp by simp
  qed
qed

lemma jikan_pages_take:
  assumes page: "\<And>i. page i = Inr (take k (drop (k * (i - 1)) whole), k * i < length whole)" and "d \<le> 19" "0 < k"
  shows "jikan_pages page (20 - d) out = Inr (out @ map jikan_entry (take (k * (d + 1)) (drop (k * (19 - d)) whole)))"
  using assms(2)
proof (induction d arbitrary: out)
  case 0
  show ?case by (subst jikan_pages.simps) (simp add: page Let_def)
next
  case (Suc d)
  let ?rest = "drop (k * (19 - Suc d)) whole"
  have i: "20 - Suc d - 1 = 19 - Suc d" "20 - Suc d + 1 = 20 - d" "k * (19 - Suc d) + k = k * (19 - d)" "k * (20 - Suc d) = k * (19 - d)"
    using Suc.prems by (simp_all add: algebra_simps flip: mult_Suc_right)
  have sp: "take (k * (Suc d + 1)) ?rest = take k ?rest @ take (k * (d + 1)) (drop k ?rest)"
    unfolding take_add [symmetric] by (rule arg_cong [where f = "\<lambda>n. take n ?rest"]) simp
  have drop2: "drop k ?rest = drop (k * (19 - d)) whole" using i(3) by (simp add: add.commute)
  show ?case
  proof (cases "k * (19 - d) < length whole")
    case True
    then have "take k ?rest \<noteq> []" using i(3) assms(3) by auto
    then have "jikan_pages page (20 - Suc d) out = jikan_pages page (20 - d) (out @ map jikan_entry (take k ?rest))"
      using True Suc.prems by (subst jikan_pages.simps) (simp only: page i sum.case prod.case Let_def, auto)
    also have "\<dots> = Inr ((out @ map jikan_entry (take k ?rest)) @ map jikan_entry (take (k * (d + 1)) (drop (k * (19 - d)) whole)))"
      using Suc.IH Suc.prems by simp
    finally show ?thesis unfolding sp drop2 by simp
  next
    case False
    then have "drop (k * (19 - d)) whole = []" by simp
    then have "take (k * (Suc d + 1)) ?rest = take k ?rest" unfolding sp drop2 by simp
    then show ?thesis using False by (subst jikan_pages.simps) (simp only: page i sum.case prod.case Let_def, auto)
  qed
qed

text \<open>
  Each of the three paging loops, against a server that serves the list whole in pages,
  returns exactly the beginning of that list: at most 20000 entries of MyAnimeList
  (pages of \<open>PAGE_SIZE\<close>), 10200 of the public list, 20 pages of Jikan. Every loop ends.
\<close>

theorem paged_lists_complete:
  "fetch_pages MAX_PAGES (\<lambda>o'. Inr (take 1000 (drop o' whole), o' + 1000 < length whole)) 0 []
     = Inr (map to_mal_entry (take 20000 whole))
   \<and> load_pages shown (\<lambda>o'. Inr (take 300 (drop o' items))) 0 [] = Inr (map (load_entry shown) (take 10200 items))
   \<and> jikan_pages (\<lambda>i. Inr (take (Suc k) (drop (Suc k * (i - 1)) users), Suc k * i < length users)) 1 []
     = Inr (map jikan_entry (take (20 * Suc k) users))"
proof (intro conjI)
  show "fetch_pages MAX_PAGES (\<lambda>o'. Inr (take 1000 (drop o' whole), o' + 1000 < length whole)) 0 []
     = Inr (map to_mal_entry (take 20000 whole))"
    using fetch_pages_take [of "\<lambda>o'. Inr (take 1000 (drop o' whole), o' + 1000 < length whole)" 1000 whole 20 0 "[]"]
    by (simp add: MAX_PAGES_def)
  show "load_pages shown (\<lambda>o'. Inr (take 300 (drop o' items))) 0 [] = Inr (map (load_entry shown) (take 10200 items))"
    using load_pages_take [of "\<lambda>o'. Inr (take 300 (drop o' items))" items 33 shown "[]"] by simp
  show "jikan_pages (\<lambda>i. Inr (take (Suc k) (drop (Suc k * (i - 1)) users), Suc k * i < length users)) 1 []
     = Inr (map jikan_entry (take (20 * Suc k) users))"
    using jikan_pages_take [of "\<lambda>i. Inr (take (Suc k) (drop (Suc k * (i - 1)) users), Suc k * i < length users)" "Suc k" users 19 "[]"]
    by (simp add: mult.commute)
qed

section \<open>Witnesses\<close>

definition dated_entry_of :: "int \<Rightarrow> mal_entry" where
  "dated_entry_of i = (sample_entry i)\<lparr>me_updated_at := Some ''2024-05-01''\<rparr>"

lemma dated_sample: "\<forall>m\<in>set [dated_entry_of 1, dated_entry_of 5]. me_updated_at m \<noteq> None"
  "\<forall>m\<in>set [dated_entry_of 1, dated_entry_of 5]. textual_date m"
  "distinct_ids [dated_entry_of 1, dated_entry_of 5]"
  "map mal_id [dated_entry_of 1, dated_entry_of 5] = [1, 5]"
proof -
  have "parse_signed_i64 ''2024-05-01'' = None"
    by (simp add: parse_signed_i64_def starts_with_def parse_bounded_def is_digit_def)
  then show "\<forall>m\<in>set [dated_entry_of 1, dated_entry_of 5]. textual_date m" by (simp add: dated_entry_of_def textual_date_def)
qed (simp_all add: dated_entry_of_def distinct_ids_def sample_entry_def)


theorem sync_again_unchanged_witness:
  "\<exists>rep t rep' t'. sync_list no_match (Inr ''me'') (Inr ([dated_entry_of 1, dated_entry_of 5], 0)) demo_catalog = (Inr rep, t)
     \<and> sync_list no_match (Inr ''me'') (Inr ([dated_entry_of 1, dated_entry_of 5], 0)) t = (Inr rep', t')
     \<and> sx_unchanged rep' = 2"
proof -
  obtain rep t where first: "sync_list no_match (Inr ''me'') (Inr ([dated_entry_of 1, dated_entry_of 5], 0)) demo_catalog = (Inr rep, t)"
    using sync_list_succeeds [OF dated_sample(1)] by blast
  obtain rep' t' where "sync_list no_match (Inr ''me'') (Inr ([dated_entry_of 1, dated_entry_of 5], 0)) t = (Inr rep', t')"
    "sx_unchanged rep' = 2"
    using sync_again_unchanged [OF first dated_sample(3,2), of "Inr ''me''" 0] by auto
  then show ?thesis using first by blast
qed

definition sample_item :: load_item where
  "sample_item =
     \<lparr> ld_status = 1, ld_score = Some 8, ld_watched = Some 3, ld_updated_at = Some (JInt 1714521600), ld_title = JStr ''A'',
       ld_title_eng = None, ld_episodes = Some 12, ld_airing = Some 1, ld_id = 7, ld_media = None, ld_image = None,
       ld_start_date = None \<rparr>"

theorem public_list_always_new_witness:
  "\<exists>rep t rep' t'. sync_jikan no_match (\<lambda>_ _. 0) (Inr (map (load_entry (\<lambda>_. [])) [sample_item])) (Inr []) (\<lambda>_. Inr None) demo_catalog = (Inr rep, t)
    \<and> sync_jikan no_match (\<lambda>_ _. 0) (Inr (map (load_entry (\<lambda>_. [])) [sample_item])) (Inr []) (\<lambda>_. Inr None) t = (Inr rep', t')
    \<and> 7 \<in> mr_mal_id ` set (ct_mal t) \<and> sx_added rep' = 1"
proof -
  have "affine_cells (ct_mal demo_catalog)" by (simp add: affine_cells_def demo_catalog_def)
  then show ?thesis
    using public_list_always_new [of "[sample_item]" demo_catalog no_match "\<lambda>_ _. 0" "\<lambda>_. []" "Inr []" "\<lambda>_. Inr None" "Inr []" "\<lambda>_. Inr None"]
    by (simp add: dated_item_def sample_item_def)
qed

end
