(* ===== verification/Account.thy ===== *)
theory Account
  imports MalSync
begin

text \<open>
  The connection to MyAnimeList: \<open>mal/pkce.rs\<close> (escapes, the authorize URL), \<open>mal/login.rs\<close> (the
  redirect), \<open>secrets.rs\<close> and \<open>mal/token.rs\<close> (where tokens live), the tokens of \<open>mal/client.rs\<close> and
  \<open>mal/connect.rs\<close>. A trait object is a record of its methods; the keyring, the token endpoint, the
  environment and the random numbers are parameters.
\<close>

section \<open>UTF-8\<close>

text \<open>
  \<open>String::from_utf8_lossy\<close>: a maximal part that begins no character is replaced by U+FFFD.
  \<open>utf8_take\<close> gives the bytes of the first character, or how many bytes to replace.
\<close>

definition byte_in :: "nat \<Rightarrow> nat \<Rightarrow> char list \<Rightarrow> nat \<Rightarrow> bool" where
  "byte_in lo hi s k \<longleftrightarrow> k < length s \<and> lo \<le> of_char (s ! k) \<and> of_char (s ! k) \<le> hi"

definition utf8_second :: "nat \<Rightarrow> nat \<times> nat" where
  "utf8_second b =
     (if b = 0xE0 then (0xA0, 0xBF) else if b = 0xED then (0x80, 0x9F)
      else if b = 0xF0 then (0x90, 0xBF) else if b = 0xF4 then (0x80, 0x8F) else (0x80, 0xBF))"

definition utf8_take :: "char \<Rightarrow> string \<Rightarrow> nat + nat" where
  "utf8_take c s =
     (let b = of_char c :: nat; (lo, hi) = utf8_second b in
      if b < 0x80 then Inr 0
      else if 0xC2 \<le> b \<and> b \<le> 0xDF then (if byte_in 0x80 0xBF s 0 then Inr 1 else Inl 0)
      else if 0xE0 \<le> b \<and> b \<le> 0xEF then
        (if \<not> byte_in lo hi s 0 then Inl 0 else if byte_in 0x80 0xBF s 1 then Inr 2 else Inl 1)
      else if 0xF0 \<le> b \<and> b \<le> 0xF4 then
        (if \<not> byte_in lo hi s 0 then Inl 0
         else if \<not> byte_in 0x80 0xBF s 1 then Inl 1
         else if byte_in 0x80 0xBF s 2 then Inr 3 else Inl 2)
      else Inl 0)"

definition replacement :: string where
  "replacement = [char_of (0xEF :: nat), char_of (0xBF :: nat), char_of (0xBD :: nat)]"

function utf8_lossy :: "string \<Rightarrow> string" where
  "utf8_lossy [] = []"
| "utf8_lossy (c # s) =
     (case utf8_take c s of
        Inr n \<Rightarrow> c # take n s @ utf8_lossy (drop n s)
      | Inl n \<Rightarrow> replacement @ utf8_lossy (drop n s))"
  by pat_completeness auto
termination by (relation "measure length") auto

section \<open>PKCE and the authorize URL\<close>

definition AUTHORIZE_URL :: string where
  "AUTHORIZE_URL = ''https://myanimelist.net/v1/oauth2/authorize''"

definition TOKEN_URL :: string where "TOKEN_URL = ''https://myanimelist.net/v1/oauth2/token''"

definition TOKEN_PATH :: string where "TOKEN_PATH = ''/oauth2/token''"

definition REFRESH_MARGIN_SECS :: int where "REFRESH_MARGIN_SECS = 300"

definition pct_byte :: "char \<Rightarrow> string" where
  "pct_byte c =
     (let n = (of_char c :: nat) in
      if is_unreserved c then [c] else [CHR ''%'', hex_digit (n div 16), hex_digit (n mod 16)])"

definition pct_encode :: "string \<Rightarrow> string" where
  "pct_encode s = concat (map pct_byte s)"

definition radix_digit :: "char \<Rightarrow> nat option" where
  "radix_digit c =
     (let n = (of_char c :: nat) in
      if 48 \<le> n \<and> n \<le> 57 then Some (n - 48) else if 65 \<le> n \<and> n \<le> 70 then Some (n - 55)
      else if 97 \<le> n \<and> n \<le> 102 then Some (n - 87) else None)"

text \<open>\<open>u8::from_str_radix\<close> of two bytes: a plus sign is allowed in front.\<close>

definition from_radix16 :: "char \<Rightarrow> char \<Rightarrow> nat option" where
  "from_radix16 a b =
     (if a = CHR ''+'' then radix_digit b
      else Option.bind (radix_digit a) (\<lambda>x. map_option (\<lambda>y. 16 * x + y) (radix_digit b)))"

definition continuation :: "char \<Rightarrow> bool" where
  "continuation c \<longleftrightarrow> (let n = (of_char c :: nat) in 0x80 \<le> n \<and> n \<le> 0xBF)"

text \<open>
  \<open>&s[i + 1..i + 3]\<close> panics when the slice ends inside a character: \<open>None\<close>.
\<close>

fun pct_bytes :: "string \<Rightarrow> string option" where
  "pct_bytes [] = Some []"
| "pct_bytes (c # s) =
     (if c = CHR ''%'' then
        (case s of
           a # b # r \<Rightarrow>
             (if r \<noteq> [] \<and> continuation (hd r) then None
              else
                case from_radix16 a b of
                  Some v \<Rightarrow> map_option (Cons (char_of v)) (pct_bytes r)
                | None \<Rightarrow> map_option (Cons c) (pct_bytes s))
         | _ \<Rightarrow> map_option (Cons c) (pct_bytes s))
      else if c = CHR ''+'' then map_option (Cons CHR '' '') (pct_bytes s)
      else map_option (Cons c) (pct_bytes s))"

definition pct_decode :: "string \<Rightarrow> string option" where
  "pct_decode s = map_option utf8_lossy (pct_bytes s)"

definition TOKEN_CHARS :: string where
  "TOKEN_CHARS = ''ABCDEFGHIJKLMNOPQRSTUVWXYZabcdefghijklmnopqrstuvwxyz0123456789-._~''"

text \<open>\<open>gen_range(0..CHARS.len())\<close> draws an index below the number of characters.\<close>

definition random_token :: "(nat \<Rightarrow> nat) \<Rightarrow> nat \<Rightarrow> string" where
  "random_token draw len = map (\<lambda>k. TOKEN_CHARS ! (draw k mod length TOKEN_CHARS)) [0..<len]"

definition pkce_verifier :: "(nat \<Rightarrow> nat) \<Rightarrow> string" where
  "pkce_verifier draw = random_token draw 64"

definition code_challenge :: "string \<Rightarrow> string" where
  "code_challenge verifier = verifier"

definition authorize_url :: "string \<Rightarrow> string \<Rightarrow> string \<Rightarrow> string \<Rightarrow> string" where
  "authorize_url client_id redirect_uri state challenge =
     AUTHORIZE_URL @ ''?response_type=code&client_id='' @ pct_encode client_id @ ''&redirect_uri='' @ pct_encode redirect_uri
     @ ''&state='' @ pct_encode state @ ''&code_challenge='' @ pct_encode challenge @ ''&code_challenge_method=plain''"

definition BASE64_TABLE :: string where
  "BASE64_TABLE = ''ABCDEFGHIJKLMNOPQRSTUVWXYZabcdefghijklmnopqrstuvwxyz0123456789-_''"

unbundle bit_operations_syntax

definition base64_word :: "8 word \<Rightarrow> 8 word \<Rightarrow> 8 word \<Rightarrow> 32 word" where
  "base64_word a b c = push_bit 16 (ucast a) OR push_bit 8 (ucast b) OR ucast c"

definition base64_char :: "nat \<Rightarrow> 32 word \<Rightarrow> char" where
  "base64_char k n = BASE64_TABLE ! unat (drop_bit k n AND 63)"

fun base64url :: "8 word list \<Rightarrow> string" where
  "base64url [] = []"
| "base64url [a] = (let n = base64_word a 0 0 in [base64_char 18 n, base64_char 12 n])"
| "base64url [a, b] = (let n = base64_word a b 0 in [base64_char 18 n, base64_char 12 n, base64_char 6 n])"
| "base64url (a # b # c # bs) =
     (let n = base64_word a b c in
      [base64_char 18 n, base64_char 12 n, base64_char 6 n, base64_char 0 n] @ base64url bs)"

section \<open>The redirect\<close>

fun split_once :: "char \<Rightarrow> string \<Rightarrow> (string \<times> string) option" where
  "split_once c [] = None"
| "split_once c (x # xs) = (if x = c then Some ([], xs) else map_option (\<lambda>(a, b). (x # a, b)) (split_once c xs))"

fun parse_pairs :: "string list \<Rightarrow> (string \<times> string) list option" where
  "parse_pairs [] = Some []"
| "parse_pairs (p # ps) =
     (case split_once CHR ''='' p of
        None \<Rightarrow> parse_pairs ps
      | Some (k, v) \<Rightarrow>
          Option.bind (pct_decode k) (\<lambda>k'. Option.bind (pct_decode v) (\<lambda>v'.
          map_option (Cons (k', v')) (parse_pairs ps))))"

definition parse_query :: "string \<Rightarrow> (string \<times> string) list option" where
  "parse_query q = parse_pairs (split_on CHR ''&'' [] q)"

text \<open>\<open>lines().next()\<close>, then the second word of it.\<close>

definition first_line :: "string \<Rightarrow> string" where
  "first_line t =
     (let l = takeWhile (\<lambda>c. c \<noteq> CHR 0x0A) t in
      if l \<noteq> t \<and> l \<noteq> [] \<and> last l = CHR 0x0D then butlast l else l)"

definition request_target :: "string \<Rightarrow> string" where
  "request_target request =
     (case split_whitespace (first_line request) of _ # target # _ \<Rightarrow> target | _ \<Rightarrow> ''/'')"

definition denied :: "string \<Rightarrow> error" where
  "denied message = Auth ''mal'' message"

definition params_verdict :: "string \<Rightarrow> (string \<times> string) list \<Rightarrow> error + string" where
  "params_verdict expected params =
     (case (map_of params ''code'', map_of params ''state'', map_of params ''error'') of
        (_, _, Some e) \<Rightarrow> Inl (denied (''MyAnimeList denied the login: '' @ e))
      | (Some code, Some state, None) \<Rightarrow>
          if state = expected then Inr code
          else Inl (denied ''the redirect state did not match; refusing the code'')
      | _ \<Rightarrow> Inl (denied ''the redirect state did not match; refusing the code''))"

text \<open>What the listener meets before the deadline: a request (its first read), or a failed call.\<close>

datatype knock = Knock string | Knock_failed string

fun redirect_code :: "string \<Rightarrow> knock list \<Rightarrow> (error + string) option" where
  "redirect_code expected [] = Some (Inl (denied ''the login timed out waiting for the browser redirect''))"
| "redirect_code expected (Knock_failed e # ks) = Some (Inl (Io e))"
| "redirect_code expected (Knock bytes # ks) =
     (if bytes = [] then redirect_code expected ks
      else
        let target = request_target (utf8_lossy bytes) in
        if starts_with ''/favicon'' target then redirect_code expected ks
        else map_option (params_verdict expected)
               (parse_query (case split_once CHR ''?'' target of Some (_, q) \<Rightarrow> q | None \<Rightarrow> [])))"

section \<open>Secrets\<close>

datatype secret = QbitPassword | MalRefreshToken | MalClientSecret

fun Secret_key :: "secret \<Rightarrow> string" where
  "Secret_key QbitPassword = ''qbit_password''"
| "Secret_key MalRefreshToken = ''mal_refresh_token''"
| "Secret_key MalClientSecret = ''mal_client_secret''"

fun Secret_env_var :: "secret \<Rightarrow> string" where
  "Secret_env_var QbitPassword = ''GENRL_QBIT_PASSWORD''"
| "Secret_env_var MalRefreshToken = ''GENRL_MAL_REFRESH_TOKEN''"
| "Secret_env_var MalClientSecret = ''GENRL_MAL_CLIENT_SECRET''"

fun Secret_label :: "secret \<Rightarrow> string" where
  "Secret_label QbitPassword = ''qBittorrent WebUI password''"
| "Secret_label MalRefreshToken = ''MAL refresh token''"
| "Secret_label MalClientSecret = ''MAL client secret''"

text \<open>
  The keyring: reading gives a value, no entry (\<open>Inl None\<close>) or a failure; writing and deleting may
  fail. \<open>env\<close> is the process environment.
\<close>

record 'k keyring =
  kr_get :: "string \<Rightarrow> 'k \<Rightarrow> string option + string"
  kr_set :: "string \<Rightarrow> string \<Rightarrow> 'k \<Rightarrow> (string + unit) \<times> 'k"
  kr_delete :: "string \<Rightarrow> 'k \<Rightarrow> (string option + unit) \<times> 'k"

type_synonym environment = "string \<Rightarrow> string option"

definition keyring_error :: "secret \<Rightarrow> string \<Rightarrow> error" where
  "keyring_error s e =
     Other (''keyring unavailable while reading '' @ Secret_label s @ '' ('' @ e
       @ ''); unlock your desktop keyring or set '' @ Secret_env_var s @ '' for this run'')"

definition secret_get :: "environment \<Rightarrow> 'k keyring \<Rightarrow> secret \<Rightarrow> 'k \<Rightarrow> error + string option" where
  "secret_get env kr s k =
     (case env (Secret_env_var s) of
        Some (c # v) \<Rightarrow> Inr (Some (c # v))
      | _ \<Rightarrow>
          (case kr_get kr (Secret_key s) k of
             Inr v \<Rightarrow> Inr (Some v)
           | Inl None \<Rightarrow> Inr None
           | Inl (Some e) \<Rightarrow> Inl (keyring_error s e)))"

definition secret_set :: "'k keyring \<Rightarrow> secret \<Rightarrow> string \<Rightarrow> ('k, error, unit) act" where
  "secret_set kr s v =
     (if v = [] then throw (Other (Secret_label s @ '' cannot be empty''))
      else (\<lambda>k. case kr_set kr (Secret_key s) v k of
        (Inl e, k') \<Rightarrow> (Inl (keyring_error s e), k')
      | (Inr _, k') \<Rightarrow> (Inr (), k')))"

definition secret_delete :: "'k keyring \<Rightarrow> secret \<Rightarrow> ('k, error, unit) act" where
  "secret_delete kr s =
     (\<lambda>k. case kr_delete kr (Secret_key s) k of
        (Inl (Some e), k') \<Rightarrow> (Inl (keyring_error s e), k')
      | (_, k') \<Rightarrow> (Inr (), k'))"

section \<open>Where the tokens live\<close>

text \<open>The trait \<open>TokenStore\<close>.\<close>

record 's token_api =
  ta_refresh_token :: "'s \<Rightarrow> error + string option"
  ta_set_refresh_token :: "string option \<Rightarrow> ('s, error, unit) act"
  ta_client_secret :: "'s \<Rightarrow> error + string option"
  ta_set_client_secret :: "string option \<Rightarrow> ('s, error, unit) act"

record memory_state =
  ms_refresh :: "string option"
  ms_secret :: "string option"

definition memory_store :: "memory_state token_api" where
  "memory_store =
     \<lparr> ta_refresh_token = (\<lambda>s. Inr (ms_refresh s)),
       ta_set_refresh_token = (\<lambda>t. modify (\<lambda>s. s\<lparr>ms_refresh := t\<rparr>)),
       ta_client_secret = (\<lambda>s. Inr (ms_secret s)),
       ta_set_client_secret = (\<lambda>t. modify (\<lambda>s. s\<lparr>ms_secret := t\<rparr>)) \<rparr>"

definition keyring_store :: "environment \<Rightarrow> 'k keyring \<Rightarrow> 'k token_api" where
  "keyring_store env kr =
     \<lparr> ta_refresh_token = secret_get env kr MalRefreshToken,
       ta_set_refresh_token = (\<lambda>t. case t of
          Some v \<Rightarrow> secret_set kr MalRefreshToken v | None \<Rightarrow> secret_delete kr MalRefreshToken),
       ta_client_secret = secret_get env kr MalClientSecret,
       ta_set_client_secret = (\<lambda>t. case t of
          Some v \<Rightarrow> if trim v \<noteq> [] then secret_set kr MalClientSecret (trim v) else secret_delete kr MalClientSecret
        | None \<Rightarrow> secret_delete kr MalClientSecret) \<rparr>"

section \<open>The session\<close>

record tokens =
  tk_access :: string
  tk_expires_at :: int

record token_response =
  tr_access :: string
  tr_refresh :: "string option"
  tr_expires_in :: int

text \<open>The stores and the tokens of the session; \<open>MalClient::new\<close> starts without tokens.\<close>

record 's account =
  ac_catalog :: catalog
  ac_store :: 's
  ac_tokens :: "tokens option"

type_synonym ('s, 'a) session = "('s account, error, 'a) act"

text \<open>
  What the gate and the JSON decoder make of a request: the token endpoint for a URL and a form, the
  \<open>error\<close> field of a refused body, and with an access token the account and the fetched list.
\<close>

record mal_services =
  mv_token :: "string \<Rightarrow> (string \<times> string) list \<Rightarrow> error + token_response option"
  mv_error_code :: "string \<Rightarrow> string option"
  mv_account :: "string \<Rightarrow> error + string"
  mv_list :: "string \<Rightarrow> error + mal_entry list \<times> nat"
  mv_env :: environment

definition on_catalog :: "'a cataloguing \<Rightarrow> ('s, 'a) session" where
  "on_catalog a = (\<lambda>s. case a (ac_catalog s) of (r, c) \<Rightarrow> (r, s\<lparr>ac_catalog := c\<rparr>))"

definition on_tokens :: "('s, error, 'a) act \<Rightarrow> ('s, 'a) session" where
  "on_tokens a = (\<lambda>s. case a (ac_store s) of (r, c) \<Rightarrow> (r, s\<lparr>ac_store := c\<rparr>))"

definition session_settings :: "'s account \<Rightarrow> settings" where
  "session_settings s = w_settings (world_of (ac_catalog s))"

definition session_now :: "'s account \<Rightarrow> int" where
  "session_now s = w_now (world_of (ac_catalog s))"

definition token_url :: "settings \<Rightarrow> string" where
  "token_url st =
     (let base = trim_end_slashes (s_mal_base_url st) in
      if contains ''myanimelist.net'' base then TOKEN_URL else base @ TOKEN_PATH)"

definition client_id_of :: "settings \<Rightarrow> error + string" where
  "client_id_of st =
     (if trim (s_mal_client_id st) = []
      then Inl (denied ''no MAL client id is set; add one to settings.mal_client_id'')
      else Inr (trim (s_mal_client_id st)))"

definition REJECTION_CODES :: "string list" where
  "REJECTION_CODES =
     [''invalid_client'', ''invalid_grant'', ''invalid_request'', ''unauthorized_client'', ''unsupported_grant_type'',
      ''invalid_scope'', ''access_denied'']"

definition rejection_code :: "mal_services \<Rightarrow> string option \<Rightarrow> string" where
  "rejection_code mv body =
     (case Option.bind body (mv_error_code mv) of
        Some code \<Rightarrow> if code \<in> set REJECTION_CODES then code else ''request_rejected''
      | None \<Rightarrow> ''request_rejected'')"

definition token_request ::
  "mal_services \<Rightarrow> 's token_api \<Rightarrow> string \<Rightarrow> (string \<times> string) list \<Rightarrow> ('s, tokens) session" where
  "token_request mv api url form =
     (case mv_token mv url form of
        Inl (Status st u d body) \<Rightarrow>
          throw (denied (''token endpoint returned HTTP '' @ show_nat st @ '' ('' @ rejection_code mv body
            @ ''); check MAL client configuration''))
      | Inl e \<Rightarrow> throw e
      | Inr None \<Rightarrow> throw (denied ''token endpoint returned an unexpected response'')
      | Inr (Some r) \<Rightarrow>
          seq (case tr_refresh r of Some t \<Rightarrow> on_tokens (ta_set_refresh_token api (Some t)) | None \<Rightarrow> ret ()) (\<lambda>_.
          seq (gets session_now) (\<lambda>now.
          ret \<lparr> tk_access = tr_access r, tk_expires_at = wrap_int (now + tr_expires_in r) \<rparr>)))"

text \<open>The stored secret, else the one of the environment; a blank one is left out.\<close>

definition secret_field :: "mal_services \<Rightarrow> 's token_api \<Rightarrow> 's \<Rightarrow> (string \<times> string) list" where
  "secret_field mv api k =
     (let stored = (case ta_client_secret api k of Inr t \<Rightarrow> t | Inl _ \<Rightarrow> None) in
      case coalesce stored (mv_env mv ''GENRL_MAL_CLIENT_SECRET'') of
        Some t \<Rightarrow> if trim t = [] then [] else [(''client_secret'', trim t)]
      | None \<Rightarrow> [])"

definition refresh_session :: "mal_services \<Rightarrow> 's token_api \<Rightarrow> string \<Rightarrow> string \<Rightarrow> ('s, tokens) session" where
  "refresh_session mv api client_id refresh =
     seq (gets (\<lambda>s. (token_url (session_settings s), secret_field mv api (ac_store s)))) (\<lambda>(url, field).
     token_request mv api url
       ([(''grant_type'', ''refresh_token''), (''client_id'', client_id), (''refresh_token'', refresh)] @ field))"

definition remember_tokens :: "tokens \<Rightarrow> ('s, unit) session" where
  "remember_tokens t = modify (\<lambda>s. s\<lparr>ac_tokens := Some t\<rparr>)"

definition renew :: "mal_services \<Rightarrow> 's token_api \<Rightarrow> ('s, string) session" where
  "renew mv api =
     seq (gets (\<lambda>s. (ta_refresh_token api (ac_store s), client_id_of (session_settings s)))) (\<lambda>(stored, id).
     seq (lift stored) (\<lambda>stored.
     case stored of
       None \<Rightarrow> throw (denied ''not connected to MyAnimeList; run `genrl mal login` first'')
     | Some refresh \<Rightarrow>
         seq (lift id) (\<lambda>client_id.
         seq (refresh_session mv api client_id refresh) (\<lambda>t.
         seq (remember_tokens t) (\<lambda>_. ret (tk_access t))))))"

definition access_token :: "mal_services \<Rightarrow> 's token_api \<Rightarrow> ('s, string) session" where
  "access_token mv api =
     seq (gets (\<lambda>s. (session_now s, ac_tokens s))) (\<lambda>(now, held).
     case held of
       Some t \<Rightarrow> if now < wrap_int (tk_expires_at t - REFRESH_MARGIN_SECS) then ret (tk_access t) else renew mv api
     | None \<Rightarrow> renew mv api)"

definition exchange_and_store ::
  "mal_services \<Rightarrow> 's token_api \<Rightarrow> string \<Rightarrow> string \<Rightarrow> string \<Rightarrow> ('s, tokens) session" where
  "exchange_and_store mv api redirect_uri code verifier =
     seq (gets (\<lambda>s. (client_id_of (session_settings s), token_url (session_settings s), secret_field mv api (ac_store s)))) (\<lambda>(id, url, field).
     seq (lift id) (\<lambda>client_id.
     seq (token_request mv api url
            ([(''grant_type'', ''authorization_code''), (''client_id'', client_id), (''code'', code),
              (''code_verifier'', verifier), (''redirect_uri'', redirect_uri)] @ field)) (\<lambda>t.
     seq (remember_tokens t) (\<lambda>_. ret t))))"

definition account_name :: "mal_services \<Rightarrow> 's token_api \<Rightarrow> ('s, string) session" where
  "account_name mv api = seq (access_token mv api) (\<lambda>token. lift (mv_account mv token))"

definition fetch_list :: "mal_services \<Rightarrow> 's token_api \<Rightarrow> ('s, mal_entry list \<times> nat) session" where
  "fetch_list mv api = seq (access_token mv api) (\<lambda>token. lift (mv_list mv token))"

text \<open>A new client has no tokens, and they end with it.\<close>

definition with_new_client :: "('s, 'a) session \<Rightarrow> ('s, 'a) session" where
  "with_new_client a = (\<lambda>s. case a (s\<lparr>ac_tokens := None\<rparr>) of (r, t) \<Rightarrow> (r, t\<lparr>ac_tokens := ac_tokens s\<rparr>))"

definition is_connected :: "'s token_api \<Rightarrow> 's \<Rightarrow> bool" where
  "is_connected api k \<longleftrightarrow> (case ta_refresh_token api k of Inr (Some t) \<Rightarrow> True | _ \<Rightarrow> False)"

section \<open>Login\<close>

record login =
  lo_redirect_uri :: string
  lo_verifier :: string
  lo_state :: string
  lo_url :: string
  lo_port :: nat

definition parse_u16 :: "string \<Rightarrow> nat option" where
  "parse_u16 t = parse_bounded (2 ^ 16) (if starts_with ''+'' t then tl t else t)"

definition redirect_port :: "environment \<Rightarrow> nat option \<Rightarrow> nat" where
  "redirect_port env override =
     (case override of
        Some p \<Rightarrow> p
      | None \<Rightarrow>
          (case Option.bind (env ''GENRL_MAL_REDIRECT_PORT'') (\<lambda>v. parse_u16 (trim v)) of
             Some p \<Rightarrow> p | None \<Rightarrow> 21445))"

text \<open>\<open>bound\<close> is the refusal of the operating system to listen on a port, if any.\<close>

definition start_login ::
  "environment \<Rightarrow> (nat \<Rightarrow> string option) \<Rightarrow> (nat \<Rightarrow> nat) \<Rightarrow> (nat \<Rightarrow> nat) \<Rightarrow> settings \<Rightarrow> nat option \<Rightarrow> string option
    \<Rightarrow> error + login" where
  "start_login env bound draw draw' st override_port override_uri =
     (let client_id = trim (s_mal_client_id st); port = redirect_port env override_port in
      if client_id = []
      then Inl (denied ''set settings.mal_client_id (myanimelist.net/apiconfig) before logging in'')
      else case bound port of
        Some e \<Rightarrow> Inl (Io e)
      | None \<Rightarrow>
          let uri = (case coalesce override_uri (env ''GENRL_MAL_REDIRECT_URI'') of
                       Some u \<Rightarrow> u | None \<Rightarrow> ''http://127.0.0.1:'' @ show_nat port @ ''/callback'');
              verifier = pkce_verifier draw; state = random_token draw' 32
          in Inr \<lparr> lo_redirect_uri = uri, lo_verifier = verifier, lo_state = state,
                   lo_url = authorize_url client_id uri state (code_challenge verifier), lo_port = port \<rparr>)"

definition finish_login ::
  "mal_services \<Rightarrow> 's token_api \<Rightarrow> login \<Rightarrow> knock list \<Rightarrow> ('s, unit) session" where
  "finish_login mv api lo knocks =
     (case redirect_code (lo_state lo) knocks of
        None \<Rightarrow> throw (Panic ''byte index is not a char boundary'')
      | Some r \<Rightarrow>
          seq (lift r) (\<lambda>code.
          seq (exchange_and_store mv api (lo_redirect_uri lo) code (lo_verifier lo)) (\<lambda>_. ret ())))"

section \<open>Connecting\<close>

definition JIKAN_USER_STATE_KEY :: string where "JIKAN_USER_STATE_KEY = ''mal_public_username''"

definition ACCOUNT_SOURCE_STATE_KEY :: string where "ACCOUNT_SOURCE_STATE_KEY = ''mal_account_source''"

record status_counts =
  sc_watching :: nat
  sc_completed :: nat
  sc_on_hold :: nat
  sc_dropped :: nat
  sc_plan_to_watch :: nat
  sc_all :: nat

record mal_status_result =
  st_status :: string
  st_username :: "string option"
  st_source :: "string option"
  st_last_sync_at :: "int option"
  st_counts :: status_counts
  st_client_id :: "string option"

definition rows_with_status :: "string \<Rightarrow> catalog \<Rightarrow> nat" where
  "rows_with_status status c = length (filter (\<lambda>r. mr_list_status r = status) (ct_mal c))"

definition status_counts_of :: "catalog \<Rightarrow> status_counts" where
  "status_counts_of c =
     \<lparr> sc_watching = rows_with_status ''watching'' c, sc_completed = rows_with_status ''completed'' c,
       sc_on_hold = rows_with_status ''on_hold'' c, sc_dropped = rows_with_status ''dropped'' c,
       sc_plan_to_watch = rows_with_status ''plan_to_watch'' c, sc_all = length (ct_mal c) \<rparr>"

definition base_status :: "catalog \<Rightarrow> mal_status_result" where
  "base_status c =
     (let id = trim (s_mal_client_id (w_settings (world_of c))) in
      \<lparr> st_status = ''not_connected'', st_username = None, st_source = None,
        st_last_sync_at = read_state_time SYNC_STATE_KEY c, st_counts = status_counts_of c,
        st_client_id = (if id = [] then None else Some id) \<rparr>)"

definition is_auth_error :: "error \<Rightarrow> bool" where
  "is_auth_error e = (case e of Auth svc msg \<Rightarrow> True | _ \<Rightarrow> False)"

definition mal_status :: "mal_services \<Rightarrow> 's token_api \<Rightarrow> ('s, mal_status_result) session" where
  "mal_status mv api =
     seq (gets (\<lambda>s. (base_status (ac_catalog s), ct_state (ac_catalog s) JIKAN_USER_STATE_KEY, is_connected api (ac_store s))))
       (\<lambda>(base, public_user, connected).
     if connected
     then seq (attempt (with_new_client (account_name mv api))) (\<lambda>r.
       case r of
         Inr name \<Rightarrow>
           seq (on_catalog (write_state ''mal_account'' name)) (\<lambda>_.
           seq (on_catalog (write_state ACCOUNT_SOURCE_STATE_KEY ''mal'')) (\<lambda>_.
           ret (base\<lparr>st_status := ''connected'', st_username := Some name, st_source := Some ''mal''\<rparr>)))
       | Inl e \<Rightarrow>
           seq (gets (\<lambda>s. ct_state (ac_catalog s) ''mal_account'')) (\<lambda>saved.
           ret (base\<lparr>st_status := (if is_auth_error e then ''token_expired'' else ''connected''),
                     st_username := saved, st_source := Some ''mal''\<rparr>)))
     else
       ret (case public_user of
              Some user \<Rightarrow>
                if trim user \<noteq> []
                then base\<lparr>st_status := ''public_profile'', st_username := Some user, st_source := Some ''jikan''\<rparr>
                else base
            | None \<Rightarrow> base))"

definition mal_disconnect :: "'s token_api \<Rightarrow> ('s, unit) session" where
  "mal_disconnect api =
     seq (on_tokens (ta_set_refresh_token api None)) (\<lambda>_.
     seq (attempt (on_tokens (ta_set_client_secret api None))) (\<lambda>_.
     seq (on_catalog (write_state JIKAN_USER_STATE_KEY [])) (\<lambda>_.
     seq (on_catalog (write_state ACCOUNT_SOURCE_STATE_KEY [])) (\<lambda>_.
     seq (attempt (on_catalog (on_world (log_info None None ''MAL disconnected; credentials and profile cleared'')))) (\<lambda>_.
     ret ())))))"

definition mal_set_public_profile :: "string \<Rightarrow> ('s, unit) session" where
  "mal_set_public_profile username =
     seq (on_catalog (write_state JIKAN_USER_STATE_KEY (trim username))) (\<lambda>_.
     seq (on_catalog (write_state ACCOUNT_SOURCE_STATE_KEY ''jikan'')) (\<lambda>_.
     seq (attempt (on_catalog (on_world (log_info None None
            (''Public MAL profile set to '' @ in_quotes (trim username)))))) (\<lambda>_.
     ret ())))"

text \<open>\<open>sync\<close> asks for the account, then for the list, and writes both.\<close>

definition sync_account :: "matcher \<Rightarrow> mal_services \<Rightarrow> 's token_api \<Rightarrow> ('s, sync_report) session" where
  "sync_account rx mv api =
     with_new_client (
       seq (attempt (account_name mv api)) (\<lambda>account.
       seq (attempt (fetch_list mv api)) (\<lambda>fetched.
       on_catalog (sync_list rx account fetched))))"

text \<open>\<open>public\<close> is the synchronisation of a user's public list.\<close>

definition mal_sync ::
  "matcher \<Rightarrow> mal_services \<Rightarrow> 's token_api \<Rightarrow> (string \<Rightarrow> sync_report cataloguing) \<Rightarrow> ('s, sync_report) session" where
  "mal_sync rx mv api public =
     seq (gets (\<lambda>s. (ct_state (ac_catalog s) ACCOUNT_SOURCE_STATE_KEY, ct_state (ac_catalog s) JIKAN_USER_STATE_KEY,
                    is_connected api (ac_store s)))) (\<lambda>(source, user, connected).
     let profile = (case user of Some u \<Rightarrow> if trim u \<noteq> [] then Some u else None | None \<Rightarrow> None) in
     case (source = Some ''jikan'', profile) of
       (True, Some u) \<Rightarrow> on_catalog (public u)
     | _ \<Rightarrow>
         if connected then sync_account rx mv api
         else case profile of
           Some u \<Rightarrow> on_catalog (public u)
         | None \<Rightarrow> throw (denied ''neither MAL account nor public profile username is set''))"

section \<open>Escapes\<close>

lemma unreserved_ascii: "is_unreserved c \<Longrightarrow> of_char c < (128 :: nat)"
  by (auto simp: is_unreserved_def Let_def)

lemma unreserved_plain: "is_unreserved c \<Longrightarrow> c \<noteq> CHR ''%'' \<and> c \<noteq> CHR ''+'' \<and> c \<noteq> CHR ''&'' \<and> c \<noteq> CHR ''='' \<and> \<not> is_space c"
  by (auto simp: is_unreserved_def is_space_def Let_def)

lemma hex_digit_unreserved: "n < 16 \<Longrightarrow> is_unreserved (hex_digit n)"
  by (auto simp: is_unreserved_def hex_digit_def Let_def take_bit_nat_eq_self)

lemma radix_hex: "n < 16 \<Longrightarrow> radix_digit (hex_digit n) = Some n"
  by (auto simp: radix_digit_def hex_digit_def Let_def take_bit_nat_eq_self)

lemma of_char_nibbles: "(of_char (c :: char) :: nat) div 16 < 16" "(of_char (c :: char) :: nat) mod 16 < 16"
proof -
  show "(of_char c :: nat) div 16 < 16" by (rule less_mult_imp_div_less) (use char_code_less [of c] in simp)
qed simp

definition escaped_char :: "char \<Rightarrow> bool" where
  "escaped_char c \<longleftrightarrow> is_unreserved c \<or> c = CHR ''%''"

lemma pct_byte_chars: "list_all escaped_char (pct_byte c)"
  by (simp add: pct_byte_def Let_def escaped_char_def hex_digit_unreserved of_char_nibbles)

lemma pct_encode_chars: "list_all escaped_char (pct_encode s)"
  unfolding pct_encode_def by (induction s) (simp_all add: pct_byte_chars)

lemma escaped_plain: "escaped_char c \<Longrightarrow> c \<noteq> CHR ''+'' \<and> c \<noteq> CHR ''&'' \<and> c \<noteq> CHR ''='' \<and> c \<noteq> CHR ''?'' \<and> \<not> is_space c \<and> of_char c < (128 :: nat)"
  using unreserved_plain [of c] unreserved_ascii [of c] by (auto simp: escaped_char_def is_space_def is_unreserved_def)

lemma not_continuation: "of_char c < (128 :: nat) \<Longrightarrow> \<not> continuation c"
  by (simp add: continuation_def)

lemma pct_bytes_byte:
  assumes "t \<noteq> [] \<Longrightarrow> of_char (hd t) < (128 :: nat)"
  shows "pct_bytes (pct_byte c @ t) = map_option (Cons c) (pct_bytes t)"
proof (cases "is_unreserved c")
  case True
  then show ?thesis using unreserved_plain [OF True] by (simp add: pct_byte_def)
next
  case False
  let ?n = "of_char c :: nat"
  have "hex_digit (?n div 16) \<noteq> CHR ''+''"
    using unreserved_plain [OF hex_digit_unreserved [OF of_char_nibbles(1)]] by blast
  then have "from_radix16 (hex_digit (?n div 16)) (hex_digit (?n mod 16)) = Some ?n"
    by (simp add: from_radix16_def radix_hex of_char_nibbles)
  moreover have "\<not> (t \<noteq> [] \<and> continuation (hd t))" using assms not_continuation by blast
  ultimately show ?thesis using False by (cases "t = []") (simp_all add: pct_byte_def Let_def)
qed

lemma pct_bytes_encode: "pct_bytes (pct_encode s) = Some s"
proof (induction s)
  case (Cons c s)
  have "pct_encode (c # s) = pct_byte c @ pct_encode s" by (simp add: pct_encode_def)
  moreover have "pct_encode s \<noteq> [] \<Longrightarrow> of_char (hd (pct_encode s)) < (128 :: nat)"
    using pct_encode_chars [of s] escaped_plain by (cases "pct_encode s") auto
  ultimately show ?case using pct_bytes_byte [of "pct_encode s" c] Cons by simp
qed (simp add: pct_encode_def)

lemma utf8_ascii: "list_all (\<lambda>c. of_char c < (128 :: nat)) s \<Longrightarrow> utf8_lossy s = s"
proof (induction s)
  case (Cons c s)
  then have "utf8_take c s = Inr 0" by (simp add: utf8_take_def Let_def split: prod.split)
  then show ?case using Cons by simp
qed simp

lemma split_once_plain: "c \<notin> set a \<Longrightarrow> split_once c (a @ c # b) = Some (a, b)"
  by (induction a) auto

lemma escaped_no:
  assumes "list_all escaped_char s"
  shows "CHR ''&'' \<notin> set s" "CHR ''='' \<notin> set s" "CHR ''?'' \<notin> set s" "\<forall>c\<in>set s. \<not> is_space c"
    "list_all (\<lambda>c. of_char c < (128 :: nat)) s"
  using assms escaped_plain by (auto simp: list_all_iff)

lemma parse_pair_encoded: "parse_pairs ((pct_encode k @ CHR ''='' # pct_encode v) # ps)
    = map_option (Cons (utf8_lossy k, utf8_lossy v)) (parse_pairs ps)"
  using escaped_no(2) [OF pct_encode_chars [of k]]
  by (simp add: split_once_plain pct_decode_def pct_bytes_encode)

text \<open>
  Escaping a text is reversible: the decoder gives back the bytes (as UTF-8), and a query whose
  names and values are escaped is parsed back into them, whatever bytes they hold.
\<close>

theorem escapes_round_trip:
  "pct_decode (pct_encode s) = Some (utf8_lossy s)
   \<and> parse_query (pct_encode k @ ''='' @ pct_encode v @ ''&'' @ pct_encode k' @ ''='' @ pct_encode v')
     = Some [(utf8_lossy k, utf8_lossy v), (utf8_lossy k', utf8_lossy v')]"
proof (intro conjI)
  let ?p = "pct_encode k @ CHR ''='' # pct_encode v" and ?q = "pct_encode k' @ CHR ''='' # pct_encode v'"
  have no: "CHR ''&'' \<notin> set ?p" "CHR ''&'' \<notin> set ?q"
    using escaped_no(1) [OF pct_encode_chars] by simp_all
  have "split_on CHR ''&'' [] (?p @ CHR ''&'' # ?q) = [?p, ?q]"
    unfolding split_on_append using split_on_none [OF no(1), of "[]"] split_on_none [OF no(2), of "[]"] by simp
  then have "parse_query (?p @ CHR ''&'' # ?q) = Some [(utf8_lossy k, utf8_lossy v), (utf8_lossy k', utf8_lossy v')]"
    unfolding parse_query_def by (simp only: parse_pair_encoded) simp
  then show "parse_query (pct_encode k @ ''='' @ pct_encode v @ ''&'' @ pct_encode k' @ ''='' @ pct_encode v')
     = Some [(utf8_lossy k, utf8_lossy v), (utf8_lossy k', utf8_lossy v')]" by simp
qed (simp add: pct_decode_def pct_bytes_encode)

section \<open>The redirect\<close>

lemma token_chars_unreserved: "list_all is_unreserved TOKEN_CHARS"
  by code_simp

lemma random_token_chars: "list_all is_unreserved (random_token draw n)"
proof -
  have "0 < length TOKEN_CHARS" by (simp add: TOKEN_CHARS_def)
  then have "TOKEN_CHARS ! (draw k mod length TOKEN_CHARS) \<in> set TOKEN_CHARS" for k
    by (intro nth_mem) simp
  then show ?thesis using token_chars_unreserved by (simp add: random_token_def list_all_iff)
qed

lemma pct_encode_unreserved: "list_all is_unreserved s \<Longrightarrow> pct_encode s = s"
  unfolding pct_encode_def by (induction s) (simp_all add: pct_byte_def Let_def)

definition ignored_knock :: "knock \<Rightarrow> bool" where
  "ignored_knock k =
     (case k of
        Knock bytes \<Rightarrow> bytes = [] \<or> starts_with ''/favicon'' (request_target (utf8_lossy bytes))
      | Knock_failed e \<Rightarrow> False)"

definition request_params :: "string \<Rightarrow> (string \<times> string) list option" where
  "request_params bytes =
     parse_query (case split_once CHR ''?'' (request_target (utf8_lossy bytes)) of Some (_, q) \<Rightarrow> q | None \<Rightarrow> [])"

lemma redirect_code_ignored: "list_all ignored_knock early \<Longrightarrow> redirect_code expected (early @ ks) = redirect_code expected ks"
proof (induction early)
  case (Cons k early)
  then show ?case by (cases k) (auto simp: ignored_knock_def Let_def)
qed simp

lemma redirect_code_answers:
  "\<not> ignored_knock (Knock bytes) \<Longrightarrow>
     redirect_code expected (Knock bytes # ks) = map_option (params_verdict expected) (request_params bytes)"
  by (simp add: ignored_knock_def request_params_def Let_def)

lemma params_verdict_ok:
  "params_verdict expected ps = Inr code \<longleftrightarrow>
     map_of ps ''code'' = Some code \<and> map_of ps ''state'' = Some expected \<and> map_of ps ''error'' = None"
  by (auto simp: params_verdict_def split: option.splits)

lemma first_answered:
  "redirect_code expected ks = Some (Inr code) \<Longrightarrow>
     \<exists>early bytes post ps. ks = early @ Knock bytes # post \<and> list_all ignored_knock early \<and> \<not> ignored_knock (Knock bytes)
       \<and> request_params bytes = Some ps \<and> params_verdict expected ps = Inr code"
proof (induction ks)
  case (Cons k ks)
  show ?case
  proof (cases "ignored_knock k")
    case True
    then have "redirect_code expected ks = Some (Inr code)"
      using Cons.prems redirect_code_ignored [of "[k]" expected ks] by simp
    then obtain early bytes post ps where "ks = early @ Knock bytes # post" "list_all ignored_knock early"
      "\<not> ignored_knock (Knock bytes)" "request_params bytes = Some ps" "params_verdict expected ps = Inr code"
      using Cons.IH by blast
    then show ?thesis using True by (intro exI [of _ "k # early"]) auto
  next
    case False
    then obtain bytes where k: "k = Knock bytes" using Cons.prems by (cases k) auto
    then obtain ps where "request_params bytes = Some ps" "params_verdict expected ps = Inr code"
      using Cons.prems redirect_code_answers [of bytes expected ks] False
      by (cases "request_params bytes") (simp_all del: redirect_code.simps)
    then show ?thesis using False k
      by (intro exI [of _ "[]"] exI [of _ bytes] exI [of _ ks] exI [of _ ps]) simp
  qed
qed simp

text \<open>
  C16: The login takes a code exactly from the first request that is not ignored (an empty read or
  the favicon), and only when its query carries the expected \<open>state\<close>, a code and no error: no
  request with another state ever yields a code.
\<close>

theorem redirect_code_csrf:
  "redirect_code expected ks = Some (Inr code) \<longleftrightarrow>
     (\<exists>early bytes post ps. ks = early @ Knock bytes # post \<and> list_all ignored_knock early \<and> \<not> ignored_knock (Knock bytes)
       \<and> request_params bytes = Some ps \<and> map_of ps ''code'' = Some code \<and> map_of ps ''state'' = Some expected
       \<and> map_of ps ''error'' = None)"
proof
  assume "redirect_code expected ks = Some (Inr code)"
  from first_answered [OF this] show "\<exists>early bytes post ps. ks = early @ Knock bytes # post \<and> list_all ignored_knock early
       \<and> \<not> ignored_knock (Knock bytes) \<and> request_params bytes = Some ps \<and> map_of ps ''code'' = Some code
       \<and> map_of ps ''state'' = Some expected \<and> map_of ps ''error'' = None"
    unfolding params_verdict_ok by blast
next
  assume "\<exists>early bytes post ps. ks = early @ Knock bytes # post \<and> list_all ignored_knock early \<and> \<not> ignored_knock (Knock bytes)
       \<and> request_params bytes = Some ps \<and> map_of ps ''code'' = Some code \<and> map_of ps ''state'' = Some expected
       \<and> map_of ps ''error'' = None"
  then obtain early bytes post ps where ks: "ks = early @ Knock bytes # post" "list_all ignored_knock early" "\<not> ignored_knock (Knock bytes)"
    and ps: "request_params bytes = Some ps" "params_verdict expected ps = Inr code"
    unfolding params_verdict_ok by blast
  show "redirect_code expected ks = Some (Inr code)"
    unfolding ks(1) redirect_code_ignored [OF ks(2)] redirect_code_answers [OF ks(3)] using ps by simp
qed

text \<open>The request line of an honest browser.\<close>

definition callback_request :: "string \<Rightarrow> string \<Rightarrow> string" where
  "callback_request code state =
     ''GET /callback?code='' @ pct_encode code @ ''&state='' @ pct_encode state @ '' HTTP/1.1'' @ [CHR 0x0D, CHR 0x0A]"

lemma words_loop_word: "\<forall>c\<in>set w. \<not> is_space c \<Longrightarrow> words_loop acc (w @ s) = words_loop (acc @ w) s"
  by (induction w arbitrary: acc) auto

lemma space_newline: "is_space (CHR 0x0A)"
  by (simp add: is_space_def)

lemma first_line_crlf:
  assumes "CHR 0x0A \<notin> set l"
  shows "first_line (l @ [CHR 0x0D, CHR 0x0A]) = l"
proof -
  have "takeWhile (\<lambda>c. c \<noteq> CHR 0x0A) ((l @ [CHR 0x0D]) @ [CHR 0x0A]) = l @ [CHR 0x0D]"
    by (subst takeWhile_append2) (use assms in auto)
  then have "takeWhile (\<lambda>c. c \<noteq> CHR 0x0A) (l @ [CHR 0x0D, CHR 0x0A]) = l @ [CHR 0x0D]" by simp
  then show ?thesis unfolding first_line_def by (simp only: Let_def last_snoc butlast_snoc) simp
qed

lemma callback_target:
  "request_target (callback_request code state) = ''/callback?code='' @ pct_encode code @ ''&state='' @ pct_encode state"
proof -
  let ?t = "''/callback?code='' @ pct_encode code @ ''&state='' @ pct_encode state"
  let ?line = "''GET '' @ ?t @ '' HTTP/1.1''"
  have plain: "\<forall>c\<in>set ?t. \<not> is_space c"
    using escaped_no(4) [OF pct_encode_chars [of code]] escaped_no(4) [OF pct_encode_chars [of state]]
    by (auto simp: is_space_def)
  have "CHR 0x0A \<notin> set ?t" using plain space_newline by blast
  then have "CHR 0x0A \<notin> set ?line" by simp
  from first_line_crlf [OF this] have "first_line (callback_request code state) = ?line"
    by (simp only: callback_request_def append_assoc) simp
  moreover have "split_whitespace ?line = [''GET'', ?t, ''HTTP/1.1'']"
  proof -
    have "split_whitespace ?line = ''GET'' # words_loop [] (?t @ '' HTTP/1.1'')"
      by (simp add: split_whitespace_def is_space_def)
    also have "words_loop [] (?t @ '' HTTP/1.1'') = words_loop ?t '' HTTP/1.1''"
      using words_loop_word [OF plain, of "[]"] by simp
    also have "words_loop ?t '' HTTP/1.1'' = [?t, ''HTTP/1.1'']" by (simp add: is_space_def)
    finally show ?thesis .
  qed
  ultimately show ?thesis by (simp add: request_target_def)
qed

lemma ascii_fixed: "list_all is_unreserved s \<Longrightarrow> utf8_lossy s = s"
  by (rule utf8_ascii) (auto simp: list_all_iff dest: unreserved_ascii)

lemma callback_ascii: "utf8_lossy (callback_request code state) = callback_request code state"
  by (rule utf8_ascii) (simp add: callback_request_def escaped_no(5) [OF pct_encode_chars])

lemma callback_params:
  "request_params (callback_request code state) = Some [(''code'', utf8_lossy code), (''state'', utf8_lossy state)]"
proof -
  let ?p = "''code='' @ pct_encode code" and ?q = "''state='' @ pct_encode state"
  have name: "pct_encode ''code'' = ''code''" "pct_encode ''state'' = ''state''" by code_simp+
  have lossy: "utf8_lossy ''code'' = ''code''" "utf8_lossy ''state'' = ''state''" by code_simp+
  have no: "CHR ''&'' \<notin> set ?p" "CHR ''&'' \<notin> set ?q"
    using escaped_no(1) [OF pct_encode_chars] by simp_all
  have "split_once CHR ''?'' (''/callback?'' @ ?p @ CHR ''&'' # ?q) = Some (''/callback'', ?p @ CHR ''&'' # ?q)" by simp
  then have "split_once CHR ''?'' (request_target (utf8_lossy (callback_request code state))) = Some (''/callback'', ?p @ CHR ''&'' # ?q)"
    unfolding callback_ascii callback_target by simp
  moreover have "split_on CHR ''&'' [] (?p @ CHR ''&'' # ?q) = [?p, ?q]"
    unfolding split_on_append using split_on_none [OF no(1), of "[]"] split_on_none [OF no(2), of "[]"] by simp
  moreover have "parse_pairs [?p, ?q] = Some [(''code'', utf8_lossy code), (''state'', utf8_lossy state)]"
    using parse_pair_encoded [of "''code''" code "[?q]"] parse_pair_encoded [of "''state''" state "[]"]
    by (simp del: parse_pairs.simps(2) utf8_lossy.simps add: name lossy)
  ultimately show ?thesis by (simp add: request_params_def parse_query_def)
qed

lemma callback_answered: "\<not> ignored_knock (Knock (callback_request code state))"
  unfolding ignored_knock_def by (simp only: knock.case callback_ascii callback_target) (simp add: callback_request_def starts_with_def)

lemma started_state: "start_login env bound draw draw' st port uri = Inr lo \<Longrightarrow> lo_state lo = random_token draw' 32"
  by (auto simp: start_login_def Let_def split: if_splits option.splits)


definition hostile_request :: string where
  "hostile_request = ''GET /callback?code=%a'' @ [char_of (0xC3 :: nat), char_of (0xA9 :: nat)] @ '' HTTP/1.1''"

lemma hostile_params: "request_params hostile_request = None" "\<not> ignored_knock (Knock hostile_request)"
  by code_simp+


section \<open>Tokens\<close>

text \<open>What the session relies on in a token store: a token that was set is the one that is read.\<close>

locale token_store =
  fixes api :: "'s token_api"
  assumes set_refresh: "ta_set_refresh_token api t k = (Inr (), k') \<Longrightarrow> ta_refresh_token api k' = Inr t"
begin

lemma token_request_ok:
  assumes "token_request mv api url form s = (Inr tk, t)"
  obtains r where "mv_token mv url form = Inr (Some r)"
    "tk = \<lparr> tk_access = tr_access r, tk_expires_at = wrap_int (session_now s + tr_expires_in r) \<rparr>"
    "ac_catalog t = ac_catalog s" "ac_tokens t = ac_tokens s"
    "case tr_refresh r of Some v \<Rightarrow> ta_refresh_token api (ac_store t) = Inr (Some v) | None \<Rightarrow> ac_store t = ac_store s"
proof -
  obtain r where r: "mv_token mv url form = Inr (Some r)"
  proof (cases "mv_token mv url form")
    case (Inl e)
    then show ?thesis using assms by (cases e) (simp_all add: token_request_def throw_def)
  next
    case (Inr answer)
    then show ?thesis using assms that by (cases answer) (simp_all add: token_request_def throw_def)
  qed
  have "ac_catalog t = ac_catalog s \<and> ac_tokens t = ac_tokens s
      \<and> tk = \<lparr> tk_access = tr_access r, tk_expires_at = wrap_int (session_now s + tr_expires_in r) \<rparr>
      \<and> (case tr_refresh r of Some v \<Rightarrow> ta_refresh_token api (ac_store t) = Inr (Some v) | None \<Rightarrow> ac_store t = ac_store s)"
  proof (cases "tr_refresh r")
    case None
    then show ?thesis using assms unfolding token_request_def r by (auto simp: ret_def)
  next
    case (Some v)
    obtain q k where k: "ta_set_refresh_token api (Some v) (ac_store s) = (q, k)" by fastforce
    show ?thesis
    proof (cases q)
      case (Inl e)
      then show ?thesis using assms k Some unfolding token_request_def r by (simp add: on_tokens_def seq_def)
    next
      case (Inr x)
      then show ?thesis using assms k Some set_refresh [of "Some v" "ac_store s" k]
        unfolding token_request_def r by (auto simp: on_tokens_def seq_def gets_def ret_def session_now_def)
    qed
  qed
  then show thesis using that [OF r] by blast
qed

lemma renew_ok:
  assumes "renew mv api s = (Inr tok, t)"
  obtains url form r where "mv_token mv url form = Inr (Some r)" "tok = tr_access r" "ac_catalog t = ac_catalog s"
    "ac_tokens t = Some \<lparr> tk_access = tr_access r, tk_expires_at = wrap_int (session_now s + tr_expires_in r) \<rparr>"
    "case tr_refresh r of Some v \<Rightarrow> ta_refresh_token api (ac_store t) = Inr (Some v) | None \<Rightarrow> ac_store t = ac_store s"
proof -
  obtain stored id where "seq (lift stored) (\<lambda>stored. case stored of
       None \<Rightarrow> throw (denied ''not connected to MyAnimeList; run `genrl mal login` first'')
     | Some refresh \<Rightarrow> seq (lift id) (\<lambda>client_id.
         seq (refresh_session mv api client_id refresh) (\<lambda>t. seq (remember_tokens t) (\<lambda>_. ret (tk_access t))))) s = (Inr tok, t)"
    using assms unfolding renew_def seq_gets prod.case by blast
  then obtain refresh client_id where
    "seq (refresh_session mv api client_id refresh) (\<lambda>t. seq (remember_tokens t) (\<lambda>_. ret (tk_access t))) s = (Inr tok, t)"
    by (cases stored; cases id) (auto simp: throw_def split: option.splits)
  then obtain tk u where "refresh_session mv api client_id refresh s = (Inr tk, u)"
    and rest: "seq (remember_tokens tk) (\<lambda>_. ret (tk_access tk)) u = (Inr tok, t)"
    by (rule seq_ok_cases)
  moreover have t: "tok = tk_access tk" "t = u\<lparr>ac_tokens := Some tk\<rparr>"
    using rest by (simp_all add: remember_tokens_def ret_def)
  ultimately obtain url form where req: "token_request mv api url form s = (Inr tk, u)"
    unfolding refresh_session_def seq_gets prod.case by blast
  obtain r where "mv_token mv url form = Inr (Some r)"
    "tk = \<lparr> tk_access = tr_access r, tk_expires_at = wrap_int (session_now s + tr_expires_in r) \<rparr>"
    "ac_catalog u = ac_catalog s" "ac_tokens u = ac_tokens s"
    "case tr_refresh r of Some v \<Rightarrow> ta_refresh_token api (ac_store u) = Inr (Some v) | None \<Rightarrow> ac_store u = ac_store s"
    using req by (rule token_request_ok)
  then show thesis using that [of url form r] t by (cases "tr_refresh r") simp_all
qed

end

interpretation memory: token_store memory_store
  by unfold_locales (auto simp: memory_store_def)


section \<open>Disconnecting\<close>

lemma on_catalog_run [simp]: "on_catalog a s = (fst (a (ac_catalog s)), s\<lparr>ac_catalog := snd (a (ac_catalog s))\<rparr>)"
  by (simp add: on_catalog_def split: prod.split)

lemma on_tokens_run [simp]: "on_tokens a s = (fst (a (ac_store s)), s\<lparr>ac_store := snd (a (ac_store s))\<rparr>)"
  by (simp add: on_tokens_def split: prod.split)

lemma disconnect_run:
  obtains t where "mal_disconnect memory_store s = (Inr (), t)" "ac_store t = \<lparr> ms_refresh = None, ms_secret = None \<rparr>"
    "ct_state (ac_catalog t) JIKAN_USER_STATE_KEY = Some []" "ct_state (ac_catalog t) ACCOUNT_SOURCE_STATE_KEY = Some []"
    "ct_state (ac_catalog t) ''mal_account'' = ct_state (ac_catalog s) ''mal_account''"
proof -
  let ?t = "snd (mal_disconnect memory_store s)"
  have "fst (mal_disconnect memory_store s) = Inr ()" "ac_store ?t = \<lparr> ms_refresh = None, ms_secret = None \<rparr>"
    "ct_state (ac_catalog ?t) JIKAN_USER_STATE_KEY = Some []" "ct_state (ac_catalog ?t) ACCOUNT_SOURCE_STATE_KEY = Some []"
    "ct_state (ac_catalog ?t) ''mal_account'' = ct_state (ac_catalog s) ''mal_account''"
    by (cases "ac_store s"; simp add: mal_disconnect_def memory_store_def seq_def write_state_def attempt_def ret_def
        JIKAN_USER_STATE_KEY_def ACCOUNT_SOURCE_STATE_KEY_def)+
  then show thesis using that [of ?t] by (metis prod.collapse)
qed


section \<open>Witnesses\<close>

definition demo_account :: "memory_state account" where
  "demo_account =
     \<lparr> ac_catalog = demo_catalog\<lparr>ct_library := (ct_library demo_catalog)\<lparr>lb_world := (world_of demo_catalog)
         \<lparr>w_settings := Settings_default\<lparr>s_mal_client_id := ''id''\<rparr>\<rparr>\<rparr>\<rparr>,
       ac_store = \<lparr> ms_refresh = Some ''old'', ms_secret = None \<rparr>, ac_tokens = None \<rparr>"

definition demo_mal :: mal_services where
  "demo_mal =
     \<lparr> mv_token = (\<lambda>_ _. Inr (Some \<lparr> tr_access = ''tok'', tr_refresh = Some ''new'', tr_expires_in = 3600 \<rparr>)),
       mv_error_code = (\<lambda>_. None), mv_account = (\<lambda>_. Inr ''me''), mv_list = (\<lambda>_. Inr ([], 0)), mv_env = (\<lambda>_. None) \<rparr>"

lemma demo_access: "fst (access_token demo_mal memory_store demo_account) = Inr ''tok''"
  by (simp add: access_token_def renew_def demo_account_def session_settings_def client_id_of_def trim_def is_space_def
      memory_store_def refresh_session_def token_request_def demo_mal_def seq_def ret_def remember_tokens_def lift_def gets_def modify_def)



end
