(* ===== verification/WebUI.thy ===== *)
theory WebUI
  imports Account
begin

text \<open>
  The qBittorrent client: \<open>qbit/types.rs\<close> (API generations, torrents, magnet links), \<open>qbit/client.rs\<close>
  (session cookie, login, calls) and \<open>qbit/service.rs\<close> (the launch sequence). The client uses the
  gate through the record \<open>web\<close>; \<open>gate_web\<close> is the gate of theory \<open>Gate\<close> behind it.
\<close>

section \<open>Types\<close>

datatype api_gen = V4 | V5

definition ApiGen_parse :: "string \<Rightarrow> api_gen" where
  "ApiGen_parse version =
     (let t = dropWhile (\<lambda>c. c = CHR ''v'') (trim version);
          major = (case parse_unsigned (2 ^ 32) (hd (split_on CHR ''.'' [] t)) of Some n \<Rightarrow> n | None \<Rightarrow> 4)
      in if 5 \<le> major then V5 else V4)"

fun ApiGen_control_path :: "api_gen \<Rightarrow> bool \<Rightarrow> string" where
  "ApiGen_control_path V4 True = ''resume''"
| "ApiGen_control_path V4 False = ''pause''"
| "ApiGen_control_path V5 True = ''start''"
| "ApiGen_control_path V5 False = ''stop''"

record health =
  he_version :: string
  he_gen :: api_gen

text \<open>A row of \<open>torrents/info\<close>: the fields the worker reads, then the others.\<close>

record web_torrent = qbit_torrent +
  wt_hash :: string
  wt_dlspeed :: int
  wt_upspeed :: int
  wt_eta :: int
  wt_num_leechs :: int
  wt_save_path :: string
  wt_amount_left :: int
  wt_added_on :: int
  wt_completion_on :: int
  wt_category :: string

definition is_in_trouble :: "'a qbit_torrent_scheme \<Rightarrow> bool" where
  "is_in_trouble t \<longleftrightarrow> contains ''error'' (qt_state t) \<or> contains ''missingFiles'' (qt_state t)"

definition is_stopped :: "'a qbit_torrent_scheme \<Rightarrow> bool" where
  "is_stopped t \<longleftrightarrow> contains ''stopped'' (qt_state t) \<or> contains ''paused'' (qt_state t) \<or> contains ''queued'' (qt_state t)"

record transfer_speeds =
  sp_download :: int
  sp_upload :: int

fun first_btih :: "string list \<Rightarrow> string option" where
  "first_btih [] = None"
| "first_btih (pair # pairs) =
     (case strip_prefix ''xt=urn:btih:'' pair of
        Some value \<Rightarrow>
          (let hash = lower value in
           if length hash = 40 \<and> list_all is_hex hash then Some hash else first_btih pairs)
      | None \<Rightarrow> first_btih pairs)"

definition magnet_info_hash :: "string \<Rightarrow> string option" where
  "magnet_info_hash link =
     Option.bind (coalesce (strip_prefix ''magnet:?'' link) (strip_prefix ''magnet:'' link)) (\<lambda>rest.
       first_btih (split_on CHR ''&'' [] (dropWhile (\<lambda>c. c = CHR ''?'') rest)))"

section \<open>The client\<close>

record qbit =
  qb_base :: string
  qb_username :: string
  qb_password :: "string option"
  qb_session :: "string option"
  qb_gen :: "api_gen option"

type_synonym form = "(string \<times> string) list"
type_synonym headers = "(string \<times> string) list"

text \<open>What the client uses of the gate, and what the JSON decoder makes of a body.\<close>

record 'w web =
  wb_get :: "string \<Rightarrow> headers \<Rightarrow> get_options \<Rightarrow> ('w, error, fetched) act"
  wb_post :: "string \<Rightarrow> form \<Rightarrow> headers \<Rightarrow> get_options \<Rightarrow> ('w, error, fetched) act"
  wb_torrents :: "string \<Rightarrow> error + web_torrent list"
  wb_speeds :: "string \<Rightarrow> error + transfer_speeds"

text \<open>The client and the world behind the gate.\<close>

record 'w webui =
  wu_client :: qbit
  wu_web :: 'w

type_synonym ('w, 'a) webui_act = "('w webui, error, 'a) act"

definition on_web :: "('w, error, 'a) act \<Rightarrow> ('w, 'a) webui_act" where
  "on_web a = (\<lambda>s. case a (wu_web s) of (r, w) \<Rightarrow> (r, s\<lparr>wu_web := w\<rparr>))"

definition Qbit_new :: "string \<Rightarrow> string \<Rightarrow> string option \<Rightarrow> qbit" where
  "Qbit_new base username password =
     \<lparr> qb_base = trim_end_slashes base, qb_username = username, qb_password = password, qb_session = None, qb_gen = None \<rparr>"

definition Qbit_from_settings :: "settings \<Rightarrow> error + string option \<Rightarrow> error + qbit" where
  "Qbit_from_settings st password =
     (case password of
        Inl e \<Rightarrow> Inl e
      | Inr p \<Rightarrow> Inr (Qbit_new (s_qbit_url st) (s_qbit_username st) p))"

definition quick_retry :: retry_policy where
  "quick_retry = \<lparr> rp_max_attempts = 2, rp_schedule = [2000], rp_max_total_wait = 5000, rp_max_delay = 5000 \<rparr>"

definition qbit_options :: get_options where
  "qbit_options = GetOptions_default\<lparr>go_retry := Some quick_retry\<rparr>"

definition cookie_header :: "string option \<Rightarrow> headers" where
  "cookie_header c = (case c of Some t \<Rightarrow> [(''Cookie'', t)] | None \<Rightarrow> [])"

definition store_session :: "string option \<Rightarrow> ('w, unit) webui_act" where
  "store_session c = modify (\<lambda>s. s\<lparr>wu_client := (wu_client s)\<lparr>qb_session := c\<rparr>\<rparr>)"

definition auth_error :: "string \<Rightarrow> error" where
  "auth_error detail =
     Auth ''qBittorrent''
       (detail @ ''; set the WebUI password with `genrl qbit password` or '' @ Secret_env_var QbitPassword)"

text \<open>The first part of \<open>Set-Cookie\<close>, when it is a pair.\<close>

definition cookie_pair :: "string option \<Rightarrow> string option" where
  "cookie_pair header =
     Option.bind header (\<lambda>h. let pair = trim (hd (split_on CHR '';'' [] h)) in
       if CHR ''='' \<in> set pair then Some pair else None)"

definition login_form :: "qbit \<Rightarrow> form" where
  "login_form q =
     [(''username'', qb_username q), (''password'', case qb_password q of Some p \<Rightarrow> p | None \<Rightarrow> [])]"

definition judge_login :: "fetched \<Rightarrow> error + string" where
  "judge_login f =
     (case fetched_text f of
        Inl e \<Rightarrow> Inl e
      | Inr text \<Rightarrow>
          (let body = trim text in
           if body \<noteq> [] \<and> \<not> eq_ignore_case body ''Ok.'' then Inl (auth_error body)
           else case cookie_pair (fe_set_cookie f) of
             None \<Rightarrow> Inl (auth_error ''the reply carried no session cookie'')
           | Some c \<Rightarrow> Inr c))"

definition refused_login :: "error \<Rightarrow> error" where
  "refused_login e =
     (case e of
        Status st u d b \<Rightarrow>
          if st = 400 \<or> st = 401 \<or> st = 403 then auth_error (''login refused with HTTP '' @ show_nat st) else e
      | _ \<Rightarrow> e)"

definition login_url :: "qbit \<Rightarrow> string" where
  "login_url q = qb_base q @ ''/api/v2/auth/login''"

definition qbit_login :: "'w web \<Rightarrow> ('w, unit) webui_act" where
  "qbit_login web =
     seq (gets wu_client) (\<lambda>q.
     seq (attempt (on_web (wb_post web (login_url q) (login_form q) [] qbit_options))) (\<lambda>r.
     case r of
       Inl e \<Rightarrow> throw (refused_login e)
     | Inr f \<Rightarrow> seq (lift (judge_login f)) (\<lambda>c. store_session (Some c))))"

definition is_forbidden :: "error \<Rightarrow> bool" where
  "is_forbidden e = (case e of Status st u d b \<Rightarrow> st = 403 | _ \<Rightarrow> False)"

text \<open>A call with the stored cookie; after a 403 one login and one more call.\<close>

definition with_login :: "'w web \<Rightarrow> (headers \<Rightarrow> ('w, error, fetched) act) \<Rightarrow> ('w, fetched) webui_act" where
  "with_login web call =
     seq (gets (\<lambda>s. qb_session (wu_client s))) (\<lambda>c.
     seq (attempt (on_web (call (cookie_header c)))) (\<lambda>r.
     case r of
       Inr f \<Rightarrow> ret f
     | Inl e \<Rightarrow>
         if is_forbidden e
         then seq (qbit_login web) (\<lambda>_.
              seq (gets (\<lambda>s. qb_session (wu_client s))) (\<lambda>c. on_web (call (cookie_header c))))
         else throw e))"

definition qbit_get :: "'w web \<Rightarrow> string \<Rightarrow> ('w, fetched) webui_act" where
  "qbit_get web path =
     seq (gets (\<lambda>s. qb_base (wu_client s) @ path)) (\<lambda>url.
     with_login web (\<lambda>h. wb_get web url h qbit_options))"

definition qbit_post :: "'w web \<Rightarrow> string \<Rightarrow> form \<Rightarrow> ('w, fetched) webui_act" where
  "qbit_post web path form =
     seq (gets (\<lambda>s. qb_base (wu_client s) @ path)) (\<lambda>url.
     with_login web (\<lambda>h. wb_post web url form h qbit_options))"

definition qbit_health :: "'w web \<Rightarrow> ('w, health) webui_act" where
  "qbit_health web =
     seq (qbit_get web ''/api/v2/app/version'') (\<lambda>f.
     seq (lift (fetched_text f)) (\<lambda>text.
     let version = trim text; g = ApiGen_parse version in
     seq (modify (\<lambda>s. s\<lparr>wu_client := (wu_client s)\<lparr>qb_gen := Some g\<rparr>\<rparr>)) (\<lambda>_.
     ret \<lparr> he_version = version, he_gen = g \<rparr>)))"

definition qbit_api_gen :: "'w web \<Rightarrow> ('w, api_gen) webui_act" where
  "qbit_api_gen web =
     seq (gets (\<lambda>s. qb_gen (wu_client s))) (\<lambda>g.
     case g of Some g \<Rightarrow> ret g | None \<Rightarrow> seq (qbit_health web) (\<lambda>h. ret (he_gen h)))"

definition qbit_list :: "'w web \<Rightarrow> string option \<Rightarrow> ('w, web_torrent list) webui_act" where
  "qbit_list web only =
     seq (qbit_get web (case only of
            Some f \<Rightarrow> ''/api/v2/torrents/info?filter='' @ f | None \<Rightarrow> ''/api/v2/torrents/info'')) (\<lambda>f.
     lift (wb_torrents web (fe_body f)))"

definition to_upper :: "string \<Rightarrow> string" where
  "to_upper s = map ascii_upper s"

definition qbit_get_torrent :: "'w web \<Rightarrow> string \<Rightarrow> ('w, web_torrent option) webui_act" where
  "qbit_get_torrent web hash =
     seq (qbit_get web (''/api/v2/torrents/info?hashes='' @ to_upper hash)) (\<lambda>f.
     seq (lift (wb_torrents web (fe_body f))) (\<lambda>ts.
     ret (if ts = [] then None else Some (last ts))))"

definition opt_field :: "string \<Rightarrow> string option \<Rightarrow> form" where
  "opt_field k v = (case v of Some t \<Rightarrow> [(k, t)] | None \<Rightarrow> [])"

definition qbit_add :: "'w web \<Rightarrow> string list \<Rightarrow> string option \<Rightarrow> string option \<Rightarrow> ('w, unit) webui_act" where
  "qbit_add web urls save_path category =
     seq (qbit_post web ''/api/v2/torrents/add''
            ([(''urls'', join_with [CHR 0x0A] urls)] @ opt_field ''savepath'' save_path @ opt_field ''category'' category))
       (\<lambda>_. ret ())"

definition qbit_set_active :: "'w web \<Rightarrow> string \<Rightarrow> bool \<Rightarrow> ('w, unit) webui_act" where
  "qbit_set_active web hash active =
     seq (qbit_api_gen web) (\<lambda>g.
     seq (qbit_post web (''/api/v2/torrents/'' @ ApiGen_control_path g active) [(''hashes'', to_upper hash)]) (\<lambda>_. ret ()))"

definition qbit_remove :: "'w web \<Rightarrow> string \<Rightarrow> bool \<Rightarrow> ('w, unit) webui_act" where
  "qbit_remove web hash delete_files =
     seq (qbit_post web ''/api/v2/torrents/delete''
            [(''hashes'', to_upper hash), (''deleteFiles'', if delete_files then ''true'' else ''false'')]) (\<lambda>_. ret ())"

definition qbit_speeds :: "'w web \<Rightarrow> ('w, transfer_speeds) webui_act" where
  "qbit_speeds web = seq (qbit_get web ''/api/v2/transfer/info'') (\<lambda>f. lift (wb_speeds web (fe_body f)))"

section \<open>The launch sequence\<close>

datatype spawn = Spawned | Spawn_not_found | Spawn_failed string

text \<open>The stored password, the start of the daemon, URL parsing, and one attempt to connect.\<close>

record 'w host =
  ho_password :: "error + string option"
  ho_spawn :: "'w \<Rightarrow> spawn \<times> 'w"
  ho_url :: "string \<Rightarrow> (string option \<times> nat option) option"
  ho_connect :: "string \<Rightarrow> nat \<Rightarrow> 'w \<Rightarrow> bool \<times> 'w"

definition em_dash :: string where "em_dash = map char_of [0xE2, 0x80, 0x94 :: nat]"

definition arrow :: string where "arrow = map char_of [0xE2, 0x86, 0x92 :: nat]"

definition setup_help :: "settings \<Rightarrow> error" where
  "setup_help st =
     Other (''no qBittorrent WebUI at '' @ s_qbit_url st @ '' '' @ em_dash
       @ '' start qBittorrent (or install qbittorrent-nox) and enable Settings '' @ arrow
       @ '' WebUI on that port, then set the password with `genrl qbit password`'')"

definition start_daemon :: "'w host \<Rightarrow> ('w, unit) webui_act" where
  "start_daemon h =
     (\<lambda>s. case ho_spawn h (wu_web s) of
        (Spawned, w) \<Rightarrow> (Inr (), s\<lparr>wu_web := w\<rparr>)
      | (Spawn_not_found, w) \<Rightarrow>
          (Inl (Other ''qbittorrent-nox is not installed; install it (recommended) or start qBittorrent with its WebUI enabled''),
           s\<lparr>wu_web := w\<rparr>)
      | (Spawn_failed e, w) \<Rightarrow> (Inl (Io e), s\<lparr>wu_web := w\<rparr>))"

fun probe_loop :: "nat \<Rightarrow> ('w \<Rightarrow> bool \<times> 'w) \<Rightarrow> error \<Rightarrow> ('w, unit) webui_act" where
  "probe_loop 0 connect help = throw help"
| "probe_loop (Suc n) connect help =
     (\<lambda>s. case connect (wu_web s) of
        (True, w) \<Rightarrow> (Inr (), s\<lparr>wu_web := w\<rparr>)
      | (False, w) \<Rightarrow> probe_loop n connect help (s\<lparr>wu_web := w\<rparr>))"

definition wait_until_listening :: "'w host \<Rightarrow> settings \<Rightarrow> ('w, unit) webui_act" where
  "wait_until_listening h st =
     (case ho_url h (s_qbit_url st) of
        Some (Some name, Some port) \<Rightarrow> probe_loop 40 (ho_connect h name port) (setup_help st)
      | _ \<Rightarrow> throw (InvalidUrl (s_qbit_url st)))"

definition launch :: "'w web \<Rightarrow> 'w host \<Rightarrow> settings \<Rightarrow> ('w, health) webui_act" where
  "launch web h st =
     seq (attempt (qbit_health web)) (\<lambda>r.
     case r of
       Inr health \<Rightarrow> ret health
     | Inl e \<Rightarrow>
         if is_connection_failure e \<and> s_qbit_start_if_installed st then
           seq (start_daemon h) (\<lambda>_.
           seq (wait_until_listening h st) (\<lambda>_.
           seq (attempt (qbit_health web)) (\<lambda>r2.
           case r2 of Inr health \<Rightarrow> ret health | Inl _ \<Rightarrow> throw (setup_help st))))
         else if is_connection_failure e then throw (setup_help st)
         else throw e)"

definition ensure_running :: "'w web \<Rightarrow> 'w host \<Rightarrow> settings \<Rightarrow> ('w, error, health) act" where
  "ensure_running web h st =
     (\<lambda>w. case Qbit_from_settings st (ho_password h) of
        Inl e \<Rightarrow> (Inl e, w)
      | Inr q \<Rightarrow> (case launch web h st \<lparr> wu_client = q, wu_web = w \<rparr> of (r, s) \<Rightarrow> (r, wu_web s)))"

section \<open>The gate behind the client\<close>

datatype http_request = Get_request string headers | Post_request string form headers

record 'v net =
  nt_gate :: gate
  nt_outside :: 'v

text \<open>The outside gives for every call of the gate the surroundings of its attempts.\<close>

definition gate_web ::
  "(string \<Rightarrow> string option) \<Rightarrow> (http_request \<Rightarrow> 'v \<Rightarrow> (nat \<Rightarrow> attempt_env) \<times> 'v)
    \<Rightarrow> (string \<Rightarrow> error + web_torrent list) \<Rightarrow> (string \<Rightarrow> error + transfer_speeds) \<Rightarrow> 'v net web" where
  "gate_web canonical serve torrents speeds =
     \<lparr> wb_get = (\<lambda>url h opts n. case serve (Get_request url h) (nt_outside n) of (ats, v) \<Rightarrow>
         (case get_with canonical SQbit url opts ats (nt_gate n) of (r, g) \<Rightarrow> (r, \<lparr> nt_gate = g, nt_outside = v \<rparr>))),
       wb_post = (\<lambda>url form h opts n. case serve (Post_request url form h) (nt_outside n) of (ats, v) \<Rightarrow>
         (case post_form canonical SQbit url opts ats (nt_gate n) of (r, g) \<Rightarrow> (r, \<lparr> nt_gate = g, nt_outside = v \<rparr>))),
       wb_torrents = torrents, wb_speeds = speeds \<rparr>"

section \<open>Calls\<close>

lemma on_web_run: "on_web a s = (fst (a (wu_web s)), s\<lparr>wu_web := snd (a (wu_web s))\<rparr>)"
  by (simp add: on_web_def split: prod.split)

lemma cookie_pair_first:
  assumes "CHR '';'' \<notin> set c" "CHR ''='' \<in> set c" "trim c = c" "attrs = [] \<or> hd attrs = CHR '';''"
  shows "cookie_pair (Some (c @ attrs)) = Some c"
proof -
  have "hd (split_on CHR '';'' [] (c @ attrs)) = c"
  proof (cases attrs)
    case Nil
    then show ?thesis using split_on_none [OF assms(1), of "[]"] by simp
  next
    case (Cons x xs)
    then have "split_on CHR '';'' [] (c @ attrs) = split_on CHR '';'' [] c @ split_on CHR '';'' [] xs"
      using assms(4) by (simp add: split_on_append)
    then show ?thesis using split_on_none [OF assms(1), of "[]"] by simp
  qed
  then show ?thesis using assms by (simp add: cookie_pair_def Let_def)
qed

text \<open>
  The documented behaviour of a WebUI for one kind of call: without a valid cookie it answers 403; with
  one it answers; and a login with the right form hands out a cookie that is valid from then on.
\<close>

definition refuses_strangers :: "('w \<Rightarrow> bool) \<Rightarrow> ('w \<Rightarrow> string \<Rightarrow> bool) \<Rightarrow> (headers \<Rightarrow> ('w, error, fetched) act) \<Rightarrow> bool" where
  "refuses_strangers up valid call \<longleftrightarrow>
     (\<forall>w h. up w \<and> (\<forall>c. h = [(''Cookie'', c)] \<longrightarrow> \<not> valid w c) \<longrightarrow>
        (\<exists>u d b w'. call h w = (Inl (Status 403 u d b), w') \<and> up w'))"

definition answers_sessions :: "('w \<Rightarrow> bool) \<Rightarrow> ('w \<Rightarrow> string \<Rightarrow> bool) \<Rightarrow> (headers \<Rightarrow> ('w, error, fetched) act) \<Rightarrow> bool" where
  "answers_sessions up valid call \<longleftrightarrow>
     (\<forall>w c. up w \<and> valid w c \<longrightarrow> (\<exists>f w'. call [(''Cookie'', c)] w = (Inr f, w') \<and> up w' \<and> valid w' c))"

definition grants_login :: "('w \<Rightarrow> bool) \<Rightarrow> ('w \<Rightarrow> string \<Rightarrow> bool) \<Rightarrow> ('w, error, fetched) act \<Rightarrow> bool" where
  "grants_login up valid post \<longleftrightarrow>
     (\<forall>w. up w \<longrightarrow> (\<exists>f w' c attrs. post w = (Inr f, w') \<and> up w' \<and> valid w' c \<and> fe_body f \<in> {[], ''Ok.''}
        \<and> fe_set_cookie f = Some (c @ attrs) \<and> (attrs = [] \<or> hd attrs = CHR '';'')
        \<and> CHR '';'' \<notin> set c \<and> CHR ''='' \<in> set c \<and> trim c = c))"

lemma judge_login_ok:
  assumes "fe_body f \<in> {[], ''Ok.''}" "cookie_pair (fe_set_cookie f) = Some c"
  shows "judge_login f = Inr c"
proof -
  have "is_utf8 (fe_body f)" "trim (fe_body f) = [] \<or> eq_ignore_case (trim (fe_body f)) ''Ok.''"
    using assms(1) by (auto simp: trim_def is_space_def)
  then show ?thesis using assms(2) by (auto simp: judge_login_def fetched_text_def Let_def)
qed

lemma qbit_login_ok:
  assumes "grants_login up valid (wb_post web (login_url (wu_client s)) (login_form (wu_client s)) [] qbit_options)" "up (wu_web s)"
  obtains c w where "qbit_login web s = (Inr (), \<lparr> wu_client = (wu_client s)\<lparr>qb_session := Some c\<rparr>, wu_web = w \<rparr>)" "up w" "valid w c"
proof -
  obtain f w c attrs where
    post: "wb_post web (login_url (wu_client s)) (login_form (wu_client s)) [] qbit_options (wu_web s) = (Inr f, w)"
    and w: "up w" "valid w c" and body: "fe_body f \<in> {[], ''Ok.''}"
    and cookie: "fe_set_cookie f = Some (c @ attrs)" "attrs = [] \<or> hd attrs = CHR '';''" "CHR '';'' \<notin> set c" "CHR ''='' \<in> set c" "trim c = c"
    using assms unfolding grants_login_def by blast
  have "judge_login f = Inr c"
    using judge_login_ok [OF body] cookie_pair_first [OF cookie(3-5,2)] cookie(1) by simp
  then have "qbit_login web s = (Inr (), \<lparr> wu_client = (wu_client s)\<lparr>qb_session := Some c\<rparr>, wu_web = w \<rparr>)"
    by (simp add: qbit_login_def on_web_run post store_session_def)
  then show thesis using that w by blast
qed

lemma with_login_valid:
  assumes "answers_sessions up valid call" "up (wu_web s)" "qb_session (wu_client s) = Some c" "valid (wu_web s) c"
  obtains f w where "with_login web call s = (Inr f, s\<lparr>wu_web := w\<rparr>)" "call [(''Cookie'', c)] (wu_web s) = (Inr f, w)" "up w" "valid w c"
proof -
  obtain f w where "call [(''Cookie'', c)] (wu_web s) = (Inr f, w)" "up w" "valid w c"
    using assms unfolding answers_sessions_def by blast
  then show thesis using that assms(3) by (simp add: with_login_def cookie_header_def on_web_run)
qed

lemma with_login_recovers:
  assumes "refuses_strangers up valid call" "answers_sessions up valid call"
    "grants_login up valid (wb_post web (login_url (wu_client s)) (login_form (wu_client s)) [] qbit_options)" "up (wu_web s)"
  obtains f c w where "with_login web call s = (Inr f, \<lparr> wu_client = (wu_client s)\<lparr>qb_session := Some c\<rparr>, wu_web = w \<rparr>)"
    "up w" "valid w c"
proof (cases "\<exists>c. qb_session (wu_client s) = Some c \<and> valid (wu_web s) c")
  case True
  then obtain c where c: "qb_session (wu_client s) = Some c" "valid (wu_web s) c" by blast
  obtain f w where "with_login web call s = (Inr f, s\<lparr>wu_web := w\<rparr>)" "up w" "valid w c"
    using with_login_valid [OF assms(2,4) c] by metis
  moreover have "s\<lparr>wu_web := w\<rparr> = \<lparr> wu_client = (wu_client s)\<lparr>qb_session := Some c\<rparr>, wu_web = w \<rparr>"
    using c(1) by (cases s; cases "wu_client s") simp
  ultimately show thesis using that by simp
next
  case False
  let ?h = "cookie_header (qb_session (wu_client s))"
  have "\<forall>c. ?h = [(''Cookie'', c)] \<longrightarrow> \<not> valid (wu_web s) c"
    using False by (cases "qb_session (wu_client s)") (auto simp: cookie_header_def)
  then obtain u d b w where first: "call ?h (wu_web s) = (Inl (Status 403 u d b), w)" and w: "up w"
    using assms(1,4) unfolding refuses_strangers_def by blast
  have "grants_login up valid (wb_post web (login_url (wu_client (s\<lparr>wu_web := w\<rparr>))) (login_form (wu_client (s\<lparr>wu_web := w\<rparr>))) [] qbit_options)"
    using assms(3) by simp
  then obtain c v where log: "qbit_login web (s\<lparr>wu_web := w\<rparr>) = (Inr (), \<lparr> wu_client = (wu_client s)\<lparr>qb_session := Some c\<rparr>, wu_web = v \<rparr>)"
    and v: "up v" "valid v c"
    by (rule qbit_login_ok) (use w in simp_all)
  obtain f x where "call [(''Cookie'', c)] v = (Inr f, x)" "up x" "valid x c"
    using assms(2) v unfolding answers_sessions_def by blast
  then have last: "seq (gets (\<lambda>s. qb_session (wu_client s))) (\<lambda>c. on_web (call (cookie_header c)))
      \<lparr> wu_client = (wu_client s)\<lparr>qb_session := Some c\<rparr>, wu_web = v \<rparr>
      = (Inr f, \<lparr> wu_client = (wu_client s)\<lparr>qb_session := Some c\<rparr>, wu_web = x \<rparr>)" "up x" "valid x c"
    by (simp_all add: on_web_run cookie_header_def)
  have "with_login web call s = seq (qbit_login web) (\<lambda>_. seq (gets (\<lambda>s. qb_session (wu_client s)))
      (\<lambda>c. on_web (call (cookie_header c)))) (s\<lparr>wu_web := w\<rparr>)"
    by (simp add: with_login_def on_web_run first is_forbidden_def)
  also have "\<dots> = (Inr f, \<lparr> wu_client = (wu_client s)\<lparr>qb_session := Some c\<rparr>, wu_web = x \<rparr>)"
    using last(1) by (simp only: seq_Inr [where m = "qbit_login web" and s = "s\<lparr>wu_web := w\<rparr>", OF log])
  finally show thesis using that last(2,3) by blast
qed


section \<open>What leaves the program\<close>

text \<open>The outside with a record of the requests it was handed.\<close>

definition logged ::
  "(http_request \<Rightarrow> 'v \<Rightarrow> (nat \<Rightarrow> attempt_env) \<times> 'v) \<Rightarrow> http_request \<Rightarrow> 'v \<times> http_request list
    \<Rightarrow> (nat \<Rightarrow> attempt_env) \<times> 'v \<times> http_request list" where
  "logged serve r = (\<lambda>(v, log). case serve r v of (ats, v') \<Rightarrow> (ats, v', log @ [r]))"

abbreviation requests :: "('v \<times> http_request list) net webui \<Rightarrow> http_request list" where
  "requests s \<equiv> snd (nt_outside (wu_web s))"

lemma post_form_sends:
  "sends_within s {key. canonical url = Some key}
     (max 1 (rp_max_attempts (or_policy (go_retry opts) (sp_retry (ga_policy g s))))) g
     (snd (post_form canonical s url opts ats g))"
proof (cases "canonical url")
  case None
  then show ?thesis by (simp add: post_form_def sends_within_def)
next
  case (Some key)
  show ?thesis
  proof (cases rule: gate_allow_cases [of g s])
    case (rejected d b)
    then show ?thesis using Some by (simp add: post_form_def seq_def sends_within_def)
  next
    case (through b)
    obtain k where "k \<le> max 1 (rp_max_attempts (or_policy (go_retry opts) (sp_retry (ga_policy g s))))"
      "ga_sent (snd (dispatch s key opts None ats (set_breaker s b g))) = ga_sent g @ replicate k (s, key)"
      using dispatch_sent [of opts "set_breaker s b g" s key None ats] by auto
    moreover have "ga_policy (snd (dispatch s key opts None ats (set_breaker s b g))) = ga_policy g"
      by (simp add: dispatch_def dispatch_loop_policy)
    ultimately show ?thesis using Some by (auto simp: post_form_def seq_Inr [where m = "gate_allow s" and s = g, OF through(2)] sends_within_def list_all_iff)
  qed
qed

text \<open>One call of the gate: one request of the log, at most two on the wire.\<close>

definition one_request ::
  "(string \<Rightarrow> string option) \<Rightarrow> http_request \<Rightarrow> string \<Rightarrow> ('v \<times> http_request list) net \<Rightarrow> ('v \<times> http_request list) net \<Rightarrow> bool" where
  "one_request canonical r url n m \<longleftrightarrow>
     snd (nt_outside m) = snd (nt_outside n) @ [r]
     \<and> sends_within SQbit {key. canonical url = Some key} 2 (nt_gate n) (nt_gate m)"

lemma attempts_of_options: "max 1 (rp_max_attempts (or_policy (go_retry qbit_options) p)) = 2"
  by (simp add: qbit_options_def or_policy_def quick_retry_def)

lemma two_attempts:
  assumes "sends_within SQbit K (max 1 (rp_max_attempts (or_policy (go_retry qbit_options) p))) g (snd x)" "x = (r, h)"
  shows "sends_within SQbit K 2 g h"
  using assms unfolding attempts_of_options by simp

lemma session_kept: "\<exists>c. q = q\<lparr>qb_session := c\<rparr>"
  by (rule exI [of _ "qb_session q"]) simp

lemma gate_web_get: "one_request canonical (Get_request url h) url n
    (snd (wb_get (gate_web canonical (logged serve) tr sp) url h qbit_options n))"
  by (auto simp: gate_web_def one_request_def logged_def split: prod.split intro: two_attempts [OF get_with_sends])

lemma gate_web_post: "one_request canonical (Post_request url fs h) url n
    (snd (wb_post (gate_web canonical (logged serve) tr sp) url fs h qbit_options n))"
  by (auto simp: gate_web_def one_request_def logged_def split: prod.split intro: two_attempts [OF post_form_sends])

lemma qbit_login_request:
  fixes s :: "('v \<times> http_request list) net webui" and canonical serve tr sp
  defines "t \<equiv> snd (qbit_login (gate_web canonical (logged serve) tr sp) s)"
  shows "one_request canonical (Post_request (login_url (wu_client s)) (login_form (wu_client s)) []) (login_url (wu_client s))
      (wu_web s) (wu_web t) \<and> (\<exists>c. wu_client t = (wu_client s)\<lparr>qb_session := c\<rparr>)"
proof -
  let ?web = "gate_web canonical (logged serve) tr sp"
  let ?p = "wb_post ?web (login_url (wu_client s)) (login_form (wu_client s)) [] qbit_options"
  have "wu_web t = snd (?p (wu_web s)) \<and> (\<exists>c. wu_client t = (wu_client s)\<lparr>qb_session := c\<rparr>)"
  proof (cases "fst (?p (wu_web s))")
    case (Inl e)
    then show ?thesis using session_kept by (simp add: t_def qbit_login_def on_web_run)
  next
    case (Inr f)
    then show ?thesis using session_kept
      by (cases "judge_login f") (auto simp: t_def qbit_login_def on_web_run store_session_def)
  qed
  then show ?thesis using gate_web_post [of canonical "login_url (wu_client s)" "login_form (wu_client s)" "[]" "wu_web s" serve tr sp]
    by simp
qed

lemma one_request_D:
  assumes "one_request canonical r url n m"
  shows "snd (nt_outside m) = snd (nt_outside n) @ [r]"
    "sends_within SQbit {key. canonical url = Some key} 2 (nt_gate n) (nt_gate m)"
  using assms by (simp_all add: one_request_def)

lemma with_login_requests:
  fixes s :: "('v \<times> http_request list) net webui" and canonical serve tr sp call
  assumes call: "\<forall>h n. one_request canonical (req h) url n (snd (call h n))"
  defines "t \<equiv> snd (with_login (gate_web canonical (logged serve) tr sp) call s)"
    and "first \<equiv> req (cookie_header (qb_session (wu_client s)))"
    and "again \<equiv> Post_request (login_url (wu_client s)) (login_form (wu_client s)) []"
    and "K \<equiv> {key. canonical url = Some key \<or> canonical (login_url (wu_client s)) = Some key}"
  shows "\<exists>rs. requests t = requests s @ rs
      \<and> rs \<in> {[first], [first, again], [first, again, req (cookie_header (qb_session (wu_client t)))]}
      \<and> (length rs = 1 \<longrightarrow> wu_client t = wu_client s) \<and> (\<exists>c. wu_client t = (wu_client s)\<lparr>qb_session := c\<rparr>)
      \<and> sends_within SQbit K (2 * length rs) (nt_gate (wu_web s)) (nt_gate (wu_web t))"
proof -
  let ?web = "gate_web canonical (logged serve) tr sp" and ?h = "cookie_header (qb_session (wu_client s))"
  define u where "u = s\<lparr>wu_web := snd (call ?h (wu_web s))\<rparr>"
  have u: "requests u = requests s @ [first]" "wu_client u = wu_client s"
    "sends_within SQbit K 2 (nt_gate (wu_web s)) (nt_gate (wu_web u))"
    using one_request_D [OF call [rule_format, of ?h "wu_web s"]]
    by (auto simp: u_def first_def K_def intro: sends_within_mono)
  have same: "\<exists>c. wu_client u = (wu_client s)\<lparr>qb_session := c\<rparr>" unfolding u(2) by (rule session_kept)
  show ?thesis
  proof (cases "\<exists>e. fst (call ?h (wu_web s)) = Inl e \<and> is_forbidden e")
    case False
    then have "t = u" by (auto simp: t_def u_def with_login_def on_web_run split: sum.split)
    then show ?thesis using u same by (intro exI [of _ "[first]"]) simp
  next
    case True
    then have t: "t = snd (seq (qbit_login ?web) (\<lambda>_. seq (gets (\<lambda>s. qb_session (wu_client s))) (\<lambda>c. on_web (call (cookie_header c)))) u)"
      by (auto simp: t_def u_def with_login_def on_web_run)
    define v where "v = snd (qbit_login ?web u)"
    have q: "one_request canonical again (login_url (wu_client s)) (wu_web u) (wu_web v)"
      "\<exists>c. wu_client v = (wu_client s)\<lparr>qb_session := c\<rparr>"
      using qbit_login_request [where s = u and canonical = canonical and serve = serve and tr = tr and sp = sp] unfolding v_def [symmetric] u(2) again_def by blast+
    have "sends_within SQbit K 2 (nt_gate (wu_web u)) (nt_gate (wu_web v))"
      using one_request_D(2) [OF q(1)] by (rule sends_within_mono) (auto simp: K_def)
    from sends_within_trans [OF u(3) this]
    have v: "requests v = requests s @ [first, again]" "\<exists>c. wu_client v = (wu_client s)\<lparr>qb_session := c\<rparr>"
      "sends_within SQbit K (2 + 2) (nt_gate (wu_web s)) (nt_gate (wu_web v))"
      using one_request_D(1) [OF q(1)] u(1) q(2) by simp_all
    show ?thesis
    proof (cases "fst (qbit_login ?web u)")
      case (Inl e)
      then have "qbit_login ?web u = (Inl e, v)" by (simp add: v_def prod_eq_iff)
      then have "t = v" by (simp add: t)
      then show ?thesis using v by (intro exI [of _ "[first, again]"]) simp
    next
      case (Inr x)
      let ?k = "cookie_header (qb_session (wu_client v))"
      have "qbit_login ?web u = (Inr x, v)" using Inr by (simp add: v_def prod_eq_iff)
      then have tv: "t = v\<lparr>wu_web := snd (call ?k (wu_web v))\<rparr>" by (simp add: t on_web_run)
      have "requests t = requests v @ [req ?k]" "sends_within SQbit K 2 (nt_gate (wu_web v)) (nt_gate (wu_web t))"
        using one_request_D [OF call [rule_format, of ?k "wu_web v"]] by (auto simp: tv K_def intro: sends_within_mono)
      moreover from sends_within_trans [OF v(3) this(2)]
      have "sends_within SQbit K 6 (nt_gate (wu_web s)) (nt_gate (wu_web t))" by simp
      moreover have "wu_client t = wu_client v" by (simp add: tv)
      ultimately show ?thesis using v
        by (intro exI [of _ "[first, again, req ?k]"]) simp
    qed
  qed
qed

text \<open>
  What a call of \<open>url\<close>, made with the request \<open>req h\<close> for the headers \<open>h\<close>, sends between \<open>s\<close> and \<open>t\<close>: the call with the
  stored cookie; or that and a login; or that, a login and the call with the cookie of the login.
\<close>

definition call_requests ::
  "(string \<Rightarrow> string option) \<Rightarrow> (headers \<Rightarrow> http_request) \<Rightarrow> string
   \<Rightarrow> ('v \<times> http_request list) net webui \<Rightarrow> ('v \<times> http_request list) net webui \<Rightarrow> bool" where
  "call_requests canonical req url s t \<longleftrightarrow>
     (\<exists>rs. requests t = requests s @ rs
      \<and> rs \<in> {[req (cookie_header (qb_session (wu_client s)))],
              [req (cookie_header (qb_session (wu_client s))), Post_request (login_url (wu_client s)) (login_form (wu_client s)) []],
              [req (cookie_header (qb_session (wu_client s))), Post_request (login_url (wu_client s)) (login_form (wu_client s)) [],
               req (cookie_header (qb_session (wu_client t)))]}
      \<and> (length rs = 1 \<longrightarrow> wu_client t = wu_client s) \<and> (\<exists>c. wu_client t = (wu_client s)\<lparr>qb_session := c\<rparr>)
      \<and> sends_within SQbit {key. canonical url = Some key \<or> canonical (login_url (wu_client s)) = Some key} (2 * length rs)
           (nt_gate (wu_web s)) (nt_gate (wu_web t)))"


section \<open>Launching\<close>

text \<open>
  The daemon is started only when the setting allows it and nothing answers: in every other case
  \<open>ensure_running\<close> does the same whatever starting it would do, and reports the failure of the first
  health check, as setup help if it was a failure to connect.
\<close>

theorem starts_only_when_allowed:
  assumes "ho_password h = Inr p"
    "launch_check = fst (qbit_health web \<lparr> wu_client = Qbit_new (s_qbit_url st) (s_qbit_username st) p, wu_web = w \<rparr>)"
    "\<not> s_qbit_start_if_installed st \<or> (case launch_check of Inl e \<Rightarrow> \<not> is_connection_failure e | Inr _ \<Rightarrow> True)"
  shows "ensure_running web (h\<lparr>ho_spawn := spawn, ho_connect := connect\<rparr>) st w = ensure_running web h st w
    \<and> fst (ensure_running web h st w) =
        (case launch_check of Inr r \<Rightarrow> Inr r | Inl e \<Rightarrow> Inl (if is_connection_failure e then setup_help st else e))"
  using assms
  by (auto simp: ensure_running_def launch_def Qbit_from_settings_def split: sum.splits prod.splits)

text \<open>
  After the daemon has been started and listens, any failure of the second health check, also a
  refused password, is reported as the help that no WebUI is there.
\<close>

theorem launch_hides_refusal:
  assumes "qbit_health web s = (Inl e1, s1)" "is_connection_failure e1" "s_qbit_start_if_installed st"
    "start_daemon h s1 = (Inr (), s2)" "wait_until_listening h st s2 = (Inr (), s3)" "qbit_health web s3 = (Inl (Auth svc msg), s4)"
  shows "launch web h st s = (Inl (setup_help st), s4)"
  using assms by (simp add: launch_def)

lemma probe_loop_gives_up: "\<forall>w. \<not> fst (connect w) \<Longrightarrow> fst (probe_loop n connect help s) = Inl help"
  by (induction n arbitrary: s) (auto split: prod.split bool.split, metis fst_conv)

section \<open>Magnet links\<close>

lemma lower_hex: "list_all is_hex s \<Longrightarrow> list_all is_hex (lower s)"
  by (auto simp: list_all_iff lower_def is_hex_def ascii_lower_def Let_def take_bit_nat_eq_self)

lemma hex_no_blank: "list_all is_hex s \<Longrightarrow> trim s = s"
proof (induction s)
  case (Cons c s)
  have no: "is_hex d \<Longrightarrow> \<not> is_space d" for d by (auto simp: is_hex_def is_space_def Let_def)
  have "d \<in> set (c # s) \<Longrightarrow> \<not> is_space d" for d using Cons.prems no by (auto simp: list_all_iff)
  then have "dropWhile is_space (c # s) = c # s" "dropWhile is_space (rev (c # s)) = rev (c # s)"
    by (simp, metis dropWhile_eq_self_iff hd_in_set set_rev)
  then show ?case by (simp add: trim_def)
qed (simp add: trim_def)

text \<open>
  The magnet link made of a release's info hash carries that hash: reading it back gives the hash in lower case.
\<close>

theorem magnet_round_trip:
  assumes "length hash = 40" "list_all is_hex hash"
  shows "magnet_info_hash (magnet_from hash title) = Some (lower hash)"
proof -
  let ?p = "''xt=urn:btih:'' @ hash" and ?q = "''dn='' @ encode title"
  have "CHR ''&'' \<notin> set hash" using assms(2) by (auto simp: list_all_iff is_hex_def)
  then have no: "CHR ''&'' \<notin> set ?p" by simp
  have "split_on CHR ''&'' [] (?p @ CHR ''&'' # ?q) = ?p # split_on CHR ''&'' [] ?q"
    unfolding split_on_append using split_on_none [OF no, of "[]"] by simp
  moreover have "magnet_from hash title = ''magnet:?'' @ ?p @ CHR ''&'' # ?q"
    by (simp add: magnet_from_def hex_no_blank [OF assms(2)])
  ultimately show ?thesis using assms lower_hex
    by (simp add: magnet_info_hash_def strip_prefix_def starts_with_def coalesce_def Let_def)
qed

section \<open>Witnesses\<close>

text \<open>A server that knows one session: the cookie \<open>SID=1\<close>, valid once somebody has logged in.\<close>

definition demo_fetched :: "string option \<Rightarrow> fetched" where
  "demo_fetched cookie =
     \<lparr> fe_url = [], fe_status = 200, fe_body = [], fe_from_cache = False, fe_etag = None, fe_set_cookie = cookie \<rparr>"

definition demo_web :: "bool web" where
  "demo_web =
     \<lparr> wb_get = (\<lambda>url h opts w. if w \<and> h = [(''Cookie'', ''SID=1'')] then (Inr (demo_fetched None), w) else (Inl (Status 403 url None None), w)),
       wb_post = (\<lambda>url f h opts w. (Inr (demo_fetched (Some ''SID=1; path=/'')), True)),
       wb_torrents = (\<lambda>_. Inr []), wb_speeds = (\<lambda>_. Inr \<lparr> sp_download = 0, sp_upload = 0 \<rparr>) \<rparr>"

lemma demo_web_behaves:
  "refuses_strangers (\<lambda>_. True) (\<lambda>w c. w \<and> c = ''SID=1'') (\<lambda>h. wb_get demo_web url h opts)"
  "answers_sessions (\<lambda>_. True) (\<lambda>w c. w \<and> c = ''SID=1'') (\<lambda>h. wb_get demo_web url h opts)"
  "grants_login (\<lambda>_. True) (\<lambda>w c. w \<and> c = ''SID=1'') (wb_post demo_web url fs h opts)"
  by (auto simp: refuses_strangers_def answers_sessions_def grants_login_def demo_web_def demo_fetched_def trim_def is_space_def
      intro!: exI [of _ "''; path=/''"])


theorem magnet_round_trip_witness:
  "magnet_info_hash (magnet_from (replicate 40 CHR ''A'') ''x'') = Some (replicate 40 CHR ''a'')"
proof -
  have "lower (replicate 40 CHR ''A'') = replicate 40 CHR ''a''" by code_simp
  moreover have "list_all is_hex (replicate 40 CHR ''A'')" by code_simp
  ultimately show ?thesis using magnet_round_trip [of "replicate 40 CHR ''A''" "''x''"] by simp
qed

end
