(* ===== verification/Logging.thy ===== *)
theory Logging
  imports Library
begin

text \<open>
  \<open>logging.rs\<close>: the log file that rotates by size, on the file system of theory \<open>Files\<close>. An
  open file is its inode; \<open>took\<close> says how many bytes of a buffer the operating system takes. The length of
  a file is below \<open>2 ^ 64\<close>, so the counter does not wrap. Permissions and the subscriber that is
  installed are not modelled.
\<close>

section \<open>The files\<close>

record log_config =
  lf_path :: string
  lf_max_bytes :: nat
  lf_keep :: nat
  lf_level :: string
  lf_stderr :: bool

definition LogConfig_new :: "string \<Rightarrow> log_config" where
  "LogConfig_new path =
     \<lparr> lf_path = path, lf_max_bytes = 5 * 1024 * 1024, lf_keep = 3, lf_level = ''info'', lf_stderr = True \<rparr>"

text \<open>\<open>Path::with_file_name\<close>\<close>

definition with_file_name :: "string \<Rightarrow> string \<Rightarrow> string" where
  "with_file_name p n =
     (case path_file_name p of
        Some _ \<Rightarrow> join_path (case path_parent p of Some q \<Rightarrow> q | None \<Rightarrow> []) n
      | None \<Rightarrow> join_path p n)"

definition numbered :: "string \<Rightarrow> nat \<Rightarrow> string" where
  "numbered p n =
     with_file_name p ((case path_file_name p of Some s \<Rightarrow> s | None \<Rightarrow> ''genrl.log'') @ ''.'' @ show_nat n)"

definition inode_at :: "loc \<Rightarrow> nat on_disk" where
  "inode_at l = (\<lambda>f. case node_at l f of Some (File i) \<Rightarrow> (Inr i, f) | _ \<Rightarrow> refused f)"

text \<open>Opened for appending, created when missing.\<close>

definition open_log :: "disk \<Rightarrow> string \<Rightarrow> nat on_disk" where
  "open_log d p =
     (\<lambda>f. if \<not> d (Call_write (locate p)) then refused f
          else if node_at (locate p) f = None \<and> parent_ready (locate p) f
          then (Inr (fs_next f), new_file (locate p) [] f)
          else inode_at (locate p) f)"

definition truncate_log :: "disk \<Rightarrow> string \<Rightarrow> nat on_disk" where
  "truncate_log d p = seq (fs_write d p []) (\<lambda>_. inode_at (locate p))"

section \<open>The rotating writer\<close>

record rot_state =
  rs_fs :: fs
  rs_inode :: nat
  rs_path :: string
  rs_written :: nat
  rs_max_bytes :: nat
  rs_keep :: nat

type_synonym 'a rotating = "(rot_state, error, 'a) act"

definition on_files :: "'a on_disk \<Rightarrow> 'a rotating" where
  "on_files a = (\<lambda>s. case a (rs_fs s) of (r, f) \<Rightarrow> (r, s\<lparr>rs_fs := f\<rparr>))"

definition RotState_open :: "disk \<Rightarrow> log_config \<Rightarrow> fs \<Rightarrow> (error + rot_state) \<times> fs" where
  "RotState_open d c =
     seq (case path_parent (lf_path c) of
            Some q \<Rightarrow> if q \<noteq> [] then create_dir_all d q else ret ()
          | None \<Rightarrow> ret ()) (\<lambda>_.
     seq (open_log d (lf_path c)) (\<lambda>i.
     seq (gets (\<lambda>f. f)) (\<lambda>f.
     ret \<lparr> rs_fs = f, rs_inode = i, rs_path = lf_path c, rs_written = length (fs_data f i),
           rs_max_bytes = lf_max_bytes c, rs_keep = lf_keep c \<rparr>)))"

definition shift_log :: "disk \<Rightarrow> string \<Rightarrow> nat \<Rightarrow> unit on_disk" where
  "shift_log d p i =
     seq (gets (exists_at (numbered p i))) (\<lambda>present.
     if present then ignore (fs_rename d (numbered p i) (numbered p (i + 1))) else ret ())"

definition reopened :: "nat \<Rightarrow> rot_state \<Rightarrow> rot_state" where
  "reopened i s = s\<lparr>rs_inode := i, rs_written := 0\<rparr>"

definition rotate_log :: "disk \<Rightarrow> unit rotating" where
  "rotate_log d =
     seq (gets (\<lambda>s. (rs_path s, rs_keep s))) (\<lambda>(p, keep).
     if keep = 0 then seq (on_files (truncate_log d p)) (\<lambda>i. modify (reopened i))
     else
       seq (on_files (for_each (shift_log d p) (rev [1..<keep]))) (\<lambda>_.
       seq (on_files (ignore (fs_rename d p (numbered p 1)))) (\<lambda>_.
       seq (on_files (open_log d p)) (\<lambda>i. modify (reopened i)))))"

definition append_bytes :: "string \<Rightarrow> rot_state \<Rightarrow> rot_state" where
  "append_bytes b s =
     s\<lparr>rs_fs := put_data (rs_inode s) (fs_data (rs_fs s) (rs_inode s) @ b) (rs_fs s),
       rs_written := rs_written s + length b\<rparr>"

definition log_write :: "disk \<Rightarrow> (string \<Rightarrow> nat option) \<Rightarrow> string \<Rightarrow> nat rotating" where
  "log_write d took buf =
     seq (gets (\<lambda>s. 0 < rs_written s \<and> rs_max_bytes s < rs_written s + length buf)) (\<lambda>full.
     seq (if full then rotate_log d else ret ()) (\<lambda>_.
     case took buf of
       None \<Rightarrow> throw (Io ''refused'')
     | Some n \<Rightarrow> seq (modify (append_bytes (take n buf))) (\<lambda>_. ret (min n (length buf)))))"

text \<open>The writer of the subscriber: the errors of its sinks are dropped.\<close>

definition multi_write :: "disk \<Rightarrow> (string \<Rightarrow> nat option) \<Rightarrow> string \<Rightarrow> nat rotating" where
  "multi_write d took buf = seq (attempt (log_write d took buf)) (\<lambda>_. ret (length buf))"

section \<open>Where the generations are\<close>

definition gen_loc :: "string \<Rightarrow> nat \<Rightarrow> loc" where
  "gen_loc p i = (if i = 0 then locate p else locate (numbered p i))"

lemma numbered_name:
  assumes "is_name n"
  shows "is_name (n @ ''.'' @ show_nat i)"
proof -
  have d: "\<forall>c\<in>set (show_nat i). is_digit c" "show_nat i \<noteq> []"
    using show_nat_read [of i] by (simp_all add: list_all_iff)
  then have "is_digit (last (n @ ''.'' @ show_nat i))" by simp
  then have "last (n @ ''.'' @ show_nat i) \<noteq> last ''.''" "last (n @ ''.'' @ show_nat i) \<noteq> last ''..''"
    by (auto simp: is_digit_def)
  then have "n @ ''.'' @ show_nat i \<noteq> ''.''" "n @ ''.'' @ show_nat i \<noteq> ''..''" by metis+
  moreover have "CHR ''/'' \<notin> set (show_nat i)" using d(1) by (auto simp: is_digit_def)
  ultimately show ?thesis using assms by (simp add: is_name_def)
qed

lemma file_name_is_name: "path_file_name p = Some n \<Longrightarrow> is_name n \<and> components p \<noteq> [] \<and> last (components p) = n"
proof -
  assume n: "path_file_name p = Some n"
  then obtain cs where "rev (components p) = n # cs" "n \<noteq> ''..''"
    by (auto simp: path_file_name_def split: list.splits if_splits)
  then have "components p = rev cs @ [n]" by (metis rev.simps(2) rev_rev_ident)
  then show ?thesis using components_parts [of n p] \<open>n \<noteq> ''..''\<close> by (simp add: is_name_def)
qed

lemma parent_of_named: "path_file_name p = Some n \<Longrightarrow> \<exists>q. path_parent p = Some q \<and> locate p = locate q @ [n]"
proof -
  assume n: "path_file_name p = Some n"
  obtain q where q: "path_parent p = Some q"
    using file_name_is_name [OF n] by (cases "components p") (simp_all add: path_parent_def)
  moreover have "last (components p) \<noteq> ''..''" using file_name_is_name [OF n] by (simp add: is_name_def)
  ultimately show ?thesis using locate_parent [OF q] file_name_is_name [OF n] by simp
qed

lemma gen_loc_named:
  assumes "path_file_name p = Some n"
  shows "gen_loc p i = butlast (locate p) @ [if i = 0 then n else n @ ''.'' @ show_nat i]"
proof -
  obtain q where q: "path_parent p = Some q" "locate p = locate q @ [n]" using parent_of_named [OF assms] by blast
  have "is_name (n @ ''.'' @ show_nat i)" using file_name_is_name [OF assms] numbered_name by blast
  then have "locate (join_path q (n @ ''.'' @ show_nat i)) = locate q @ [n @ ''.'' @ show_nat i]" by (rule locate_join_name)
  then show ?thesis using q by (simp add: gen_loc_def numbered_def with_file_name_def assms)
qed

lemma show_nat_inj: "show_nat i = show_nat j \<Longrightarrow> i = j"
  using show_nat_read [of i] show_nat_read [of j] by metis

lemma gen_loc_inj: "path_file_name p = Some n \<Longrightarrow> gen_loc p i = gen_loc p j \<longleftrightarrow> i = j"
  using show_nat_inj [of i j] by (auto simp: gen_loc_named split: if_splits)

lemma gen_loc_parent: "path_file_name p = Some n \<Longrightarrow> parent_ready (locate p) f \<Longrightarrow> parent_ready (gen_loc p i) f"
  by (simp add: gen_loc_named parent_ready_def)

section \<open>Shifting\<close>

text \<open>A log of \<open>keep\<close> generations on a disk that refuses nothing: no folder is in the way and no two generations are one file.\<close>

definition log_tree :: "disk \<Rightarrow> string \<Rightarrow> nat \<Rightarrow> fs \<Rightarrow> bool" where
  "log_tree d p keep f \<longleftrightarrow>
     (\<forall>c. d c) \<and> path_file_name p \<noteq> None \<and> parent_ready (locate p) f
     \<and> (\<forall>i \<le> keep. node_at (gen_loc p i) f \<noteq> Some Dir)
     \<and> (\<forall>i \<le> keep. \<forall>j \<le> keep. i \<noteq> j \<longrightarrow> node_at (gen_loc p i) f \<noteq> None \<longrightarrow> node_at (gen_loc p i) f \<noteq> node_at (gen_loc p j) f)"

text \<open>Generation \<open>i\<close> moves to generation \<open>i + 1\<close>.\<close>

definition gen_moved :: "string \<Rightarrow> nat \<Rightarrow> fs \<Rightarrow> fs" where
  "gen_moved p i f =
     (case node_at (gen_loc p i) f of
        Some n \<Rightarrow> put_node (gen_loc p (i + 1)) n (drop_node (gen_loc p i) f)
      | None \<Rightarrow> f)"

lemma gen_loc_nonempty: "path_file_name p = Some n \<Longrightarrow> gen_loc p i \<noteq> []"
  by (simp add: gen_loc_named)

lemma node_at_moved:
  assumes "path_file_name p = Some n"
  shows "node_at l (gen_moved p i f) =
    (if node_at (gen_loc p i) f = None then node_at l f
     else if l = gen_loc p (i + 1) then node_at (gen_loc p i) f else if l = gen_loc p i then None else node_at l f)"
  using gen_loc_nonempty [OF assms] gen_loc_inj [OF assms, of i "i + 1"]
  by (auto simp: gen_moved_def split: option.split)

lemma moved_data [simp]: "fs_data (gen_moved p i f) = fs_data f" "fs_next (gen_moved p i f) = fs_next f"
  by (simp_all add: gen_moved_def split: option.split)

lemma rename_moves:
  assumes "log_tree d p keep f" "i < keep" "a = (if i = 0 then p else numbered p i)" "node_at (gen_loc p i) f \<noteq> None"
  shows "fs_rename d a (numbered p (i + 1)) f = (Inr (), gen_moved p i f)"
proof -
  obtain n where n: "path_file_name p = Some n" using assms(1) by (auto simp: log_tree_def)
  have l: "locate a = gen_loc p i" "locate (numbered p (Suc i)) = gen_loc p (Suc i)" by (simp_all add: assms(3) gen_loc_def)
  have "node_at (gen_loc p i) f \<noteq> Some Dir" "node_at (gen_loc p (i + 1)) f \<noteq> Some Dir"
    "node_at (gen_loc p i) f \<noteq> node_at (gen_loc p (i + 1)) f"
    using assms by (auto simp: log_tree_def)
  moreover then obtain k where "node_at (gen_loc p i) f = Some (File k)" using assms(4) by (metis node.exhaust option.exhaust)
  moreover have "parent_ready (gen_loc p (i + 1)) f" "d (Call_rename (gen_loc p i) (gen_loc p (i + 1)))"
    using assms(1) gen_loc_parent [OF n] by (auto simp: log_tree_def)
  ultimately show ?thesis by (simp add: fs_rename_def Let_def l gen_moved_def)
qed

lemma shift_log_moves:
  assumes "log_tree d p keep f" "0 < i" "i < keep"
  shows "shift_log d p i f = (Inr (), gen_moved p i f)"
proof (cases "node_at (gen_loc p i) f")
  case None
  then show ?thesis using assms(2) by (simp add: shift_log_def exists_at_def gen_loc_def gen_moved_def)
next
  case (Some n)
  then have "exists_at (numbered p i) f" using assms(2) by (simp add: exists_at_def gen_loc_def)
  then show ?thesis using rename_moves [OF assms(1,3), of "numbered p i"] assms(2) Some by (simp add: shift_log_def ignore_def)
qed

text \<open>What is at generation \<open>j\<close> after the generations from \<open>m\<close> below \<open>keep\<close> have moved.\<close>

definition shifted :: "nat \<Rightarrow> nat \<Rightarrow> (nat \<Rightarrow> node option) \<Rightarrow> nat \<Rightarrow> node option" where
  "shifted m keep old j =
     (if m < j \<and> j \<le> keep then (if old (j - 1) \<noteq> None then old (j - 1) else if j = keep then old j else None)
      else if j = m \<and> m < keep then None else old j)"

lemma for_each_append: "for_each f (xs @ ys) = seq (for_each f xs) (\<lambda>_. for_each f ys)"
  by (induction xs) (simp_all add: seq_def fun_eq_iff split: prod.split sum.split)

lemma log_tree_moved:
  assumes "log_tree d p keep f" "i < keep"
  shows "log_tree d p keep (gen_moved p i f)"
proof -
  obtain n where n: "path_file_name p = Some n" using assms(1) by (auto simp: log_tree_def)
  have "parent_ready (locate p) (gen_moved p i f)"
  proof -
    have "butlast (locate p) \<noteq> gen_loc p i" for i
      using gen_loc_named [OF n, of i] by (metis append_self_conv butlast_snoc length_append_singleton n_not_Suc_n)
    then show ?thesis using assms(1) by (auto simp: log_tree_def parent_ready_def node_at_moved [OF n])
  qed
  then show ?thesis using assms gen_loc_inj [OF n] by (auto simp: log_tree_def node_at_moved [OF n])
qed

lemma shift_logs:
  assumes "log_tree d p keep f" "0 < m" "m \<le> keep"
  obtains g where "for_each (shift_log d p) (rev [m..<keep]) f = (Inr (), g)" "log_tree d p keep g"
    "\<forall>j. node_at (gen_loc p j) g = shifted m keep (\<lambda>j. node_at (gen_loc p j) f) j"
    "\<forall>l. l \<notin> range (gen_loc p) \<longrightarrow> node_at l g = node_at l f" "fs_data g = fs_data f" "fs_next g = fs_next f"
  using assms(3,2)
proof (induction m arbitrary: thesis rule: inc_induct)
  case base
  show ?case by (rule base(1) [of f]) (auto simp: assms(1) shifted_def)
next
  case (step m)
  obtain n where n: "path_file_name p = Some n" using assms(1) by (auto simp: log_tree_def)
  obtain g where g: "for_each (shift_log d p) (rev [Suc m..<keep]) f = (Inr (), g)" "log_tree d p keep g"
    "\<forall>j. node_at (gen_loc p j) g = shifted (Suc m) keep (\<lambda>j. node_at (gen_loc p j) f) j"
    "\<forall>l. l \<notin> range (gen_loc p) \<longrightarrow> node_at l g = node_at l f" "fs_data g = fs_data f" "fs_next g = fs_next f"
    using step.IH by (metis zero_less_Suc)
  have "rev [m..<keep] = rev [Suc m..<keep] @ [m]" using step.hyps by (simp add: upt_conv_Cons)
  then have "for_each (shift_log d p) (rev [m..<keep]) f = (Inr (), gen_moved p m g)"
    using g(1) shift_log_moves [OF g(2) step.prems(2) step.hyps(2)]
    by (simp add: for_each_append seq_Inr [where m = "for_each (shift_log d p) (rev [Suc m..<keep])" and s = f, OF g(1)])
  moreover have "\<forall>j. node_at (gen_loc p j) (gen_moved p m g) = shifted m keep (\<lambda>j. node_at (gen_loc p j) f) j"
    using step.hyps gen_loc_inj [OF n] by (auto simp: node_at_moved [OF n] g(3) shifted_def)
  ultimately show ?case
    using log_tree_moved [OF g(2) step.hyps(2)] g(4-6) by (intro step.prems(1) [of "gen_moved p m g"]) (auto simp: node_at_moved [OF n])
qed

section \<open>Rotation\<close>

text \<open>Inode numbers in use are below the next one.\<close>

definition inodes_below :: "fs \<Rightarrow> bool" where
  "inodes_below f \<longleftrightarrow> (\<forall>l i. node_at l f = Some (File i) \<longrightarrow> i < fs_next f)"

text \<open>The open log is a tree of generations of at most \<open>cap\<close> bytes each, and its counter is right.\<close>

definition log_ok :: "disk \<Rightarrow> nat \<Rightarrow> rot_state \<Rightarrow> bool" where
  "log_ok d cap s \<longleftrightarrow>
     log_tree d (rs_path s) (rs_keep s) (rs_fs s) \<and> inodes_below (rs_fs s)
     \<and> node_at (gen_loc (rs_path s) 0) (rs_fs s) = Some (File (rs_inode s))
     \<and> length (fs_data (rs_fs s) (rs_inode s)) = rs_written s
     \<and> (\<forall>i \<le> rs_keep s. \<forall>c. content_at (gen_loc (rs_path s) i) (rs_fs s) = Some c \<longrightarrow> length c \<le> cap)"

lemma rotate_runs:
  assumes "log_tree d p keep (rs_fs s)" "rs_path s = p" "rs_keep s = keep" "0 < keep" "inodes_below (rs_fs s)"
    and "node_at (gen_loc p 0) (rs_fs s) = Some (File (rs_inode s))"
  obtains g where "rotate_log d s = (Inr (), s\<lparr>rs_fs := new_file (locate p) [] g, rs_inode := fs_next (rs_fs s), rs_written := 0\<rparr>)"
    "log_tree d p keep g" "node_at (gen_loc p 0) g = None" "fs_data g = fs_data (rs_fs s)" "fs_next g = fs_next (rs_fs s)"
    "\<forall>j. node_at (gen_loc p j) g = shifted 0 keep (\<lambda>j. node_at (gen_loc p j) (rs_fs s)) j"
    "\<forall>l. l \<notin> range (gen_loc p) \<longrightarrow> node_at l g = node_at l (rs_fs s)"
proof -
  let ?f = "rs_fs s"
  obtain n where n: "path_file_name p = Some n" using assms(1) by (auto simp: log_tree_def)
  obtain h where h: "for_each (shift_log d p) (rev [1..<keep]) ?f = (Inr (), h)" "log_tree d p keep h"
    "\<forall>j. node_at (gen_loc p j) h = shifted 1 keep (\<lambda>j. node_at (gen_loc p j) ?f) j"
    "\<forall>l. l \<notin> range (gen_loc p) \<longrightarrow> node_at l h = node_at l ?f" "fs_data h = fs_data ?f" "fs_next h = fs_next ?f"
    by (rule shift_logs [OF assms(1), of 1]) (use assms(4) in simp_all)
  have zero: "node_at (gen_loc p 0) h = Some (File (rs_inode s))" using h(3) assms(6) by (simp add: shifted_def)
  define g where "g = gen_moved p 0 h"
  have ren: "fs_rename d p (numbered p 1) h = (Inr (), g)"
    using rename_moves [OF h(2) assms(4), of p] zero by (simp add: g_def)
  have tree: "log_tree d p keep g" unfolding g_def by (rule log_tree_moved [OF h(2) assms(4)])
  have nodes: "\<forall>j. node_at (gen_loc p j) g = shifted 0 keep (\<lambda>j. node_at (gen_loc p j) ?f) j"
    using assms(4,6) gen_loc_inj [OF n] by (auto simp: g_def node_at_moved [OF n] h(3) shifted_def)
  have none: "node_at (gen_loc p 0) g = None" using nodes assms(4) by (simp add: shifted_def)
  have "open_log d p g = (Inr (fs_next g), new_file (locate p) [] g)"
    using tree none by (simp add: open_log_def log_tree_def gen_loc_def)
  then have "rotate_log d s = (Inr (), s\<lparr>rs_fs := new_file (locate p) [] g, rs_inode := fs_next ?f, rs_written := 0\<rparr>)"
    using assms(2-4) h(1,6) ren
    by (simp add: rotate_log_def on_files_def seq_def ignore_def reopened_def g_def)
  moreover have "\<forall>l. l \<notin> range (gen_loc p) \<longrightarrow> node_at l g = node_at l ?f"
    using h(4) by (auto simp: g_def node_at_moved [OF n])
  ultimately show thesis using that [OF _ tree none _ _ nodes] h(5,6) by (simp add: g_def)
qed

lemma new_file_next [simp]: "fs_next (new_file l s f) = fs_next f + 1"
  by (simp add: new_file_def)

lemma content_at_node: "content_at l f = (case node_at l f of Some (File i) \<Rightarrow> Some (fs_data f i) | _ \<Rightarrow> None)"
  by (simp add: content_at_def)

text \<open>
  C29: A rotation loses nothing but the oldest generation: generation 1 has the bytes of the log, every
  other generation has moved up by one, the log is empty, and no other file has changed.
\<close>

theorem rotate_shifts:
  assumes "log_ok d cap s" "0 < rs_keep s"
  shows "\<exists>t. rotate_log d s = (Inr (), t) \<and> log_ok d cap t \<and> rs_written t = 0
    \<and> content_at (gen_loc (rs_path s) 0) (rs_fs t) = Some []
    \<and> content_at (gen_loc (rs_path s) 1) (rs_fs t) = content_at (gen_loc (rs_path s) 0) (rs_fs s)
    \<and> (\<forall>j. 1 \<le> j \<and> j < rs_keep s \<and> content_at (gen_loc (rs_path s) j) (rs_fs s) \<noteq> None \<longrightarrow>
         content_at (gen_loc (rs_path s) (j + 1)) (rs_fs t) = content_at (gen_loc (rs_path s) j) (rs_fs s))
    \<and> (\<forall>l. l \<notin> gen_loc (rs_path s) ` {0..rs_keep s} \<longrightarrow> content_at l (rs_fs t) = content_at l (rs_fs s))"
proof -
  let ?p = "rs_path s" and ?keep = "rs_keep s" and ?f = "rs_fs s"
  have ok: "log_tree d ?p ?keep ?f" "inodes_below ?f" "node_at (gen_loc ?p 0) ?f = Some (File (rs_inode s))"
    "\<forall>i \<le> ?keep. \<forall>c. content_at (gen_loc ?p i) ?f = Some c \<longrightarrow> length c \<le> cap"
    using assms(1) by (simp_all add: log_ok_def)
  obtain n where n: "path_file_name ?p = Some n" using ok(1) by (auto simp: log_tree_def)
  obtain g where run: "rotate_log d s = (Inr (), s\<lparr>rs_fs := new_file (locate ?p) [] g, rs_inode := fs_next ?f, rs_written := 0\<rparr>)"
    and g: "log_tree d ?p ?keep g" "node_at (gen_loc ?p 0) g = None" "fs_data g = fs_data ?f" "fs_next g = fs_next ?f"
      "\<forall>j. node_at (gen_loc ?p j) g = shifted 0 ?keep (\<lambda>j. node_at (gen_loc ?p j) ?f) j"
      "\<forall>l. l \<notin> range (gen_loc ?p) \<longrightarrow> node_at l g = node_at l ?f"
    by (rule rotate_runs [OF ok(1) refl refl assms(2) ok(2,3)])
  have zero: "locate ?p = gen_loc ?p 0" "gen_loc ?p 0 \<noteq> []"
    by (simp add: gen_loc_def, rule gen_loc_nonempty [OF n])
  have inode: "node_at l g = Some (File i) \<Longrightarrow> i < fs_next ?f" for l i
  proof -
    assume i: "node_at l g = Some (File i)"
    show ?thesis
    proof (cases "l \<in> range (gen_loc ?p)")
      case True
      then obtain j where "l = gen_loc ?p j" by blast
      then show ?thesis using i g(5) ok(2) by (auto simp: shifted_def inodes_below_def split: if_splits)
    next
      case False
      then show ?thesis using i g(6) ok(2) by (simp add: inodes_below_def)
    qed
  qed
  let ?h = "new_file (locate ?p) [] g"
  have nodes: "node_at l ?h = (if l = gen_loc ?p 0 then Some (File (fs_next ?f)) else node_at l g)" for l
    using zero by (simp add: g(4))
  have content: "content_at l ?h = (if l = gen_loc ?p 0 then Some [] else
      case node_at l g of Some (File i) \<Rightarrow> Some (fs_data ?f i) | _ \<Rightarrow> None)" for l
    using inode [of l] zero by (auto simp: content_at_node g(3,4) split: option.split node.split)
  have gens: "content_at (gen_loc ?p j) ?h = (if j = 0 then Some [] else
      case shifted 0 ?keep (\<lambda>j. node_at (gen_loc ?p j) ?f) j of Some (File i) \<Rightarrow> Some (fs_data ?f i) | _ \<Rightarrow> None)" for j
    using g(5) gen_loc_inj [OF n, of j 0] by (simp add: content)
  have up: "content_at (gen_loc ?p (j + 1)) ?h = content_at (gen_loc ?p j) ?f" if "j < ?keep" "node_at (gen_loc ?p j) ?f \<noteq> None" for j
    using that gens [of "j + 1"] content_at_node [of "gen_loc ?p j" ?f] by (simp add: shifted_def)
  have small: "\<forall>i \<le> ?keep. \<forall>c. content_at (gen_loc ?p i) ?h = Some c \<longrightarrow> length c \<le> cap"
  proof (intro allI impI)
    fix i c
    assume i: "i \<le> ?keep" and c: "content_at (gen_loc ?p i) ?h = Some c"
    show "length c \<le> cap"
    proof (cases i)
      case 0
      then show ?thesis using c gens [of 0] by simp
    next
      case (Suc j)
      show ?thesis
      proof (cases "node_at (gen_loc ?p j) ?f")
        case None
        then have "content_at (gen_loc ?p i) ?f = Some c"
          using c i gens [of i] Suc by (auto simp: shifted_def content_at_node split: if_splits)
        then show ?thesis using ok(4) i by blast
      next
        case (Some x)
        then have "content_at (gen_loc ?p j) ?f = Some c" using c i up [of j] Suc by simp
        then show ?thesis using ok(4) i Suc by (metis Suc_leD)
      qed
    qed
  qed
  have tree: "log_tree d ?p ?keep ?h"
  proof -
    have "parent_ready (locate ?p) ?h"
    proof -
      have "butlast (locate ?p) \<noteq> gen_loc ?p 0"
        using zero(2) unfolding zero(1) by (metis append_butlast_last_id append_self_conv not_Cons_self2)
      then show ?thesis using g(1) unfolding log_tree_def parent_ready_def nodes by simp
    qed
    moreover have fresh: "node_at l g \<noteq> Some (File (fs_next ?f))" for l using inode [of l] by auto
    have "node_at (gen_loc ?p i) ?h \<noteq> node_at (gen_loc ?p j) ?h"
      if ij: "i \<le> ?keep" "j \<le> ?keep" "i \<noteq> j" "node_at (gen_loc ?p i) ?h \<noteq> None" for i j
    proof -
      have "node_at (gen_loc ?p i) g \<noteq> node_at (gen_loc ?p j) g" if "node_at (gen_loc ?p i) g \<noteq> None"
        using g(1) ij that unfolding log_tree_def by blast
      then show ?thesis using ij fresh [of "gen_loc ?p i"] fresh [of "gen_loc ?p j"] unfolding nodes gen_loc_inj [OF n]
        by (auto split: if_splits)
    qed
    moreover have "node_at (gen_loc ?p i) ?h \<noteq> Some Dir" if "i \<le> ?keep" for i
      using g(1) that unfolding nodes log_tree_def by auto
    ultimately show ?thesis using g(1) unfolding log_tree_def by blast
  qed
  have "inodes_below ?h" using inode by (auto simp: inodes_below_def nodes g(4) intro: less_SucI)
  then have "log_ok d cap (snd (rotate_log d s))" using tree small nodes [of "gen_loc ?p 0"] g(4) by (simp add: run log_ok_def)
  moreover have "content_at l ?h = content_at l ?f" if "l \<notin> gen_loc ?p ` {0..?keep}" for l
  proof (cases "l \<in> range (gen_loc ?p)")
    case True
    then obtain j where j: "l = gen_loc ?p j" by blast
    then have "?keep < j" using that by (meson atLeastAtMost_iff image_eqI le0 not_le_imp_less)
    then show ?thesis using gens [of j] j by (simp add: shifted_def content_at_node)
  next
    case False
    then have "l \<noteq> gen_loc ?p 0" by blast
    then show ?thesis using g(6) False content [of l] content_at_node [of l ?f] by simp
  qed
  moreover have "content_at (gen_loc ?p j) ?f \<noteq> None \<Longrightarrow> node_at (gen_loc ?p j) ?f \<noteq> None" for j
    by (auto simp: content_at_node split: option.splits)
  ultimately show ?thesis using run gens [of 0] up [of 0] up assms(2) ok(3) by auto
qed

section \<open>Bounded logs\<close>

lemma truncate_ok:
  assumes "log_ok d cap s" "rs_keep s = 0"
  obtains t where "rotate_log d s = (Inr (), t)" "log_ok d cap t" "rs_written t = 0"
    "rs_path t = rs_path s" "rs_keep t = rs_keep s" "rs_max_bytes t = rs_max_bytes s"
    "\<forall>l. node_at l (rs_fs t) = node_at l (rs_fs s)"
proof -
  let ?f = "rs_fs s" and ?i = "rs_inode s"
  have at: "node_at (locate (rs_path s)) ?f = Some (File ?i)" and d: "\<forall>c. d c"
    using assms(1) by (simp_all add: log_ok_def gen_loc_def log_tree_def)
  let ?t = "s\<lparr>rs_fs := put_data ?i [] ?f, rs_inode := ?i, rs_written := 0\<rparr>"
  have run: "rotate_log d s = (Inr (), ?t)"
    using at d assms(2)
    by (simp add: rotate_log_def on_files_def truncate_log_def fs_write_def write_at_def inode_at_def seq_def reopened_def)
  moreover have "log_ok d cap ?t"
    using assms by (auto simp: log_ok_def log_tree_def inodes_below_def parent_ready_def content_at_node split: option.split node.split)
  ultimately show thesis using that [of ?t] by simp
qed

lemma rotate_ok:
  assumes "log_ok d cap s"
  obtains t where "rotate_log d s = (Inr (), t)" "log_ok d cap t" "rs_written t = 0"
    "rs_path t = rs_path s" "rs_keep t = rs_keep s" "rs_max_bytes t = rs_max_bytes s"
    "\<forall>l. l \<notin> gen_loc (rs_path s) ` {0..rs_keep s} \<longrightarrow> content_at l (rs_fs t) = None \<longleftrightarrow> content_at l (rs_fs s) = None"
proof (cases "rs_keep s = 0")
  case True
  obtain t where t: "rotate_log d s = (Inr (), t)" "log_ok d cap t" "rs_written t = 0"
    "rs_path t = rs_path s" "rs_keep t = rs_keep s" "rs_max_bytes t = rs_max_bytes s" "\<forall>l. node_at l (rs_fs t) = node_at l (rs_fs s)"
    by (rule truncate_ok [OF assms True])
  show thesis by (rule that [OF t(1-6)]) (simp add: content_at_node t(7) split: option.split node.split)
next
  case False
  then obtain t where t: "rotate_log d s = (Inr (), t)" "log_ok d cap t" "rs_written t = 0"
    "\<forall>l. l \<notin> gen_loc (rs_path s) ` {0..rs_keep s} \<longrightarrow> content_at l (rs_fs t) = content_at l (rs_fs s)"
    using rotate_shifts [OF assms] by blast
  have "log_tree d (rs_path s) (rs_keep s) (rs_fs s)" "inodes_below (rs_fs s)"
    "node_at (gen_loc (rs_path s) 0) (rs_fs s) = Some (File (rs_inode s))" using assms by (simp_all add: log_ok_def)
  then obtain g where "rotate_log d s = (Inr (), s\<lparr>rs_fs := g, rs_inode := fs_next (rs_fs s), rs_written := 0\<rparr>)"
    using rotate_runs [OF _ refl refl] False by (metis neq0_conv)
  then show thesis using that [OF t(1-3)] t by simp
qed

lemma append_ok:
  assumes "log_ok d cap s" "rs_written s + length b \<le> cap"
  shows "log_ok d cap (append_bytes b s)"
proof -
  let ?p = "rs_path s" and ?f = "rs_fs s" and ?i = "rs_inode s"
  have ok: "log_tree d ?p (rs_keep s) ?f" "node_at (gen_loc ?p 0) ?f = Some (File ?i)" "length (fs_data ?f ?i) = rs_written s"
    "\<forall>i \<le> rs_keep s. \<forall>c. content_at (gen_loc ?p i) ?f = Some c \<longrightarrow> length c \<le> cap"
    using assms(1) by (simp_all add: log_ok_def)
  have "length c \<le> cap" if "i \<le> rs_keep s" "content_at (gen_loc ?p i) (put_data ?i (fs_data ?f ?i @ b) ?f) = Some c" for i c
  proof (cases "node_at (gen_loc ?p i) ?f = Some (File ?i)")
    case True
    then show ?thesis using that ok(3) assms(2) by (auto simp: content_at_node)
  next
    case False
    then have "content_at (gen_loc ?p i) ?f = Some c" using that by (auto simp: content_at_node split: option.splits node.splits)
    then show ?thesis using ok(4) that(1) by blast
  qed
  then show ?thesis using assms(1) ok(3)
    by (simp add: log_ok_def append_bytes_def log_tree_def inodes_below_def parent_ready_def)
qed

text \<open>What writing keeps besides: the settings of the writer, and which files exist outside the generations.\<close>

definition same_place :: "rot_state \<Rightarrow> rot_state \<Rightarrow> bool" where
  "same_place s t \<longleftrightarrow>
     rs_path t = rs_path s \<and> rs_keep t = rs_keep s \<and> rs_max_bytes t = rs_max_bytes s
     \<and> (\<forall>l. l \<notin> gen_loc (rs_path s) ` {0..rs_keep s} \<longrightarrow> (content_at l (rs_fs t) = None \<longleftrightarrow> content_at l (rs_fs s) = None))"

lemma append_place: "same_place s (append_bytes b s)"
  by (auto simp: same_place_def append_bytes_def content_at_node split: option.split node.split)

lemma log_write_ok:
  assumes "log_ok d cap s" "rs_max_bytes s \<le> cap" "length buf \<le> cap"
  shows "log_ok d cap (snd (log_write d took buf s)) \<and> same_place s (snd (log_write d took buf s))"
proof -
  let ?full = "0 < rs_written s \<and> rs_max_bytes s < rs_written s + length buf"
  obtain t where run: "(if ?full then rotate_log d else ret ()) s = (Inr (), t)" and ok: "log_ok d cap t" "same_place s t"
    and room: "rs_written t + length buf \<le> cap"
  proof (cases ?full)
    case True
    obtain t where t: "rotate_log d s = (Inr (), t)" "log_ok d cap t" "rs_written t = 0"
      "rs_path t = rs_path s" "rs_keep t = rs_keep s" "rs_max_bytes t = rs_max_bytes s"
      "\<forall>l. l \<notin> gen_loc (rs_path s) ` {0..rs_keep s} \<longrightarrow> content_at l (rs_fs t) = None \<longleftrightarrow> content_at l (rs_fs s) = None"
      by (rule rotate_ok [OF assms(1)])
    then have "same_place s t" by (simp add: same_place_def)
    then show thesis using that [of t] t(1-3) True assms(3) by simp
  next
    case False
    then have "rs_written s + length buf \<le> cap" using assms(2,3) by auto
    then show thesis using that [of s] assms(1) False by (simp add: same_place_def)
  qed
  have wrote: "log_write d took buf s = (case took buf of None \<Rightarrow> (Inl (Io ''refused''), t)
      | Some n \<Rightarrow> (Inr (min n (length buf)), append_bytes (take n buf) t))"
    using run by (simp add: log_write_def seq_def split: option.split)
  show ?thesis
  proof (cases "took buf")
    case None
    then show ?thesis using ok by (simp add: wrote)
  next
    case (Some n)
    have "same_place s (append_bytes (take n buf) t)"
      using ok(2) append_place [of t "take n buf"] by (simp add: same_place_def)
    moreover have "log_ok d cap (append_bytes (take n buf) t)" using ok(1) room by (intro append_ok) auto
    ultimately show ?thesis using Some by (simp add: wrote)
  qed
qed

text \<open>Many writes, one after the other.\<close>

definition log_all :: "disk \<Rightarrow> ((string \<Rightarrow> nat option) \<times> string) list \<Rightarrow> unit rotating" where
  "log_all d = for_each (\<lambda>(took, b). seq (multi_write d took b) (\<lambda>_. ret ()))"

lemma log_all_step: "log_all d ((took, b) # xs) s = log_all d xs (snd (log_write d took b s))"
  by (simp add: log_all_def multi_write_def seq_def)


section \<open>Witnesses\<close>

definition demo_log :: rot_state where
  "demo_log =
     \<lparr> rs_fs = \<lparr> fs_nodes = [([''l''], Dir), ([''l'', ''a''], File 0)], fs_data = (\<lambda>_. ''ab''), fs_next = 1 \<rparr>,
       rs_inode = 0, rs_path = ''/l/a'', rs_written = 2, rs_max_bytes = 3, rs_keep = 1 \<rparr>"

lemma demo_log_places: "gen_loc ''/l/a'' 0 = [''l'', ''a'']" "gen_loc ''/l/a'' (Suc 0) = [''l'', ''a.1'']"
  "path_file_name ''/l/a'' = Some ''a''" "locate ''/l/a'' = [''l'', ''a'']"
  by (code_simp, code_simp, code_simp, code_simp)

lemma demo_log_ok: "log_ok (\<lambda>_. True) 3 demo_log"
proof -
  have all: "(\<forall>i \<le> Suc 0. P i) \<longleftrightarrow> P 0 \<and> P (Suc 0)" for P by (auto simp: le_Suc_eq)
  show ?thesis
    by (simp add: log_ok_def log_tree_def demo_log_def demo_log_places inodes_below_def parent_ready_def node_at_def content_at_def all)
qed


theorem rotate_shifts_witness:
  "\<exists>t. rotate_log (\<lambda>_. True) demo_log = (Inr (), t) \<and> content_at [''l'', ''a''] (rs_fs t) = Some []
     \<and> content_at [''l'', ''a.1''] (rs_fs t) = Some ''ab''"
proof -
  have "0 < rs_keep demo_log" "rs_path demo_log = ''/l/a''" "content_at [''l'', ''a''] (rs_fs demo_log) = Some ''ab''"
    by (simp_all add: demo_log_def content_at_def node_at_def)
  then show ?thesis using rotate_shifts [OF demo_log_ok] by (auto simp: demo_log_places)
qed

end
