(* ===== verification/Console.thy ===== *)
theory Console
  imports WebUI Logging Locations
begin

text \<open>
  The texts of the command line (crate \<open>genrl-cli\<close>, \<open>commands/common.rs\<close>), which stand between the
  data of the other theories and what the terminal shows: time stamps, sizes, times left, cut
  titles; and the target of the commands on torrents (\<open>commands/torrents.rs\<close>), an info hash or a
  magnet link. Sizes are divided as reals and printed by the formats of theory \<open>Score\<close>.
\<close>

section \<open>Texts\<close>

definition pad_left :: "nat \<Rightarrow> char \<Rightarrow> string \<Rightarrow> string" where
  "pad_left w c s = replicate (w - length s) c @ s"

text \<open>\<open>{:0w}\<close>: the sign counts for the width.\<close>

definition pad_int :: "nat \<Rightarrow> int \<Rightarrow> string" where
  "pad_int w i =
     (if i < 0 then ''-'' @ pad_left (w - 1) CHR ''0'' (show_nat (nat (- i))) else pad_left w CHR ''0'' (show_nat (nat i)))"

definition civil_from_days :: "int \<Rightarrow> int \<times> int \<times> int" where
  "civil_from_days days =
     (let z = days + 719468;
          era = z div 146097;
          doe = z mod 146097;
          yoe = quot (doe - quot doe 1460 + quot doe 36524 - quot doe 146096) 365;
          y = yoe + era * 400;
          doy = doe - (365 * yoe + quot yoe 4 - quot yoe 100);
          mp = quot (5 * doy + 2) 153;
          d = doy - quot (153 * mp + 2) 5 + 1;
          m = (if mp < 10 then mp + 3 else mp - 9)
      in (if m \<le> 2 then y + 1 else y, m, d))"

definition chrono_lite :: "int \<Rightarrow> string" where
  "chrono_lite unix =
     (let days = unix div 86400; secs = unix mod 86400; (y, m, d) = civil_from_days days in
      pad_int 4 y @ ''-'' @ pad_int 2 m @ ''-'' @ pad_int 2 d @ '' '' @ pad_int 2 (quot secs 3600) @ '':''
      @ pad_int 2 (quot (secs - quot secs 3600 * 3600) 60) @ '':'' @ pad_int 2 (secs - quot secs 60 * 60))"

definition human_bytes :: "formats \<Rightarrow> nat \<Rightarrow> string" where
  "human_bytes fm bytes =
     (if 2 ^ 30 \<le> bytes then fm_dec1 fm (real bytes / 2 ^ 30) @ '' GiB''
      else if 2 ^ 20 \<le> bytes then fm_dec1 fm (real bytes / 2 ^ 20) @ '' MiB''
      else if 1024 \<le> bytes then fm_dec0 fm (real bytes / 1024) @ '' KiB''
      else show_nat bytes @ '' B'')"

definition fmt_eta :: "int \<Rightarrow> string" where
  "fmt_eta seconds =
     (if seconds \<le> 0 \<or> 8640000 \<le> seconds then ''-''
      else
        let hours = quot seconds 3600; minutes = quot (seconds - hours * 3600) 60; secs = seconds - quot seconds 60 * 60 in
        if 0 < hours then show_int hours @ ''h'' @ pad_int 2 minutes @ ''m''
        else if 0 < minutes then show_int minutes @ ''m'' @ pad_int 2 secs @ ''s''
        else show_int secs @ ''s'')"

text \<open>\<open>str::is_char_boundary\<close> on bytes of UTF-8.\<close>

definition is_char_boundary :: "string \<Rightarrow> nat \<Rightarrow> bool" where
  "is_char_boundary t i \<longleftrightarrow> i = 0 \<or> i = length t \<or> (i < length t \<and> \<not> is_continuation (t ! i))"

fun floor_boundary :: "string \<Rightarrow> nat \<Rightarrow> nat" where
  "floor_boundary t 0 = 0"
| "floor_boundary t (Suc n) = (if is_char_boundary t (Suc n) then Suc n else floor_boundary t n)"

definition ellipsis :: string where "ellipsis = map char_of [0xE2, 0x80, 0xA6 :: nat]"

definition truncate_text :: "string \<Rightarrow> nat \<Rightarrow> string" where
  "truncate_text text limit = (if length text \<le> limit then text else take (floor_boundary text limit) text @ ellipsis)"

text \<open>The info hash behind a bare hash or a magnet link.\<close>

definition info_hash_of :: "formats \<Rightarrow> string \<Rightarrow> error + string" where
  "info_hash_of fm target =
     (case magnet_info_hash target of
        Some h \<Rightarrow> Inr h
      | None \<Rightarrow>
          (let t = trim target in
           if length t = 40 \<and> list_all is_hex t then Inr (lower t)
           else Inl (Other (''expected a 40-character info hash or a magnet link, got '' @ fm_quoted fm target))))"

section \<open>Facts: the years of an era\<close>

text \<open>The first day of year \<open>r\<close> of an era that begins on the first of March.\<close>

definition era_start :: "int \<Rightarrow> int" where
  "era_start r = 365 * r + r div 4 - r div 100"

text \<open>The number that \<open>civil_from_days\<close> divides by 365 to find the year.\<close>

definition year_days :: "int \<Rightarrow> int" where
  "year_days doe = doe - doe div 1460 + doe div 36524 - doe div 146096"

lemma div_eqI: "n * k \<le> x \<Longrightarrow> x < n * k + n \<Longrightarrow> x div n = k" for n x k :: int
  by (rule int_div_pos_eq [of _ _ _ "x - n * k"]) simp_all

text \<open>A year of an era by its century, the four years it belongs to, and its place among them.\<close>

lemma year_split:
  fixes r :: int
  assumes "0 \<le> r" "r < 400"
  obtains c b a where "r = 100 * c + 4 * b + a" "0 \<le> c" "c \<le> 3" "0 \<le> b" "b \<le> 24" "0 \<le> a" "a \<le> 3"
proof
  show "r = 100 * (r div 100) + 4 * ((r mod 100) div 4) + (r mod 100) mod 4"
    by (simp add: mult_div_mod_eq)
  have "0 \<le> r mod 100 \<and> r mod 100 \<le> 99" by simp
  then show "0 \<le> (r mod 100) div 4" "(r mod 100) div 4 \<le> 24" using div_bounds [of 4 "r mod 100"] by linarith+
  show "0 \<le> r div 100" "r div 100 \<le> 3" using div_bounds [of 100 r] assms by linarith+
  show "0 \<le> r mod 100 mod 4" "r mod 100 mod 4 \<le> 3" by simp_all
qed

lemma year_of_era:
  assumes "0 \<le> r" "r < 400" "0 \<le> k"
    and k: "k \<le> 364 \<or> k = 365 \<and> 4 dvd r + 1 \<and> (\<not> 100 dvd r + 1 \<or> r = 399)"
  shows "0 \<le> era_start r + k \<and> era_start r + k \<le> 146096 \<and> year_days (era_start r + k) div 365 = r"
proof -
  obtain c b a where r: "r = 100 * c + 4 * b + a" and c: "0 \<le> c" "c \<le> 3" and b: "0 \<le> b" "b \<le> 24"
    and a: "0 \<le> a" "a \<le> 3" using year_split [OF assms(1,2)] .
  have k': "k \<le> 364 \<or> k = 365 \<and> a = 3 \<and> (b \<le> 23 \<or> c = 3)"
  proof (cases "k \<le> 364")
    case False
    then have four: "4 dvd r + 1" and hundred: "\<not> 100 dvd r + 1 \<or> r = 399" using k by auto
    have "r + 1 = 4 * (25 * c + b) + (a + 1)" by (simp add: r)
    then have "4 dvd a + 1" using four by (metis dvd_add_right_iff dvd_triv_left)
    then have a3: "a = 3" using a zdvd_imp_le [of 4 "a + 1"] by simp
    moreover have "b \<le> 23 \<or> c = 3"
    proof (cases "b = 24")
      case True
      then have "r + 1 = 100 * (c + 1)" using a3 by (simp add: r)
      then show ?thesis using hundred by simp
    qed (use b in simp)
    ultimately show ?thesis using False k by simp
  qed simp
  define doe where "doe = 36524 * c + 1461 * b + 365 * a + k"
  have doe: "era_start r + k = doe"
  proof -
    have "r div 4 = 25 * c + b" "r div 100 = c" using a b c by (auto simp: r intro!: div_eqI)
    then show ?thesis by (simp add: era_start_def r doe_def)
  qed
  have range: "0 \<le> doe" "doe \<le> 146096" using a b c k' assms(3) by (auto simp: doe_def)
  have "doe div 36524 - doe div 146096 = c"
  proof (cases "doe = 146096")
    case True
    then show ?thesis using a b c k' by (auto simp: doe_def)
  next
    case False
    then have "doe div 146096 = 0" using range by simp
    moreover have "doe div 36524 = c" using a b c k' assms(3) False by (auto simp: doe_def intro!: div_eqI)
    ultimately show ?thesis by simp
  qed
  then have "year_days doe = doe - doe div 1460 + c" by (simp add: year_days_def)
  moreover have "doe div 1460 \<le> 25 * c + b + k" "25 * c + b + k - 364 \<le> doe div 1460"
    using div_bounds [of 1460 doe] a b c k' assms(3) unfolding doe_def by auto
  ultimately have "year_days doe div 365 = r"
    by (intro div_eqI) (simp_all add: r doe_def)
  then show ?thesis using range by (simp add: doe)
qed

text \<open>The day of the year, counted from the first of March, and the month it falls into.\<close>

definition march_month :: "int \<Rightarrow> int" where
  "march_month m = (if 2 < m then m - 3 else m + 9)"

definition march_day :: "int \<Rightarrow> int \<Rightarrow> int" where
  "march_day m d = (153 * march_month m + 2) div 5 + d - 1"

lemma month_cases:
  assumes "1 \<le> (m :: int)" "m \<le> 12"
  shows "m = 1 \<or> m = 2 \<or> m = 3 \<or> m = 4 \<or> m = 5 \<or> m = 6 \<or> m = 7 \<or> m = 8 \<or> m = 9 \<or> m = 10 \<or> m = 11 \<or> m = 12"
  using assms by presburger

lemma month_of_march_day:
  assumes "1 \<le> m" "m \<le> 12" "1 \<le> d" "d \<le> month_length y m"
  shows "(5 * march_day m d + 2) div 153 = march_month m"
  using month_cases [OF assms(1,2)] assms(3,4)
  by (elim disjE) (auto simp: march_day_def march_month_def month_length_def intro!: div_eqI split: if_splits)

lemma march_day_range:
  assumes "1 \<le> m" "m \<le> 12" "1 \<le> d" "d \<le> month_length y m"
  shows "0 \<le> march_day m d \<and>
    (march_day m d \<le> 364 \<or> march_day m d = 365 \<and> leap_year ((if m \<le> 2 then y - 1 else y) + 1))"
  using month_cases [OF assms(1,2)] assms(3,4)
  by (elim disjE) (auto simp: march_day_def march_month_def month_length_def split: if_splits)

lemma day_of_era:
  assumes "1 \<le> m" "m \<le> 12" "1 \<le> d" "d \<le> month_length y m"
  defines "y' \<equiv> if m \<le> 2 then y - 1 else y"
  defines "doe \<equiv> era_start (y' mod 400) + march_day m d"
  shows "calendar_days y m d + 719468 = y' div 400 * 146097 + doe"
    and "0 \<le> doe \<and> doe \<le> 146096 \<and> year_days doe div 365 = y' mod 400"
proof -
  define e r where "e = y' div 400" and "r = y' mod 400"
  have r: "0 \<le> r" "r < 400" by (simp_all add: r_def)
  have y': "y' = e * 400 + r" by (simp add: e_def r_def)
  have "march_days y' = e * 146097 + era_start r"
    using era_days [of y'] by (simp add: era_start_def e_def r_def minus_div_mult_eq_mod)
  then show "calendar_days y m d + 719468 = y' div 400 * 146097 + doe"
    using calendar_march [OF assms(1,2), of y d, folded march_month_def march_day_def, folded y'_def]
    by (simp add: doe_def march_day_def e_def r_def march_month_def)
  have "n dvd y' + 1 \<longleftrightarrow> n dvd r + 1" if "n dvd 400" for n
    using dvd_add_right_iff [of n "e * 400" "r + 1"] that unfolding y' by (simp add: add.assoc)
  then have "leap_year (y' + 1) \<longleftrightarrow> 4 dvd r + 1 \<and> (\<not> 100 dvd r + 1 \<or> 400 dvd r + 1)"
    by (simp add: leap_year_def)
  moreover have "400 dvd r + 1 \<Longrightarrow> r = 399" using r zdvd_imp_le [of 400 "r + 1"] by simp
  ultimately have "leap_year (y' + 1) \<Longrightarrow> 4 dvd r + 1 \<and> (\<not> 100 dvd r + 1 \<or> r = 399)" by blast
  then show "0 \<le> doe \<and> doe \<le> 146096 \<and> year_days doe div 365 = y' mod 400"
    using year_of_era [OF r] march_day_range [OF assms(1-4), folded y'_def]
    unfolding doe_def r_def [symmetric] by blast
qed

lemma month_back:
  assumes "1 \<le> m" "m \<le> 12"
  shows "0 \<le> march_month m" "(if march_month m < 10 then march_month m + 3 else march_month m - 9) = m"
  using assms by (auto simp: march_month_def)

lemma civil_from_days_calendar:
  assumes "1 \<le> m" "m \<le> 12" "1 \<le> d" "d \<le> month_length y m"
  shows "civil_from_days (calendar_days y m d) = (y, m, d)"
proof -
  define y' where "y' = (if m \<le> 2 then y - 1 else y)"
  define e r doe where "e = y' div 400" and "r = y' mod 400" and "doe = era_start r + march_day m d"
  have r: "0 \<le> r" by (simp add: r_def)
  have z: "calendar_days y m d + 719468 = e * 146097 + doe"
    and doe: "0 \<le> doe" "doe \<le> 146096" "year_days doe div 365 = r"
    using day_of_era [OF assms] by (simp_all add: e_def r_def doe_def y'_def)
  have day: "0 \<le> march_day m d" using march_day_range [OF assms] by simp
  have parts: "(e * 146097 + doe) div 146097 = e" "(e * 146097 + doe) mod 146097 = doe"
    using doe(1,2) by (simp_all add: div_pos_pos_trivial mod_pos_pos_trivial)
  have "0 \<le> year_days doe" using doe(3) r by (simp add: pos_imp_zdiv_nonneg_iff)
  then have yoe: "quot (doe - quot doe 1460 + quot doe 36524 - quot doe 146096) 365 = r"
    using doe by (simp add: quot_nonneg year_days_def)
  have doy: "doe - (365 * r + quot r 4 - quot r 100) = march_day m d"
    using r by (simp add: quot_nonneg doe_def era_start_def)
  have mp: "quot (5 * march_day m d + 2) 153 = march_month m"
    using day month_of_march_day [OF assms] by (simp add: quot_nonneg)
  have dom: "march_day m d - quot (153 * march_month m + 2) 5 + 1 = d"
    using month_back(1) [OF assms(1,2)] by (simp add: march_day_def quot_nonneg)
  have year: "r + e * 400 = y'" by (simp add: e_def r_def)
  show ?thesis
    unfolding civil_from_days_def Let_def z parts yoe doy mp dom month_back(2) [OF assms(1,2)] year
    by (simp add: y'_def)
qed

section \<open>Facts: cut texts\<close>

lemma floor_boundary_eqI:
  assumes "is_char_boundary t e" "e \<le> m" "\<And>i. e < i \<Longrightarrow> i \<le> m \<Longrightarrow> \<not> is_char_boundary t i"
  shows "floor_boundary t m = e"
  using assms(2,3)
proof (induction m)
  case (Suc m)
  show ?case
  proof (cases "e = Suc m")
    case True
    then show ?thesis using assms(1) by simp
  next
    case False
    then show ?thesis using Suc by simp
  qed
qed simp

text \<open>The bytes of one character: a lead byte and its continuation bytes.\<close>

definition one_char :: "string \<Rightarrow> bool" where
  "one_char k \<longleftrightarrow> k \<noteq> [] \<and> \<not> is_continuation (hd k) \<and> list_all is_continuation (tl k)"

lemma boundary_of_chars:
  assumes "list_all one_char ks" "n < length ks"
  defines "e \<equiv> length (concat (take n ks))"
  shows "is_char_boundary (concat ks) e"
    and "e < i \<Longrightarrow> i < e + length (ks ! n) \<Longrightarrow> \<not> is_char_boundary (concat ks) i"
proof -
  have t: "concat ks = concat (take n ks) @ ks ! n @ concat (drop (Suc n) ks)"
    by (metis append_take_drop_id assms(2) concat.simps(2) concat_append Cons_nth_drop_Suc)
  have k: "one_char (ks ! n)" using assms(1,2) by (simp add: list_all_length)
  have nth: "concat ks ! (e + j) = ks ! n ! j" if "j < length (ks ! n)" for j
    using that by (subst t) (simp add: e_def nth_append)
  have len: "e + length (ks ! n) \<le> length (concat ks)" using arg_cong [OF t, of length] by (simp add: e_def)
  show "is_char_boundary (concat ks) e"
    using nth [of 0] k len by (auto simp: is_char_boundary_def one_char_def hd_conv_nth)
  show "\<not> is_char_boundary (concat ks) i" if i: "e < i" "i < e + length (ks ! n)"
  proof -
    define j where "j = i - e - 1"
    have j: "i = e + Suc j" "Suc j < length (ks ! n)" using i by (simp_all add: j_def)
    then have "concat ks ! i = tl (ks ! n) ! j" "j < length (tl (ks ! n))"
      using nth [of "Suc j"] by (simp_all add: nth_tl)
    then have "is_continuation (concat ks ! i)" using k by (simp add: one_char_def list_all_length)
    then show ?thesis using i len by (auto simp: is_char_boundary_def)
  qed
qed

section \<open>Properties\<close>

text \<open>
  C33: Time stamps. For every date of the proleptic Gregorian calendar, before and after 1970, and every time of
  the day, the stamp of the number of seconds since the epoch spells just that date and time: the
  algorithm with eras of 400 years that begin in March undoes the counting of days, including
  the leap days at the end of a year, of a century and of an era.
\<close>

theorem stamp_spells_date:
  assumes "1 \<le> m" "m \<le> 12" "1 \<le> d" "d \<le> month_length y m"
    and "0 \<le> h" "h < 24" "0 \<le> mi" "mi < 60" "0 \<le> s" "s < 60"
  shows "chrono_lite (86400 * calendar_days y m d + (3600 * h + 60 * mi + s)) =
    pad_int 4 y @ ''-'' @ pad_int 2 m @ ''-'' @ pad_int 2 d @ '' ''
    @ pad_int 2 h @ '':'' @ pad_int 2 mi @ '':'' @ pad_int 2 s"
proof -
  define secs where "secs = 3600 * h + 60 * mi + s"
  have secs: "0 \<le> secs" "secs < 86400" using assms(5-10) by (simp_all add: secs_def)
  then have "(86400 * calendar_days y m d + secs) div 86400 = calendar_days y m d"
    "(86400 * calendar_days y m d + secs) mod 86400 = secs"
    by (simp_all add: div_pos_pos_trivial mod_pos_pos_trivial)
  moreover have h: "quot secs 3600 = h"
    using secs assms(5-10) by (simp add: quot_nonneg secs_def div_eqI)
  moreover have "quot (secs - h * 3600) 60 = mi"
    using assms(7-10) by (simp add: quot_nonneg secs_def div_eqI)
  moreover have "quot secs 60 = 60 * h + mi"
    using secs assms(7-10) by (simp add: quot_nonneg secs_def div_eqI)
  then have "secs - quot secs 60 * 60 = s" by (simp add: secs_def)
  ultimately show ?thesis
    unfolding chrono_lite_def secs_def [symmetric] by (simp add: civil_from_days_calendar [OF assms(1-4)] Let_def)
qed

theorem stamp_spells_date_witness: "chrono_lite 1760000000 = ''2025-10-09 08:53:20''"
proof -
  have "calendar_days 2025 10 9 = 20370"
    by (simp add: calendar_days_def days_of_years months_before march_days_def leap_year_def)
  then have "chrono_lite 1760000000 =
      pad_int 4 2025 @ ''-'' @ pad_int 2 10 @ ''-'' @ pad_int 2 9 @ '' ''
      @ pad_int 2 8 @ '':'' @ pad_int 2 53 @ '':'' @ pad_int 2 20"
    using stamp_spells_date [of 10 9 2025 8 53 20] by (simp add: month_length_def)
  also have "\<dots> = ''2025-10-09 08:53:20''" by code_simp
  finally show ?thesis .
qed

text \<open>
  Cut texts. A text of whole characters that is longer than the limit is cut behind the last
  character that ends within the limit: no character is torn, none is lost that would fit, and
  the mark is put behind. A shorter text is printed as it is.
\<close>

theorem truncate_keeps_whole_characters:
  assumes "list_all one_char ks"
  shows "(length (concat ks) \<le> limit \<longrightarrow> truncate_text (concat ks) limit = concat ks) \<and>
    (limit < length (concat ks) \<longrightarrow>
      (\<exists>n < length ks. truncate_text (concat ks) limit = concat (take n ks) @ ellipsis
        \<and> length (concat (take n ks)) \<le> limit \<and> limit < length (concat (take (Suc n) ks))))"
proof (intro conjI impI)
  assume "length (concat ks) \<le> limit"
  then show "truncate_text (concat ks) limit = concat ks" by (simp add: truncate_text_def)
next
  let ?e = "\<lambda>n. length (concat (take n ks))"
  assume long: "limit < length (concat ks)"
  then have "\<exists>n < length ks. (\<forall>i\<le>n. \<not> limit < ?e i) \<and> limit < ?e (Suc n)"
    by (intro ex_least_nat_less) simp_all
  then obtain n where n: "n < length ks" "?e n \<le> limit" "limit < ?e (Suc n)" by (meson not_le order_refl)
  have "?e (Suc n) = ?e n + length (ks ! n)" using n(1) by (simp add: take_Suc_conv_app_nth)
  then have "floor_boundary (concat ks) limit = ?e n"
    using n boundary_of_chars [OF assms n(1)] by (intro floor_boundary_eqI) simp_all
  moreover have "take (?e n) (concat ks) = concat (take n ks)"
    by (metis append_eq_conv_conj append_take_drop_id concat_append)
  ultimately show "\<exists>n < length ks. truncate_text (concat ks) limit = concat (take n ks) @ ellipsis
      \<and> ?e n \<le> limit \<and> limit < ?e (Suc n)"
    using n long by (intro exI [of _ n]) (simp add: truncate_text_def)
qed

text \<open>Characters of three bytes, as in the test of the source.\<close>

theorem truncate_keeps_whole_characters_witness:
  "\<exists>n < 2. truncate_text (map char_of [0xE7, 0xB4, 0xA0, 0xE3, 0x81, 0xAE :: nat]) 4 =
     concat (take n [map char_of [0xE7, 0xB4, 0xA0 :: nat], map char_of [0xE3, 0x81, 0xAE :: nat]]) @ ellipsis
     \<and> length (concat (take n [map char_of [0xE7, 0xB4, 0xA0 :: nat], map char_of [0xE3, 0x81, 0xAE :: nat]])) \<le> 4"
proof -
  let ?ks = "[map char_of [0xE7, 0xB4, 0xA0 :: nat], map char_of [0xE3, 0x81, 0xAE :: nat]]"
  have "list_all one_char ?ks" by (simp add: one_char_def is_continuation_def)
  from truncate_keeps_whole_characters [OF this, of 4] show ?thesis by (auto simp: numeral_2_eq_2)
qed

end
