(* ===== verification/Spec2Isabelle.thy ===== *)
theory Spec2Isabelle
  imports System Gate Library Nyaa Locations Console
begin

text \<open>
  A model of the core of the Genrl downloader, the Rust crate
  \<open>src/core/crates/genrl-core\<close>: the part that decides which anime episode is wanted
  next, finds a release for it, has qBittorrent download it, and keeps the user
  informed. File names below are relative to that crate's \<open>src\<close>.

  \<^bold>\<open>The program.\<close> The planner (\<open>planner/\<close>) walks the user's list of shows season by
  season (\<open>season/\<close>) and queues one search job per wanted episode (\<open>jobs/\<close>). The
  scheduler (\<open>queue/\<close>) hands due jobs to the worker (\<open>worker/\<close>), which takes a job one
  state further at a time: search Nyaa for the show's names (\<open>names.rs\<close>,
  \<open>matching/\<close>), parse every release name (\<open>filename/\<close>), score it against the rules
  (\<open>rules.rs\<close>, \<open>score/\<close>), choose one or ask the user (\<open>questions/\<close>), add it, watch it,
  file it in the library. Every request to a service goes through the gate
  (\<open>http/\<close>) with its breaker, cache, limiter and retries. The state is a SQLite
  database; every step is logged to the activity log (\<open>events.rs\<close>).

  \<^bold>\<open>How code becomes definitions.\<close> A struct is a record, an enum a datatype, \<open>Option\<close>
  and \<open>Result\<close> are \<open>option\<close> and a sum with the error of \<open>error.rs\<close> on the left. The
  database is the record \<open>world\<close> of theory \<open>Store\<close>: a list of rows per table in the
  order of their ids, the counters of the ids, the settings, the clock and, to
  state what leaves the program, the list \<open>w_sent\<close> of torrents sent to qBittorrent. An
  operation on it is an action (theory \<open>Prelude\<close>): it threads the store, may stop
  with an error, and keeps what was written before the error unless it is inside
  \<open>transact\<close>. Integers whose width matters are wrapped or saturated where the code does so
  (\<open>wrap_i64\<close>, \<open>wrap_u64\<close>, \<open>saturating_mul\<close>); \<open>f64\<close> is the reals; strings are lists
  of bytes and case folding and trimming are those of ASCII.

  \<^bold>\<open>Theories.\<close>
  \<^item> \<open>Prelude\<close>: actions, the locales \<open>observation\<close> and \<open>evolution\<close> for relations that every
    action respects (interpreted for the contracts below), tables, strings.
  \<^item> \<open>Models\<close> (\<open>models.rs\<close>, \<open>error.rs\<close>), \<open>Settings\<close> (\<open>settings/\<close>), \<open>Rules\<close> (\<open>rules.rs\<close>),
    \<open>Store\<close> (\<open>events.rs\<close>, the tables).
  \<^item> \<open>Filename\<close> and \<open>Release\<close> (\<open>filename/\<close>), \<open>Season\<close> (\<open>season/\<close>), \<open>Score\<close> (\<open>score/\<close>),
    \<open>Matching\<close> (\<open>matching/\<close>), \<open>Names\<close> (\<open>names.rs\<close>), \<open>Questions\<close> (\<open>questions/\<close>).
  \<^item> \<open>Limiter\<close>, \<open>Breaker\<close>, \<open>Gate\<close> (\<open>http/\<close>).
  \<^item> \<open>Jobs\<close> (\<open>jobs/\<close>): the table of moves, \<open>transition\<close>, and the contract
    \<open>jobs_evolve\<close> of everything that touches jobs.
  \<^item> \<open>Planner\<close> (\<open>planner/\<close>), \<open>Engine\<close> and \<open>Steps\<close> (\<open>worker/\<close>), \<open>Inbox\<close>
    (\<open>worker/inbox.rs\<close>), \<open>Queue\<close> (\<open>queue/\<close>).
  \<^item> \<open>Formatting\<close>, \<open>Icons\<close> (\<open>library/formatting.rs\<close>, \<open>library/icons.rs\<close>); \<open>Files\<close>: the file
    system and \<open>transfer_file\<close>; \<open>Library\<close>: the library step, folders and rescan (\<open>library/\<close>).
  \<^item> \<open>Nyaa\<close> (\<open>nyaa.rs\<close>): queries, the feed, the search through the gate; \<open>Locations\<close>
    (\<open>locations.rs\<close>): checking, setting and moving folders.
  \<^item> \<open>Chains\<close> (\<open>mal/models.rs\<close>): entries of MyAnimeList and the franchises built from their
    relations; \<open>Metadata\<close> (\<open>metadata/\<close>): cleaning, applying and fetching the data of a show, the queue with
    its lease; \<open>MalSync\<close> (\<open>mal/sync.rs\<close>, \<open>mal/jikan_sync.rs\<close>, \<open>mal/jikan_parse.rs\<close>): both list
    synchronisations on the record \<open>catalog\<close>, which adds the columns of \<open>shows\<close> and the tables that only
    they use to the store and the file system; \<open>Account\<close> (\<open>mal/pkce.rs\<close>, \<open>mal/login.rs\<close>,
    \<open>mal/token.rs\<close>, \<open>mal/client.rs\<close>, \<open>mal/connect.rs\<close>, \<open>secrets.rs\<close>): login, tokens and where they are
    stored, status and disconnecting, on the record \<open>account\<close> of the catalog, the token store and the tokens
    in memory; its locale \<open>token_store\<close> is what the session relies on in the trait \<open>TokenStore\<close>.
  \<^item> \<open>WebUI\<close> (\<open>qbit/\<close>): the client of qBittorrent with its session, and the launch of the daemon; \<open>Logging\<close>
    (\<open>logging.rs\<close>): the rotating log on the file system of \<open>Files\<close>; \<open>Console\<close> (\<open>commands/common.rs\<close> and
    \<open>info_hash_of\<close> of the crate \<open>genrl-cli\<close>): the texts of the terminal.
  \<^item> \<open>System\<close>: all operations as one step relation \<open>system_step\<close> and its runs; this
    theory holds the properties that span components.

  \<^bold>\<open>What is shown.\<close> For jobs: one worker step makes at most one move, and only a listed one,
  whatever the surroundings answer (\<open>step_one_move\<close>); every run follows the table
  (\<open>runs_follow_the_table\<close>); blocked jobs come back (\<open>blocked_jobs_resume\<close>); a tick
  dispatches distinct due jobs within the limits (\<open>tick_dispatches\<close>). For downloads: what is
  chosen automatically is justified (\<open>auto_choice_justified\<close>), is the wanted
  episode (\<open>decide_downloads_only_the_wanted\<close>), and large ones wait for
  the user (\<open>large_downloads_confirmed\<close>). The staged scorer equals one
  condition (\<open>evaluate_accepts\<close>), the rules are an overlay of maps (\<open>rules_overlay\<close>), the breaker
  refines three states (\<open>breaker_refines\<close>), the limiter keeps its rate and
  returns (\<open>rate_bound\<close>, \<open>acquire_returns\<close>), the gate keeps its request budget. For files: a
  transfer delivers the bytes or changes nothing (\<open>transfer_file_delivers\<close>), a file in the library
  is replaced only when the user said so (\<open>overwrites_only_when_told\<close>), the picture of a folder is a
  PNG file that reads back (\<open>solid_png_reads_back\<close>), a stored location is a usable folder
  (\<open>set_location_stores_directory\<close>), a move stays in its two folders (\<open>move_dir_frame\<close>). For the feed: the
  encoding is reversible, results are what was asked for. For the login: no code without its state
  (\<open>redirect_code_csrf\<close>), an honest redirect is accepted (\<open>login_accepts_redirect\<close>), tokens are renewed, stored
  and reused as documented (\<open>access_token_settles\<close>), disconnecting ends them (\<open>disconnect_forgets\<close>). For
  qBittorrent: an expired session recovers (\<open>session_recovers\<close>), a call sends at most a login and one repetition
  (\<open>api_call_requests\<close>). For the log: it stays bounded (\<open>log_bounded\<close>), a rotation loses only the oldest generation
  (\<open>rotate_shifts\<close>). Time stamps spell the date (\<open>stamp_spells_date\<close>). For the list: a sync mirrors the
  fetched list and is idempotent (\<open>sync_list_mirrors\<close>, \<open>sync_again_unchanged\<close>), the paging loops return the
  beginning of what is served (lemma \<open>paged_lists_complete\<close>), franchises are the connected classes
  (\<open>build_chains_franchises\<close>), a claimed show is claimed once (\<open>claim_is_exclusive\<close>), a fetch leaves the row its
  outcome names (\<open>fetch_show_metadata_settles\<close>). A group of theorems states where the code does not do what
  it means to: a question that does not park its job, a recovery that stops, a
  second filing that empties both files, a library moved into itself, a rename that is never noticed, a
  public list that is new at every sync, a login that a stray request panics, a synopsis lost to a failed refresh, seasons that depend on a hash order.

  \<^bold>\<open>Parameters.\<close> What the crate does not define is an argument: the regular expression
  engine (record \<open>matcher\<close>, one entry for each pattern of the source), the number
  formats, URL parsing, the XML reader's tokens (record \<open>xml_reader\<close>), the refusals of the
  file system (\<open>disk\<close>), free space and devices (record \<open>place\<close>), image conversion and icons
  (record \<open>studio\<close>), the decoded answers of Jikan and MyAnimeList (record
  \<open>metadata_services\<close>, the pages and details of the synchronisations) and the iteration order of hash sets
  (\<open>hashing\<close>), the keyring (record \<open>keyring\<close>), the process environment, the random draws and the replies of the
  token endpoint (record \<open>mal_services\<close>), the transport of the WebUI client (record \<open>web\<close>; \<open>gate_web\<close> is the gate),
  the process table and the port behind it (record \<open>host\<close>), how much of a write the system takes, and the record \<open>env\<close> with the answers of Nyaa, qBittorrent, the disk, the
  metadata refresh and the library step (for the last two: their effect on the
  store, of which only the tables they write are taken). The gate takes for
  every attempt the reply, the waits, the jitter and what other callers do to the
  breaker meanwhile (record \<open>attempt_env\<close>). No property assumes anything of these, except
  \<open>session_recovers\<close>: its hypotheses \<open>refuses_strangers\<close>, \<open>answers_sessions\<close> and \<open>grants_login\<close> are the documented
  behaviour of the WebUI, and the theorems on the log, which are about a disk that refuses nothing.

  \<^bold>\<open>Bounds and fuel.\<close> \<open>run_until_idle\<close> has the 128 turns of the source. \<open>acquire\<close> has
  fuel for its endless loop; two turns are enough without jitter (\<open>acquire_returns\<close>). The retry loop of the
  gate ends by the measure of attempts left. \<open>move_dir\<close> has fuel and gives \<open>None\<close> without enough of it: its
  theorems hold for every amount. Everything else is structural or has a measure.

  \<^bold>\<open>Not modelled.\<close> SQLite itself, migrations and timers; installing the log subscriber; permissions and symbolic links of the file
  system; list files; Unicode full-width folding in \<open>normalize\<close>; the arguments, the JSON output and the commands of the
  command line, which call the operations above; the Flutter application. Jobs of one tick run one after the
  other in the model; the source spawns them, and their writes to the store are
  transactions of their own.
\<close>

section \<open>Properties of the whole core\<close>

text \<open>
  C1: one run of the worker on one job obeys the table of moves. From a store whose
  jobs are in order, \<open>step\<close> (whatever the network, qBittorrent, the disk and the
  library step answer, and whether or not it ends in an error) leaves a store whose
  jobs are in order; every job still there has its old state, except the job it ran
  on, which made at most one move that the table lists; and every job it created
  has a new id and is in \<open>Search\<close>.
\<close>

theorem step_one_move:
  assumes "jobs_counted w" "the_job k (snd (step ev i w)) = Some j'"
  shows "jobs_counted (snd (step ev i w)) \<and>
    (case the_job k w of
       Some j \<Rightarrow> job_state j' = job_state j \<or> (k = i \<and> is_allowed (job_state j) (job_state j'))
     | None \<Rightarrow> w_seq_jobs w < k \<and> job_state j' = Search)"
proof -
  have m: "one_move i w (snd (step ev i w))" by (rule evolvesD) (rule step_moves)
  then have ok: "jobs_counted (snd (step ev i w))"
    using assms(1) by (simp add: one_move_def moves_by_def)
  show ?thesis
  proof (cases "the_job k w")
    case (Some j)
    then show ?thesis using moves_by_job [OF m [unfolded one_move_def] assms(1) Some assms(2)] ok by simp
  next
    case None
    from m assms have "if k \<le> w_seq_jobs w then \<exists>j. the_job k w = Some j
        else job_state j' = Search \<or> (k = i \<and> is_allowed Search (job_state j'))"
      unfolding one_move_def moves_by_def by (auto split: if_splits)
    with None have "w_seq_jobs w < k" "job_state j' = Search \<or> k = i" by (auto split: if_splits)
    moreover have "k \<noteq> i" using None assms(2) by (auto simp: step_def)
    ultimately show ?thesis using None ok by simp
  qed
qed

theorem step_one_move_witness:
  "case the_job 3 (snd (step sample_env 3 (sample_store [sample_job 3 KAdd Add]))) of
     Some j' \<Rightarrow> job_state j' \<in> {Add, Monitor, Choose, Blocked, Failed} | None \<Rightarrow> False"
proof -
  let ?w = "sample_store [sample_job 3 KAdd Add]"
  have ok: "jobs_counted ?w"
    by (simp add: jobs_counted_def sample_defs job_ok_def is_active_def)
  have "blocking_reason sample_env (w_settings ?w) = None"
    by (simp add: blocking_reason_def sample_env_def sample_defs Settings_default_def disk_floor_def
        saturating_mul_def u64_MAX_def GIB_def)
  then have "snd (step sample_env 3 ?w) =
      after_transition 3 Choose ''no chosen candidate; choosing again'' MoveOptions_default (sample_job 3 KAdd Add) ?w"
    by (simp add: step_def run_state_def add_step_def seq_def context_of_def transition_eq can_move_def
        is_allowed_eval chosen_torrent_def sample_env_def sample_defs)
  moreover have "the_job 3 ?w = Some (sample_job 3 KAdd Add)" by (simp add: sample_defs)
  ultimately have "\<exists>j'. the_job 3 (snd (step sample_env 3 ?w)) = Some j'"
    by (simp add: after_transition_job)
  then obtain j' where "the_job 3 (snd (step sample_env 3 ?w)) = Some j'" by blast
  from step_one_move [OF ok this] this show ?thesis
    by (auto simp: sample_defs is_allowed_eval)
qed

text \<open>
  C2: in every run of the core from the empty store, and from any store that such a
  run reaches: the ids of the jobs are unique and their rows consistent, each job
  goes from state to state along the table only, and a job that is \<open>Done\<close> stays
  \<open>Done\<close>. The run may use every operation of the core in any order, with any replies
  from outside, and calls that return errors.
\<close>

theorem runs_follow_the_table:
  assumes "system_run (empty_world t) w" "system_run w w'"
  shows "jobs_counted w \<and> jobs_counted w' \<and>
    (\<forall>k. case (the_job k w, the_job k w') of
       (Some j, Some j') \<Rightarrow> job_path (job_state j) (job_state j') \<and> (job_state j = Done) \<le> (job_state j' = Done)
     | (None, Some j') \<Rightarrow> w_seq_jobs w < k
     | _ \<Rightarrow> True)"
proof -
  have ok: "jobs_counted w" using assms(1) by (rule reachable_counted)
  have e: "jobs_evolve w w'" by (rule system_run_evolves) (rule assms(2))
  then have ok': "jobs_counted w'" using ok by (simp add: jobs_evolve_def moves_by_def)
  have "job_path (job_state j) (job_state j') \<and> (job_state j = Done \<longrightarrow> job_state j' = Done)"
    if "the_job k w = Some j" "the_job k w' = Some j'" for k j j'
    using moves_by_job [OF e [unfolded jobs_evolve_def] ok that] job_path_from_Done by blast
  moreover have "w_seq_jobs w < k" if "the_job k w = None" "the_job k w' = Some j'" for k j'
    using e ok that unfolding jobs_evolve_def moves_by_def
    by (metis linorder_not_less option.distinct(1))
  ultimately show ?thesis using ok ok' by (auto split: option.split)
qed

definition sample_entry :: list_entry where
  "sample_entry = single_entry sample_show"

theorem runs_follow_the_table_witness:
  "jobs_counted (snd (confirm no_match (\<lambda>_. ''1'') [sample_entry]
     (snd (plan no_match (\<lambda>_. ''1'') [sample_entry] True (empty_world 0)))))"
proof -
  have "system_run (empty_world 0) (snd (plan no_match (\<lambda>_. ''1'') [sample_entry] True (empty_world 0)))"
    by (rule system_run.continue [OF system_run.start]) (rule system_step.planned)
  moreover have "system_run (snd (plan no_match (\<lambda>_. ''1'') [sample_entry] True (empty_world 0)))
      (snd (confirm no_match (\<lambda>_. ''1'') [sample_entry]
        (snd (plan no_match (\<lambda>_. ''1'') [sample_entry] True (empty_world 0)))))"
    by (rule system_run.continue [OF system_run.start]) (rule system_step.confirmed)
  ultimately show ?thesis using runs_follow_the_table by blast
qed

text \<open>
  C9: a blocked job is never lost. In every store whose jobs are in
  order (every reachable one is), the scheduler's \<open>resume_one\<close> puts a blocked job whose reason has cleared back into the very main
  state that it was blocked in, with that state's kind, no error, no waiting time
  and nothing left to remember: the next tick hands it out again.
\<close>

theorem blocked_jobs_resume:
  assumes "jobs_counted w" "the_job i w = Some j" "job_state j = Blocked"
    and "has_cleared ev st j w"
  shows "\<exists>s w' j'. job_blocked_from j = Some s \<and> is_active s \<and>
    resume_one ev st j w = (Inr (Some (i, s)), w') \<and> the_job i w' = Some j' \<and>
    job_state j' = s \<and> job_kind j' = kind_of_state s \<and> job_blocked_from j' = None \<and>
    job_last_error j' = None \<and> job_attempts j' = job_attempts j \<and> is_due now [kind_of_state s] j'"
proof -
  have mem: "j \<in> set (w_jobs w)" and i: "job_id j = i" using assms(2) by (auto dest: find_row_Some_iff_in)
  then have "job_ok j" using assms(1) by (simp add: jobs_counted_def)
  with assms(3) obtain s where s: "job_blocked_from j = Some s" "is_active s"
    by (auto simp: job_ok_def)
  let ?r = "''resumed after: '' @ text_or_empty (job_last_error j)"
  have "can_move Blocked s" using s(2) by (auto simp: can_move_def is_allowed_eval is_active_def)
  then have "transition i s ?r MoveOptions_default w =
      (Inr Blocked, after_transition i s ?r MoveOptions_default j w)"
    using assms(2,3) by (simp add: transition_eq)
  then have "resume_one ev st j w = (Inr (Some (i, s)), after_transition i s ?r MoveOptions_default j w)"
    using s i assms(4) by (simp add: resume_one_def seq_def)
  moreover have "the_job i (after_transition i s ?r MoveOptions_default j w) =
      Some (moved_job (w_now w) s ?r MoveOptions_default j)"
    by (simp add: after_transition_job [OF assms(2)])
  moreover have "s \<noteq> Blocked" "s \<noteq> Failed" "s \<notin> {NeedsInput, Done}" using s(2) by (auto simp: is_active_def)
  ultimately show ?thesis
    using s assms(3) by (auto simp: MoveOptions_default_def kind_for_active is_due_def)
qed

theorem blocked_jobs_resume_witness:
  "\<exists>w'. resume_one sample_env Settings_default
      ((sample_job 3 KAdd Blocked)\<lparr>job_blocked_from := Some Add, job_next_run_at := Some 5\<rparr>)
      (sample_store [(sample_job 3 KAdd Blocked)\<lparr>job_blocked_from := Some Add, job_next_run_at := Some 5\<rparr>])
    = (Inr (Some (3, Add)), w')"
proof -
  let ?j = "(sample_job 3 KAdd Blocked)\<lparr>job_blocked_from := Some Add, job_next_run_at := Some 5\<rparr>"
  have "jobs_counted (sample_store [?j])"
    by (simp add: jobs_counted_def sample_defs job_ok_def is_active_def kind_of_state_def)
  moreover have "the_job 3 (sample_store [?j]) = Some ?j" "job_state ?j = Blocked"
    by (simp_all add: sample_defs)
  moreover have "has_cleared sample_env Settings_default ?j (sample_store [?j])"
    by (simp add: has_cleared_def sample_defs text_or_empty_def starts_with_def)
  ultimately have "\<exists>s w'. job_blocked_from ?j = Some s \<and>
      resume_one sample_env Settings_default ?j (sample_store [?j]) = (Inr (Some (3, s)), w')"
    using blocked_jobs_resume by blast
  then show ?thesis by simp
qed

end
